(* ===== verification/Prelude.thy ===== *)
theory Prelude
  imports Main "HOL-Library.Word"
begin

section \<open>Shared types, outcomes and hint collections\<close>

text \<open>
  The vocabulary every other theory uses. Machine integers keep their width: the Rust types
  u8, u16, u32 and u64 are words. An i64 is an int together with the functions below, which
  write out what the Rust operations do at the ends of the 64-bit range. A usize (an address,
  an index, a length) is a nat; as_usize is the cast from i64, which reduces modulo 2 to the 64.

  A Rust function returning a Result is modelled by the type outcome: Ok for Ok, Err for an
  Err(VmError), Panic for a failed assert, expect or checked index, and Diverge for a loop that
  has used up the fuel the model gives it.
\<close>

unbundle bit_operations_syntax

type_synonym u8 = "8 word"
type_synonym u16 = "16 word"
type_synonym u32 = "32 word"
type_synonym u64 = "64 word"

named_theorems vm_simps \<open>rewrite rules that push an accessor through an update of the machine\<close>
named_theorems treaty_simps \<open>evaluation rules of the packed words\<close>

subsection \<open>i64 and usize arithmetic\<close>

definition in_i64 :: "int \<Rightarrow> bool" where
  "in_i64 n \<longleftrightarrow> - (2 ^ 63) \<le> n \<and> n < 2 ^ 63"

definition checked_i64 :: "int \<Rightarrow> int option" where
  "checked_i64 n = (if in_i64 n then Some n else None)"

definition as_usize :: "int \<Rightarrow> nat" where
  "as_usize n = nat (n mod 2 ^ 64)"

lemma as_usize_nonneg [simp]: "0 \<le> n \<Longrightarrow> n < 2 ^ 64 \<Longrightarrow> as_usize n = nat n"
  by (simp add: as_usize_def)

lemma checked_i64_Some [simp]: "checked_i64 n = Some m \<longleftrightarrow> in_i64 n \<and> m = n"
  by (auto simp: checked_i64_def)

text \<open>Rust's integer division and remainder truncate towards zero.\<close>

definition i64_div :: "int \<Rightarrow> int \<Rightarrow> int" where
  "i64_div a b = sgn a * sgn b * (\<bar>a\<bar> div \<bar>b\<bar>)"

definition i64_rem :: "int \<Rightarrow> int \<Rightarrow> int" where
  "i64_rem a b = a - i64_div a b * b"

subsection \<open>Outcomes of fallible operations\<close>

datatype vm_error = OutOfMemory | StackOverflow | Fatal string

datatype 'a outcome = Ok 'a | Err vm_error | Panic | Diverge

primrec rbind :: "'a outcome \<Rightarrow> ('a \<Rightarrow> 'b outcome) \<Rightarrow> 'b outcome" where
  "rbind (Ok x) f = f x"
| "rbind (Err e) f = Err e"
| "rbind Panic f = Panic"
| "rbind Diverge f = Diverge"

lemma rbind_eq_Ok: "rbind m f = Ok y \<longleftrightarrow> (\<exists>x. m = Ok x \<and> f x = Ok y)"
  by (cases m) auto

lemma rbind_OkE [elim!]:
  assumes "rbind m f = Ok y"
  obtains x where "m = Ok x" and "f x = Ok y"
  using assms by (auto simp: rbind_eq_Ok)

lemma rbind_cong [fundef_cong]:
  "m = m' \<Longrightarrow> (\<And>x. m' = Ok x \<Longrightarrow> f x = f' x) \<Longrightarrow> rbind m f = rbind m' f'"
  by (cases m') auto

lemma rbind_assoc: "rbind (rbind m f) g = rbind m (\<lambda>x. rbind (f x) g)"
  by (cases m) simp_all

primrec of_opt :: "'b outcome \<Rightarrow> 'a option \<Rightarrow> ('a \<Rightarrow> 'b outcome) \<Rightarrow> 'b outcome" where
  "of_opt d None f = d"
| "of_opt d (Some x) f = f x"

subsection \<open>Decimal numerals\<close>

fun show_nat :: "nat \<Rightarrow> string" where
  "show_nat n =
     (if n < 10 then [char_of (48 + n)] else show_nat (n div 10) @ [char_of (48 + n mod 10)])"

declare show_nat.simps [simp del]

subsection \<open>First-in first-out queues\<close>

text \<open>
  The contract of a queue in a state: holds s xs says that the queue is xs in state s, and may s x
  that x may be entered. The process queues and the input events of the window host provide it.
\<close>

fun drain :: "('s \<Rightarrow> ('a \<times> 's) option) \<Rightarrow> nat \<Rightarrow> 's \<Rightarrow> 'a list \<times> 's" where
  "drain deq 0 s = ([], s)"
| "drain deq (Suc n) s =
     (case deq s of None \<Rightarrow> ([], s) | Some (x, s') \<Rightarrow> (let (xs, t) = drain deq n s' in (x # xs, t)))"

locale fifo =
  fixes holds :: "'s \<Rightarrow> 'a list \<Rightarrow> bool" and may :: "'s \<Rightarrow> 'a \<Rightarrow> bool"
    and enq :: "'s \<Rightarrow> 'a \<Rightarrow> 's" and deq :: "'s \<Rightarrow> ('a \<times> 's) option"
  assumes enq: "holds s xs \<Longrightarrow> may s x \<Longrightarrow> holds (enq s x) (xs @ [x])"
    and may_enq: "holds s xs \<Longrightarrow> may s x \<Longrightarrow> may s y \<Longrightarrow> x \<noteq> y \<Longrightarrow> may (enq s x) y"
    and deq_empty: "holds s [] \<Longrightarrow> deq s = None"
    and deq_first: "holds s (x # xs) \<Longrightarrow> \<exists>s'. deq s = Some (x, s') \<and> holds s' xs"
begin

lemma drain: "holds s xs \<Longrightarrow> fst (drain deq n s) = take n xs \<and> holds (snd (drain deq n s)) (drop n xs)"
proof (induction n arbitrary: s xs)
  case (Suc n)
  show ?case
  proof (cases xs)
    case Nil
    then show ?thesis using deq_empty Suc.prems by simp
  next
    case (Cons x ys)
    then obtain s' where "deq s = Some (x, s')" "holds s' ys" using deq_first Suc.prems by blast
    with Suc.IH [of s' ys] Cons show ?thesis by (auto split: prod.splits)
  qed
qed simp

lemma enq_all:
  "holds s xs \<Longrightarrow> distinct ys \<Longrightarrow> \<forall>y \<in> set ys. may s y \<Longrightarrow> holds (foldl enq s ys) (xs @ ys)"
proof (induction ys arbitrary: s xs)
  case (Cons y ys)
  have "holds (enq s y) (xs @ [y])" using Cons.prems enq by simp
  moreover have "\<forall>z \<in> set ys. may (enq s y) z"
  proof
    fix z assume "z \<in> set ys"
    then show "may (enq s y) z" using Cons.prems by (intro may_enq [of s xs]) auto
  qed
  ultimately
  show ?case using Cons.IH [of "enq s y" "xs @ [y]"] Cons.prems by simp
qed simp

lemma in_order:
  assumes "holds s xs" and "distinct ys" and "\<forall>y \<in> set ys. may s y"
  shows "fst (drain deq (length xs + length ys) (foldl enq s ys)) = xs @ ys"
  using drain [OF enq_all [OF assms]] by simp

end

subsection \<open>Lists\<close>

lemma list_all_nth_update:
  "list_all P xs \<Longrightarrow> P x \<Longrightarrow> list_all P (xs[i := x])"
  using set_update_subset_insert [of xs i x] by (auto simp: list_all_iff)

lemma nth_append_last [simp]: "(xs @ [x]) ! length xs = x"
  by (simp add: nth_append)

subsection \<open>Words\<close>

lemma unat_word_of_nat_64: "n < 2 ^ 64 \<Longrightarrow> unat (word_of_nat n :: u64) = n"
  by (simp add: unat_of_nat take_bit_nat_eq_self)

lemma word_of_nat_inj_64:
  "m < 2 ^ 64 \<Longrightarrow> n < 2 ^ 64 \<Longrightarrow> (word_of_nat m :: u64) = word_of_nat n \<longleftrightarrow> m = n"
  by (metis unat_word_of_nat_64)

lemma sint_word_of_int_64 [simp]:
  assumes "in_i64 n"
  shows "sint (word_of_int n :: u64) = n"
proof -
  have "sint (word_of_int n :: u64) = signed_take_bit 63 n"
    by (simp add: signed_of_int)
  also have "\<dots> = n"
    using assms by (simp add: in_i64_def signed_take_bit_int_eq_self)
  finally show ?thesis .
qed

lemma word_of_int_sint_64 [simp]: "word_of_int (sint (w :: u64)) = w"
  by simp

lemma sint_in_i64 [simp]: "in_i64 (sint (w :: u64))"
  using sint_ge [of w] sint_lt [of w] by (simp add: in_i64_def)

lemma bit_mask_64: "bit (mask n :: u64) i \<longleftrightarrow> i < n \<and> i < 64"
  by (auto simp: bit_simps)

end
