(* ===== verification/Treaty.thy ===== *)
theory Treaty
  imports Prelude
begin

section \<open>The Treaty: the binary contract between VM and compiler\<close>

text \<open>
  The constants of src/treaty.rs, each under its own name. A constant the code uses as a 64-bit
  word (tags, gc bits, formats, flags) is a u64, a class index is a u32, an opcode a u8, a
  primitive number a u16; the shift amounts and field widths (u32 in the source, only ever the
  right operand of a shift) and the usize slot indices are nat. They are abbreviations, so the
  simplifier sees the numerals.
\<close>

subsection \<open>Tags (A.1)\<close>

abbreviation (input) TAG_INT_BIT :: u64 where "TAG_INT_BIT \<equiv> 1"

abbreviation (input) TAG_PTR_MASK :: u64 where "TAG_PTR_MASK \<equiv> 7"

abbreviation (input) TAG_PTR :: u64 where "TAG_PTR \<equiv> 0"

abbreviation (input) TAG_FLOAT_IMM :: u64 where "TAG_FLOAT_IMM \<equiv> 2"

abbreviation (input) SMALLINT_BITS :: nat where "SMALLINT_BITS \<equiv> 63"

subsection \<open>Object header (A.1)\<close>

abbreviation (input) HDR_CLASS_SHIFT :: nat where "HDR_CLASS_SHIFT \<equiv> 42"

abbreviation (input) HDR_CLASS_BITS :: nat where "HDR_CLASS_BITS \<equiv> 22"

abbreviation (input) HDR_HASH_SHIFT :: nat where "HDR_HASH_SHIFT \<equiv> 20"

abbreviation (input) HDR_HASH_BITS :: nat where "HDR_HASH_BITS \<equiv> 22"

abbreviation (input) HDR_NSLOTS_SHIFT :: nat where "HDR_NSLOTS_SHIFT \<equiv> 12"

abbreviation (input) HDR_NSLOTS_BITS :: nat where "HDR_NSLOTS_BITS \<equiv> 8"

abbreviation (input) HDR_NSLOTS_OVERFLOW :: u64 where "HDR_NSLOTS_OVERFLOW \<equiv> 255"

abbreviation (input) HDR_FORMAT_SHIFT :: nat where "HDR_FORMAT_SHIFT \<equiv> 8"

abbreviation (input) HDR_FORMAT_BITS :: nat where "HDR_FORMAT_BITS \<equiv> 4"

abbreviation (input) HDR_GC_SHIFT :: nat where "HDR_GC_SHIFT \<equiv> 0"

abbreviation (input) HDR_GC_BITS :: nat where "HDR_GC_BITS \<equiv> 8"

abbreviation (input) GC_BIT_MARK :: u64 where "GC_BIT_MARK \<equiv> 1"

abbreviation (input) GC_BIT_REMEMBERED :: u64 where "GC_BIT_REMEMBERED \<equiv> 2"

abbreviation (input) GC_BIT_PINNED :: u64 where "GC_BIT_PINNED \<equiv> 4"

abbreviation (input) GC_AGE_SHIFT :: nat where "GC_AGE_SHIFT \<equiv> 3"

abbreviation (input) GC_AGE_BITS :: nat where "GC_AGE_BITS \<equiv> 3"

abbreviation (input) GC_BIT_IMMUTABLE :: u64 where "GC_BIT_IMMUTABLE \<equiv> 128"

subsection \<open>Formats (section 3)\<close>

abbreviation (input) FMT_FIXED :: u64 where "FMT_FIXED \<equiv> 0"

abbreviation (input) FMT_PTRS :: u64 where "FMT_PTRS \<equiv> 1"

abbreviation (input) FMT_BYTES_BASE :: u64 where "FMT_BYTES_BASE \<equiv> 8"

subsection \<open>Frame layout (A.1, section 7)\<close>

abbreviation (input) FRAME_CALLER :: nat where "FRAME_CALLER \<equiv> 0"

abbreviation (input) FRAME_RETINFO :: nat where "FRAME_RETINFO \<equiv> 1"

abbreviation (input) FRAME_METHOD :: nat where "FRAME_METHOD \<equiv> 2"

abbreviation (input) FRAME_FLAGS :: nat where "FRAME_FLAGS \<equiv> 3"

abbreviation (input) FRAME_RECEIVER :: nat where "FRAME_RECEIVER \<equiv> 4"

abbreviation (input) FRAME_FIXED :: nat where "FRAME_FIXED \<equiv> 5"

abbreviation (input) FLAG_HANDLER :: u64 where "FLAG_HANDLER \<equiv> 1"

abbreviation (input) FLAG_ENSURE :: u64 where "FLAG_ENSURE \<equiv> 2"

abbreviation (input) FLAG_BLOCKCTX :: u64 where "FLAG_BLOCKCTX \<equiv> 4"

abbreviation (input) FLAG_UNWINDCONT :: u64 where "FLAG_UNWINDCONT \<equiv> 8"

abbreviation (input) SERIAL_SHIFT :: nat where "SERIAL_SHIFT \<equiv> 32"

abbreviation (input) RETINFO_DEST_BITS :: nat where "RETINFO_DEST_BITS \<equiv> 8"

abbreviation (input) RETINFO_PC_SHIFT :: nat where "RETINFO_PC_SHIFT \<equiv> 8"

subsection \<open>Opcodes (A.2)\<close>

abbreviation (input) OP_NOP :: u8 where "OP_NOP \<equiv> 0"

abbreviation (input) OP_BREAK :: u8 where "OP_BREAK \<equiv> 1"

abbreviation (input) OP_MOVE :: u8 where "OP_MOVE \<equiv> 16"

abbreviation (input) OP_LOADK :: u8 where "OP_LOADK \<equiv> 17"

abbreviation (input) OP_LOADINT :: u8 where "OP_LOADINT \<equiv> 18"

abbreviation (input) OP_LOADNIL :: u8 where "OP_LOADNIL \<equiv> 19"

abbreviation (input) OP_LOADTRUE :: u8 where "OP_LOADTRUE \<equiv> 20"

abbreviation (input) OP_LOADFALSE :: u8 where "OP_LOADFALSE \<equiv> 21"

abbreviation (input) OP_LOADSELF :: u8 where "OP_LOADSELF \<equiv> 22"

abbreviation (input) OP_GETIVAR :: u8 where "OP_GETIVAR \<equiv> 23"

abbreviation (input) OP_SETIVAR :: u8 where "OP_SETIVAR \<equiv> 24"

abbreviation (input) OP_GETBOX :: u8 where "OP_GETBOX \<equiv> 25"

abbreviation (input) OP_SETBOX :: u8 where "OP_SETBOX \<equiv> 26"

abbreviation (input) OP_MKBOX :: u8 where "OP_MKBOX \<equiv> 27"

abbreviation (input) OP_SEND :: u8 where "OP_SEND \<equiv> 32"

abbreviation (input) OP_SENDSUPER :: u8 where "OP_SENDSUPER \<equiv> 33"

abbreviation (input) OP_RET :: u8 where "OP_RET \<equiv> 34"

abbreviation (input) OP_RETSELF :: u8 where "OP_RETSELF \<equiv> 35"

abbreviation (input) OP_NLR :: u8 where "OP_NLR \<equiv> 36"

abbreviation (input) OP_PRIM :: u8 where "OP_PRIM \<equiv> 37"

abbreviation (input) OP_MKCLOSURE :: u8 where "OP_MKCLOSURE \<equiv> 38"

abbreviation (input) OP_CAPTURE :: u8 where "OP_CAPTURE \<equiv> 39"

abbreviation (input) OP_JUMP :: u8 where "OP_JUMP \<equiv> 40"

abbreviation (input) OP_JUMPTRUE :: u8 where "OP_JUMPTRUE \<equiv> 41"

abbreviation (input) OP_JUMPFALSE :: u8 where "OP_JUMPFALSE \<equiv> 42"

abbreviation (input) OP_ADD :: u8 where "OP_ADD \<equiv> 48"

abbreviation (input) OP_SUB :: u8 where "OP_SUB \<equiv> 49"

abbreviation (input) OP_MUL :: u8 where "OP_MUL \<equiv> 50"

abbreviation (input) OP_DIV :: u8 where "OP_DIV \<equiv> 51"

abbreviation (input) OP_MOD :: u8 where "OP_MOD \<equiv> 52"

abbreviation (input) OP_LT :: u8 where "OP_LT \<equiv> 53"

abbreviation (input) OP_GT :: u8 where "OP_GT \<equiv> 54"

abbreviation (input) OP_LE :: u8 where "OP_LE \<equiv> 55"

abbreviation (input) OP_GE :: u8 where "OP_GE \<equiv> 56"

abbreviation (input) OP_EQNUM :: u8 where "OP_EQNUM \<equiv> 57"

abbreviation (input) OP_AT :: u8 where "OP_AT \<equiv> 64"

abbreviation (input) OP_ATPUT :: u8 where "OP_ATPUT \<equiv> 65"

abbreviation (input) OP_SIZE :: u8 where "OP_SIZE \<equiv> 66"

abbreviation (input) OP_CLASSOF :: u8 where "OP_CLASSOF \<equiv> 67"

abbreviation (input) OP_NOT :: u8 where "OP_NOT \<equiv> 68"

abbreviation (input) OP_IDEQ :: u8 where "OP_IDEQ \<equiv> 69"

subsection \<open>Treaty class indices (A.3)\<close>

abbreviation (input) CLASS_OBJECT :: u32 where "CLASS_OBJECT \<equiv> 1"

abbreviation (input) CLASS_BEHAVIOR :: u32 where "CLASS_BEHAVIOR \<equiv> 2"

abbreviation (input) CLASS_CLASS :: u32 where "CLASS_CLASS \<equiv> 3"

abbreviation (input) CLASS_METACLASS :: u32 where "CLASS_METACLASS \<equiv> 4"

abbreviation (input) CLASS_UNDEFINED_OBJECT :: u32 where "CLASS_UNDEFINED_OBJECT \<equiv> 5"

abbreviation (input) CLASS_TRUE :: u32 where "CLASS_TRUE \<equiv> 6"

abbreviation (input) CLASS_FALSE :: u32 where "CLASS_FALSE \<equiv> 7"

abbreviation (input) CLASS_SMALLINTEGER :: u32 where "CLASS_SMALLINTEGER \<equiv> 8"

abbreviation (input) CLASS_FLOAT :: u32 where "CLASS_FLOAT \<equiv> 9"

abbreviation (input) CLASS_CHARACTER :: u32 where "CLASS_CHARACTER \<equiv> 10"

abbreviation (input) CLASS_STRING :: u32 where "CLASS_STRING \<equiv> 11"

abbreviation (input) CLASS_BYTESTRING :: u32 where "CLASS_BYTESTRING \<equiv> 12"

abbreviation (input) CLASS_SYMBOL :: u32 where "CLASS_SYMBOL \<equiv> 13"

abbreviation (input) CLASS_LARGE_POSITIVE_INTEGER :: u32 where "CLASS_LARGE_POSITIVE_INTEGER \<equiv> 14"

abbreviation (input) CLASS_LARGE_NEGATIVE_INTEGER :: u32 where "CLASS_LARGE_NEGATIVE_INTEGER \<equiv> 15"

abbreviation (input) CLASS_ARRAY :: u32 where "CLASS_ARRAY \<equiv> 16"

abbreviation (input) CLASS_BYTEARRAY :: u32 where "CLASS_BYTEARRAY \<equiv> 17"

abbreviation (input) CLASS_ORDERED_COLLECTION :: u32 where "CLASS_ORDERED_COLLECTION \<equiv> 18"

abbreviation (input) CLASS_ASSOCIATION :: u32 where "CLASS_ASSOCIATION \<equiv> 19"

abbreviation (input) CLASS_BOX :: u32 where "CLASS_BOX \<equiv> 20"

abbreviation (input) CLASS_BLOCKCLOSURE :: u32 where "CLASS_BLOCKCLOSURE \<equiv> 21"

abbreviation (input) CLASS_COMPILEDMETHOD :: u32 where "CLASS_COMPILEDMETHOD \<equiv> 22"

abbreviation (input) CLASS_COMPILEDBLOCK :: u32 where "CLASS_COMPILEDBLOCK \<equiv> 23"

abbreviation (input) CLASS_PROCESS :: u32 where "CLASS_PROCESS \<equiv> 24"

abbreviation (input) CLASS_SEMAPHORE :: u32 where "CLASS_SEMAPHORE \<equiv> 25"

abbreviation (input) CLASS_METHODDICTIONARY :: u32 where "CLASS_METHODDICTIONARY \<equiv> 26"

abbreviation (input) CLASS_PROCESSOR_SCHEDULER :: u32 where "CLASS_PROCESSOR_SCHEDULER \<equiv> 27"

abbreviation (input) CLASS_MESSAGE :: u32 where "CLASS_MESSAGE \<equiv> 28"

abbreviation (input) CLASS_SYSTEM_DICTIONARY :: u32 where "CLASS_SYSTEM_DICTIONARY \<equiv> 29"

abbreviation (input) CLASS_STACK :: u32 where "CLASS_STACK \<equiv> 30"

abbreviation (input) CLASS_LINKED_LIST :: u32 where "CLASS_LINKED_LIST \<equiv> 31"

abbreviation (input) FIRST_UNRESERVED_CLASS_INDEX :: u32 where "FIRST_UNRESERVED_CLASS_INDEX \<equiv> 64"

subsection \<open>Stack object layout (section 7)\<close>

abbreviation (input) STACK_OWNER :: nat where "STACK_OWNER \<equiv> 0"

abbreviation (input) STACK_FRAMES_BASE :: nat where "STACK_FRAMES_BASE \<equiv> 1"

subsection \<open>MethodDictionary layout (section 4, section 14)\<close>

abbreviation (input) MDICT_KEYS :: nat where "MDICT_KEYS \<equiv> 0"

abbreviation (input) MDICT_VALUES :: nat where "MDICT_VALUES \<equiv> 1"

abbreviation (input) MDICT_NUM_VM_SLOTS :: nat where "MDICT_NUM_VM_SLOTS \<equiv> 2"

subsection \<open>Run-queue linked list (section 13)\<close>

abbreviation (input) LIST_HEAD :: nat where "LIST_HEAD \<equiv> 0"

abbreviation (input) LIST_TAIL :: nat where "LIST_TAIL \<equiv> 1"

abbreviation (input) LIST_NUM_VM_SLOTS :: nat where "LIST_NUM_VM_SLOTS \<equiv> 2"

subsection \<open>Handler / ensure reserved frame slots (section 11), relative to the method\<close>

abbreviation (input) HANDLER_SLOT_CLASS :: nat where "HANDLER_SLOT_CLASS \<equiv> 0"

abbreviation (input) HANDLER_SLOT_BLOCK :: nat where "HANDLER_SLOT_BLOCK \<equiv> 1"

abbreviation (input) HANDLER_SLOT_STATE :: nat where "HANDLER_SLOT_STATE \<equiv> 2"

abbreviation (input) HANDLER_STATE_ARMED :: int where "HANDLER_STATE_ARMED \<equiv> 1"

abbreviation (input) HANDLER_STATE_IN_PROGRESS :: int where "HANDLER_STATE_IN_PROGRESS \<equiv> 2"

abbreviation (input) ENSURE_SLOT_BLOCK :: nat where "ENSURE_SLOT_BLOCK \<equiv> 0"

abbreviation (input) ENSURE_SLOT_PENDING_TARGET :: nat where "ENSURE_SLOT_PENDING_TARGET \<equiv> 1"

abbreviation (input) ENSURE_SLOT_PENDING_SERIAL :: nat where "ENSURE_SLOT_PENDING_SERIAL \<equiv> 2"

abbreviation (input) ENSURE_SLOT_PENDING_VALUE :: nat where "ENSURE_SLOT_PENDING_VALUE \<equiv> 3"

subsection \<open>Indices into the specializedSelectors array (A.4 index 7)\<close>

abbreviation (input) SPECSEL_PLUS :: nat where "SPECSEL_PLUS \<equiv> 0"

abbreviation (input) SPECSEL_MINUS :: nat where "SPECSEL_MINUS \<equiv> 1"

abbreviation (input) SPECSEL_TIMES :: nat where "SPECSEL_TIMES \<equiv> 2"

abbreviation (input) SPECSEL_INT_DIV :: nat where "SPECSEL_INT_DIV \<equiv> 3"

abbreviation (input) SPECSEL_MOD :: nat where "SPECSEL_MOD \<equiv> 4"

abbreviation (input) SPECSEL_LT :: nat where "SPECSEL_LT \<equiv> 5"

abbreviation (input) SPECSEL_GT :: nat where "SPECSEL_GT \<equiv> 6"

abbreviation (input) SPECSEL_LE :: nat where "SPECSEL_LE \<equiv> 7"

abbreviation (input) SPECSEL_GE :: nat where "SPECSEL_GE \<equiv> 8"

abbreviation (input) SPECSEL_EQ :: nat where "SPECSEL_EQ \<equiv> 9"

abbreviation (input) SPECSEL_IDENTICAL :: nat where "SPECSEL_IDENTICAL \<equiv> 10"

abbreviation (input) SPECSEL_AT :: nat where "SPECSEL_AT \<equiv> 11"

abbreviation (input) SPECSEL_AT_PUT :: nat where "SPECSEL_AT_PUT \<equiv> 12"

abbreviation (input) SPECSEL_SIZE :: nat where "SPECSEL_SIZE \<equiv> 13"

abbreviation (input) SPECSEL_CLASS :: nat where "SPECSEL_CLASS \<equiv> 14"

abbreviation (input) SPECSEL_NOT :: nat where "SPECSEL_NOT \<equiv> 15"

abbreviation (input) SPECSEL_COUNT :: nat where "SPECSEL_COUNT \<equiv> 16"

subsection \<open>Behavior slots (section 4)\<close>

abbreviation (input) BEHAVIOR_SUPERCLASS :: nat where "BEHAVIOR_SUPERCLASS \<equiv> 0"

abbreviation (input) BEHAVIOR_METHOD_DICTIONARY :: nat where "BEHAVIOR_METHOD_DICTIONARY \<equiv> 1"

abbreviation (input) BEHAVIOR_FORMAT_AND_SLOTS :: nat where "BEHAVIOR_FORMAT_AND_SLOTS \<equiv> 2"

abbreviation (input) BEHAVIOR_CLASS_INDEX :: nat where "BEHAVIOR_CLASS_INDEX \<equiv> 3"

abbreviation (input) BEHAVIOR_NUM_VM_SLOTS :: nat where "BEHAVIOR_NUM_VM_SLOTS \<equiv> 4"

abbreviation (input) FORMAT_AND_SLOTS_FORMAT_SHIFT :: nat where "FORMAT_AND_SLOTS_FORMAT_SHIFT \<equiv> 16"

abbreviation (input) FORMAT_AND_SLOTS_NSLOTS_MASK :: u64 where "FORMAT_AND_SLOTS_NSLOTS_MASK \<equiv> 65535"

subsection \<open>Process slots (section 7)\<close>

abbreviation (input) PROCESS_STACK :: nat where "PROCESS_STACK \<equiv> 0"

abbreviation (input) PROCESS_FRAME_OFFSET :: nat where "PROCESS_FRAME_OFFSET \<equiv> 1"

abbreviation (input) PROCESS_PC :: nat where "PROCESS_PC \<equiv> 2"

abbreviation (input) PROCESS_PRIORITY :: nat where "PROCESS_PRIORITY \<equiv> 3"

abbreviation (input) PROCESS_NEXT_LINK :: nat where "PROCESS_NEXT_LINK \<equiv> 4"

abbreviation (input) PROCESS_MY_LIST :: nat where "PROCESS_MY_LIST \<equiv> 5"

abbreviation (input) PROCESS_SERIAL_COUNTER :: nat where "PROCESS_SERIAL_COUNTER \<equiv> 6"

abbreviation (input) PROCESS_NUM_VM_SLOTS :: nat where "PROCESS_NUM_VM_SLOTS \<equiv> 7"

subsection \<open>Semaphore slots (section 13)\<close>

abbreviation (input) SEMAPHORE_EXCESS_SIGNALS :: nat where "SEMAPHORE_EXCESS_SIGNALS \<equiv> 0"

abbreviation (input) SEMAPHORE_QUEUE_HEAD :: nat where "SEMAPHORE_QUEUE_HEAD \<equiv> 1"

abbreviation (input) SEMAPHORE_QUEUE_TAIL :: nat where "SEMAPHORE_QUEUE_TAIL \<equiv> 2"

abbreviation (input) SEMAPHORE_NUM_VM_SLOTS :: nat where "SEMAPHORE_NUM_VM_SLOTS \<equiv> 3"

subsection \<open>ProcessorScheduler slots (section 13)\<close>

abbreviation (input) SCHEDULER_QUEUES :: nat where "SCHEDULER_QUEUES \<equiv> 0"

abbreviation (input) SCHEDULER_ACTIVE_PROCESS :: nat where "SCHEDULER_ACTIVE_PROCESS \<equiv> 1"

abbreviation (input) SCHEDULER_NUM_VM_SLOTS :: nat where "SCHEDULER_NUM_VM_SLOTS \<equiv> 2"

abbreviation (input) NUM_PRIORITIES :: nat where "NUM_PRIORITIES \<equiv> 8"

subsection \<open>CompiledMethod / CompiledBlock slots (section 9)\<close>

abbreviation (input) METHOD_HEADER :: nat where "METHOD_HEADER \<equiv> 0"

abbreviation (input) METHOD_BYTECODES :: nat where "METHOD_BYTECODES \<equiv> 1"

abbreviation (input) METHOD_LITERALS :: nat where "METHOD_LITERALS \<equiv> 2"

abbreviation (input) METHOD_SEND_SITES :: nat where "METHOD_SEND_SITES \<equiv> 3"

abbreviation (input) METHOD_SELECTOR :: nat where "METHOD_SELECTOR \<equiv> 4"

abbreviation (input) METHOD_CLASS :: nat where "METHOD_CLASS \<equiv> 5"

abbreviation (input) METHOD_SOURCE_INFO :: nat where "METHOD_SOURCE_INFO \<equiv> 6"

abbreviation (input) METHOD_NUM_SLOTS :: nat where "METHOD_NUM_SLOTS \<equiv> 7"

abbreviation (input) BLOCK_HEADER :: nat where "BLOCK_HEADER \<equiv> 0"

abbreviation (input) BLOCK_BYTECODES :: nat where "BLOCK_BYTECODES \<equiv> 1"

abbreviation (input) BLOCK_LITERALS :: nat where "BLOCK_LITERALS \<equiv> 2"

abbreviation (input) BLOCK_SEND_SITES :: nat where "BLOCK_SEND_SITES \<equiv> 3"

abbreviation (input) BLOCK_OUTER_METHOD :: nat where "BLOCK_OUTER_METHOD \<equiv> 4"

abbreviation (input) BLOCK_INFO :: nat where "BLOCK_INFO \<equiv> 5"

abbreviation (input) BLOCK_NUM_SLOTS :: nat where "BLOCK_NUM_SLOTS \<equiv> 6"

subsection \<open>Method header packing (section 9)\<close>

abbreviation (input) MH_FRAME_SLOTS_SHIFT :: nat where "MH_FRAME_SLOTS_SHIFT \<equiv> 0"

abbreviation (input) MH_FRAME_SLOTS_BITS :: nat where "MH_FRAME_SLOTS_BITS \<equiv> 8"

abbreviation (input) MH_ARGC_SHIFT :: nat where "MH_ARGC_SHIFT \<equiv> 8"

abbreviation (input) MH_ARGC_BITS :: nat where "MH_ARGC_BITS \<equiv> 4"

abbreviation (input) MH_PRIMITIVE_SHIFT :: nat where "MH_PRIMITIVE_SHIFT \<equiv> 12"

abbreviation (input) MH_PRIMITIVE_BITS :: nat where "MH_PRIMITIVE_BITS \<equiv> 12"

abbreviation (input) MH_HAS_PRIMITIVE_SHIFT :: nat where "MH_HAS_PRIMITIVE_SHIFT \<equiv> 24"

abbreviation (input) MH_HANDLER_SLOT_BASE_SHIFT :: nat where "MH_HANDLER_SLOT_BASE_SHIFT \<equiv> 25"

abbreviation (input) MH_HANDLER_SLOT_BASE_BITS :: nat where "MH_HANDLER_SLOT_BASE_BITS \<equiv> 8"

abbreviation (input) MH_FLAGS_SHIFT :: nat where "MH_FLAGS_SHIFT \<equiv> 33"

abbreviation (input) MH_FLAG_IS_HANDLER :: u64 where "MH_FLAG_IS_HANDLER \<equiv> 1"

abbreviation (input) MH_FLAG_IS_ENSURE :: u64 where "MH_FLAG_IS_ENSURE \<equiv> 2"

subsection \<open>CompiledBlock blockInfo packing (section 9)\<close>

abbreviation (input) BI_NUM_CAPTURED_SHIFT :: nat where "BI_NUM_CAPTURED_SHIFT \<equiv> 0"

abbreviation (input) BI_NUM_CAPTURED_BITS :: nat where "BI_NUM_CAPTURED_BITS \<equiv> 8"

abbreviation (input) BI_HAS_NLR_SHIFT :: nat where "BI_HAS_NLR_SHIFT \<equiv> 8"

subsection \<open>BlockClosure slots (section 10)\<close>

abbreviation (input) CLOSURE_COMPILED_BLOCK :: nat where "CLOSURE_COMPILED_BLOCK \<equiv> 0"

abbreviation (input) CLOSURE_HOME_PROCESS :: nat where "CLOSURE_HOME_PROCESS \<equiv> 1"

abbreviation (input) CLOSURE_HOME_OFFSET :: nat where "CLOSURE_HOME_OFFSET \<equiv> 2"

abbreviation (input) CLOSURE_HOME_SERIAL :: nat where "CLOSURE_HOME_SERIAL \<equiv> 3"

abbreviation (input) CLOSURE_CAPTURED_BASE :: nat where "CLOSURE_CAPTURED_BASE \<equiv> 4"

subsection \<open>Send-site entry layout (section 8)\<close>

abbreviation (input) SITE_SELECTOR :: nat where "SITE_SELECTOR \<equiv> 0"

abbreviation (input) SITE_ARGC :: nat where "SITE_ARGC \<equiv> 1"

abbreviation (input) SITE_CACHE_CLASS :: nat where "SITE_CACHE_CLASS \<equiv> 2"

abbreviation (input) SITE_CACHE_METHOD :: nat where "SITE_CACHE_METHOD \<equiv> 3"

abbreviation (input) SITE_STATIC_CLASS :: nat where "SITE_STATIC_CLASS \<equiv> 4"

abbreviation (input) SITE_STRIDE :: nat where "SITE_STRIDE \<equiv> 5"

subsection \<open>Special objects array (A.4)\<close>

abbreviation (input) SPECIAL_NIL :: nat where "SPECIAL_NIL \<equiv> 0"

abbreviation (input) SPECIAL_TRUE :: nat where "SPECIAL_TRUE \<equiv> 1"

abbreviation (input) SPECIAL_FALSE :: nat where "SPECIAL_FALSE \<equiv> 2"

abbreviation (input) SPECIAL_SMALLTALK :: nat where "SPECIAL_SMALLTALK \<equiv> 3"

abbreviation (input) SPECIAL_PROCESSOR :: nat where "SPECIAL_PROCESSOR \<equiv> 4"

abbreviation (input) SPECIAL_CLASS_LIST :: nat where "SPECIAL_CLASS_LIST \<equiv> 5"

abbreviation (input) SPECIAL_SYMBOL_TABLE :: nat where "SPECIAL_SYMBOL_TABLE \<equiv> 6"

abbreviation (input) SPECIAL_SPECIALIZED_SELECTORS :: nat where "SPECIAL_SPECIALIZED_SELECTORS \<equiv> 7"

abbreviation (input) SPECIAL_SEL_DOES_NOT_UNDERSTAND :: nat where "SPECIAL_SEL_DOES_NOT_UNDERSTAND \<equiv> 8"

abbreviation (input) SPECIAL_SEL_MUST_BE_BOOLEAN :: nat where "SPECIAL_SEL_MUST_BE_BOOLEAN \<equiv> 9"

abbreviation (input) SPECIAL_TERMINATE_TRAMPOLINE :: nat where "SPECIAL_TERMINATE_TRAMPOLINE \<equiv> 10"

abbreviation (input) SPECIAL_LOW_SPACE_SEMAPHORE :: nat where "SPECIAL_LOW_SPACE_SEMAPHORE \<equiv> 11"

abbreviation (input) SPECIAL_TIMER_SEMAPHORE :: nat where "SPECIAL_TIMER_SEMAPHORE \<equiv> 12"

abbreviation (input) SPECIAL_OBJECTS_COUNT :: nat where "SPECIAL_OBJECTS_COUNT \<equiv> 13"

subsection \<open>Primitive numbers (A.3)\<close>

abbreviation (input) PRIM_CLASS :: u16 where "PRIM_CLASS \<equiv> 1"

abbreviation (input) PRIM_IDENTITY_HASH :: u16 where "PRIM_IDENTITY_HASH \<equiv> 2"

abbreviation (input) PRIM_IDENTICAL :: u16 where "PRIM_IDENTICAL \<equiv> 3"

abbreviation (input) PRIM_NEW :: u16 where "PRIM_NEW \<equiv> 4"

abbreviation (input) PRIM_NEW_SIZED :: u16 where "PRIM_NEW_SIZED \<equiv> 5"

abbreviation (input) PRIM_AT :: u16 where "PRIM_AT \<equiv> 6"

abbreviation (input) PRIM_AT_PUT :: u16 where "PRIM_AT_PUT \<equiv> 7"

abbreviation (input) PRIM_SIZE :: u16 where "PRIM_SIZE \<equiv> 8"

abbreviation (input) PRIM_INST_VAR_AT :: u16 where "PRIM_INST_VAR_AT \<equiv> 9"

abbreviation (input) PRIM_INST_VAR_AT_PUT :: u16 where "PRIM_INST_VAR_AT_PUT \<equiv> 10"

abbreviation (input) PRIM_PERFORM_WITH_ARGS :: u16 where "PRIM_PERFORM_WITH_ARGS \<equiv> 11"

abbreviation (input) PRIM_INT_ADD :: u16 where "PRIM_INT_ADD \<equiv> 100"

abbreviation (input) PRIM_INT_SUB :: u16 where "PRIM_INT_SUB \<equiv> 101"

abbreviation (input) PRIM_INT_MUL :: u16 where "PRIM_INT_MUL \<equiv> 102"

abbreviation (input) PRIM_INT_DIV :: u16 where "PRIM_INT_DIV \<equiv> 103"

abbreviation (input) PRIM_INT_MOD :: u16 where "PRIM_INT_MOD \<equiv> 104"

abbreviation (input) PRIM_INT_QUO :: u16 where "PRIM_INT_QUO \<equiv> 105"

abbreviation (input) PRIM_INT_LT :: u16 where "PRIM_INT_LT \<equiv> 106"

abbreviation (input) PRIM_INT_GT :: u16 where "PRIM_INT_GT \<equiv> 107"

abbreviation (input) PRIM_INT_LE :: u16 where "PRIM_INT_LE \<equiv> 108"

abbreviation (input) PRIM_INT_GE :: u16 where "PRIM_INT_GE \<equiv> 109"

abbreviation (input) PRIM_INT_EQ :: u16 where "PRIM_INT_EQ \<equiv> 110"

abbreviation (input) PRIM_INT_BIT_AND :: u16 where "PRIM_INT_BIT_AND \<equiv> 111"

abbreviation (input) PRIM_INT_BIT_OR :: u16 where "PRIM_INT_BIT_OR \<equiv> 112"

abbreviation (input) PRIM_INT_BIT_XOR :: u16 where "PRIM_INT_BIT_XOR \<equiv> 113"

abbreviation (input) PRIM_INT_BIT_SHIFT :: u16 where "PRIM_INT_BIT_SHIFT \<equiv> 114"

abbreviation (input) PRIM_INT_AS_FLOAT :: u16 where "PRIM_INT_AS_FLOAT \<equiv> 115"

abbreviation (input) PRIM_FLOAT_ADD :: u16 where "PRIM_FLOAT_ADD \<equiv> 130"

abbreviation (input) PRIM_FLOAT_SUB :: u16 where "PRIM_FLOAT_SUB \<equiv> 131"

abbreviation (input) PRIM_FLOAT_MUL :: u16 where "PRIM_FLOAT_MUL \<equiv> 132"

abbreviation (input) PRIM_FLOAT_DIV :: u16 where "PRIM_FLOAT_DIV \<equiv> 133"

abbreviation (input) PRIM_FLOAT_LT :: u16 where "PRIM_FLOAT_LT \<equiv> 134"

abbreviation (input) PRIM_FLOAT_GT :: u16 where "PRIM_FLOAT_GT \<equiv> 135"

abbreviation (input) PRIM_FLOAT_LE :: u16 where "PRIM_FLOAT_LE \<equiv> 136"

abbreviation (input) PRIM_FLOAT_GE :: u16 where "PRIM_FLOAT_GE \<equiv> 137"

abbreviation (input) PRIM_FLOAT_EQ :: u16 where "PRIM_FLOAT_EQ \<equiv> 138"

abbreviation (input) PRIM_FLOAT_TRUNCATED :: u16 where "PRIM_FLOAT_TRUNCATED \<equiv> 139"

abbreviation (input) PRIM_FLOAT_SQRT :: u16 where "PRIM_FLOAT_SQRT \<equiv> 140"

abbreviation (input) PRIM_BLOCK_VALUE_0 :: u16 where "PRIM_BLOCK_VALUE_0 \<equiv> 200"

abbreviation (input) PRIM_BLOCK_VALUE_1 :: u16 where "PRIM_BLOCK_VALUE_1 \<equiv> 201"

abbreviation (input) PRIM_BLOCK_VALUE_2 :: u16 where "PRIM_BLOCK_VALUE_2 \<equiv> 202"

abbreviation (input) PRIM_BLOCK_VALUE_3 :: u16 where "PRIM_BLOCK_VALUE_3 \<equiv> 203"

abbreviation (input) PRIM_BLOCK_VALUE_4 :: u16 where "PRIM_BLOCK_VALUE_4 \<equiv> 204"

abbreviation (input) PRIM_BLOCK_VALUE_ARGS :: u16 where "PRIM_BLOCK_VALUE_ARGS \<equiv> 205"

abbreviation (input) PRIM_TRANSFER_TO :: u16 where "PRIM_TRANSFER_TO \<equiv> 210"

abbreviation (input) PRIM_SEMAPHORE_WAIT :: u16 where "PRIM_SEMAPHORE_WAIT \<equiv> 211"

abbreviation (input) PRIM_SEMAPHORE_SIGNAL :: u16 where "PRIM_SEMAPHORE_SIGNAL \<equiv> 212"

abbreviation (input) PRIM_YIELD :: u16 where "PRIM_YIELD \<equiv> 213"

abbreviation (input) PRIM_PROCESS_SUSPEND :: u16 where "PRIM_PROCESS_SUSPEND \<equiv> 214"

abbreviation (input) PRIM_PROCESS_RESUME :: u16 where "PRIM_PROCESS_RESUME \<equiv> 215"

abbreviation (input) PRIM_PROCESS_TERMINATE :: u16 where "PRIM_PROCESS_TERMINATE \<equiv> 216"

abbreviation (input) PRIM_FIND_HANDLER :: u16 where "PRIM_FIND_HANDLER \<equiv> 220"

abbreviation (input) PRIM_UNWIND_TO :: u16 where "PRIM_UNWIND_TO \<equiv> 221"

abbreviation (input) PRIM_HANDLER_INFO :: u16 where "PRIM_HANDLER_INFO \<equiv> 222"

abbreviation (input) PRIM_SET_HANDLER_STATE :: u16 where "PRIM_SET_HANDLER_STATE \<equiv> 223"

abbreviation (input) PRIM_SIGNAL_CONTEXT :: u16 where "PRIM_SIGNAL_CONTEXT \<equiv> 224"

abbreviation (input) PRIM_FILE_OPEN :: u16 where "PRIM_FILE_OPEN \<equiv> 300"

abbreviation (input) PRIM_FILE_CLOSE :: u16 where "PRIM_FILE_CLOSE \<equiv> 301"

abbreviation (input) PRIM_FILE_READ :: u16 where "PRIM_FILE_READ \<equiv> 302"

abbreviation (input) PRIM_FILE_WRITE :: u16 where "PRIM_FILE_WRITE \<equiv> 303"

abbreviation (input) PRIM_FILE_POSITION :: u16 where "PRIM_FILE_POSITION \<equiv> 304"

abbreviation (input) PRIM_FILE_SET_POSITION :: u16 where "PRIM_FILE_SET_POSITION \<equiv> 305"

abbreviation (input) PRIM_FILE_SIZE :: u16 where "PRIM_FILE_SIZE \<equiv> 306"

abbreviation (input) PRIM_FILE_DELETE :: u16 where "PRIM_FILE_DELETE \<equiv> 307"

abbreviation (input) PRIM_STDIO_WRITE :: u16 where "PRIM_STDIO_WRITE \<equiv> 310"

abbreviation (input) PRIM_STDIO_READ :: u16 where "PRIM_STDIO_READ \<equiv> 311"

abbreviation (input) PRIM_CLOCK_MONOTONIC_MS :: u16 where "PRIM_CLOCK_MONOTONIC_MS \<equiv> 320"

abbreviation (input) PRIM_CLOCK_WALL_MS :: u16 where "PRIM_CLOCK_WALL_MS \<equiv> 321"

abbreviation (input) PRIM_SIGNAL_AT_MS :: u16 where "PRIM_SIGNAL_AT_MS \<equiv> 322"

abbreviation (input) PRIM_CLOCK_MONOTONIC_NS :: u16 where "PRIM_CLOCK_MONOTONIC_NS \<equiv> 323"

abbreviation (input) PRIM_NEXT_EVENT :: u16 where "PRIM_NEXT_EVENT \<equiv> 330"

abbreviation (input) PRIM_PIXEL_BLIT :: u16 where "PRIM_PIXEL_BLIT \<equiv> 331"

abbreviation (input) PRIM_BITBLT :: u16 where "PRIM_BITBLT \<equiv> 332"

abbreviation (input) PRIM_SAVE_FORM :: u16 where "PRIM_SAVE_FORM \<equiv> 333"

abbreviation (input) PRIM_POST_EVENT :: u16 where "PRIM_POST_EVENT \<equiv> 334"

abbreviation (input) PRIM_SNAPSHOT :: u16 where "PRIM_SNAPSHOT \<equiv> 400"

abbreviation (input) PRIM_REGISTER_CLASS :: u16 where "PRIM_REGISTER_CLASS \<equiv> 401"

abbreviation (input) PRIM_METHOD_INSTALL :: u16 where "PRIM_METHOD_INSTALL \<equiv> 402"

abbreviation (input) PRIM_FLUSH_CACHES :: u16 where "PRIM_FLUSH_CACHES \<equiv> 403"

abbreviation (input) PRIM_FRAME_INFO :: u16 where "PRIM_FRAME_INFO \<equiv> 410"

abbreviation (input) PRIM_PROFILER_START :: u16 where "PRIM_PROFILER_START \<equiv> 420"

abbreviation (input) PRIM_PROFILER_STOP :: u16 where "PRIM_PROFILER_STOP \<equiv> 421"

abbreviation (input) PRIM_PROFILER_REPORT :: u16 where "PRIM_PROFILER_REPORT \<equiv> 422"

abbreviation (input) PRIM_PROFILER_TREE :: u16 where "PRIM_PROFILER_TREE \<equiv> 423"

abbreviation (input) PRIM_VM_COUNTERS :: u16 where "PRIM_VM_COUNTERS \<equiv> 424"

abbreviation (input) PRIM_VM_COUNTERS_RESET :: u16 where "PRIM_VM_COUNTERS_RESET \<equiv> 425"

abbreviation (input) PRIM_PROFILER_GATE :: u16 where "PRIM_PROFILER_GATE \<equiv> 426"

abbreviation (input) PRIM_TABLE_SIZE :: nat where "PRIM_TABLE_SIZE \<equiv> 4096"

abbreviation (input) IMG_MAGIC_OFFSET :: nat where "IMG_MAGIC_OFFSET \<equiv> 0"

abbreviation (input) IMG_VERSION_OFFSET :: nat where "IMG_VERSION_OFFSET \<equiv> 4"

abbreviation (input) IMG_FLAGS_OFFSET :: nat where "IMG_FLAGS_OFFSET \<equiv> 8"

abbreviation (input) IMG_SAVED_BASE_OFFSET :: nat where "IMG_SAVED_BASE_OFFSET \<equiv> 16"

abbreviation (input) IMG_OLD_SPACE_SIZE_OFFSET :: nat where "IMG_OLD_SPACE_SIZE_OFFSET \<equiv> 24"

abbreviation (input) IMG_SPECIAL_OBJECTS_OFFSET :: nat where "IMG_SPECIAL_OBJECTS_OFFSET \<equiv> 32"

abbreviation (input) IMG_CLASS_LIST_OFFSET :: nat where "IMG_CLASS_LIST_OFFSET \<equiv> 40"

abbreviation (input) IMG_ACTIVE_PROCESS_OFFSET :: nat where "IMG_ACTIVE_PROCESS_OFFSET \<equiv> 48"

abbreviation (input) IMG_RESERVED_OFFSET :: nat where "IMG_RESERVED_OFFSET \<equiv> 56"

abbreviation (input) IMG_HEADER_SIZE :: nat where "IMG_HEADER_SIZE \<equiv> 64"

abbreviation (input) IMG_MAGIC :: u32 where "IMG_MAGIC \<equiv> 1296651347"

abbreviation (input) MAX_FRAME_SLOTS :: nat where "MAX_FRAME_SLOTS \<equiv> 255"

abbreviation (input) MAX_METHOD_INSTRUCTIONS :: nat where "MAX_METHOD_INSTRUCTIONS \<equiv> 65536"

abbreviation (input) MAX_LITERALS :: nat where "MAX_LITERALS \<equiv> 65536"

abbreviation (input) MAX_SEND_SITES :: nat where "MAX_SEND_SITES \<equiv> 255"

abbreviation (input) LOOKUP_CACHE_SIZE :: nat where "LOOKUP_CACHE_SIZE \<equiv> 4096"

abbreviation (input) INITIAL_STACK_BYTES :: nat where "INITIAL_STACK_BYTES \<equiv> 4096"

abbreviation (input) DEFAULT_MAX_STACK_BYTES :: nat where "DEFAULT_MAX_STACK_BYTES \<equiv> 16777216"

abbreviation (input) YOUNG_SPACE_BYTES_DEFAULT :: nat where "YOUNG_SPACE_BYTES_DEFAULT \<equiv> 8388608"

abbreviation (input) LARGE_OBJECT_BYTES :: nat where "LARGE_OBJECT_BYTES \<equiv> 65536"

abbreviation (input) TENURE_AGE :: u64 where "TENURE_AGE \<equiv> 4"

end
