(* ===== verification/Bytecode.thy ===== *)
theory Bytecode
  imports Treaty
begin

section \<open>The instruction set\<close>

text \<open>
  src/asm.rs: the 32-bit register instructions, their encoding, decoding and printed form. A
  signed 16-bit immediate is the 16-bit word it is encoded as, read with sint. The lemmas show that
  decoding inverts encoding, which words decode at all, that the assembler and the disassembler are
  inverse to each other, and that the printed form determines the instruction.
\<close>

datatype insn =
    Nop
  | Break
  | Move u8 u8
  | LoadK u8 u16
  | LoadInt u8 u16
  | LoadNil u8
  | LoadTrue u8
  | LoadFalse u8
  | LoadSelf u8
  | GetIvar u8 u8
  | SetIvar u8 u8
  | GetBox u8 u8
  | SetBox u8 u8
  | MkBox u8 u8
  | Send u8 u8 u8
  | SendSuper u8 u8 u8
  | Ret u8
  | RetSelf
  | Nlr u8
  | Prim u16
  | MkClosure u8 u16
  | Capture u8 u8
  | Jump u16
  | JumpTrue u8 u16
  | JumpFalse u8 u16
  | Add u8 u8 u8
  | Sub u8 u8 u8
  | Mul u8 u8 u8
  | Div u8 u8 u8
  | Mod u8 u8 u8
  | Lt u8 u8 u8
  | Gt u8 u8 u8
  | Le u8 u8 u8
  | Ge u8 u8 u8
  | EqNum u8 u8 u8
  | At u8 u8 u8
  | AtPut u8 u8 u8
  | Size u8 u8
  | ClassOf u8 u8
  | Not_op u8 u8
  | IdEq u8 u8 u8

definition abc :: "u8 \<Rightarrow> u8 \<Rightarrow> u8 \<Rightarrow> u8 \<Rightarrow> u32" where
  "abc op a b c =
     ucast op OR push_bit 8 (ucast a) OR push_bit 16 (ucast b) OR push_bit 24 (ucast c)"

definition ad :: "u8 \<Rightarrow> u8 \<Rightarrow> u16 \<Rightarrow> u32" where
  "ad op a d = ucast op OR push_bit 8 (ucast a) OR push_bit 16 (ucast d)"

fun encode :: "insn \<Rightarrow> u32" where
  "encode Nop = abc OP_NOP 0 0 0"
| "encode Break = abc OP_BREAK 0 0 0"
| "encode (Move d a) = abc OP_MOVE d a 0"
| "encode (LoadK d k) = ad OP_LOADK d k"
| "encode (LoadInt d imm) = ad OP_LOADINT d imm"
| "encode (LoadNil d) = ad OP_LOADNIL d 0"
| "encode (LoadTrue d) = ad OP_LOADTRUE d 0"
| "encode (LoadFalse d) = ad OP_LOADFALSE d 0"
| "encode (LoadSelf d) = ad OP_LOADSELF d 0"
| "encode (GetIvar d i) = abc OP_GETIVAR d i 0"
| "encode (SetIvar i a) = abc OP_SETIVAR i a 0"
| "encode (GetBox d a) = abc OP_GETBOX d a 0"
| "encode (SetBox a b) = abc OP_SETBOX a b 0"
| "encode (MkBox d a) = abc OP_MKBOX d a 0"
| "encode (Send d r site) = abc OP_SEND d r site"
| "encode (SendSuper d r site) = abc OP_SENDSUPER d r site"
| "encode (Ret a) = ad OP_RET a 0"
| "encode RetSelf = ad OP_RETSELF 0 0"
| "encode (Nlr a) = ad OP_NLR a 0"
| "encode (Prim n) = ad OP_PRIM 0 n"
| "encode (MkClosure d b) = ad OP_MKCLOSURE d b"
| "encode (Capture c a) = abc OP_CAPTURE c a 0"
| "encode (Jump off) = ad OP_JUMP 0 off"
| "encode (JumpTrue a off) = ad OP_JUMPTRUE a off"
| "encode (JumpFalse a off) = ad OP_JUMPFALSE a off"
| "encode (Add d a b) = abc OP_ADD d a b"
| "encode (Sub d a b) = abc OP_SUB d a b"
| "encode (Mul d a b) = abc OP_MUL d a b"
| "encode (Div d a b) = abc OP_DIV d a b"
| "encode (Mod d a b) = abc OP_MOD d a b"
| "encode (Lt d a b) = abc OP_LT d a b"
| "encode (Gt d a b) = abc OP_GT d a b"
| "encode (Le d a b) = abc OP_LE d a b"
| "encode (Ge d a b) = abc OP_GE d a b"
| "encode (EqNum d a b) = abc OP_EQNUM d a b"
| "encode (At d a b) = abc OP_AT d a b"
| "encode (AtPut d a b) = abc OP_ATPUT d a b"
| "encode (Size d a) = abc OP_SIZE d a 0"
| "encode (ClassOf d a) = abc OP_CLASSOF d a 0"
| "encode (Not_op d a) = abc OP_NOT d a 0"
| "encode (IdEq d a b) = abc OP_IDEQ d a b"

definition decode :: "u32 \<Rightarrow> insn option" where
  "decode word =
     (let op = (ucast (word AND 255) :: u8);
          a = (ucast (drop_bit 8 word AND 255) :: u8);
          b = (ucast (drop_bit 16 word AND 255) :: u8);
          c = (ucast (drop_bit 24 word AND 255) :: u8);
          d16 = (ucast (drop_bit 16 word) :: u16)
      in if op = OP_NOP then Some Nop
         else if op = OP_BREAK then Some Break
         else if op = OP_MOVE then Some (Move a b)
         else if op = OP_LOADK then Some (LoadK a d16)
         else if op = OP_LOADINT then Some (LoadInt a d16)
         else if op = OP_LOADNIL then Some (LoadNil a)
         else if op = OP_LOADTRUE then Some (LoadTrue a)
         else if op = OP_LOADFALSE then Some (LoadFalse a)
         else if op = OP_LOADSELF then Some (LoadSelf a)
         else if op = OP_GETIVAR then Some (GetIvar a b)
         else if op = OP_SETIVAR then Some (SetIvar a b)
         else if op = OP_GETBOX then Some (GetBox a b)
         else if op = OP_SETBOX then Some (SetBox a b)
         else if op = OP_MKBOX then Some (MkBox a b)
         else if op = OP_SEND then Some (Send a b c)
         else if op = OP_SENDSUPER then Some (SendSuper a b c)
         else if op = OP_RET then Some (Ret a)
         else if op = OP_RETSELF then Some RetSelf
         else if op = OP_NLR then Some (Nlr a)
         else if op = OP_PRIM then Some (Prim d16)
         else if op = OP_MKCLOSURE then Some (MkClosure a d16)
         else if op = OP_CAPTURE then Some (Capture a b)
         else if op = OP_JUMP then Some (Jump d16)
         else if op = OP_JUMPTRUE then Some (JumpTrue a d16)
         else if op = OP_JUMPFALSE then Some (JumpFalse a d16)
         else if op = OP_ADD then Some (Add a b c)
         else if op = OP_SUB then Some (Sub a b c)
         else if op = OP_MUL then Some (Mul a b c)
         else if op = OP_DIV then Some (Div a b c)
         else if op = OP_MOD then Some (Mod a b c)
         else if op = OP_LT then Some (Lt a b c)
         else if op = OP_GT then Some (Gt a b c)
         else if op = OP_LE then Some (Le a b c)
         else if op = OP_GE then Some (Ge a b c)
         else if op = OP_EQNUM then Some (EqNum a b c)
         else if op = OP_AT then Some (At a b c)
         else if op = OP_ATPUT then Some (AtPut a b c)
         else if op = OP_SIZE then Some (Size a b)
         else if op = OP_CLASSOF then Some (ClassOf a b)
         else if op = OP_NOT then Some (Not_op a b)
         else if op = OP_IDEQ then Some (IdEq a b c)
         else None)"

subsection \<open>Assembler and disassembler\<close>

definition assemble :: "insn list \<Rightarrow> u32 list" where
  "assemble insns = map encode insns"

text \<open>disassemble panics at the first word that does not decode.\<close>

fun disassemble :: "u32 list \<Rightarrow> insn list outcome" where
  "disassemble [] = Ok []"
| "disassemble (w # ws) =
     (case decode w of None \<Rightarrow> Panic
      | Some i \<Rightarrow> rbind (disassemble ws) (\<lambda>is. Ok (i # is)))"

subsection \<open>Printed form\<close>

definition show_int :: "int \<Rightarrow> string" where
  "show_int n = (if n < 0 then ''-'' @ show_nat (nat (- n)) else show_nat (nat n))"

fun insn_text :: "insn \<Rightarrow> string" where
  "insn_text Nop = ''NOP''"
| "insn_text Break = ''BREAK''"
| "insn_text (Move d a) = ''MOVE '' @ show_nat (unat d) @ '', '' @ show_nat (unat a)"
| "insn_text (LoadK d k) = ''LOADK '' @ show_nat (unat d) @ '', '' @ show_nat (unat k)"
| "insn_text (LoadInt d imm) = ''LOADINT '' @ show_nat (unat d) @ '', '' @ show_int (sint imm)"
| "insn_text (LoadNil d) = ''LOADNIL '' @ show_nat (unat d)"
| "insn_text (LoadTrue d) = ''LOADTRUE '' @ show_nat (unat d)"
| "insn_text (LoadFalse d) = ''LOADFALSE '' @ show_nat (unat d)"
| "insn_text (LoadSelf d) = ''LOADSELF '' @ show_nat (unat d)"
| "insn_text (GetIvar d i) = ''GETIVAR '' @ show_nat (unat d) @ '', '' @ show_nat (unat i)"
| "insn_text (SetIvar i a) = ''SETIVAR '' @ show_nat (unat i) @ '', '' @ show_nat (unat a)"
| "insn_text (GetBox d a) = ''GETBOX '' @ show_nat (unat d) @ '', '' @ show_nat (unat a)"
| "insn_text (SetBox a b) = ''SETBOX '' @ show_nat (unat a) @ '', '' @ show_nat (unat b)"
| "insn_text (MkBox d a) = ''MKBOX '' @ show_nat (unat d) @ '', '' @ show_nat (unat a)"
| "insn_text (Send d r site) = ''SEND '' @ show_nat (unat d) @ '', '' @ show_nat (unat r) @ '', '' @ show_nat (unat site)"
| "insn_text (SendSuper d r site) = ''SENDSUPER '' @ show_nat (unat d) @ '', '' @ show_nat (unat r) @ '', '' @ show_nat (unat site)"
| "insn_text (Ret a) = ''RET '' @ show_nat (unat a)"
| "insn_text RetSelf = ''RETSELF''"
| "insn_text (Nlr a) = ''NLR '' @ show_nat (unat a)"
| "insn_text (Prim n) = ''PRIM '' @ show_nat (unat n)"
| "insn_text (MkClosure d b) = ''MKCLOSURE '' @ show_nat (unat d) @ '', '' @ show_nat (unat b)"
| "insn_text (Capture c a) = ''CAPTURE '' @ show_nat (unat c) @ '', '' @ show_nat (unat a)"
| "insn_text (Jump off) = ''JUMP '' @ show_int (sint off)"
| "insn_text (JumpTrue a off) = ''JUMPTRUE '' @ show_nat (unat a) @ '', '' @ show_int (sint off)"
| "insn_text (JumpFalse a off) = ''JUMPFALSE '' @ show_nat (unat a) @ '', '' @ show_int (sint off)"
| "insn_text (Add d a b) = ''ADD '' @ show_nat (unat d) @ '', '' @ show_nat (unat a) @ '', '' @ show_nat (unat b)"
| "insn_text (Sub d a b) = ''SUB '' @ show_nat (unat d) @ '', '' @ show_nat (unat a) @ '', '' @ show_nat (unat b)"
| "insn_text (Mul d a b) = ''MUL '' @ show_nat (unat d) @ '', '' @ show_nat (unat a) @ '', '' @ show_nat (unat b)"
| "insn_text (Div d a b) = ''DIV '' @ show_nat (unat d) @ '', '' @ show_nat (unat a) @ '', '' @ show_nat (unat b)"
| "insn_text (Mod d a b) = ''MOD '' @ show_nat (unat d) @ '', '' @ show_nat (unat a) @ '', '' @ show_nat (unat b)"
| "insn_text (Lt d a b) = ''LT '' @ show_nat (unat d) @ '', '' @ show_nat (unat a) @ '', '' @ show_nat (unat b)"
| "insn_text (Gt d a b) = ''GT '' @ show_nat (unat d) @ '', '' @ show_nat (unat a) @ '', '' @ show_nat (unat b)"
| "insn_text (Le d a b) = ''LE '' @ show_nat (unat d) @ '', '' @ show_nat (unat a) @ '', '' @ show_nat (unat b)"
| "insn_text (Ge d a b) = ''GE '' @ show_nat (unat d) @ '', '' @ show_nat (unat a) @ '', '' @ show_nat (unat b)"
| "insn_text (EqNum d a b) = ''EQNUM '' @ show_nat (unat d) @ '', '' @ show_nat (unat a) @ '', '' @ show_nat (unat b)"
| "insn_text (At d a b) = ''AT '' @ show_nat (unat d) @ '', '' @ show_nat (unat a) @ '', '' @ show_nat (unat b)"
| "insn_text (AtPut d a b) = ''ATPUT '' @ show_nat (unat d) @ '', '' @ show_nat (unat a) @ '', '' @ show_nat (unat b)"
| "insn_text (Size d a) = ''SIZE '' @ show_nat (unat d) @ '', '' @ show_nat (unat a)"
| "insn_text (ClassOf d a) = ''CLASSOF '' @ show_nat (unat d) @ '', '' @ show_nat (unat a)"
| "insn_text (Not_op d a) = ''NOT '' @ show_nat (unat d) @ '', '' @ show_nat (unat a)"
| "insn_text (IdEq d a b) = ''IDEQ '' @ show_nat (unat d) @ '', '' @ show_nat (unat a) @ '', '' @ show_nat (unat b)"

subsection \<open>Fields of an instruction word\<close>

lemma bit_abc:
  "bit (abc op a b c) i \<longleftrightarrow>
     (if i < 8 then bit op i else if i < 16 then bit a (i - 8)
      else if i < 24 then bit b (i - 16) else i < 32 \<and> bit c (i - 24))"
  by (auto simp: abc_def bit_or_iff bit_push_bit_iff bit_ucast_iff
      dest: bit_imp_le_length)

lemma bit_ad:
  "bit (ad op a d) i \<longleftrightarrow>
     (if i < 8 then bit op i else if i < 16 then bit a (i - 8) else i < 32 \<and> bit d (i - 16))"
  by (auto simp: ad_def bit_or_iff bit_push_bit_iff bit_ucast_iff
      dest: bit_imp_le_length)

lemma u8_field: "(ucast (drop_bit k (w :: u32) AND 255) :: u8) = ucast (drop_bit k w)"
proof (rule bit_word_eqI)
  fix n assume "n < LENGTH(8)"
  then have n: "n < 8" by simp
  have m: "(255 :: u32) = mask 8" by (simp add: mask_eq_exp_minus_1)
  show "bit (ucast (drop_bit k w AND 255) :: u8) n = bit (ucast (drop_bit k w) :: u8) n"
    unfolding m bit_ucast_iff bit_and_iff bit_mask_iff using n by simp
qed

lemma abc_fields:
  "(ucast (abc op a b c AND 255) :: u8) = op"
  "(ucast (drop_bit 8 (abc op a b c) AND 255) :: u8) = a"
  "(ucast (drop_bit 16 (abc op a b c) AND 255) :: u8) = b"
  "(ucast (drop_bit 24 (abc op a b c) AND 255) :: u8) = c"
  using u8_field [of 0 "abc op a b c"]
  by (auto simp: u8_field bit_ucast_iff bit_drop_bit_eq bit_abc intro!: bit_word_eqI)

lemma ad_fields:
  "(ucast (ad op a d AND 255) :: u8) = op"
  "(ucast (drop_bit 8 (ad op a d) AND 255) :: u8) = a"
  "(ucast (drop_bit 16 (ad op a d)) :: u16) = d"
  using u8_field [of 0 "ad op a d"]
  by (auto simp: u8_field bit_ucast_iff bit_drop_bit_eq bit_ad intro!: bit_word_eqI)

subsection \<open>Decoding inverts encoding\<close>

definition opcodes :: "u8 set" where
  "opcodes = {OP_NOP, OP_BREAK, OP_MOVE, OP_LOADK, OP_LOADINT, OP_LOADNIL, OP_LOADTRUE, OP_LOADFALSE, OP_LOADSELF, OP_GETIVAR, OP_SETIVAR, OP_GETBOX, OP_SETBOX, OP_MKBOX, OP_SEND, OP_SENDSUPER, OP_RET, OP_RETSELF, OP_NLR, OP_PRIM, OP_MKCLOSURE, OP_CAPTURE, OP_JUMP, OP_JUMPTRUE, OP_JUMPFALSE, OP_ADD, OP_SUB, OP_MUL, OP_DIV, OP_MOD, OP_LT, OP_GT, OP_LE, OP_GE, OP_EQNUM, OP_AT, OP_ATPUT, OP_SIZE, OP_CLASSOF, OP_NOT, OP_IDEQ}"

lemma decode_encode_eq: "decode (encode i) = Some i"
  by (cases i; simp only: encode.simps; simp add: decode_def abc_fields ad_fields del: drop_bit_of_bool)

lemma decode_None_iff:
  "decode w = None \<longleftrightarrow> (ucast (w AND 255) :: u8) \<notin> opcodes"
  by (simp add: decode_def opcodes_def Let_def)

text \<open>
  C36. Decoding inverts encoding for every instruction, and a word fails to decode exactly when its
  low byte is none of the opcodes of the treaty.
\<close>

theorem decode_encode:
  "decode (encode i) = Some i \<and> (decode w = None \<longleftrightarrow> (ucast (w AND 255) :: u8) \<notin> opcodes)"
  using decode_encode_eq decode_None_iff by blast

lemma disassemble_assemble_eq: "disassemble (assemble is) = Ok is"
  by (induction "is") (simp_all add: assemble_def decode_encode_eq)

lemma disassemble_cases: "disassemble ws = Panic \<or> (\<exists>is. disassemble ws = Ok is)"
  by (induction ws) (auto split: option.splits)

text \<open>
  C37. The disassembler gives back the assembled program for every program, and on any words
  it panics exactly when one of them does not decode.
\<close>

theorem assemble_roundtrip:
  "disassemble (assemble is) = Ok is \<and> (disassemble ws = Panic \<longleftrightarrow> None \<in> decode ` set ws)"
proof -
  have "disassemble ws = Panic \<longleftrightarrow> None \<in> decode ` set ws"
  proof (induction ws)
    case (Cons w ws)
    with disassemble_cases [of ws] show ?case
      by (cases "decode w") (auto split: option.splits)
  qed simp
  with disassemble_assemble_eq show ?thesis by blast
qed

subsection \<open>The printed form determines the instruction\<close>

text \<open>
  For the proof, the printed form is split into its mnemonic and its operands; rebuild recovers
  the instruction from the two.
\<close>

fun mnemonic :: "insn \<Rightarrow> string" where
  "mnemonic Nop = ''NOP''"
| "mnemonic Break = ''BREAK''"
| "mnemonic (Move d a) = ''MOVE''"
| "mnemonic (LoadK d k) = ''LOADK''"
| "mnemonic (LoadInt d imm) = ''LOADINT''"
| "mnemonic (LoadNil d) = ''LOADNIL''"
| "mnemonic (LoadTrue d) = ''LOADTRUE''"
| "mnemonic (LoadFalse d) = ''LOADFALSE''"
| "mnemonic (LoadSelf d) = ''LOADSELF''"
| "mnemonic (GetIvar d i) = ''GETIVAR''"
| "mnemonic (SetIvar i a) = ''SETIVAR''"
| "mnemonic (GetBox d a) = ''GETBOX''"
| "mnemonic (SetBox a b) = ''SETBOX''"
| "mnemonic (MkBox d a) = ''MKBOX''"
| "mnemonic (Send d r site) = ''SEND''"
| "mnemonic (SendSuper d r site) = ''SENDSUPER''"
| "mnemonic (Ret a) = ''RET''"
| "mnemonic RetSelf = ''RETSELF''"
| "mnemonic (Nlr a) = ''NLR''"
| "mnemonic (Prim n) = ''PRIM''"
| "mnemonic (MkClosure d b) = ''MKCLOSURE''"
| "mnemonic (Capture c a) = ''CAPTURE''"
| "mnemonic (Jump off) = ''JUMP''"
| "mnemonic (JumpTrue a off) = ''JUMPTRUE''"
| "mnemonic (JumpFalse a off) = ''JUMPFALSE''"
| "mnemonic (Add d a b) = ''ADD''"
| "mnemonic (Sub d a b) = ''SUB''"
| "mnemonic (Mul d a b) = ''MUL''"
| "mnemonic (Div d a b) = ''DIV''"
| "mnemonic (Mod d a b) = ''MOD''"
| "mnemonic (Lt d a b) = ''LT''"
| "mnemonic (Gt d a b) = ''GT''"
| "mnemonic (Le d a b) = ''LE''"
| "mnemonic (Ge d a b) = ''GE''"
| "mnemonic (EqNum d a b) = ''EQNUM''"
| "mnemonic (At d a b) = ''AT''"
| "mnemonic (AtPut d a b) = ''ATPUT''"
| "mnemonic (Size d a) = ''SIZE''"
| "mnemonic (ClassOf d a) = ''CLASSOF''"
| "mnemonic (Not_op d a) = ''NOT''"
| "mnemonic (IdEq d a b) = ''IDEQ''"

fun operands :: "insn \<Rightarrow> int list" where
  "operands Nop = []"
| "operands Break = []"
| "operands (Move d a) = [uint d, uint a]"
| "operands (LoadK d k) = [uint d, uint k]"
| "operands (LoadInt d imm) = [uint d, sint imm]"
| "operands (LoadNil d) = [uint d]"
| "operands (LoadTrue d) = [uint d]"
| "operands (LoadFalse d) = [uint d]"
| "operands (LoadSelf d) = [uint d]"
| "operands (GetIvar d i) = [uint d, uint i]"
| "operands (SetIvar i a) = [uint i, uint a]"
| "operands (GetBox d a) = [uint d, uint a]"
| "operands (SetBox a b) = [uint a, uint b]"
| "operands (MkBox d a) = [uint d, uint a]"
| "operands (Send d r site) = [uint d, uint r, uint site]"
| "operands (SendSuper d r site) = [uint d, uint r, uint site]"
| "operands (Ret a) = [uint a]"
| "operands RetSelf = []"
| "operands (Nlr a) = [uint a]"
| "operands (Prim n) = [uint n]"
| "operands (MkClosure d b) = [uint d, uint b]"
| "operands (Capture c a) = [uint c, uint a]"
| "operands (Jump off) = [sint off]"
| "operands (JumpTrue a off) = [uint a, sint off]"
| "operands (JumpFalse a off) = [uint a, sint off]"
| "operands (Add d a b) = [uint d, uint a, uint b]"
| "operands (Sub d a b) = [uint d, uint a, uint b]"
| "operands (Mul d a b) = [uint d, uint a, uint b]"
| "operands (Div d a b) = [uint d, uint a, uint b]"
| "operands (Mod d a b) = [uint d, uint a, uint b]"
| "operands (Lt d a b) = [uint d, uint a, uint b]"
| "operands (Gt d a b) = [uint d, uint a, uint b]"
| "operands (Le d a b) = [uint d, uint a, uint b]"
| "operands (Ge d a b) = [uint d, uint a, uint b]"
| "operands (EqNum d a b) = [uint d, uint a, uint b]"
| "operands (At d a b) = [uint d, uint a, uint b]"
| "operands (AtPut d a b) = [uint d, uint a, uint b]"
| "operands (Size d a) = [uint d, uint a]"
| "operands (ClassOf d a) = [uint d, uint a]"
| "operands (Not_op d a) = [uint d, uint a]"
| "operands (IdEq d a b) = [uint d, uint a, uint b]"

definition rebuild :: "string \<Rightarrow> int list \<Rightarrow> insn" where
  "rebuild m ns =
     (if m = ''NOP'' then Nop
      else if m = ''BREAK'' then Break
      else if m = ''MOVE'' then Move (word_of_int (ns ! 0)) (word_of_int (ns ! 1))
      else if m = ''LOADK'' then LoadK (word_of_int (ns ! 0)) (word_of_int (ns ! 1))
      else if m = ''LOADINT'' then LoadInt (word_of_int (ns ! 0)) (word_of_int (ns ! 1))
      else if m = ''LOADNIL'' then LoadNil (word_of_int (ns ! 0))
      else if m = ''LOADTRUE'' then LoadTrue (word_of_int (ns ! 0))
      else if m = ''LOADFALSE'' then LoadFalse (word_of_int (ns ! 0))
      else if m = ''LOADSELF'' then LoadSelf (word_of_int (ns ! 0))
      else if m = ''GETIVAR'' then GetIvar (word_of_int (ns ! 0)) (word_of_int (ns ! 1))
      else if m = ''SETIVAR'' then SetIvar (word_of_int (ns ! 0)) (word_of_int (ns ! 1))
      else if m = ''GETBOX'' then GetBox (word_of_int (ns ! 0)) (word_of_int (ns ! 1))
      else if m = ''SETBOX'' then SetBox (word_of_int (ns ! 0)) (word_of_int (ns ! 1))
      else if m = ''MKBOX'' then MkBox (word_of_int (ns ! 0)) (word_of_int (ns ! 1))
      else if m = ''SEND'' then Send (word_of_int (ns ! 0)) (word_of_int (ns ! 1)) (word_of_int (ns ! 2))
      else if m = ''SENDSUPER'' then SendSuper (word_of_int (ns ! 0)) (word_of_int (ns ! 1)) (word_of_int (ns ! 2))
      else if m = ''RET'' then Ret (word_of_int (ns ! 0))
      else if m = ''RETSELF'' then RetSelf
      else if m = ''NLR'' then Nlr (word_of_int (ns ! 0))
      else if m = ''PRIM'' then Prim (word_of_int (ns ! 0))
      else if m = ''MKCLOSURE'' then MkClosure (word_of_int (ns ! 0)) (word_of_int (ns ! 1))
      else if m = ''CAPTURE'' then Capture (word_of_int (ns ! 0)) (word_of_int (ns ! 1))
      else if m = ''JUMP'' then Jump (word_of_int (ns ! 0))
      else if m = ''JUMPTRUE'' then JumpTrue (word_of_int (ns ! 0)) (word_of_int (ns ! 1))
      else if m = ''JUMPFALSE'' then JumpFalse (word_of_int (ns ! 0)) (word_of_int (ns ! 1))
      else if m = ''ADD'' then Add (word_of_int (ns ! 0)) (word_of_int (ns ! 1)) (word_of_int (ns ! 2))
      else if m = ''SUB'' then Sub (word_of_int (ns ! 0)) (word_of_int (ns ! 1)) (word_of_int (ns ! 2))
      else if m = ''MUL'' then Mul (word_of_int (ns ! 0)) (word_of_int (ns ! 1)) (word_of_int (ns ! 2))
      else if m = ''DIV'' then Div (word_of_int (ns ! 0)) (word_of_int (ns ! 1)) (word_of_int (ns ! 2))
      else if m = ''MOD'' then Mod (word_of_int (ns ! 0)) (word_of_int (ns ! 1)) (word_of_int (ns ! 2))
      else if m = ''LT'' then Lt (word_of_int (ns ! 0)) (word_of_int (ns ! 1)) (word_of_int (ns ! 2))
      else if m = ''GT'' then Gt (word_of_int (ns ! 0)) (word_of_int (ns ! 1)) (word_of_int (ns ! 2))
      else if m = ''LE'' then Le (word_of_int (ns ! 0)) (word_of_int (ns ! 1)) (word_of_int (ns ! 2))
      else if m = ''GE'' then Ge (word_of_int (ns ! 0)) (word_of_int (ns ! 1)) (word_of_int (ns ! 2))
      else if m = ''EQNUM'' then EqNum (word_of_int (ns ! 0)) (word_of_int (ns ! 1)) (word_of_int (ns ! 2))
      else if m = ''AT'' then At (word_of_int (ns ! 0)) (word_of_int (ns ! 1)) (word_of_int (ns ! 2))
      else if m = ''ATPUT'' then AtPut (word_of_int (ns ! 0)) (word_of_int (ns ! 1)) (word_of_int (ns ! 2))
      else if m = ''SIZE'' then Size (word_of_int (ns ! 0)) (word_of_int (ns ! 1))
      else if m = ''CLASSOF'' then ClassOf (word_of_int (ns ! 0)) (word_of_int (ns ! 1))
      else if m = ''NOT'' then Not_op (word_of_int (ns ! 0)) (word_of_int (ns ! 1))
      else if m = ''IDEQ'' then IdEq (word_of_int (ns ! 0)) (word_of_int (ns ! 1)) (word_of_int (ns ! 2))
      else Nop)"

fun operand_text :: "int list \<Rightarrow> string" where
  "operand_text [] = []"
| "operand_text [n] = show_int n"
| "operand_text (n # m # ns) = show_int n @ '', '' @ operand_text (m # ns)"

lemma insn_text_split:
  "insn_text i =
     mnemonic i @ (if operands i = [] then [] else '' '' @ operand_text (operands i))"
  by (cases i; simp add: show_int_def)

lemma rebuild_parts: "rebuild (mnemonic i) (operands i) = i"
  by (cases i; simp add: rebuild_def)

lemma mnemonic_no_space: "CHR '' '' \<notin> set (mnemonic i)"
  by (cases i; simp)

subsection \<open>Decimal numerals\<close>

definition read_nat :: "string \<Rightarrow> nat" where
  "read_nat s = foldl (\<lambda>a c. a * 10 + (of_char c - 48)) 0 s"

lemma of_char_digit: "d < 10 \<Longrightarrow> (of_char (char_of (48 + d :: nat) :: char) :: nat) = 48 + d"
  by (simp add: of_char_of)

lemma read_show_nat: "read_nat (show_nat n) = n"
proof (induction n rule: show_nat.induct)
  case (1 n)
  show ?case
  proof (cases "n < 10")
    case True
    then show ?thesis by (subst show_nat.simps) (simp add: read_nat_def of_char_digit)
  next
    case False
    then have "read_nat (show_nat n) = read_nat (show_nat (n div 10)) * 10 + n mod 10"
      using of_char_digit [of "n mod 10"]
      by (subst show_nat.simps) (simp add: read_nat_def)
    with 1 [OF False] show ?thesis by simp
  qed
qed

lemma show_nat_chars: "c \<in> set (show_nat n) \<Longrightarrow> 48 \<le> (of_char c :: nat)"
proof (induction n rule: show_nat.induct)
  case (1 n)
  show ?case
  proof (cases "n < 10")
    case True
    with 1(2) show ?thesis by (subst (asm) show_nat.simps) (auto simp: of_char_digit)
  next
    case False
    with 1 show ?thesis
      using of_char_digit [of "n mod 10"] by (subst (asm) show_nat.simps) auto
  qed
qed

lemma show_nat_no_sign: "CHR ''-'' \<notin> set (show_nat n)" "CHR '','' \<notin> set (show_nat n)"
  using show_nat_chars [of "CHR ''-''" n] show_nat_chars [of "CHR '',''" n] by auto

lemma show_int_inject: "show_int m = show_int n \<longleftrightarrow> m = n"
proof
  assume e: "show_int m = show_int n"
  have "hd (show_nat k) \<noteq> CHR ''-''" for k
  proof -
    have "show_nat k \<noteq> []" by (subst show_nat.simps) simp
    then show ?thesis using show_nat_no_sign(1) [of k] hd_in_set by metis
  qed
  then have ne: "''-'' @ s \<noteq> show_nat k" for s k
    by (metis append_Cons list.sel(1))
  have inj: "show_nat i = show_nat j \<Longrightarrow> i = j" for i j
    by (metis read_show_nat)
  show "m = n"
    using e ne ne [symmetric] by (auto simp: show_int_def split: if_splits dest!: inj)
qed simp

lemma show_int_no_comma: "CHR '','' \<notin> set (show_int n)"
  using show_nat_no_sign(2) by (simp add: show_int_def)

lemma takeWhile_to_char:
  "c \<notin> set zs \<Longrightarrow> takeWhile (\<lambda>x. x \<noteq> c) (zs @ c # ws) = zs"
  "c \<notin> set zs \<Longrightarrow> takeWhile (\<lambda>x. x \<noteq> c) zs = zs"
  by (induction zs) auto

lemma split_at_char:
  assumes "xs @ c # ys = xs' @ c # ys'" and "c \<notin> set xs" and "c \<notin> set xs'"
  shows "xs = xs' \<and> ys = ys'"
proof -
  from assms have "xs = xs'" by (metis takeWhile_to_char(1))
  with assms show ?thesis by simp
qed

lemma operand_text_inject: "operand_text ms = operand_text ns \<Longrightarrow> length ms = length ns \<Longrightarrow> ms = ns"
proof (induction ms arbitrary: ns rule: operand_text.induct)
  case (2 n)
  then show ?case by (cases ns) (auto simp: show_int_inject)
next
  case (3 n m ms)
  then obtain n' m' ns' where ns: "ns = n' # m' # ns'"
    by (cases ns; cases "tl ns"; auto)
  from 3(2) have "show_int n @ CHR '','' # '' '' @ operand_text (m # ms)
      = show_int n' @ CHR '','' # '' '' @ operand_text (m' # ns')"
    by (simp add: ns)
  from split_at_char [OF this show_int_no_comma show_int_no_comma] 3(1,3) show ?case
    by (simp add: ns show_int_inject)
qed auto

lemma operands_length: "mnemonic i = mnemonic j \<Longrightarrow> length (operands i) = length (operands j)"
  by (cases i; simp; cases j; simp)

text \<open>
  The printed form of an instruction determines it: no two instructions print alike, operands
  and signed immediates included.
\<close>

theorem insn_text_inject: "insn_text i = insn_text j \<longleftrightarrow> i = j"
proof
  assume e: "insn_text i = insn_text j"
  have cut: "takeWhile (\<lambda>x. x \<noteq> CHR '' '') (insn_text k) = mnemonic k" for k
    using mnemonic_no_space [of k]
    by (simp add: insn_text_split takeWhile_to_char)
  have m: "mnemonic i = mnemonic j" using e cut by metis
  have l: "length (operands i) = length (operands j)" by (rule operands_length [OF m])
  have "operand_text (operands i) = operand_text (operands j)"
  proof (cases "operands i = []")
    case True
    with l show ?thesis by simp
  next
    case False
    moreover from this l have "operands j \<noteq> []" by auto
    ultimately show ?thesis
      using e unfolding insn_text_split [of i] insn_text_split [of j] m by simp
  qed
  with l have "operands i = operands j" by (intro operand_text_inject) auto
  then have "rebuild (mnemonic i) (operands i) = rebuild (mnemonic j) (operands j)"
    by (simp only: m)
  then show "i = j" by (simp only: rebuild_parts)
qed simp

end
