(* ===== verification/Tagged_Value.thy ===== *)
theory Tagged_Value
  imports Treaty
begin

section \<open>Tagged 64-bit values\<close>

text \<open>
  src/value.rs. A Value is one 64-bit word: an odd word is a SmallInteger, a word whose low three
  bits are zero is an object pointer, and no other word is ever produced. The struct has the one
  field, so the model's value is the word itself, raw and from_raw are the identity, and equality
  of values is equality of words.
\<close>

type_synonym "value" = u64

definition SMALLINT_MAX :: int where
  "SMALLINT_MAX = 2 ^ 62 - 1"

definition SMALLINT_MIN :: int where
  "SMALLINT_MIN = - (2 ^ 62)"

definition in_smallint :: "int \<Rightarrow> bool" where
  "in_smallint n \<longleftrightarrow> SMALLINT_MIN \<le> n \<and> n \<le> SMALLINT_MAX"

text \<open>The debug assertion of from_int is a precondition; a release build shifts the low 63 bits.\<close>

definition from_int :: "int \<Rightarrow> value" where
  "from_int n = push_bit 1 (word_of_int n) OR TAG_INT_BIT"

definition try_from_int :: "int \<Rightarrow> value option" where
  "try_from_int n =
     (if in_smallint n then Some (push_bit 1 (word_of_int n) OR TAG_INT_BIT) else None)"

definition as_int :: "value \<Rightarrow> int" where
  "as_int w = sint (signed_drop_bit 1 w)"

definition is_int :: "value \<Rightarrow> bool" where
  "is_int w \<longleftrightarrow> w AND TAG_INT_BIT \<noteq> 0"

definition is_ptr :: "value \<Rightarrow> bool" where
  "is_ptr w \<longleftrightarrow> w AND TAG_PTR_MASK = TAG_PTR"

text \<open>from_ptr asserts the alignment of the address, in release builds too.\<close>

definition aligned :: "nat \<Rightarrow> bool" where
  "aligned a \<longleftrightarrow> a mod 8 = 0"

definition from_ptr :: "nat \<Rightarrow> value" where
  "from_ptr a = word_of_nat a"

definition from_ptr_checked :: "nat \<Rightarrow> value outcome" where
  "from_ptr_checked a = (if aligned a then Ok (from_ptr a) else Panic)"

definition as_ptr :: "value \<Rightarrow> nat" where
  "as_ptr w = unat w"

subsection \<open>Tag bits\<close>

lemma is_int_bit: "is_int w \<longleftrightarrow> bit w 0"
  by (simp add: is_int_def and_one_eq mod_2_eq_odd bit_0)

lemma is_int_odd: "is_int w \<longleftrightarrow> odd (unat w)"
  unfolding is_int_bit bit_0 [symmetric] by (simp add: bit_unsigned_iff)

lemma unat_and_7: "unat (w AND 7 :: u64) = unat w mod 8"
proof -
  have "w AND 7 = take_bit 3 w"
    by (simp add: take_bit_eq_mask mask_eq_exp_minus_1)
  then have "unat (w AND 7) = take_bit 3 (unat w)"
    by (simp only: unsigned_take_bit_eq)
  then show ?thesis
    by (simp add: take_bit_eq_mod)
qed

lemma is_ptr_mod: "is_ptr w \<longleftrightarrow> unat w mod 8 = 0"
  by (simp add: is_ptr_def unat_eq_0 unat_and_7 flip: unat_and_7)

lemma int_not_ptr: "is_int w \<Longrightarrow> \<not> is_ptr w"
  unfolding is_int_odd is_ptr_mod by presburger

subsection \<open>SmallIntegers\<close>

lemma push_or_one: "push_bit 1 (w :: u64) OR 1 = 2 * w + 1"
  by (simp add: or_one_eq)

lemma from_int_eq: "from_int n = word_of_int (2 * n + 1)"
  by (simp only: from_int_def push_or_one of_int_add of_int_mult of_int_1 of_int_numeral)

lemma is_int_from_int [simp]: "is_int (from_int n)"
  by (simp add: from_int_def is_int_bit bit_or_iff)

lemma not_is_ptr_from_int [simp]: "\<not> is_ptr (from_int n)"
  by (rule int_not_ptr) simp

lemma as_int_eq: "as_int w = sint w div 2"
  by (simp add: as_int_def sint_signed_drop_bit_eq drop_bit_eq_div)

lemma in_smallint_iff: "in_smallint n \<longleftrightarrow> in_i64 (2 * n + 1)"
  by (auto simp: in_smallint_def SMALLINT_MAX_def SMALLINT_MIN_def in_i64_def)

lemma as_int_from_int [simp]: "in_smallint n \<Longrightarrow> as_int (from_int n) = n"
  by (simp add: as_int_eq from_int_eq in_smallint_iff del: of_int_add of_int_mult)

lemma as_int_range [simp]: "in_smallint (as_int w)"
  using sint_in_i64 [of w]
  by (auto simp: as_int_eq in_smallint_def SMALLINT_MAX_def SMALLINT_MIN_def in_i64_def)

lemma odd_sint: "is_int w \<longleftrightarrow> odd (sint w)"
  using bit_sint_iff [of w 0] by (simp add: is_int_bit bit_0)

lemma from_int_as_int: "is_int w \<Longrightarrow> from_int (as_int w) = w"
  by (simp add: odd_sint from_int_eq as_int_eq del: of_int_add of_int_mult)

lemma from_int_inject:
  "in_smallint m \<Longrightarrow> in_smallint n \<Longrightarrow> from_int m = from_int n \<longleftrightarrow> m = n"
  by (metis as_int_from_int)

lemma try_from_int_eq: "try_from_int n = (if in_smallint n then Some (from_int n) else None)"
  by (simp add: try_from_int_def from_int_def)

subsection \<open>Pointers\<close>

lemma as_ptr_from_ptr [simp]: "a < 2 ^ 64 \<Longrightarrow> as_ptr (from_ptr a) = a"
  by (simp add: as_ptr_def from_ptr_def unat_word_of_nat_64)

lemma from_ptr_as_ptr [simp]: "from_ptr (as_ptr w) = w"
  by (simp add: as_ptr_def from_ptr_def)

lemma as_ptr_bound [simp]: "as_ptr w < 2 ^ 64"
proof -
  have "unat w < 2 ^ LENGTH(64)" by (rule unsigned_less)
  then show ?thesis by (simp add: as_ptr_def)
qed

lemma is_ptr_aligned: "is_ptr w \<longleftrightarrow> aligned (as_ptr w)"
  by (simp add: is_ptr_mod aligned_def as_ptr_def)

lemma is_ptr_from_ptr: "a < 2 ^ 64 \<Longrightarrow> is_ptr (from_ptr a) \<longleftrightarrow> aligned a"
  by (simp add: is_ptr_aligned)

lemma from_ptr_inject: "a < 2 ^ 64 \<Longrightarrow> b < 2 ^ 64 \<Longrightarrow> from_ptr a = from_ptr b \<longleftrightarrow> a = b"
  by (metis as_ptr_from_ptr)

subsection \<open>The tagging contract\<close>

lemma ptr_not_int: "is_ptr w \<Longrightarrow> \<not> is_int w"
  using int_not_ptr by blast

text \<open>
  C33. SmallIntegers: try_from_int succeeds on n exactly when n is in the 63-bit range, and the
  word it returns is the only word that is tagged as an integer and reads back as n.
\<close>

theorem try_from_int_exact: "try_from_int n = Some w \<longleftrightarrow> is_int w \<and> as_int w = n"
proof
  assume "try_from_int n = Some w"
  then show "is_int w \<and> as_int w = n"
    by (auto simp: try_from_int_eq split: if_splits)
next
  assume w: "is_int w \<and> as_int w = n"
  then have "in_smallint n" by auto
  then show "try_from_int n = Some w"
    using w by (auto simp: try_from_int_eq from_int_as_int)
qed

text \<open>
  The tags keep integers and pointers apart: for every in-range integer and every aligned
  64-bit address, each reads back as itself, is recognised by its own test only, and the two
  words differ.
\<close>

theorem tags_disjoint:
  assumes "in_smallint n" and "aligned a" and "a < 2 ^ 64"
  shows "as_int (from_int n) = n \<and> is_int (from_int n) \<and> \<not> is_ptr (from_int n)
    \<and> from_ptr_checked a = Ok (from_ptr a) \<and> as_ptr (from_ptr a) = a
    \<and> is_ptr (from_ptr a) \<and> \<not> is_int (from_ptr a) \<and> from_int n \<noteq> from_ptr a"
proof -
  have i: "is_int (from_int n)" by (rule is_int_from_int)
  have p: "is_ptr (from_ptr a)" using assms by (simp add: is_ptr_from_ptr)
  have "from_int n \<noteq> from_ptr a"
    using i p ptr_not_int by metis
  then show ?thesis
    using assms i p ptr_not_int [of "from_ptr a"] int_not_ptr [of "from_int n"]
    by (simp add: from_ptr_checked_def)
qed

theorem tags_disjoint_witness:
  "as_int (from_int (- 5)) = - 5 \<and> as_ptr (from_ptr 4096) = 4096
    \<and> from_int (- 5) \<noteq> from_ptr 4096"
proof -
  have "in_smallint (- 5)" and "aligned 4096" and "(4096 :: nat) < 2 ^ 64"
    by (simp_all add: in_smallint_def SMALLINT_MAX_def SMALLINT_MIN_def aligned_def)
  from tags_disjoint [OF this] show ?thesis by blast
qed

end
