(* ===== verification/Header_Word.thy ===== *)
theory Header_Word
  imports Tagged_Value
begin

section \<open>Object header words\<close>

text \<open>
  The Header struct of src/heap.rs: one 64-bit word packing classIndex (22 bits), identityHash
  (22), numSlots (8), format (4) and gcBits (8). As with values, the one-field struct is modelled
  by its word. The two fields the VM rewrites in place, the hash and the gc bits, are shown to be
  independent bit fields through the locale word_field.
\<close>

type_synonym header = u64

definition hmask :: "nat \<Rightarrow> u64" where
  "hmask bits = push_bit bits 1 - 1"

definition new_header :: "u32 \<Rightarrow> u64 \<Rightarrow> u64 \<Rightarrow> header" where
  "new_header class_index format num_slots_field =
     push_bit HDR_CLASS_SHIFT (ucast class_index)
     OR push_bit HDR_NSLOTS_SHIFT num_slots_field
     OR push_bit HDR_FORMAT_SHIFT format"

definition hdr_class_index :: "header \<Rightarrow> u32" where
  "hdr_class_index h = ucast (drop_bit HDR_CLASS_SHIFT h AND hmask HDR_CLASS_BITS)"

definition hdr_hash :: "header \<Rightarrow> u32" where
  "hdr_hash h = ucast (drop_bit HDR_HASH_SHIFT h AND hmask HDR_HASH_BITS)"

definition with_hash :: "header \<Rightarrow> u32 \<Rightarrow> header" where
  "with_hash h v =
     (h AND NOT (push_bit HDR_HASH_SHIFT (hmask HDR_HASH_BITS)))
     OR push_bit HDR_HASH_SHIFT (ucast v)"

definition num_slots_field :: "header \<Rightarrow> u64" where
  "num_slots_field h = drop_bit HDR_NSLOTS_SHIFT h AND hmask HDR_NSLOTS_BITS"

definition hdr_format :: "header \<Rightarrow> u64" where
  "hdr_format h = drop_bit HDR_FORMAT_SHIFT h AND hmask HDR_FORMAT_BITS"

definition gc_bits :: "header \<Rightarrow> u64" where
  "gc_bits h = drop_bit HDR_GC_SHIFT h AND hmask HDR_GC_BITS"

definition with_gc_bits :: "header \<Rightarrow> u64 \<Rightarrow> header" where
  "with_gc_bits h bits =
     (h AND NOT (push_bit HDR_GC_SHIFT (hmask HDR_GC_BITS))) OR push_bit HDR_GC_SHIFT bits"

definition is_bytes :: "header \<Rightarrow> bool" where
  "is_bytes h \<longleftrightarrow> FMT_BYTES_BASE \<le> hdr_format h"

subsection \<open>Fields as bits\<close>

lemma hmask_eq: "hmask n = mask n"
  by (simp add: hmask_def mask_eq_exp_minus_1)

lemma unat_hmask_less: "unat (hmask n) < 2 ^ n"
  by (simp add: hmask_eq unsigned_take_bit_eq flip: take_bit_minus_one_eq_mask)

lemma bit_le_unat:
  assumes "bit (v :: u64) i"
  shows "2 ^ i \<le> unat v"
proof (rule ccontr)
  assume "\<not> 2 ^ i \<le> unat v"
  then have "unat v div 2 ^ i = 0" by simp
  moreover have "bit (unat v) i"
    using assms by (simp add: bit_unsigned_iff bit_imp_le_length)
  ultimately show False by (simp add: bit_iff_odd)
qed

lemma le_hmask_bits:
  assumes "v \<le> hmask n" and "n \<le> i"
  shows "\<not> bit v i"
proof
  assume "bit v i"
  then have "2 ^ i \<le> unat v" by (rule bit_le_unat)
  also have "\<dots> < 2 ^ n"
    using assms(1) unat_hmask_less [of n] by (simp add: word_le_nat_alt)
  finally show False
    using assms(2) by simp
qed

lemma bit_hmask: "bit (hmask n) i \<longleftrightarrow> i < n \<and> i < 64"
  by (auto simp: hmask_eq bit_simps)

lemmas field_bits =
  bit_or_iff bit_and_iff bit_not_iff bit_push_bit_iff bit_drop_bit_eq bit_hmask bit_ucast_iff

lemma bit_gc_bits: "bit (gc_bits h) i \<longleftrightarrow> i < 8 \<and> bit h i"
  by (auto simp: gc_bits_def field_bits)

lemma bit_with_gc_bits:
  "bit (with_gc_bits h v) i \<longleftrightarrow> (if i < 8 then False else bit h i) \<or> bit v i"
  by (auto simp: with_gc_bits_def field_bits dest: bit_imp_le_length)

lemma bit_hdr_hash: "bit (hdr_hash h) i \<longleftrightarrow> i < 22 \<and> bit h (i + 20)"
  by (auto simp: hdr_hash_def field_bits add.commute)

lemma bit_with_hash:
  "bit (with_hash h v) i \<longleftrightarrow>
     (if 20 \<le> i \<and> i < 42 then False else bit h i) \<or> 20 \<le> i \<and> i < 64 \<and> bit v (i - 20)"
  by (auto simp: with_hash_def field_bits dest: bit_imp_le_length)

lemma bit_hdr_class_index: "bit (hdr_class_index h) i \<longleftrightarrow> i < 22 \<and> bit h (i + 42)"
  by (auto simp: hdr_class_index_def field_bits add.commute)

lemma bit_num_slots_field: "bit (num_slots_field h) i \<longleftrightarrow> i < 8 \<and> bit h (i + 12)"
  by (auto simp: num_slots_field_def field_bits add.commute)

lemma bit_hdr_format: "bit (hdr_format h) i \<longleftrightarrow> i < 4 \<and> bit h (i + 8)"
  by (auto simp: hdr_format_def field_bits add.commute)

lemmas header_bits =
  bit_gc_bits bit_with_gc_bits bit_hdr_hash bit_with_hash bit_hdr_class_index
  bit_num_slots_field bit_hdr_format

subsection \<open>A word with one replaceable field\<close>

text \<open>
  What the collector and identityHash rely on: a field reads back what was put there, putting it
  leaves everything outside the field alone, and the last put wins.
\<close>

locale word_field =
  fixes get :: "u64 \<Rightarrow> 'v"
    and put :: "u64 \<Rightarrow> 'v \<Rightarrow> u64"
    and fits :: "'v \<Rightarrow> bool"
    and outside :: "u64 \<Rightarrow> 'o"
  assumes get_put: "fits v \<Longrightarrow> get (put w v) = v"
    and fits_get: "fits (get w)"
    and outside_put: "fits v \<Longrightarrow> outside (put w v) = outside w"
    and determined: "get w = get w' \<Longrightarrow> outside w = outside w' \<Longrightarrow> w = w'"
begin

lemma put_get: "put w (get w) = w"
  by (rule determined) (simp_all add: get_put fits_get outside_put)

lemma put_put: "fits u \<Longrightarrow> fits v \<Longrightarrow> put (put w u) v = put w v"
  by (rule determined) (simp_all add: get_put outside_put)

lemma put_inject: "fits u \<Longrightarrow> fits v \<Longrightarrow> put w u = put w v \<Longrightarrow> u = v"
  by (metis get_put)

lemma update_outside: "fits (f (get w)) \<Longrightarrow> outside (put w (f (get w))) = outside w"
  by (rule outside_put)

end

lemma header_bit_cases:
  "bit (h :: header) i \<longleftrightarrow>
     (if i < 8 then bit (gc_bits h) i
      else if i < 12 then bit (hdr_format h) (i - 8)
      else if i < 20 then bit (num_slots_field h) (i - 12)
      else if i < 42 then bit (hdr_hash h) (i - 20)
      else bit (hdr_class_index h) (i - 42))"
  by (auto simp: header_bits dest: bit_imp_le_length)

lemma header_eqI:
  assumes "gc_bits w = gc_bits w'" and "hdr_format w = hdr_format w'"
    and "num_slots_field w = num_slots_field w'" and "hdr_hash w = hdr_hash w'"
    and "hdr_class_index w = hdr_class_index w'"
  shows "w = w'"
  by (rule bit_word_eqI) (simp only: header_bit_cases [of w] header_bit_cases [of w'] assms)

text \<open>The two instances: the identity hash and the gc bits of a header.\<close>

definition hash_fits :: "u32 \<Rightarrow> bool" where
  "hash_fits v \<longleftrightarrow> ucast v \<le> hmask HDR_HASH_BITS"

definition gc_fits :: "u64 \<Rightarrow> bool" where
  "gc_fits v \<longleftrightarrow> v \<le> hmask HDR_GC_BITS"

lemma gc_fits_bits: "gc_fits v \<longleftrightarrow> (\<forall>i \<ge> 8. \<not> bit v i)"
proof
  assume "\<forall>i \<ge> 8. \<not> bit v i"
  then have "v = v AND hmask 8"
    by (intro bit_word_eqI) (auto simp: field_bits intro: ccontr)
  then show "gc_fits v"
    by (metis gc_fits_def word_and_le1)
qed (simp add: gc_fits_def le_hmask_bits)

lemma gc_fits_or: "gc_fits a \<Longrightarrow> gc_fits b \<Longrightarrow> gc_fits (a OR b)"
  by (simp add: gc_fits_bits bit_or_iff)

lemma gc_fits_and: "gc_fits a \<Longrightarrow> gc_fits (a AND b)"
  by (simp add: gc_fits_bits bit_and_iff)

lemma hash_fits_bits: "hash_fits v \<longleftrightarrow> (\<forall>i \<ge> 22. \<not> bit v i)"
proof
  assume v: "\<forall>i \<ge> 22. \<not> bit v i"
  have "(ucast v :: u64) = ucast v AND hmask 22"
    by (rule bit_word_eqI) (use v in \<open>auto simp: field_bits intro: ccontr\<close>)
  then show "hash_fits v"
    by (metis hash_fits_def word_and_le1)
next
  assume "hash_fits v"
  then have "\<not> bit (ucast v :: u64) i" if "22 \<le> i" for i
    using that by (simp add: hash_fits_def le_hmask_bits)
  then show "\<forall>i \<ge> 22. \<not> bit v i"
    using bit_imp_le_length [of v] by (force simp: bit_ucast_iff)
qed

interpretation hash_field: word_field hdr_hash with_hash hash_fits
  "\<lambda>h. (gc_bits h, hdr_format h, num_slots_field h, hdr_class_index h)"
proof unfold_locales
  show "hdr_hash (with_hash w v) = v" if "hash_fits v" for w v
    by (rule bit_word_eqI) (use that in \<open>auto simp: header_bits hash_fits_bits not_less\<close>)
  show "hash_fits (hdr_hash w)" for w
    by (auto simp: hash_fits_bits header_bits)
  show "(gc_bits (with_hash w v), hdr_format (with_hash w v), num_slots_field (with_hash w v),
      hdr_class_index (with_hash w v))
    = (gc_bits w, hdr_format w, num_slots_field w, hdr_class_index w)" if "hash_fits v" for w v
    using that by (auto simp: header_bits hash_fits_bits intro!: bit_word_eqI)
qed (auto intro: header_eqI)

interpretation gc_field: word_field gc_bits with_gc_bits gc_fits
  "\<lambda>h. (hdr_hash h, hdr_format h, num_slots_field h, hdr_class_index h)"
proof unfold_locales
  show "gc_bits (with_gc_bits w v) = v" if "gc_fits v" for w v
    by (rule bit_word_eqI) (use that in \<open>auto simp: header_bits gc_fits_bits not_less\<close>)
  show "gc_fits (gc_bits w)" for w
    by (auto simp: gc_fits_bits header_bits)
  show "(hdr_hash (with_gc_bits w v), hdr_format (with_gc_bits w v),
      num_slots_field (with_gc_bits w v), hdr_class_index (with_gc_bits w v))
    = (hdr_hash w, hdr_format w, num_slots_field w, hdr_class_index w)" if "gc_fits v" for w v
    using that by (auto simp: header_bits gc_fits_bits intro!: bit_word_eqI)
qed (auto intro: header_eqI)

subsection \<open>Fresh headers\<close>

text \<open>The three debug assertions of Header::new.\<close>

definition header_args_ok :: "u32 \<Rightarrow> u64 \<Rightarrow> u64 \<Rightarrow> bool" where
  "header_args_ok class_index format nslots \<longleftrightarrow>
     (ucast class_index :: u64) \<le> hmask HDR_CLASS_BITS \<and> format \<le> hmask HDR_FORMAT_BITS
     \<and> nslots \<le> hmask HDR_NSLOTS_BITS"

lemma class_fits_bits:
  "(ucast (c :: u32) :: u64) \<le> hmask 22 \<Longrightarrow> 22 \<le> i \<Longrightarrow> \<not> bit c i"
  using le_hmask_bits [of "ucast c" 22 i] bit_imp_le_length [of c i]
  by (auto simp: bit_ucast_iff)

lemma bit_new_header:
  assumes "header_args_ok c f n"
  shows "bit (new_header c f n) i \<longleftrightarrow>
     42 \<le> i \<and> bit c (i - 42) \<or> 12 \<le> i \<and> i < 20 \<and> bit n (i - 12)
     \<or> 8 \<le> i \<and> i < 12 \<and> bit f (i - 8)"
proof -
  have c: "bit c k \<Longrightarrow> k < 22" for k
    using assms class_fits_bits [of c k] by (auto simp: header_args_ok_def not_le [symmetric])
  have n: "bit n k \<Longrightarrow> k < 8" for k
    using assms le_hmask_bits [of n 8 k] by (auto simp: header_args_ok_def not_le [symmetric])
  have f: "bit f k \<Longrightarrow> k < 4" for k
    using assms le_hmask_bits [of f 4 k] by (auto simp: header_args_ok_def not_le [symmetric])
  show ?thesis
    by (auto simp: new_header_def field_bits dest: c n f)
qed

lemma new_header_fields:
  assumes "header_args_ok c f n"
  shows "hdr_class_index (new_header c f n) = c" and "hdr_format (new_header c f n) = f"
    and "num_slots_field (new_header c f n) = n" and "hdr_hash (new_header c f n) = 0"
    and "gc_bits (new_header c f n) = 0"
proof -
  note new = bit_new_header [OF assms]
  have c: "bit c k \<Longrightarrow> k < 22" for k
    using assms class_fits_bits [of c k] by (auto simp: header_args_ok_def not_le [symmetric])
  have n: "bit n k \<Longrightarrow> k < 8" for k
    using assms le_hmask_bits [of n 8 k] by (auto simp: header_args_ok_def not_le [symmetric])
  have f: "bit f k \<Longrightarrow> k < 4" for k
    using assms le_hmask_bits [of f 4 k] by (auto simp: header_args_ok_def not_le [symmetric])
  show "hdr_class_index (new_header c f n) = c"
    by (rule bit_word_eqI) (auto simp: bit_hdr_class_index new dest: c)
  show "hdr_format (new_header c f n) = f"
    by (rule bit_word_eqI) (auto simp: bit_hdr_format new dest: f)
  show "num_slots_field (new_header c f n) = n"
    by (rule bit_word_eqI) (auto simp: bit_num_slots_field new dest: n)
  show "hdr_hash (new_header c f n) = 0"
    by (rule bit_word_eqI) (auto simp: bit_hdr_hash new)
  show "gc_bits (new_header c f n) = 0"
    by (rule bit_word_eqI) (auto simp: bit_gc_bits new)
qed

text \<open>
  C34. Packing a header and reading it back: the class index, format and slot-count field given to
  Header::new come back unchanged, and the hash and the gc bits start at zero. Rewriting the hash, or
  the gc bits, of any header word, whatever it had there before, changes exactly that field, and the
  last rewrite wins. The five fields are the whole word.
\<close>

theorem header_pack_unpack:
  assumes "header_args_ok c f n" and "hash_fits v" and "gc_fits g"
  shows "hdr_class_index (new_header c f n) = c \<and> hdr_format (new_header c f n) = f
    \<and> num_slots_field (new_header c f n) = n \<and> hdr_hash (new_header c f n) = 0 \<and> gc_bits (new_header c f n) = 0
    \<and> (\<forall>w. hdr_hash (with_hash w v) = v \<and> gc_bits (with_hash w v) = gc_bits w
         \<and> hdr_class_index (with_hash w v) = hdr_class_index w \<and> hdr_format (with_hash w v) = hdr_format w
         \<and> num_slots_field (with_hash w v) = num_slots_field w)
    \<and> (\<forall>w. gc_bits (with_gc_bits w g) = g \<and> hdr_hash (with_gc_bits w g) = hdr_hash w
         \<and> hdr_class_index (with_gc_bits w g) = hdr_class_index w \<and> hdr_format (with_gc_bits w g) = hdr_format w
         \<and> num_slots_field (with_gc_bits w g) = num_slots_field w)
    \<and> (\<forall>w u. hash_fits u \<longrightarrow> with_hash (with_hash w u) v = with_hash w v)
    \<and> (\<forall>w u. gc_fits u \<longrightarrow> with_gc_bits (with_gc_bits w u) g = with_gc_bits w g)
    \<and> (\<forall>w w'. hdr_class_index w' = hdr_class_index w \<and> hdr_hash w' = hdr_hash w
         \<and> num_slots_field w' = num_slots_field w \<and> hdr_format w' = hdr_format w \<and> gc_bits w' = gc_bits w
         \<longrightarrow> w' = w)"
proof -
  have hash: "hdr_hash (with_hash w v) = v \<and> gc_bits (with_hash w v) = gc_bits w
      \<and> hdr_class_index (with_hash w v) = hdr_class_index w \<and> hdr_format (with_hash w v) = hdr_format w
      \<and> num_slots_field (with_hash w v) = num_slots_field w" for w
    using hash_field.outside_put [OF assms(2), of w] hash_field.get_put [OF assms(2), of w] by simp
  have gc: "gc_bits (with_gc_bits w g) = g \<and> hdr_hash (with_gc_bits w g) = hdr_hash w
      \<and> hdr_class_index (with_gc_bits w g) = hdr_class_index w \<and> hdr_format (with_gc_bits w g) = hdr_format w
      \<and> num_slots_field (with_gc_bits w g) = num_slots_field w" for w
    using gc_field.outside_put [OF assms(3), of w] gc_field.get_put [OF assms(3), of w] by simp
  show ?thesis
  proof (intro conjI allI impI)
    show "with_hash (with_hash w u) v = with_hash w v" if "hash_fits u" for w u
      by (rule hash_field.put_put [OF that assms(2)])
    show "with_gc_bits (with_gc_bits w u) g = with_gc_bits w g" if "gc_fits u" for w u
      by (rule gc_field.put_put [OF that assms(3)])
  qed (use new_header_fields [OF assms(1)] hash gc in \<open>auto intro: header_eqI\<close>)
qed

theorem header_pack_unpack_witness:
  "hdr_class_index (with_gc_bits (with_hash (new_header 17 1 3) 99) 131) = 17
   \<and> gc_bits (with_gc_bits (with_gc_bits (new_header 17 1 3) 4) 131) = 131"
proof -
  have "header_args_ok 17 1 3" and "hash_fits 99" and "gc_fits 131"
    by (simp_all add: header_args_ok_def hash_fits_def gc_fits_def hmask_def)
  from header_pack_unpack [OF this] show ?thesis by simp
qed

end
