(* ===== verification/Heap_Model.thy ===== *)
theory Heap_Model
  imports Header_Word
begin

section \<open>Spaces, objects and allocation\<close>

text \<open>
  The Space and Heap structs of src/heap.rs. The raw memory the spaces own is one map from byte
  addresses to 64-bit words; the code only ever dereferences 8-aligned addresses, so an entry is
  the word stored there, and a byte of an object is the matching byte of a word in little-endian
  order. The map is total: like a dereference of a raw pointer in a release build, a read outside
  the spaces returns some word, and the lemmas about a well-formed heap are what shows that the
  reads the VM makes are inside them. The predicate plausible is the debug assertion.
\<close>

subsection \<open>Spaces\<close>

record space =
  sp_base :: nat
  sp_words :: nat
  sp_alloc :: nat

type_synonym memory = "nat \<Rightarrow> u64"

definition space_limit :: "space \<Rightarrow> nat" where
  "space_limit s = sp_base s + sp_words s * 8"

definition space_top :: "space \<Rightarrow> nat" where
  "space_top s = sp_base s + sp_alloc s * 8"

definition space_contains :: "space \<Rightarrow> nat \<Rightarrow> bool" where
  "space_contains s a \<longleftrightarrow> sp_base s \<le> a \<and> a < space_limit s"

definition bytes_remaining :: "space \<Rightarrow> nat" where
  "bytes_remaining s = (sp_words s - sp_alloc s) * 8"

definition used_bytes :: "space \<Rightarrow> nat" where
  "used_bytes s = sp_alloc s * 8"

definition alloc_words :: "space \<Rightarrow> nat \<Rightarrow> (nat \<times> space) option" where
  "alloc_words s n =
     (if sp_words s < sp_alloc s + n then None
      else Some (sp_base s + sp_alloc s * 8, s\<lparr>sp_alloc := sp_alloc s + n\<rparr>))"

text \<open>Space::reset zeroes the whole space and empties it.\<close>

definition space_reset :: "space \<Rightarrow> memory \<Rightarrow> space \<times> memory" where
  "space_reset s m =
     (s\<lparr>sp_alloc := 0\<rparr>, \<lambda>a. if space_contains s a then 0 else m a)"

subsection \<open>The heap\<close>

record heap_config =
  young_bytes :: nat
  old_bytes :: nat
  large_object_bytes :: nat

definition default_heap_config :: heap_config where
  "default_heap_config =
     \<lparr>young_bytes = YOUNG_SPACE_BYTES_DEFAULT, old_bytes = 64 * 1024 * 1024,
      large_object_bytes = LARGE_OBJECT_BYTES\<rparr>"

record heap =
  mem :: memory
  young_from :: space
  young_to :: space
  old :: space
  ssb :: "nat list"
  config :: heap_config
  alloc_young_count :: nat
  alloc_young_bytes :: nat
  alloc_old_count :: nat
  alloc_old_bytes :: nat
  alloc_large_count :: nat

text \<open>
  Heap::new gets its three regions from the allocator of the host, so their base addresses are
  parameters; the memory starts zeroed.
\<close>

definition new_heap :: "nat \<Rightarrow> nat \<Rightarrow> nat \<Rightarrow> heap_config \<Rightarrow> heap" where
  "new_heap from_base to_base old_base cfg =
     \<lparr>mem = (\<lambda>_. 0),
      young_from = \<lparr>sp_base = from_base, sp_words = young_bytes cfg div 8, sp_alloc = 0\<rparr>,
      young_to = \<lparr>sp_base = to_base, sp_words = young_bytes cfg div 8, sp_alloc = 0\<rparr>,
      old = \<lparr>sp_base = old_base, sp_words = old_bytes cfg div 8, sp_alloc = 0\<rparr>,
      ssb = [], config = cfg, alloc_young_count = 0, alloc_young_bytes = 0,
      alloc_old_count = 0, alloc_old_bytes = 0, alloc_large_count = 0\<rparr>"

text \<open>
  Each region is a vector of zeroed words, and a vector of more than isize::MAX bytes is a panic
  (capacity overflow). A host that has fewer bytes to give ends the process, which is left out.
\<close>

definition heap_fits :: "heap_config \<Rightarrow> bool" where
  "heap_fits cfg \<longleftrightarrow> young_bytes cfg div 8 * 8 < 2 ^ 63 \<and> old_bytes cfg div 8 * 8 < 2 ^ 63"

definition heap_word :: "heap \<Rightarrow> nat \<Rightarrow> u64" where
  "heap_word h a = mem h a"

definition set_word :: "heap \<Rightarrow> nat \<Rightarrow> u64 \<Rightarrow> heap" where
  "set_word h a w = h\<lparr>mem := (mem h)(a := w)\<rparr>"

lemma set_word_sel [simp]:
  "mem (set_word h a w) = (mem h)(a := w)" "young_from (set_word h a w) = young_from h"
  "young_to (set_word h a w) = young_to h" "old (set_word h a w) = old h"
  "ssb (set_word h a w) = ssb h" "config (set_word h a w) = config h"
  by (simp_all add: set_word_def)

lemma heap_word_set_word: "heap_word (set_word h a w) b = (if b = a then w else heap_word h b)"
  by (simp add: heap_word_def)

definition plausible :: "heap \<Rightarrow> nat \<Rightarrow> bool" where
  "plausible h a \<longleftrightarrow> a mod 8 = 0 \<and>
     (space_contains (young_from h) a \<or> space_contains (young_to h) a
      \<or> space_contains (old h) a)"

subsection \<open>Headers and object shape\<close>

definition header :: "heap \<Rightarrow> nat \<Rightarrow> header" where
  "header h obj = heap_word h obj"

definition set_header :: "heap \<Rightarrow> nat \<Rightarrow> header \<Rightarrow> heap" where
  "set_header h obj w = set_word h obj w"

definition num_slots :: "heap \<Rightarrow> nat \<Rightarrow> u64" where
  "num_slots h obj =
     (let f = num_slots_field (header h obj)
      in if f = HDR_NSLOTS_OVERFLOW then heap_word h (obj - 8) else f)"

definition has_overflow_word :: "heap \<Rightarrow> nat \<Rightarrow> bool" where
  "has_overflow_word h obj \<longleftrightarrow> num_slots_field (header h obj) = HDR_NSLOTS_OVERFLOW"

definition byte_size :: "heap \<Rightarrow> nat \<Rightarrow> nat" where
  "byte_size h obj =
     (let pad = unat (hdr_format (header h obj) - FMT_BYTES_BASE)
      in unat (num_slots h obj) * 8 - pad)"

definition footprint :: "heap \<Rightarrow> nat \<Rightarrow> nat" where
  "footprint h obj =
     (let over = (if has_overflow_word h obj then 8 else 0)
      in 8 + unat (num_slots h obj) * 8 + over)"

definition storage_start :: "heap \<Rightarrow> nat \<Rightarrow> nat" where
  "storage_start h obj = (if has_overflow_word h obj then obj - 8 else obj)"

subsection \<open>Slots and bytes\<close>

definition slot :: "heap \<Rightarrow> nat \<Rightarrow> nat \<Rightarrow> value" where
  "slot h obj i = heap_word h (obj + 8 + i * 8)"

definition set_slot_raw :: "heap \<Rightarrow> nat \<Rightarrow> nat \<Rightarrow> value \<Rightarrow> heap" where
  "set_slot_raw h obj i v = set_word h (obj + 8 + i * 8) v"

definition byte :: "heap \<Rightarrow> nat \<Rightarrow> nat \<Rightarrow> u8" where
  "byte h obj i = ucast (drop_bit (8 * (i mod 8)) (heap_word h (obj + 8 + 8 * (i div 8))))"

definition set_byte :: "heap \<Rightarrow> nat \<Rightarrow> nat \<Rightarrow> u8 \<Rightarrow> heap" where
  "set_byte h obj i b =
     (let a = obj + 8 + 8 * (i div 8); s = 8 * (i mod 8); w = heap_word h a
      in set_word h a ((w AND NOT (push_bit s 255)) OR push_bit s (ucast b)))"

definition insn_at :: "heap \<Rightarrow> nat \<Rightarrow> nat \<Rightarrow> u32" where
  "insn_at h obj i = ucast (drop_bit (32 * (i mod 2)) (heap_word h (obj + 8 + 8 * (i div 2))))"

definition obj_bytes :: "heap \<Rightarrow> nat \<Rightarrow> u8 list" where
  "obj_bytes h obj = map (byte h obj) [0..<byte_size h obj]"

fun write_bytes_from :: "heap \<Rightarrow> nat \<Rightarrow> nat \<Rightarrow> u8 list \<Rightarrow> heap" where
  "write_bytes_from h obj i [] = h"
| "write_bytes_from h obj i (b # bs) = write_bytes_from (set_byte h obj i b) obj (i + 1) bs"

definition write_bytes :: "heap \<Rightarrow> nat \<Rightarrow> u8 list \<Rightarrow> heap" where
  "write_bytes h obj bs = write_bytes_from h obj 0 bs"

subsection \<open>Immutability and space predicates\<close>

definition is_immutable :: "heap \<Rightarrow> nat \<Rightarrow> bool" where
  "is_immutable h obj \<longleftrightarrow> gc_bits (header h obj) AND GC_BIT_IMMUTABLE \<noteq> 0"

definition set_immutable :: "heap \<Rightarrow> nat \<Rightarrow> heap" where
  "set_immutable h obj =
     (let w = header h obj
      in set_header h obj (with_gc_bits w (gc_bits w OR GC_BIT_IMMUTABLE)))"

definition is_young :: "heap \<Rightarrow> nat \<Rightarrow> bool" where
  "is_young h a = space_contains (young_from h) a"

definition in_old_space :: "heap \<Rightarrow> nat \<Rightarrow> bool" where
  "in_old_space h a = space_contains (old h) a"

end
