(* ===== verification/Heap_Walk.thy ===== *)
theory Heap_Walk
  imports Heap_Alloc
begin

section \<open>Walking a region object by object\<close>

text \<open>
  Heap::walk_region of src/heap.rs, which the compactor, the image writer and the class-instance
  primitives use to enumerate the objects of a space. It is modelled as the list of addresses it
  passes to its callback. The predicate region says what the walk relies on: the words between two
  addresses are exactly the storage of a list of objects. The lemmas show that the walk then
  returns that list, that the storage of the objects is disjoint, and that writing a slot of one of
  them or a hash or gc bits keeps the region parsable.
\<close>

lemma walk_progress:
  assumes "obj = p \<or> obj = p + 8"
  shows "p < storage_start h obj + footprint h obj"
  using assms by (auto simp: storage_start_def footprint_def)

function walk_region :: "heap \<Rightarrow> nat \<Rightarrow> nat \<Rightarrow> nat list" where
  "walk_region h p lim =
     (if p < lim
      then let w = heap_word h p;
               obj = (if drop_bit HDR_CLASS_SHIFT w = 0 then p + 8 else p)
           in obj # walk_region h (storage_start h obj + footprint h obj) lim
      else [])"
  by pat_completeness auto
termination
proof (relation "measure (\<lambda>(h, p, lim). lim - p)", goal_cases)
  case 1
  show ?case by simp
next
  case (2 h p lim w obj)
  then have "p < storage_start h obj + footprint h obj"
    by (intro walk_progress) auto
  with 2 show ?case by simp
qed

declare walk_region.simps [simp del]

subsection \<open>Parsable regions\<close>

definition obj_end :: "heap \<Rightarrow> nat \<Rightarrow> nat" where
  "obj_end h obj = storage_start h obj + footprint h obj"

definition well_placed :: "heap \<Rightarrow> nat \<Rightarrow> nat \<Rightarrow> bool" where
  "well_placed h p obj \<longleftrightarrow>
     drop_bit HDR_CLASS_SHIFT (header h obj) \<noteq> 0 \<and>
     (if has_overflow_word h obj
      then obj = p + 8 \<and> drop_bit HDR_CLASS_SHIFT (heap_word h p) = 0
      else obj = p)"

fun region :: "heap \<Rightarrow> nat \<Rightarrow> nat list \<Rightarrow> nat \<Rightarrow> bool" where
  "region h p [] lim \<longleftrightarrow> p = lim"
| "region h p (obj # os) lim \<longleftrightarrow> well_placed h p obj \<and> region h (obj_end h obj) os lim"

lemma well_placed_storage: "well_placed h p obj \<Longrightarrow> storage_start h obj = p"
  by (auto simp: well_placed_def storage_start_def split: if_splits)

lemma obj_end_eq:
  "well_placed h p obj \<Longrightarrow> obj_end h obj = obj + 8 + unat (num_slots h obj) * 8"
  by (auto simp: well_placed_def obj_end_def storage_start_def footprint_def split: if_splits)

lemma well_placed_bounds:
  assumes "well_placed h p obj"
  shows "p \<le> obj" and "obj < obj_end h obj" and "obj \<le> p + 8"
proof -
  from assms show "p \<le> obj" and "obj \<le> p + 8" by (auto simp: well_placed_def split: if_splits)
  from obj_end_eq [OF assms] show "obj < obj_end h obj" by simp
qed

lemma region_le: "region h p os lim \<Longrightarrow> p \<le> lim"
proof (induction os arbitrary: p)
  case (Cons obj os)
  then have "obj_end h obj \<le> lim" and "well_placed h p obj" by auto
  with well_placed_bounds [of h p obj] show ?case by simp
qed simp

lemma region_append:
  "region h p (xs @ ys) lim \<longleftrightarrow> (\<exists>q. region h p xs q \<and> region h q ys lim)"
  by (induction xs arbitrary: p) auto

lemma region_snoc:
  "region h p os t \<Longrightarrow> well_placed h t obj \<Longrightarrow> region h p (os @ [obj]) (obj_end h obj)"
  by (auto simp: region_append)

lemma region_member:
  assumes "region h p os lim" and "obj \<in> set os"
  obtains xs ys q where "os = xs @ obj # ys" and "region h p xs q" and "well_placed h q obj"
    and "region h (obj_end h obj) ys lim"
proof -
  from assms(2) obtain xs ys where os: "os = xs @ obj # ys" by (meson split_list)
  with assms(1) obtain q where "region h p xs q" and "region h q (obj # ys) lim"
    by (auto simp: region_append)
  with os show thesis by (intro that) auto
qed

lemma region_bounds:
  assumes "region h p os lim" and "obj \<in> set os"
  shows "p \<le> storage_start h obj" and "storage_start h obj \<le> obj" and "obj < obj_end h obj"
    and "obj_end h obj \<le> lim" and "obj_end h obj = obj + 8 + unat (num_slots h obj) * 8"
proof -
  from assms obtain xs ys q where x: "region h p xs q" "well_placed h q obj"
    "region h (obj_end h obj) ys lim"
    by (rule region_member)
  show "p \<le> storage_start h obj"
    using region_le [OF x(1)] well_placed_storage [OF x(2)] by simp
  show "storage_start h obj \<le> obj"
    using well_placed_bounds [OF x(2)] well_placed_storage [OF x(2)] by simp
  show "obj < obj_end h obj" using well_placed_bounds [OF x(2)] by simp
  show "obj_end h obj \<le> lim" using region_le [OF x(3)] .
  show "obj_end h obj = obj + 8 + unat (num_slots h obj) * 8" using obj_end_eq [OF x(2)] .
qed

text \<open>Two different objects of a region occupy disjoint storage.\<close>

lemma region_disjoint:
  assumes "region h p os lim" and "a \<in> set os" and "b \<in> set os" and "a \<noteq> b"
  shows "obj_end h a \<le> storage_start h b \<or> obj_end h b \<le> storage_start h a"
proof -
  from assms(1,2) obtain xs ys q where x: "os = xs @ a # ys" "region h p xs q" "well_placed h q a"
    "region h (obj_end h a) ys lim"
    by (rule region_member)
  from assms(3,4) x(1) consider "b \<in> set xs" | "b \<in> set ys" by auto
  then show ?thesis
  proof cases
    case 1
    from region_bounds(4) [OF x(2) 1] well_placed_storage [OF x(3)] show ?thesis by simp
  next
    case 2
    from region_bounds(1) [OF x(4) 2] show ?thesis by simp
  qed
qed

lemma region_length:
  "region h p os lim \<Longrightarrow> p + (\<Sum>a \<leftarrow> os. footprint h a) = lim"
proof (induction os arbitrary: p)
  case (Cons a os)
  then have "well_placed h p a" and r: "region h (obj_end h a) os lim" by auto
  then show ?case using Cons.IH [OF r] by (simp add: obj_end_def well_placed_storage)
qed simp

lemma region_distinct: "region h p os lim \<Longrightarrow> distinct os"
proof (induction os arbitrary: p)
  case (Cons a os)
  then have w: "well_placed h p a" and r: "region h (obj_end h a) os lim" by auto
  have "a \<notin> set os"
  proof
    assume "a \<in> set os"
    from region_bounds(1,2) [OF r this] well_placed_bounds(2) [OF w] show False by simp
  qed
  with Cons.IH [OF r] show ?case by simp
qed simp

lemma walk_region_eq: "region h p os lim \<Longrightarrow> walk_region h p lim = os"
proof (induction os arbitrary: p)
  case Nil
  then show ?case by (simp add: walk_region.simps)
next
  case (Cons obj os)
  then have w: "well_placed h p obj" and r: "region h (obj_end h obj) os lim" by auto
  have "p < lim" using well_placed_bounds [OF w] region_le [OF r] by simp
  moreover have "(if drop_bit HDR_CLASS_SHIFT (heap_word h p) = 0 then p + 8 else p) = obj"
    using w by (auto simp: well_placed_def header_def split: if_splits)
  ultimately show ?case
    using Cons.IH [OF r] by (subst walk_region.simps) (simp add: obj_end_def Let_def)
qed

subsection \<open>Writes that keep a region parsable\<close>

definition same_shape :: "heap \<Rightarrow> heap \<Rightarrow> nat \<Rightarrow> bool" where
  "same_shape h h' obj \<longleftrightarrow>
     num_slots_field (header h' obj) = num_slots_field (header h obj)
     \<and> drop_bit HDR_CLASS_SHIFT (header h' obj) = drop_bit HDR_CLASS_SHIFT (header h obj)
     \<and> (has_overflow_word h obj \<longrightarrow> heap_word h' (obj - 8) = heap_word h (obj - 8))"

lemma same_shape_accessors:
  assumes "same_shape h h' obj"
  shows "has_overflow_word h' obj = has_overflow_word h obj"
    and "num_slots h' obj = num_slots h obj"
    and "storage_start h' obj = storage_start h obj" and "footprint h' obj = footprint h obj"
    and "obj_end h' obj = obj_end h obj"
  using assms
  by (auto simp: same_shape_def has_overflow_word_def num_slots_def storage_start_def
      footprint_def obj_end_def Let_def)

lemma well_placed_same_shape:
  "same_shape h h' obj \<Longrightarrow> well_placed h p obj \<Longrightarrow> well_placed h' p obj"
  using same_shape_accessors [of h h' obj]
  by (auto simp: well_placed_def same_shape_def split: if_splits)

lemma region_same_shape:
  "region h p os lim \<Longrightarrow> (\<And>obj. obj \<in> set os \<Longrightarrow> same_shape h h' obj) \<Longrightarrow> region h' p os lim"
proof (induction os arbitrary: p)
  case (Cons obj os)
  then have s: "same_shape h h' obj" by simp
  with Cons show ?case
    using well_placed_same_shape [OF s] same_shape_accessors(5) [OF s] by auto
qed simp

lemma same_shape_set_word:
  assumes "a \<noteq> obj" and "has_overflow_word h obj \<Longrightarrow> a \<noteq> obj - 8"
  shows "same_shape h (set_word h a w) obj"
  using assms by (auto simp: same_shape_def header_def heap_word_def set_word_def)

lemma storage_words:
  "storage_start h obj \<le> obj" "has_overflow_word h obj \<Longrightarrow> storage_start h obj = obj - 8"
  by (auto simp: storage_start_def)

text \<open>A word of the body of one object is no header and no overflow word of any other.\<close>

lemma region_body_write:
  assumes r: "region h p os lim" and x: "obj \<in> set os"
    and a: "obj + 8 \<le> a" "a < obj_end h obj"
  shows "region (set_word h a w) p os lim"
proof (rule region_same_shape [OF r])
  fix o' assume o': "o' \<in> set os"
  have "a \<noteq> o' \<and> (has_overflow_word h o' \<longrightarrow> a \<noteq> o' - 8)"
  proof (cases "o' = obj")
    case True
    with a show ?thesis by auto
  next
    case False
    have b: "storage_start h o' \<le> o'" "o' < obj_end h o'" "storage_start h obj \<le> obj"
      using region_bounds [OF r o'] region_bounds [OF r x] by auto
    from region_disjoint [OF r o' x False] show ?thesis
      using a b storage_words(2) [of h o'] by linarith
  qed
  then show "same_shape h (set_word h a w) o'"
    by (intro same_shape_set_word) auto
qed

text \<open>Rewriting the hash or the gc bits of a header keeps the shape of every object.\<close>

definition shape_bits :: "header \<Rightarrow> header \<Rightarrow> bool" where
  "shape_bits w w' \<longleftrightarrow> num_slots_field w' = num_slots_field w
     \<and> drop_bit HDR_CLASS_SHIFT w' = drop_bit HDR_CLASS_SHIFT w"

lemma drop_class_bits: "bit (drop_bit 42 (w :: u64)) i = (bit w (i + 42))"
  by (simp add: bit_drop_bit_eq add.commute)

lemma shape_bits_with_gc_bits: "gc_fits g \<Longrightarrow> shape_bits w (with_gc_bits w g)"
  unfolding shape_bits_def
  by (intro conjI bit_word_eqI) (auto simp: header_bits drop_class_bits gc_fits_bits)

lemma shape_bits_with_hash: "hash_fits v \<Longrightarrow> shape_bits w (with_hash w v)"
  unfolding shape_bits_def
  by (intro conjI bit_word_eqI) (auto simp: header_bits drop_class_bits hash_fits_bits)

lemma region_header_write:
  assumes r: "region h p os lim" and x: "obj \<in> set os" and w: "shape_bits (header h obj) w"
  shows "region (set_header h obj w) p os lim"
proof (rule region_same_shape [OF r])
  fix o' assume o': "o' \<in> set os"
  show "same_shape h (set_header h obj w) o'"
  proof (cases "o' = obj")
    case True
    from r x obtain q where "well_placed h q obj" by (rule region_member)
    then have ov: "has_overflow_word h obj \<Longrightarrow> obj = q + 8" by (simp add: well_placed_def)
    have "has_overflow_word h obj \<Longrightarrow> obj - 8 \<noteq> obj"
      using ov by auto
    with True w show ?thesis
      by (auto simp: same_shape_def shape_bits_def header_def set_header_def set_word_def
          heap_word_def)
  next
    case False
    have b: "storage_start h o' \<le> o'" "o' < obj_end h o'" "storage_start h obj \<le> obj"
      "obj < obj_end h obj"
      using region_bounds [OF r o'] region_bounds [OF r x] by auto
    from region_disjoint [OF r o' x False]
    have "obj \<noteq> o' - 8 \<or> \<not> has_overflow_word h o'"
      using b storage_words(2) [of h o'] by linarith
    with False show ?thesis
      unfolding set_header_def by (intro same_shape_set_word) auto
  qed
qed

end
