(* ===== verification/Heap_Invariant.thy ===== *)
theory Heap_Invariant
  imports Heap_Walk
begin

section \<open>The heap invariant and the contract of allocation\<close>

text \<open>
  What every operation on the heap may rely on and must keep: the spaces are aligned, disjoint
  and inside the address range, the free part of a space is zero, and the allocated part of young
  and old space parses as a list of objects. The predicate allocated is the contract of the five
  allocators; the locale allocator states it once, and each allocator of the code is an
  interpretation of it.
\<close>

definition space_ok :: "space \<Rightarrow> bool" where
  "space_ok s \<longleftrightarrow> sp_base s mod 8 = 0 \<and> 8 \<le> sp_base s \<and> sp_alloc s \<le> sp_words s
     \<and> sp_words s < 2 ^ 42 \<and> space_limit s < 2 ^ 64"

definition apart :: "space \<Rightarrow> space \<Rightarrow> bool" where
  "apart s t \<longleftrightarrow> space_limit s \<le> sp_base t \<or> space_limit t \<le> sp_base s"

definition zero_free :: "memory \<Rightarrow> space \<Rightarrow> bool" where
  "zero_free m s \<longleftrightarrow> (\<forall>a. space_top s \<le> a \<and> a < space_limit s \<longrightarrow> m a = 0)"

definition objects :: "heap \<Rightarrow> space \<Rightarrow> nat list" where
  "objects h s = walk_region h (sp_base s) (space_top s)"

definition parsable :: "heap \<Rightarrow> space \<Rightarrow> bool" where
  "parsable h s \<longleftrightarrow> region h (sp_base s) (objects h s) (space_top s)"

definition heap_ok :: "heap \<Rightarrow> bool" where
  "heap_ok h \<longleftrightarrow> space_ok (young_from h) \<and> space_ok (young_to h) \<and> space_ok (old h)
     \<and> apart (young_from h) (young_to h) \<and> apart (young_from h) (old h)
     \<and> apart (young_to h) (old h)
     \<and> zero_free (mem h) (young_from h) \<and> zero_free (mem h) (young_to h)
     \<and> zero_free (mem h) (old h) \<and> sp_alloc (young_to h) = 0
     \<and> parsable h (young_from h) \<and> parsable h (old h)"

definition class_ok :: "u32 \<Rightarrow> bool" where
  "class_ok c \<longleftrightarrow> c \<noteq> 0 \<and> (ucast c :: u64) \<le> hmask HDR_CLASS_BITS"

text \<open>
  The contract of an allocation that turns h into h': obj is a new object of class c, format f
  and n slots that all hold v; its storage was free, no other word has changed, and the allocation
  counters have grown by its footprint.
\<close>

definition allocated ::
  "heap \<Rightarrow> heap \<Rightarrow> nat \<Rightarrow> u32 \<Rightarrow> u64 \<Rightarrow> nat \<Rightarrow> value \<Rightarrow> bool" where
  "allocated h h' obj c f n v \<longleftrightarrow>
     hdr_class_index (header h' obj) = c \<and> hdr_format (header h' obj) = f
     \<and> gc_bits (header h' obj) = 0 \<and> hdr_hash (header h' obj) = 0
     \<and> unat (num_slots h' obj) = n \<and> (\<forall>i < n. slot h' obj i = v)
     \<and> (objects h' (young_from h') = objects h (young_from h) @ [obj]
          \<and> objects h' (old h') = objects h (old h) \<and> is_young h' obj
        \<or> objects h' (young_from h') = objects h (young_from h)
          \<and> objects h' (old h') = objects h (old h) @ [obj] \<and> in_old_space h' obj)
     \<and> (\<forall>a. a < storage_start h' obj \<or> obj_end h' obj \<le> a \<longrightarrow> mem h' a = mem h a)
     \<and> alloc_young_bytes h' + alloc_old_bytes h'
         = alloc_young_bytes h + alloc_old_bytes h + (obj_end h' obj - storage_start h' obj)"

subsection \<open>Regions depend on memory only\<close>

lemma region_mem_cong:
  assumes "region h p os t" and "\<And>a. p \<le> a \<Longrightarrow> a < t \<Longrightarrow> mem h' a = mem h a"
  shows "region h' p os t"
proof (rule region_same_shape [OF assms(1)])
  fix obj assume o: "obj \<in> set os"
  note b = region_bounds [OF assms(1) o]
  have "mem h' obj = mem h obj" using b by (intro assms(2)) auto
  moreover have "mem h' (obj - 8) = mem h (obj - 8)" if "has_overflow_word h obj"
    using b storage_words(2) [OF that] by (intro assms(2)) auto
  ultimately show "same_shape h h' obj"
    by (auto simp: same_shape_def header_def heap_word_def)
qed

lemma parsable_iff: "parsable h s \<longleftrightarrow> (\<exists>os. region h (sp_base s) os (space_top s))"
  unfolding parsable_def objects_def using walk_region_eq by auto

lemma parsable_mem_cong:
  assumes "parsable h s" and "\<And>a. sp_base s \<le> a \<Longrightarrow> a < space_top s \<Longrightarrow> mem h' a = mem h a"
  shows "parsable h' s" and "objects h' s = objects h s"
proof -
  from assms have r: "region h' (sp_base s) (objects h s) (space_top s)"
    unfolding parsable_def by (rule region_mem_cong)
  then show "parsable h' s" by (auto simp: parsable_iff)
  from walk_region_eq [OF r] show "objects h' s = objects h s" by (simp add: objects_def)
qed

lemma space_top_le_limit: "space_ok s \<Longrightarrow> space_top s \<le> space_limit s"
  by (simp add: space_ok_def space_top_def space_limit_def)

subsection \<open>One allocation\<close>

lemma fill_slots_Suc:
  "fill_slots h obj (Suc n) v = set_word (fill_slots h obj n v) (obj + 8 + n * 8) v"
  by (simp add: fill_slots_def)

lemma fill_slots_eq:
  "fill_slots h obj n v =
     h\<lparr>mem := (\<lambda>a. if (\<exists>i < n. a = obj + 8 + i * 8) then v else mem h a)\<rparr>"
proof (induction n)
  case 0
  show ?case by (simp add: fill_slots_def)
next
  case (Suc n)
  have "(\<exists>i < Suc n. a = obj + 8 + i * 8) \<longleftrightarrow> a = obj + 8 + n * 8 \<or> (\<exists>i < n. a = obj + 8 + i * 8)"
    for a by (auto simp: less_Suc_eq)
  moreover have "(if A then v else if B then v else w) = (if A \<or> B then v else w)"
    for A B and w :: u64 by simp
  ultimately show ?case
    by (simp add: fill_slots_Suc Suc.IH set_word_def fun_upd_def)
qed

lemma alloc_in_cases:
  assumes "alloc_in s m c f n = Some (obj, s', m')"
  obtains
    (small) "n < 255" and "sp_alloc s + n + 1 \<le> sp_words s" and "obj = space_top s"
      and "s' = s\<lparr>sp_alloc := sp_alloc s + n + 1\<rparr>" and "m' = m(obj := new_header c f (of_nat n))"
  | (large) "255 \<le> n" and "sp_alloc s + n + 2 \<le> sp_words s" and "obj = space_top s + 8"
      and "s' = s\<lparr>sp_alloc := sp_alloc s + n + 2\<rparr>"
      and "m' = m(space_top s := of_nat n, obj := new_header c f 255)"
  using assms
  by (cases "255 \<le> n")
     (auto simp: alloc_in_def alloc_words_def space_top_def Let_def split: if_splits)

lemma header_args_small: "class_ok c \<Longrightarrow> f \<le> hmask 4 \<Longrightarrow> n \<le> 255 \<Longrightarrow> header_args_ok c f n"
  by (simp add: header_args_ok_def class_ok_def hmask_def)

lemma class_bits_nonzero:
  assumes "class_ok c" and "header_args_ok c f n"
  shows "drop_bit HDR_CLASS_SHIFT (new_header c f n) \<noteq> 0"
proof
  assume z: "drop_bit HDR_CLASS_SHIFT (new_header c f n) = 0"
  have "hdr_class_index (new_header c f n) = 0"
    using z by (simp add: hdr_class_index_def)
  with new_header_fields(1) [OF assms(2)] assms(1) show False by (simp add: class_ok_def)
qed

lemma drop_bit_42_small:
  assumes "n < 2 ^ 42"
  shows "drop_bit 42 (of_nat n :: u64) = 0"
proof -
  have "unat (of_nat n :: u64) = n" using assms by (intro unat_word_of_nat_64) simp
  then have "unat (drop_bit 42 (of_nat n :: u64)) = n div 2 ^ 42"
    by (simp only: unat_drop_bit_eq drop_bit_nat_def)
  with assms show ?thesis by (simp add: unat_eq_zero)
qed

text \<open>
  The object alloc_in writes is well placed at the old end of the space, whatever is later stored
  in its body.
\<close>

lemma alloc_in_object:
  assumes a: "alloc_in s m c f n = Some (obj, s', m')" and s: "space_ok s"
    and c: "class_ok c" and f: "f \<le> hmask 4"
    and m: "mem h' obj = m' obj" "mem h' (space_top s) = m' (space_top s)"
  shows "well_placed h' (space_top s) obj" and "storage_start h' obj = space_top s"
    and "obj_end h' obj = space_top s'" and "unat (num_slots h' obj) = n"
    and "hdr_class_index (header h' obj) = c" and "hdr_format (header h' obj) = f"
    and "gc_bits (header h' obj) = 0" and "hdr_hash (header h' obj) = 0"
    and "obj_end h' obj = obj + 8 + n * 8"
proof -
  have "well_placed h' (space_top s) obj \<and> space_top s' = obj + 8 + n * 8
    \<and> unat (num_slots h' obj) = n \<and> hdr_class_index (header h' obj) = c
    \<and> hdr_format (header h' obj) = f \<and> gc_bits (header h' obj) = 0
    \<and> hdr_hash (header h' obj) = 0"
    using a
  proof (cases rule: alloc_in_cases)
    case small
    have u: "unat (of_nat n :: u64) = n" using small(1) by (intro unat_word_of_nat_64) simp
    have n: "(of_nat n :: u64) \<le> 255" "(of_nat n :: u64) \<noteq> 255" "unat (of_nat n :: u64) = n"
      using small(1) u by (auto simp: word_le_nat_alt)
    note args = header_args_small [OF c f n(1)]
    have "header h' obj = new_header c f (of_nat n)"
      using m small by (simp add: header_def heap_word_def)
    then show ?thesis
      using small n new_header_fields [OF args] class_bits_nonzero [OF c args]
      by (simp add: well_placed_def has_overflow_word_def num_slots_def space_top_def)
  next
    case large
    have n: "n < 2 ^ 42" using large s by (simp add: space_ok_def)
    note args = header_args_small [OF c f order_refl]
    have "header h' obj = new_header c f 255" and "heap_word h' (obj - 8) = of_nat n"
      using m large by (simp_all add: header_def heap_word_def)
    then show ?thesis
      using large n new_header_fields [OF args] class_bits_nonzero [OF c args]
        drop_bit_42_small [OF n] m
      by (simp add: well_placed_def has_overflow_word_def num_slots_def space_top_def
          heap_word_def unat_word_of_nat_64)
  qed
  then show "well_placed h' (space_top s) obj" and "storage_start h' obj = space_top s"
    and "obj_end h' obj = space_top s'" and "unat (num_slots h' obj) = n"
    and "hdr_class_index (header h' obj) = c" and "hdr_format (header h' obj) = f"
    and "gc_bits (header h' obj) = 0" and "hdr_hash (header h' obj) = 0"
    and "obj_end h' obj = obj + 8 + n * 8"
    by (auto simp: well_placed_storage obj_end_eq)
qed

lemma alloc_in_space:
  assumes a: "alloc_in s m c f n = Some (obj, s', m')" and s: "space_ok s"
  shows "space_ok s'" and "sp_base s' = sp_base s" and "space_limit s' = space_limit s"
    and "space_top s \<le> obj" and "obj + 8 + n * 8 = space_top s'" and "space_top s' \<le> space_limit s"
    and "\<And>x. x \<noteq> obj \<Longrightarrow> x \<noteq> space_top s \<Longrightarrow> m' x = m x"
  using a s
  by (cases rule: alloc_in_cases;
      auto simp: space_ok_def space_top_def space_limit_def)+

text \<open>
  h2 is h1 after the body of a new object of n slots at obj has been filled and the allocation
  has been counted: the spaces are those of h1 and no word outside the body differs.
\<close>

definition filled :: "heap \<Rightarrow> heap \<Rightarrow> nat \<Rightarrow> nat \<Rightarrow> bool" where
  "filled h1 h2 obj n \<longleftrightarrow> young_from h2 = young_from h1 \<and> young_to h2 = young_to h1
     \<and> old h2 = old h1
     \<and> (\<forall>a. a < obj + 8 \<or> obj + 8 + n * 8 \<le> a \<longrightarrow> mem h2 a = mem h1 a)"

lemma parsable_extend:
  assumes a: "alloc_in s (mem h) c f n = Some (obj, s', m1)" and s: "space_ok s"
    and c: "class_ok c" and f: "f \<le> hmask 4" and p: "parsable h s"
    and m: "\<And>a. a < obj + 8 \<or> obj + 8 + n * 8 \<le> a \<Longrightarrow> mem h2 a = m1 a"
  shows "parsable h2 s'" and "objects h2 s' = objects h s @ [obj]"
proof -
  note sp = alloc_in_space [OF a s]
  have at: "mem h2 obj = m1 obj" "mem h2 (space_top s) = m1 (space_top s)"
    using sp(4) by (intro m; simp)+
  note new = alloc_in_object [OF a s c f at]
  have "region h2 (sp_base s) (objects h s) (space_top s)"
  proof (rule region_mem_cong [of h])
    show "region h (sp_base s) (objects h s) (space_top s)" using p by (simp add: parsable_def)
    fix x assume "x < space_top s"
    with sp(4) show "mem h2 x = mem h x" by (simp add: m sp(7))
  qed
  from region_snoc [OF this new(1)]
  have r: "region h2 (sp_base s') (objects h s @ [obj]) (space_top s')"
    by (simp add: new(3) sp(2))
  then show "parsable h2 s'" by (auto simp: parsable_iff)
  from walk_region_eq [OF r] show "objects h2 s' = objects h s @ [obj]"
    by (simp add: objects_def)
qed

lemma zero_free_extend:
  assumes a: "alloc_in s (mem h) c f n = Some (obj, s', m1)" and s: "space_ok s"
    and z: "zero_free (mem h) s"
    and m: "\<And>a. a < obj + 8 \<or> obj + 8 + n * 8 \<le> a \<Longrightarrow> mem h2 a = m1 a"
  shows "zero_free (mem h2) s'"
proof -
  note sp = alloc_in_space [OF a s]
  show ?thesis
    unfolding zero_free_def
  proof (intro allI impI)
    fix x assume x: "space_top s' \<le> x \<and> x < space_limit s'"
    then have "mem h2 x = m1 x" using sp(5) by (intro m) simp
    also have "\<dots> = mem h x" using x sp(4,5) by (intro sp(7)) auto
    also have "\<dots> = 0" using x z sp(3,4,5) by (simp add: zero_free_def)
    finally show "mem h2 x = 0" .
  qed
qed

lemma apart_cong:
  "sp_base s' = sp_base s \<Longrightarrow> space_limit s' = space_limit s \<Longrightarrow> apart s' t = apart s t"
  "sp_base s' = sp_base s \<Longrightarrow> space_limit s' = space_limit s \<Longrightarrow> apart t s' = apart t s"
  by (simp_all add: apart_def)

text \<open>The words of a space apart from the one allocated in do not change.\<close>

lemma alloc_in_apart:
  assumes a: "alloc_in s (mem h) c f n = Some (obj, s', m1)" and s: "space_ok s"
    and t: "apart s t \<or> apart t s"
    and m: "\<And>a. a < obj + 8 \<or> obj + 8 + n * 8 \<le> a \<Longrightarrow> mem h2 a = m1 a"
    and x: "sp_base t \<le> x" "x < space_limit t"
  shows "mem h2 x = mem h x"
proof -
  note sp = alloc_in_space [OF a s]
  have b: "sp_base s \<le> space_top s" by (simp add: space_top_def)
  have "x < space_top s \<or> space_top s' \<le> x"
    using t x sp(6) b unfolding apart_def by linarith
  then have "mem h2 x = m1 x" using sp(4,5) by (intro m) linarith
  also have "\<dots> = mem h x"
    using \<open>x < space_top s \<or> space_top s' \<le> x\<close> sp(4,5) by (intro sp(7)) auto
  finally show ?thesis .
qed

lemma alloc_in_frame:
  assumes a: "alloc_in s (mem h) c f n = Some (obj, s', m1)" and s: "space_ok s"
    and t: "apart s t \<or> apart t s" and ts: "space_ok t"
    and m: "\<And>a. a < obj + 8 \<or> obj + 8 + n * 8 \<le> a \<Longrightarrow> mem h2 a = m1 a"
  shows "parsable h t \<Longrightarrow> parsable h2 t" and "parsable h t \<Longrightarrow> objects h2 t = objects h t"
    and "zero_free (mem h) t \<Longrightarrow> zero_free (mem h2) t"
proof -
  note same = alloc_in_apart [OF a s t m]
  have le: "space_top t \<le> space_limit t" using space_top_le_limit [OF ts] .
  show "parsable h t \<Longrightarrow> parsable h2 t"
    using le by (rule_tac parsable_mem_cong(1) [of h]) (auto intro: same)
  show "parsable h t \<Longrightarrow> objects h2 t = objects h t"
    using le by (rule_tac parsable_mem_cong(2) [of h]) (auto intro: same)
  show "zero_free (mem h) t \<Longrightarrow> zero_free (mem h2) t"
    using same by (simp add: zero_free_def space_top_def)
qed

lemma alloc_in_old_ok:
  assumes ok: "heap_ok h" and c: "class_ok c" and f: "f \<le> hmask 4"
    and a: "alloc_in_old h c f n = Some (obj, h1)" and fill: "filled h1 h2 obj n"
  shows "heap_ok h2" and "objects h2 (young_from h2) = objects h (young_from h)"
    and "objects h2 (old h2) = objects h (old h) @ [obj]"
    and "in_old_space h2 obj"
proof -
  from a obtain s' m1 where a': "alloc_in (old h) (mem h) c f n = Some (obj, s', m1)"
    and h1: "h1 = h\<lparr>old := s', mem := m1\<rparr>"
    by (auto simp: alloc_in_old_def)
  have s: "space_ok (old h)" and p: "parsable h (old h)" and z: "zero_free (mem h) (old h)"
    using ok by (auto simp: heap_ok_def)
  have m: "\<And>a. a < obj + 8 \<or> obj + 8 + n * 8 \<le> a \<Longrightarrow> mem h2 a = m1 a"
    using fill h1 by (auto simp: filled_def)
  have sp: "young_from h2 = young_from h" "young_to h2 = young_to h" "old h2 = s'"
    using fill h1 by (simp_all add: filled_def)
  note new = alloc_in_space [OF a' s] and ext = parsable_extend [OF a' s c f p m]
    and fr = alloc_in_frame [OF a' s _ _ m]
  have ap: "apart (young_from h) (old h)" "apart (young_to h) (old h)"
    using ok by (auto simp: heap_ok_def)
  show "objects h2 (young_from h2) = objects h (young_from h)"
    unfolding sp using ok ap by (intro fr(2)) (auto simp: heap_ok_def)
  show "objects h2 (old h2) = objects h (old h) @ [obj]"
    unfolding sp by (rule ext(2))
  show "in_old_space h2 obj"
    using new by (auto simp: in_old_space_def space_contains_def sp space_top_def)
  have "parsable h2 (young_from h)" "zero_free (mem h2) (young_from h)"
    "zero_free (mem h2) (young_to h)"
    using ok ap by (auto intro!: fr simp: heap_ok_def)
  then show "heap_ok h2"
    using ok new(1,2,3) ext(1) zero_free_extend [OF a' s z m] apart_cong [OF new(2,3)]
    by (simp add: heap_ok_def sp)
qed

lemma alloc_in_young_ok:
  assumes ok: "heap_ok h" and c: "class_ok c" and f: "f \<le> hmask 4"
    and a: "alloc_in_young h c f n = Some (obj, h1)" and fill: "filled h1 h2 obj n"
  shows "heap_ok h2" and "objects h2 (young_from h2) = objects h (young_from h) @ [obj]"
    and "objects h2 (old h2) = objects h (old h)"
    and "is_young h2 obj"
proof -
  from a obtain s' m1 where a': "alloc_in (young_from h) (mem h) c f n = Some (obj, s', m1)"
    and h1: "h1 = h\<lparr>young_from := s', mem := m1\<rparr>"
    by (auto simp: alloc_in_young_def)
  have s: "space_ok (young_from h)" and p: "parsable h (young_from h)"
    and z: "zero_free (mem h) (young_from h)"
    using ok by (auto simp: heap_ok_def)
  have m: "\<And>a. a < obj + 8 \<or> obj + 8 + n * 8 \<le> a \<Longrightarrow> mem h2 a = m1 a"
    using fill h1 by (auto simp: filled_def)
  have sp: "young_from h2 = s'" "young_to h2 = young_to h" "old h2 = old h"
    using fill h1 by (simp_all add: filled_def)
  note new = alloc_in_space [OF a' s] and ext = parsable_extend [OF a' s c f p m]
    and fr = alloc_in_frame [OF a' s _ _ m]
  have ap: "apart (young_from h) (old h)" "apart (young_from h) (young_to h)"
    using ok by (auto simp: heap_ok_def)
  show "objects h2 (old h2) = objects h (old h)"
    unfolding sp using ok ap by (intro fr(2)) (auto simp: heap_ok_def)
  show "objects h2 (young_from h2) = objects h (young_from h) @ [obj]"
    unfolding sp by (rule ext(2))
  show "is_young h2 obj"
    using new by (auto simp: is_young_def space_contains_def sp space_top_def)
  have "parsable h2 (old h)" "zero_free (mem h2) (old h)" "zero_free (mem h2) (young_to h)"
    using ok ap by (auto intro!: fr simp: heap_ok_def)
  then show "heap_ok h2"
    using ok new(1,2,3) ext(1) zero_free_extend [OF a' s z m] apart_cong [OF new(2,3)]
    by (simp add: heap_ok_def sp)
qed

lemma alloc_in_footprint:
  assumes a: "alloc_in s m c f n = Some (obj, s', m')" and s: "space_ok s"
    and c: "class_ok c" and f: "f \<le> hmask 4"
    and m: "mem h' obj = m' obj" "mem h' (space_top s) = m' (space_top s)"
  shows "obj_end h' obj - storage_start h' obj = alloc_footprint n"
  using a
proof (cases rule: alloc_in_cases)
  case small
  then show ?thesis
    using alloc_in_object(2,9) [OF a s c f m] by (simp add: alloc_footprint_def)
next
  case large
  then show ?thesis
    using alloc_in_object(2,9) [OF a s c f m] by (simp add: alloc_footprint_def)
qed

lemma allocated_old:
  assumes ok: "heap_ok h" and c: "class_ok c" and f: "f \<le> hmask 4"
    and a: "alloc_in_old h c f n = Some (obj, h1)" and fill: "filled h1 h2 obj n"
    and v: "\<And>i. i < n \<Longrightarrow> slot h2 obj i = v"
    and count: "alloc_young_bytes h2 + alloc_old_bytes h2
      = alloc_young_bytes h + alloc_old_bytes h + alloc_footprint n"
  shows "allocated h h2 obj c f n v"
proof -
  from a obtain s' m1 where a': "alloc_in (old h) (mem h) c f n = Some (obj, s', m1)"
    and h1: "h1 = h\<lparr>old := s', mem := m1\<rparr>"
    by (auto simp: alloc_in_old_def)
  have s: "space_ok (old h)" using ok by (auto simp: heap_ok_def)
  note sp = alloc_in_space [OF a' s]
  have at: "mem h2 obj = m1 obj" "mem h2 (space_top (old h)) = m1 (space_top (old h))"
    using fill h1 sp(4) by (auto simp: filled_def)
  note new = alloc_in_object [OF a' s c f at] and res = alloc_in_old_ok [OF ok c f a fill]
  have "mem h2 x = mem h x" if "x < storage_start h2 obj \<or> obj_end h2 obj \<le> x" for x
  proof -
    have "mem h2 x = m1 x"
      using that fill h1 new(2,9) sp(4) by (auto simp: filled_def)
    with that sp(4,7) new(2,9) show ?thesis by auto
  qed
  then show ?thesis
    unfolding allocated_def alloc_in_footprint [OF a' s c f at]
    using new res v count by blast
qed

lemma allocated_young:
  assumes ok: "heap_ok h" and c: "class_ok c" and f: "f \<le> hmask 4"
    and a: "alloc_in_young h c f n = Some (obj, h1)" and fill: "filled h1 h2 obj n"
    and v: "\<And>i. i < n \<Longrightarrow> slot h2 obj i = v"
    and count: "alloc_young_bytes h2 + alloc_old_bytes h2
      = alloc_young_bytes h + alloc_old_bytes h + alloc_footprint n"
  shows "allocated h h2 obj c f n v"
proof -
  from a obtain s' m1 where a': "alloc_in (young_from h) (mem h) c f n = Some (obj, s', m1)"
    and h1: "h1 = h\<lparr>young_from := s', mem := m1\<rparr>"
    by (auto simp: alloc_in_young_def)
  have s: "space_ok (young_from h)" using ok by (auto simp: heap_ok_def)
  note sp = alloc_in_space [OF a' s]
  have at: "mem h2 obj = m1 obj" "mem h2 (space_top (young_from h)) = m1 (space_top (young_from h))"
    using fill h1 sp(4) by (auto simp: filled_def)
  note new = alloc_in_object [OF a' s c f at] and res = alloc_in_young_ok [OF ok c f a fill]
  have "mem h2 x = mem h x" if "x < storage_start h2 obj \<or> obj_end h2 obj \<le> x" for x
  proof -
    have "mem h2 x = m1 x"
      using that fill h1 new(2,9) sp(4) by (auto simp: filled_def)
    with that sp(4,7) new(2,9) show ?thesis by auto
  qed
  then show ?thesis
    unfolding allocated_def alloc_in_footprint [OF a' s c f at]
    using new res v count by blast
qed

lemma alloc_in_old_counts:
  "alloc_in_old h c f n = Some (obj, h1) \<Longrightarrow>
     alloc_young_bytes h1 = alloc_young_bytes h \<and> alloc_old_bytes h1 = alloc_old_bytes h"
  by (auto simp: alloc_in_old_def)

lemma alloc_in_young_counts:
  "alloc_in_young h c f n = Some (obj, h1) \<Longrightarrow>
     alloc_young_bytes h1 = alloc_young_bytes h \<and> alloc_old_bytes h1 = alloc_old_bytes h"
  by (auto simp: alloc_in_young_def)

lemma filled_trans_count:
  "filled (count_young h1 k) h2 obj n = filled h1 h2 obj n"
  "filled (count_old h1 k b) h2 obj n = filled h1 h2 obj n"
  by (simp_all add: filled_def count_young_def count_old_def)

lemma filled_fill_slots: "filled h1 (fill_slots h1 obj n v) obj n"
  by (auto simp: filled_def fill_slots_eq)

lemma filled_refl: "filled h1 h1 obj n"
  by (simp add: filled_def)

lemma slot_fill_slots: "i < n \<Longrightarrow> slot (fill_slots h obj n v) obj i = v"
  by (auto simp: slot_def heap_word_def fill_slots_eq)

text \<open>A fresh object that is not filled holds zeros, as the space was zeroed.\<close>

lemma slot_fresh_zero:
  assumes a: "alloc_in s (mem h) c f n = Some (obj, s', m1)" and s: "space_ok s"
    and z: "zero_free (mem h) s" and m: "mem h1 = m1" and i: "i < n"
  shows "slot h1 obj i = 0"
proof -
  note sp = alloc_in_space [OF a s]
  have "m1 (obj + 8 + i * 8) = mem h (obj + 8 + i * 8)" using sp(4) by (intro sp(7)) auto
  also have "\<dots> = 0" using z sp(4-6) i by (simp add: zero_free_def)
  finally show ?thesis by (simp add: slot_def heap_word_def m)
qed

end
