(* ===== verification/Heap_Allocator.thy ===== *)
theory Heap_Allocator
  imports Heap_Invariant
begin

section \<open>The allocators and their clients\<close>

text \<open>
  The interface allocator states what a caller of the five allocation entry points of
  src/heap.rs relies on: the heap invariant is kept and the contract allocated holds. What a
  client concludes from it (the object is new, every object that existed keeps its header and its
  slots, the enumeration of a space grows by exactly this object) is proved once in the locale.
  The interpretations discharge the interface for alloc_fixed, alloc_ptrs, alloc_bytes and the
  three old-space variants.
\<close>

definition live :: "heap \<Rightarrow> nat set" where
  "live h = set (objects h (young_from h)) \<union> set (objects h (old h))"

lemma storage_of_live:
  assumes "heap_ok h" and "obj \<in> live h"
  shows "obj_end h obj = obj + 8 + unat (num_slots h obj) * 8" and "storage_start h obj \<le> obj"
    and "sp_base (young_from h) \<le> storage_start h obj \<and> obj_end h obj \<le> space_top (young_from h)
      \<or> sp_base (old h) \<le> storage_start h obj \<and> obj_end h obj \<le> space_top (old h)"
proof -
  from assms have r: "region h (sp_base (young_from h)) (objects h (young_from h))
      (space_top (young_from h))"
    "region h (sp_base (old h)) (objects h (old h)) (space_top (old h))"
    by (auto simp: heap_ok_def parsable_def)
  from assms(2) consider "obj \<in> set (objects h (young_from h))" | "obj \<in> set (objects h (old h))"
    by (auto simp: live_def)
  then have "obj_end h obj = obj + 8 + unat (num_slots h obj) * 8 \<and> storage_start h obj \<le> obj \<and>
    (sp_base (young_from h) \<le> storage_start h obj \<and> obj_end h obj \<le> space_top (young_from h)
      \<or> sp_base (old h) \<le> storage_start h obj \<and> obj_end h obj \<le> space_top (old h))"
  proof cases
    case 1
    from region_bounds [OF r(1) 1] show ?thesis by blast
  next
    case 2
    from region_bounds [OF r(2) 2] show ?thesis by blast
  qed
  then show "obj_end h obj = obj + 8 + unat (num_slots h obj) * 8" and "storage_start h obj \<le> obj"
    and "sp_base (young_from h) \<le> storage_start h obj \<and> obj_end h obj \<le> space_top (young_from h)
      \<or> sp_base (old h) \<le> storage_start h obj \<and> obj_end h obj \<le> space_top (old h)"
    by blast+
qed

lemma live_disjoint:
  assumes ok: "heap_ok h" and a: "a \<in> live h" and b: "b \<in> live h" and "a \<noteq> b"
  shows "obj_end h a \<le> storage_start h b \<or> obj_end h b \<le> storage_start h a"
proof -
  have r: "region h (sp_base (young_from h)) (objects h (young_from h)) (space_top (young_from h))"
    "region h (sp_base (old h)) (objects h (old h)) (space_top (old h))"
    using ok by (auto simp: heap_ok_def parsable_def)
  have tops: "space_top (young_from h) \<le> space_limit (young_from h)"
    "space_top (old h) \<le> space_limit (old h)"
    using ok by (auto simp: heap_ok_def space_top_le_limit)
  have ap: "space_limit (young_from h) \<le> sp_base (old h)
      \<or> space_limit (old h) \<le> sp_base (young_from h)"
    using ok by (auto simp: heap_ok_def apart_def)
  consider (y) "a \<in> set (objects h (young_from h))" "b \<in> set (objects h (young_from h))"
    | (o) "a \<in> set (objects h (old h))" "b \<in> set (objects h (old h))"
    | (yo) "a \<in> set (objects h (young_from h))" "b \<in> set (objects h (old h))"
    | (oy) "a \<in> set (objects h (old h))" "b \<in> set (objects h (young_from h))"
    using a b by (auto simp: live_def)
  then show ?thesis
  proof cases
    case y with region_disjoint [OF r(1) _ _ \<open>a \<noteq> b\<close>] show ?thesis by blast
  next
    case o with region_disjoint [OF r(2) _ _ \<open>a \<noteq> b\<close>] show ?thesis by blast
  next
    case yo
    with region_bounds(1,4) [OF r(1) yo(1)] region_bounds(1,4) [OF r(2) yo(2)] tops ap
    show ?thesis by linarith
  next
    case oy
    with region_bounds(1,4) [OF r(2) oy(1)] region_bounds(1,4) [OF r(1) oy(2)] tops ap
    show ?thesis by linarith
  qed
qed

lemma live_shape:
  assumes "heap_ok h" and "obj \<in> live h"
  shows "drop_bit HDR_CLASS_SHIFT (header h obj) \<noteq> 0"
    and "has_overflow_word h obj \<Longrightarrow> storage_start h obj + 8 = obj"
proof -
  from assms obtain p os t where "region h p os t" and "obj \<in> set os"
    by (auto simp: heap_ok_def live_def parsable_def)
  then obtain q where "well_placed h q obj" by (rule region_member)
  then show "drop_bit HDR_CLASS_SHIFT (header h obj) \<noteq> 0"
    and "has_overflow_word h obj \<Longrightarrow> storage_start h obj + 8 = obj"
    by (auto simp: well_placed_def storage_start_def)
qed

locale allocator =
  fixes alloc :: "heap \<Rightarrow> u32 \<Rightarrow> nat \<Rightarrow> value \<Rightarrow> (nat \<times> heap) option"
    and fmt :: "nat \<Rightarrow> u64" and slots_of :: "nat \<Rightarrow> nat" and fill_of :: "value \<Rightarrow> value"
  assumes alloc_keeps:
    "heap_ok h \<Longrightarrow> class_ok c \<Longrightarrow> alloc h c k v = Some (obj, h') \<Longrightarrow> heap_ok h'"
    and alloc_new:
    "heap_ok h \<Longrightarrow> class_ok c \<Longrightarrow> alloc h c k v = Some (obj, h')
       \<Longrightarrow> allocated h h' obj c (fmt k) (slots_of k) (fill_of v)"
begin

lemma live_grows:
  assumes "heap_ok h" and "class_ok c" and "alloc h c k v = Some (obj, h')"
  shows "live h' = insert obj (live h)"
  using alloc_new [OF assms] by (auto simp: allocated_def live_def)

lemma fresh:
  assumes "heap_ok h" and "class_ok c" and "alloc h c k v = Some (obj, h')"
  shows "obj \<notin> live h"
proof
  assume l: "obj \<in> live h"
  note ok' = alloc_keeps [OF assms] and new = alloc_new [OF assms]
  have r: "region h' (sp_base (young_from h')) (objects h' (young_from h'))
      (space_top (young_from h'))"
    "region h' (sp_base (old h')) (objects h' (old h')) (space_top (old h'))"
    using ok' by (auto simp: heap_ok_def parsable_def)
  have twice: False if "region h' p (xs @ [obj]) t" "obj \<in> set xs" for p xs t
  proof -
    from that(1) obtain q where q: "region h' p xs q" "well_placed h' q obj"
      by (auto simp: region_append)
    from region_bounds(3,4) [OF q(1) that(2)] well_placed_bounds(1) [OF q(2)] show False by simp
  qed
  have cross: False if "obj \<in> set (objects h' (young_from h'))" "obj \<in> set (objects h' (old h'))"
    using region_bounds(1,2,3,4) [OF r(1) that(1)] region_bounds(1,2,3,4) [OF r(2) that(2)] ok'
      space_top_le_limit [of "young_from h'"] space_top_le_limit [of "old h'"]
    by (auto simp: heap_ok_def apart_def)
  from new l show False
    using twice r cross by (auto simp: allocated_def live_def)
qed

lemma contract:
  assumes "heap_ok h" and "class_ok c" and "alloc h c k v = Some (obj, h')"
  shows "heap_ok h'" and "allocated h h' obj c (fmt k) (slots_of k) (fill_of v)"
    and "obj \<notin> live h" and "live h' = insert obj (live h)"
  using alloc_keeps [OF assms] alloc_new [OF assms] fresh [OF assms] live_grows [OF assms]
  by auto

lemma others_unchanged:
  assumes "heap_ok h" and "class_ok c" and "alloc h c k v = Some (obj, h')" and l: "x \<in> live h"
  shows "header h' x = header h x" and "num_slots h' x = num_slots h x"
    and "i < unat (num_slots h x) \<Longrightarrow> slot h' x i = slot h x i"
proof -
  note ok' = alloc_keeps [OF assms(1-3)] and new = alloc_new [OF assms(1-3)]
  have x': "x \<in> live h'" and o': "obj \<in> live h'" and ne: "x \<noteq> obj"
    using live_grows [OF assms(1-3)] fresh [OF assms(1-3)] l by auto
  have same: "mem h' a = mem h a" if "storage_start h' x \<le> a" "a < obj_end h' x" for a
    using live_disjoint [OF ok' x' o' ne] that new by (auto simp: allocated_def)
  note st = storage_of_live [OF ok' x']
  have "header h' x = header h x"
    using st by (simp add: header_def heap_word_def same)
  then show "header h' x = header h x" .
  moreover have "has_overflow_word h' x \<Longrightarrow> heap_word h' (x - 8) = heap_word h (x - 8)"
    using live_shape(2) [OF ok' x'] st by (simp add: heap_word_def same)
  ultimately show num: "num_slots h' x = num_slots h x"
    by (auto simp: num_slots_def has_overflow_word_def Let_def)
  show "i < unat (num_slots h x) \<Longrightarrow> slot h' x i = slot h x i"
    using st num by (simp add: slot_def heap_word_def same)
qed

end

subsection \<open>The allocators of the code\<close>

lemma fmt_le: "FMT_FIXED \<le> hmask 4" "FMT_PTRS \<le> hmask 4"
  by (simp_all add: hmask_def)

lemma alloc_body_ok:
  assumes ok: "heap_ok h" and c: "class_ok c" and f: "f \<le> hmask 4"
    and a: "alloc_body h c f n = Some (obj, h1)"
  shows "heap_ok (fill_slots h1 obj n v)" and "allocated h (fill_slots h1 obj n v) obj c f n v"
proof -
  let ?h2 = "fill_slots h1 obj n v"
  have counts: "alloc_young_bytes ?h2 = alloc_young_bytes h1"
    "alloc_old_bytes ?h2 = alloc_old_bytes h1"
    by (simp_all add: fill_slots_eq)
  have "heap_ok ?h2 \<and> allocated h ?h2 obj c f n v"
  proof (cases "large_object_bytes (config h) < n * 8 mod 2 ^ 64")
    case True
    with a obtain h0 where a0: "alloc_in_old h c f n = Some (obj, h0)"
      and h1: "h1 = count_old h0 n True"
      by (auto simp: alloc_body_def)
    have fill: "filled h0 ?h2 obj n"
      using filled_fill_slots [of h1 obj n v] by (simp add: h1 filled_trans_count)
    show ?thesis
      using alloc_in_old_ok [OF ok c f a0 fill] allocated_old [OF ok c f a0 fill slot_fill_slots]
        alloc_in_old_counts [OF a0] counts
      by (simp add: h1 count_old_def)
  next
    case False
    with a obtain h0 where a0: "alloc_in_young h c f n = Some (obj, h0)"
      and h1: "h1 = count_young h0 n"
      by (auto simp: alloc_body_def)
    have fill: "filled h0 ?h2 obj n"
      using filled_fill_slots [of h1 obj n v] by (simp add: h1 filled_trans_count)
    show ?thesis
      using alloc_in_young_ok [OF ok c f a0 fill] allocated_young [OF ok c f a0 fill slot_fill_slots]
        alloc_in_young_counts [OF a0] counts
      by (simp add: h1 count_young_def)
  qed
  then show "heap_ok ?h2" and "allocated h ?h2 obj c f n v" by auto
qed

lemma alloc_old_filled_ok:
  assumes ok: "heap_ok h" and c: "class_ok c" and f: "f \<le> hmask 4"
    and a: "alloc_in_old h c f n = Some (obj, h0)"
  shows "heap_ok (fill_slots (count_old h0 n b) obj n v)"
    and "allocated h (fill_slots (count_old h0 n b) obj n v) obj c f n v"
proof -
  let ?h2 = "fill_slots (count_old h0 n b) obj n v"
  have fill: "filled h0 ?h2 obj n"
    using filled_fill_slots [of "count_old h0 n b" obj n v] by (simp add: filled_trans_count)
  show "heap_ok ?h2" by (rule alloc_in_old_ok [OF ok c f a fill])
  show "allocated h ?h2 obj c f n v"
    using alloc_in_old_counts [OF a]
    by (intro allocated_old [OF ok c f a fill slot_fill_slots])
       (simp_all add: fill_slots_eq count_old_def)
qed

interpretation fixed_alloc: allocator alloc_fixed "\<lambda>_. FMT_FIXED" "\<lambda>k. k" "\<lambda>v. v"
  by unfold_locales (auto simp: alloc_fixed_def intro: alloc_body_ok [OF _ _ fmt_le(1)])

interpretation ptrs_alloc: allocator alloc_ptrs "\<lambda>_. FMT_PTRS" "\<lambda>k. k" "\<lambda>v. v"
  by unfold_locales (auto simp: alloc_ptrs_def intro: alloc_body_ok [OF _ _ fmt_le(2)])

interpretation fixed_old_alloc: allocator alloc_fixed_old "\<lambda>_. FMT_FIXED" "\<lambda>k. k" "\<lambda>v. v"
  by unfold_locales (auto simp: alloc_fixed_old_def intro: alloc_old_filled_ok [OF _ _ fmt_le(1)])

interpretation ptrs_old_alloc: allocator alloc_ptrs_old "\<lambda>_. FMT_PTRS" "\<lambda>k. k" "\<lambda>v. v"
  by unfold_locales (auto simp: alloc_ptrs_old_def intro: alloc_old_filled_ok [OF _ _ fmt_le(2)])

subsection \<open>Byte objects\<close>

definition bytes_fmt :: "nat \<Rightarrow> u64" where
  "bytes_fmt k = FMT_BYTES_BASE + of_nat ((k + 7) div 8 * 8 - k)"

lemma pad_less: "(k + 7) div 8 * 8 - k < (8 :: nat)"
  by linarith

lemma unat_bytes_format: "d < 8 \<Longrightarrow> unat (8 + of_nat d :: u64) = 8 + d"
  by (simp add: unat_word_ariths unat_word_of_nat_64)

lemma bytes_fmt_le: "bytes_fmt k \<le> hmask 4"
  using unat_bytes_format [OF pad_less [of k]] pad_less [of k]
  by (simp add: bytes_fmt_def hmask_def word_le_nat_alt)

lemma bytes_fmt_pad: "unat (bytes_fmt k - FMT_BYTES_BASE) = (k + 7) div 8 * 8 - k"
proof -
  have "unat (8 + of_nat d - 8 :: u64) = d" if "d < 8" for d
    using that by (simp add: unat_word_of_nat_64)
  from this [OF pad_less [of k]] show ?thesis by (simp only: bytes_fmt_def)
qed

lemma alloc_bytes_core:
  assumes ok: "heap_ok h" and c: "class_ok c"
  shows "alloc_in_old h c (bytes_fmt k) n = Some (obj, h0)
      \<Longrightarrow> heap_ok (count_old h0 n b) \<and> allocated h (count_old h0 n b) obj c (bytes_fmt k) n 0"
    and "alloc_in_young h c (bytes_fmt k) n = Some (obj, h0)
      \<Longrightarrow> heap_ok (count_young h0 n) \<and> allocated h (count_young h0 n) obj c (bytes_fmt k) n 0"
proof -
  have z: "zero_free (mem h) (old h)" "zero_free (mem h) (young_from h)"
    and s: "space_ok (old h)" "space_ok (young_from h)"
    using ok by (auto simp: heap_ok_def)
  show "heap_ok (count_old h0 n b) \<and> allocated h (count_old h0 n b) obj c (bytes_fmt k) n 0"
    if a: "alloc_in_old h c (bytes_fmt k) n = Some (obj, h0)"
  proof -
    have fill: "filled h0 (count_old h0 n b) obj n" by (simp add: filled_def count_old_def)
    have "slot (count_old h0 n b) obj i = 0" if "i < n" for i
      using a slot_fresh_zero [OF _ s(1) z(1) _ that, of c "bytes_fmt k" obj]
      by (auto simp: alloc_in_old_def count_old_def)
    then show ?thesis
      using alloc_in_old_ok(1) [OF ok c bytes_fmt_le a fill]
        allocated_old [OF ok c bytes_fmt_le a fill] alloc_in_old_counts [OF a]
      by (simp add: count_old_def)
  qed
  show "heap_ok (count_young h0 n) \<and> allocated h (count_young h0 n) obj c (bytes_fmt k) n 0"
    if a: "alloc_in_young h c (bytes_fmt k) n = Some (obj, h0)"
  proof -
    have fill: "filled h0 (count_young h0 n) obj n" by (simp add: filled_def count_young_def)
    have "slot (count_young h0 n) obj i = 0" if "i < n" for i
      using a slot_fresh_zero [OF _ s(2) z(2) _ that, of c "bytes_fmt k" obj]
      by (auto simp: alloc_in_young_def count_young_def)
    then show ?thesis
      using alloc_in_young_ok(1) [OF ok c bytes_fmt_le a fill]
        allocated_young [OF ok c bytes_fmt_le a fill] alloc_in_young_counts [OF a]
      by (simp add: count_young_def)
  qed
qed

lemma alloc_bytes_unfold:
  "alloc_bytes h c k =
     (if large_object_bytes (config h) < k
      then map_option (\<lambda>(obj, h'). (obj, count_old h' ((k + 7) div 8) True))
             (alloc_in_old h c (bytes_fmt k) ((k + 7) div 8))
      else map_option (\<lambda>(obj, h'). (obj, count_young h' ((k + 7) div 8)))
             (alloc_in_young h c (bytes_fmt k) ((k + 7) div 8)))"
  "alloc_bytes_old h c k =
     map_option (\<lambda>(obj, h'). (obj, count_old h' ((k + 7) div 8) False))
       (alloc_in_old h c (bytes_fmt k) ((k + 7) div 8))"
  by (simp_all only: alloc_bytes_def alloc_bytes_old_def Let_def bytes_fmt_def)

interpretation bytes_alloc:
  allocator "\<lambda>h c k v. alloc_bytes h c k" bytes_fmt "\<lambda>k. (k + 7) div 8" "\<lambda>v. 0"
  by unfold_locales
     (auto simp: alloc_bytes_unfold split: if_splits dest: alloc_bytes_core)

interpretation bytes_old_alloc:
  allocator "\<lambda>h c k v. alloc_bytes_old h c k" bytes_fmt "\<lambda>k. (k + 7) div 8" "\<lambda>v. 0"
  by unfold_locales
     (auto simp: alloc_bytes_unfold dest: alloc_bytes_core)

subsection \<open>Writes into live objects\<close>

lemma base_le_top: "sp_base s \<le> space_top s"
  by (simp add: space_top_def)

lemma heap_ok_same_shape:
  assumes ok: "heap_ok h"
    and sp: "young_from h' = young_from h" "young_to h' = young_to h" "old h' = old h"
    and shape: "\<And>x. x \<in> live h \<Longrightarrow> same_shape h h' x"
    and frame: "\<And>a. mem h' a \<noteq> mem h a \<Longrightarrow> \<exists>x \<in> live h. storage_start h x \<le> a \<and> a < obj_end h x"
  shows "heap_ok h'" and "objects h' (young_from h) = objects h (young_from h)"
    and "objects h' (old h) = objects h (old h)" and "live h' = live h"
proof -
  have r: "region h (sp_base (young_from h)) (objects h (young_from h)) (space_top (young_from h))"
    "region h (sp_base (old h)) (objects h (old h)) (space_top (old h))"
    using ok by (auto simp: heap_ok_def parsable_def)
  have r': "region h' (sp_base (young_from h)) (objects h (young_from h)) (space_top (young_from h))"
    "region h' (sp_base (old h)) (objects h (old h)) (space_top (old h))"
    by (rule region_same_shape [OF r(1)], simp add: shape live_def)
       (rule region_same_shape [OF r(2)], simp add: shape live_def)
  from r' have p: "parsable h' (young_from h)" "parsable h' (old h)"
    by (auto simp: parsable_iff)
  show o1: "objects h' (young_from h) = objects h (young_from h)"
    using walk_region_eq [OF r'(1)] by (simp add: objects_def)
  show o2: "objects h' (old h) = objects h (old h)"
    using walk_region_eq [OF r'(2)] by (simp add: objects_def)
  show "live h' = live h" using o1 o2 sp by (simp add: live_def)
  have tops: "space_top (young_from h) \<le> space_limit (young_from h)"
    "space_top (old h) \<le> space_limit (old h)"
    "sp_base (young_from h) \<le> space_top (young_from h)" "sp_base (old h) \<le> space_top (old h)"
    "sp_base (young_to h) \<le> space_top (young_to h)"
    using ok by (auto simp: heap_ok_def space_top_le_limit base_le_top)
  have ap: "space_limit (young_from h) \<le> sp_base (young_to h)
      \<or> space_limit (young_to h) \<le> sp_base (young_from h)"
    "space_limit (young_from h) \<le> sp_base (old h) \<or> space_limit (old h) \<le> sp_base (young_from h)"
    "space_limit (young_to h) \<le> sp_base (old h) \<or> space_limit (old h) \<le> sp_base (young_to h)"
    using ok by (auto simp: heap_ok_def apart_def)
  have z: "zero_free (mem h') s" if "zero_free (mem h) s"
    "s = young_from h \<or> s = young_to h \<or> s = old h" for s
    unfolding zero_free_def
  proof (intro allI impI)
    fix a assume a: "space_top s \<le> a \<and> a < space_limit s"
    have "mem h' a = mem h a"
    proof (rule ccontr)
      assume "mem h' a \<noteq> mem h a"
      from frame [OF this] obtain x where x: "x \<in> live h" "storage_start h x \<le> a" "a < obj_end h x"
        by blast
      note st = storage_of_live(3) [OF ok x(1)]
      from that(2) show False
        using a x(2,3) st tops ap by (elim disjE) auto
    qed
    with a that(1) show "mem h' a = 0" by (simp add: zero_free_def)
  qed
  show "heap_ok h'" using ok p z unfolding heap_ok_def sp by simp
qed

lemma body_write_ok:
  assumes ok: "heap_ok h" and x: "x \<in> live h" and a: "x + 8 \<le> a" "a < obj_end h x"
  shows "heap_ok (set_word h a w)" and "live (set_word h a w) = live h"
    and "y \<in> live h \<Longrightarrow> same_shape h (set_word h a w) y"
    and "objects (set_word h a w) (young_from h) = objects h (young_from h)"
    and "objects (set_word h a w) (old h) = objects h (old h)"
    and "y \<in> live h \<Longrightarrow> header (set_word h a w) y = header h y"
proof -
  have ne: "a \<noteq> y \<and> (has_overflow_word h y \<longrightarrow> a \<noteq> y - 8)" if y: "y \<in> live h" for y
  proof (cases "y = x")
    case True
    with a show ?thesis by auto
  next
    case False
    note sx = storage_of_live(1,2) [OF ok x] and sy = storage_of_live(1,2) [OF ok y]
    from live_disjoint [OF ok y x False] show ?thesis
      using a sx sy storage_words(2) [of h y] by linarith
  qed
  then have shape: "y \<in> live h \<Longrightarrow> same_shape h (set_word h a w) y" for y
    by (intro same_shape_set_word) auto
  have frame: "\<exists>x \<in> live h. storage_start h x \<le> b \<and> b < obj_end h x"
    if "mem (set_word h a w) b \<noteq> mem h b" for b
    using that x a storage_of_live(2) [OF ok x]
    by (intro bexI [of _ x]) (auto simp: set_word_def split: if_splits)
  have sp: "young_from (set_word h a w) = young_from h" "young_to (set_word h a w) = young_to h"
    "old (set_word h a w) = old h"
    by (simp_all add: set_word_def)
  note all = heap_ok_same_shape [OF ok sp shape frame]
  show "heap_ok (set_word h a w)" and "live (set_word h a w) = live h"
    and "objects (set_word h a w) (young_from h) = objects h (young_from h)"
    and "objects (set_word h a w) (old h) = objects h (old h)"
    by (rule all; simp)+
  show "y \<in> live h \<Longrightarrow> same_shape h (set_word h a w) y" by (rule shape)
  show "y \<in> live h \<Longrightarrow> header (set_word h a w) y = header h y"
    using ne [of y] by (auto simp: header_def heap_word_def set_word_def)
qed

lemma header_write_shape:
  assumes ok: "heap_ok h" and x: "x \<in> live h" and w: "shape_bits (header h x) w"
    and y: "y \<in> live h"
  shows "same_shape h (set_header h x w) y"
proof (cases "y = x")
  case True
  have "has_overflow_word h x \<Longrightarrow> x - 8 \<noteq> x" using live_shape(2) [OF ok x] by linarith
  with True w show ?thesis
    by (auto simp: same_shape_def shape_bits_def header_def set_header_def set_word_def
        heap_word_def)
next
  case False
  note sx = storage_of_live(1,2) [OF ok x] and sy = storage_of_live(1,2) [OF ok y]
  from live_disjoint [OF ok y x False]
  have "\<not> (has_overflow_word h y \<and> x = y - 8)"
    using sx sy storage_words(2) [of h y] by linarith
  with False show ?thesis unfolding set_header_def by (intro same_shape_set_word) auto
qed

lemma header_write_ok:
  assumes ok: "heap_ok h" and x: "x \<in> live h" and w: "shape_bits (header h x) w"
  shows "heap_ok (set_header h x w)" and "live (set_header h x w) = live h"
    and "objects (set_header h x w) (young_from h) = objects h (young_from h)"
    and "objects (set_header h x w) (old h) = objects h (old h)"
proof -
  note shape = header_write_shape [OF assms]
  have frame: "\<exists>x \<in> live h. storage_start h x \<le> b \<and> b < obj_end h x"
    if "mem (set_header h x w) b \<noteq> mem h b" for b
    using that x storage_of_live(1,2) [OF ok x]
    by (intro bexI [of _ x]) (auto simp: set_header_def set_word_def split: if_splits)
  have sp: "young_from (set_header h x w) = young_from h"
    "young_to (set_header h x w) = young_to h" "old (set_header h x w) = old h"
    by (simp_all add: set_header_def set_word_def)
  note all = heap_ok_same_shape [OF ok sp shape frame]
  show "heap_ok (set_header h x w)" and "live (set_header h x w) = live h"
    and "objects (set_header h x w) (young_from h) = objects h (young_from h)"
    and "objects (set_header h x w) (old h) = objects h (old h)"
    by (rule all; simp)+
qed

lemmas header_write_objects = header_write_ok(3,4)

lemma header_set_header: "header (set_header h x w) y = (if y = x then w else header h y)"
  by (simp add: header_def set_header_def heap_word_def)

lemma set_header_sel [simp]:
  "young_from (set_header h x w) = young_from h" "young_to (set_header h x w) = young_to h"
  "old (set_header h x w) = old h" "ssb (set_header h x w) = ssb h"
  by (simp_all add: set_header_def)

lemma set_slot_raw_sel [simp]:
  "young_from (set_slot_raw h x i v) = young_from h" "young_to (set_slot_raw h x i v) = young_to h"
  "old (set_slot_raw h x i v) = old h" "ssb (set_slot_raw h x i v) = ssb h"
  by (simp_all add: set_slot_raw_def)

end
