(* ===== verification/Heap_Properties.thy ===== *)
theory Heap_Properties
  imports Heap_Allocator
begin

section \<open>Properties of the heap\<close>

text \<open>
  The theorems about src/heap.rs: the initial heap, the contract of the allocators, when they
  fail, and the frame of the in-place writes (slots, hash and gc bits).
\<close>

subsection \<open>The initial heap\<close>

definition base_ok :: "nat \<Rightarrow> nat \<Rightarrow> bool" where
  "base_ok b bytes \<longleftrightarrow> b mod 8 = 0 \<and> 8 \<le> b \<and> bytes div 8 < 2 ^ 42 \<and> b + bytes < 2 ^ 64"

lemma objects_empty: "sp_alloc s = 0 \<Longrightarrow> objects h s = []"
  by (simp add: objects_def space_top_def walk_region.simps)

lemma parsable_empty: "sp_alloc s = 0 \<Longrightarrow> parsable h s"
  by (simp add: parsable_def objects_empty space_top_def)

lemma new_heap_ok:
  assumes "base_ok f (young_bytes cfg)" and "base_ok t (young_bytes cfg)"
    and "base_ok d (old_bytes cfg)"
    and "f + young_bytes cfg \<le> t" and "t + young_bytes cfg \<le> d"
  shows "heap_ok (new_heap f t d cfg)"
proof -
  define y where "y = young_bytes cfg div 8 * 8"
  define z where "z = old_bytes cfg div 8 * 8"
  have le: "y \<le> young_bytes cfg" "z \<le> old_bytes cfg" by (simp_all add: y_def z_def)
  have "f + y < 2 ^ 64" and "t + y < 2 ^ 64" and "d + z < 2 ^ 64" and "f + y \<le> t"
    and "f + y \<le> d" and "t + y \<le> d"
    using assms le by (simp_all add: base_ok_def)
  then show ?thesis
    using assms
    by (simp add: heap_ok_def new_heap_def space_ok_def apart_def zero_free_def space_limit_def
        parsable_empty base_ok_def y_def z_def)
qed

text \<open>A small heap for the concrete instances.\<close>

definition small_heap :: heap where
  "small_heap = new_heap 4096 8192 12288
     \<lparr>young_bytes = 4096, old_bytes = 4096, large_object_bytes = 1024\<rparr>"

lemma small_heap_ok: "heap_ok small_heap"
  unfolding small_heap_def by (rule new_heap_ok) (simp_all add: base_ok_def)

lemma class_ok_17: "class_ok 17"
  by (simp add: class_ok_def hmask_def)

lemma alloc_in_small:
  "n < 255 \<Longrightarrow> sp_alloc s + n + 1 \<le> sp_words s \<Longrightarrow>
     alloc_in s m c f n = Some (space_top s, s\<lparr>sp_alloc := sp_alloc s + n + 1\<rparr>,
       m(space_top s := new_header c f (of_nat n)))"
  by (simp add: alloc_in_def alloc_words_def space_top_def)

lemma small_heap_room:
  "large_object_bytes (config small_heap) = 1024" "sp_alloc (young_from small_heap) = 0"
  "sp_words (young_from small_heap) = 512" "space_top (young_from small_heap) = 4096"
  by (simp_all add: small_heap_def new_heap_def space_top_def)

lemma alloc_fixed_small_heap: "\<exists>h'. alloc_fixed small_heap 17 2 v = Some (4096, h')"
  by (simp add: alloc_fixed_def alloc_body_def alloc_in_young_def small_heap_room alloc_in_small)

subsection \<open>The contract of allocation\<close>

text \<open>
  C30. Allocating a fixed or pointer object in a well-formed heap leaves a well-formed heap; the
  object has the class, format and slot count asked for, every slot holds the fill value, its
  address was not that of an object, no word outside it changes, the byte counters grow by exactly
  its footprint, and the objects of the heap are the old ones and this one.
\<close>

theorem alloc_object_contract:
  assumes "heap_ok h" and "class_ok c"
  shows "(alloc_fixed h c n v = Some (obj, h') \<longrightarrow>
      heap_ok h' \<and> allocated h h' obj c FMT_FIXED n v \<and> obj \<notin> live h \<and> live h' = insert obj (live h))
    \<and> (alloc_ptrs h c n v = Some (obj, h') \<longrightarrow>
      heap_ok h' \<and> allocated h h' obj c FMT_PTRS n v \<and> obj \<notin> live h \<and> live h' = insert obj (live h))"
  by (intro conjI impI fixed_alloc.contract [OF assms] ptrs_alloc.contract [OF assms])

theorem alloc_object_contract_witness:
  "\<exists>h'. heap_ok h' \<and> allocated small_heap h' 4096 17 FMT_FIXED 2 5
     \<and> live h' = insert 4096 (live small_heap)"
proof -
  obtain h' where "alloc_fixed small_heap 17 2 5 = Some (4096, h')"
    using alloc_fixed_small_heap by blast
  with alloc_object_contract [OF small_heap_ok class_ok_17, of 2 5 4096 h'] show ?thesis by blast
qed

text \<open>
  C31. An allocation never touches an object that already exists: whichever of the allocators runs,
  every object of the heap keeps its header, its slot count and all its slots.
\<close>

theorem alloc_keeps_objects:
  assumes "heap_ok h" and "class_ok c" and "x \<in> live h"
    and "alloc_fixed h c n v = Some (obj, h') \<or> alloc_ptrs h c n v = Some (obj, h')
      \<or> alloc_bytes h c n = Some (obj, h') \<or> alloc_fixed_old h c n v = Some (obj, h')
      \<or> alloc_ptrs_old h c n v = Some (obj, h') \<or> alloc_bytes_old h c n = Some (obj, h')"
  shows "header h' x = header h x \<and> num_slots h' x = num_slots h x
    \<and> (\<forall>i < unat (num_slots h x). slot h' x i = slot h x i)"
  using assms(4) fixed_alloc.others_unchanged [OF assms(1,2) _ assms(3)]
    ptrs_alloc.others_unchanged [OF assms(1,2) _ assms(3)]
    bytes_alloc.others_unchanged [OF assms(1,2) _ assms(3)]
    fixed_old_alloc.others_unchanged [OF assms(1,2) _ assms(3)]
    ptrs_old_alloc.others_unchanged [OF assms(1,2) _ assms(3)]
    bytes_old_alloc.others_unchanged [OF assms(1,2) _ assms(3)]
  by (elim disjE) auto

theorem alloc_keeps_objects_witness:
  "\<exists>h1 h2. alloc_fixed small_heap 17 2 5 = Some (4096, h1)
     \<and> alloc_fixed h1 17 2 9 = Some (4120, h2) \<and> slot h2 4096 1 = slot h1 4096 1"
proof -
  obtain h1 where h1: "alloc_fixed small_heap 17 2 5 = Some (4096, h1)"
    using alloc_fixed_small_heap by blast
  have sp: "config h1 = config small_heap"
    "young_from h1 = (young_from small_heap)\<lparr>sp_alloc := 3\<rparr>"
    using h1 by (auto simp: alloc_fixed_def alloc_body_def alloc_in_young_def small_heap_room
        alloc_in_small fill_slots_eq count_young_def)
  then have "space_top (young_from h1) = 4120" by (simp add: small_heap_def new_heap_def space_top_def)
  with sp obtain h2 where h2: "alloc_fixed h1 17 2 9 = Some (4120, h2)"
    by (simp add: alloc_fixed_def alloc_body_def alloc_in_young_def small_heap_room alloc_in_small)
  note k = fixed_alloc.alloc_keeps [OF small_heap_ok class_ok_17 h1]
  note l = fixed_alloc.live_grows [OF small_heap_ok class_ok_17 h1]
  have n: "unat (num_slots h1 4096) = 2"
    using fixed_alloc.alloc_new [OF small_heap_ok class_ok_17 h1] by (simp add: allocated_def)
  from alloc_keeps_objects [OF k class_ok_17, of 4096 2 9 4120 h2] l h2 n
  have "slot h2 4096 1 = slot h1 4096 1" by simp
  with h1 h2 show ?thesis by blast
qed

subsection \<open>Byte objects\<close>

lemma byte_of_zero_slots:
  assumes "\<forall>j < n. slot h obj j = 0" and "i < n * 8"
  shows "byte h obj i = 0"
proof -
  have "i div 8 < n" using assms(2) by (simp add: less_mult_imp_div_less)
  with assms(1) have "slot h obj (i div 8) = 0" by blast
  then show ?thesis by (simp add: byte_def slot_def mult.commute)
qed

lemma byte_size_alloc:
  assumes "hdr_format (header h obj) = bytes_fmt k" and "unat (num_slots h obj) = (k + 7) div 8"
  shows "byte_size h obj = k"
  using assms bytes_fmt_pad [of k] by (simp add: byte_size_def)

lemma bytes_fmt_ge: "FMT_BYTES_BASE \<le> bytes_fmt k"
  using unat_bytes_format [OF pad_less [of k]] by (simp add: bytes_fmt_def word_le_nat_alt)

lemma allocated_bytes:
  assumes "allocated h h' obj c (bytes_fmt k) ((k + 7) div 8) 0"
  shows "is_bytes (header h' obj)" and "byte_size h' obj = k" and "obj_bytes h' obj = replicate k 0"
proof -
  have f: "hdr_format (header h' obj) = bytes_fmt k" and n: "unat (num_slots h' obj) = (k + 7) div 8"
    and z: "\<forall>j < (k + 7) div 8. slot h' obj j = 0"
    using assms by (auto simp: allocated_def)
  show size: "byte_size h' obj = k" by (rule byte_size_alloc [OF f n])
  show "is_bytes (header h' obj)" using f bytes_fmt_ge by (simp add: is_bytes_def)
  have "obj_bytes h' obj = map (\<lambda>_. 0) [0..<k]"
    unfolding obj_bytes_def size by (rule map_cong) (auto intro: byte_of_zero_slots [OF z])
  then show "obj_bytes h' obj = replicate k 0" by (simp add: map_replicate_const)
qed

lemma fresh_bytes:
  assumes "heap_ok h" and "class_ok c" and "alloc_bytes h c k = Some (obj, h')"
  shows "is_bytes (header h' obj)" and "byte_size h' obj = k" and "obj_bytes h' obj = replicate k 0"
  using allocated_bytes [OF bytes_alloc.alloc_new [OF assms]] by auto

lemma live_bounds:
  assumes "heap_ok h" and "x \<in> live h"
  shows "x < 2 ^ 64"
proof -
  note s = storage_of_live [OF assms]
  have "space_limit (young_from h) < 2 ^ 64" "space_limit (old h) < 2 ^ 64"
    "space_top (young_from h) \<le> space_limit (young_from h)" "space_top (old h) \<le> space_limit (old h)"
    using assms(1) space_top_le_limit by (auto simp: heap_ok_def space_ok_def)
  with s show ?thesis by linarith
qed

text \<open>
  Allocating a byte object of any length k in a well-formed heap leaves a well-formed heap,
  and reading the object back gives exactly k bytes, all zero, although the length is stored only
  as a slot count and a pad in the format.
\<close>

theorem alloc_bytes_contract:
  assumes "heap_ok h" and "class_ok c" and "alloc_bytes h c k = Some (obj, h')"
  shows "heap_ok h' \<and> is_bytes (header h' obj) \<and> byte_size h' obj = k
    \<and> obj_bytes h' obj = replicate k 0 \<and> obj \<notin> live h \<and> live h' = insert obj (live h)"
  using bytes_alloc.contract [OF assms] fresh_bytes [OF assms] by simp

theorem alloc_bytes_contract_witness:
  "\<exists>h'. alloc_bytes small_heap 17 13 = Some (4096, h') \<and> obj_bytes h' 4096 = replicate 13 0"
proof -
  obtain h' where h': "alloc_bytes small_heap 17 13 = Some (4096, h')"
    by (simp add: alloc_bytes_def alloc_in_young_def small_heap_room alloc_in_small)
  with alloc_bytes_contract [OF small_heap_ok class_ok_17 h'] show ?thesis by blast
qed

subsection \<open>When allocation fails\<close>

lemma alloc_in_None:
  "alloc_in s m c f n = None \<longleftrightarrow> sp_words s * 8 < sp_alloc s * 8 + alloc_footprint n"
  by (auto simp: alloc_in_def alloc_words_def alloc_footprint_def Let_def)

text \<open>
  C35. Allocation fails only for want of room: it returns None exactly when the space the request
  belongs to (old space for a large body, young space otherwise) has fewer free bytes than the
  footprint of the object.
\<close>

theorem alloc_fails_iff_full:
  assumes "heap_ok h"
  shows "(alloc_fixed h c n v = None \<longleftrightarrow>
      bytes_remaining (if large_object_bytes (config h) < n * 8 then old h else young_from h)
        < alloc_footprint n)
    \<and> (alloc_ptrs h c n v = None \<longleftrightarrow>
      bytes_remaining (if large_object_bytes (config h) < n * 8 then old h else young_from h)
        < alloc_footprint n)
    \<and> (alloc_bytes h c k = None \<longleftrightarrow>
      bytes_remaining (if large_object_bytes (config h) < k then old h else young_from h)
        < alloc_footprint ((k + 7) div 8))"
proof -
  have le: "sp_alloc (old h) \<le> sp_words (old h)" "sp_alloc (young_from h) \<le> sp_words (young_from h)"
    using assms by (auto simp: heap_ok_def space_ok_def)
  have full: "alloc_in s m c f i = None \<longleftrightarrow> bytes_remaining s < alloc_footprint i"
    if "sp_alloc s \<le> sp_words s" for s m c f i
    using that by (auto simp: alloc_in_None bytes_remaining_def)
  have huge: "bytes_remaining (old h) < alloc_footprint n" "bytes_remaining (young_from h) < alloc_footprint n"
    if "2 ^ 64 \<le> n * 8"
    using that assms by (auto simp: heap_ok_def space_ok_def bytes_remaining_def alloc_footprint_def)
  have body: "alloc_body h c f n = None \<longleftrightarrow>
      bytes_remaining (if large_object_bytes (config h) < n * 8 then old h else young_from h)
        < alloc_footprint n" for f
    using huge by (cases "n * 8 < 2 ^ 64")
      (simp_all add: alloc_body_def alloc_in_old_def alloc_in_young_def full le)
  show ?thesis
    by (simp add: alloc_fixed_def alloc_ptrs_def body)
       (simp add: alloc_bytes_unfold alloc_in_old_def alloc_in_young_def full le)
qed

theorem alloc_fails_iff_full_witness: "alloc_fixed small_heap 17 100000 0 = None"
  using alloc_fails_iff_full [OF small_heap_ok, of 17 100000 0 0]
  by (simp add: small_heap_def new_heap_def bytes_remaining_def alloc_footprint_def)

subsection \<open>Writes\<close>

lemma slot_set_slot_same: "slot (set_slot_raw h x i v) x i = v"
  by (simp add: slot_def set_slot_raw_def heap_word_def set_word_def)

lemma slot_addr:
  "heap_ok h \<Longrightarrow> x \<in> live h \<Longrightarrow> i < unat (num_slots h x) \<Longrightarrow>
     x + 8 \<le> x + 8 + i * 8 \<and> x + 8 + i * 8 < obj_end h x"
  using storage_of_live(1) [of h x] by simp

lemma slot_set_slot:
  assumes ok: "heap_ok h" and x: "x \<in> live h" and i: "i < unat (num_slots h x)"
    and y: "y \<in> live h" and j: "j < unat (num_slots h y)"
  shows "slot (set_slot_raw h x i v) y j = (if y = x \<and> j = i then v else slot h y j)"
proof (cases "y = x")
  case True
  then show ?thesis
    by (simp add: slot_def set_slot_raw_def heap_word_def set_word_def)
next
  case False
  have "x + 8 + i * 8 \<noteq> y + 8 + j * 8"
    using live_disjoint [OF ok y x False] slot_addr [OF ok x i] slot_addr [OF ok y j]
      storage_of_live(2) [OF ok x] storage_of_live(2) [OF ok y] by linarith
  with False show ?thesis
    by (simp add: slot_def set_slot_raw_def heap_word_def set_word_def)
qed

lemma set_slot_ok:
  assumes "heap_ok h" and "x \<in> live h" and "i < unat (num_slots h x)"
  shows "heap_ok (set_slot_raw h x i v)" and "live (set_slot_raw h x i v) = live h"
    and "objects (set_slot_raw h x i v) (young_from h) = objects h (young_from h)"
    and "objects (set_slot_raw h x i v) (old h) = objects h (old h)"
    and "y \<in> live h \<Longrightarrow> header (set_slot_raw h x i v) y = header h y"
    and "y \<in> live h \<Longrightarrow> num_slots (set_slot_raw h x i v) y = num_slots h y"
proof -
  note a = slot_addr [OF assms]
  show "heap_ok (set_slot_raw h x i v)" and "live (set_slot_raw h x i v) = live h"
    and "objects (set_slot_raw h x i v) (young_from h) = objects h (young_from h)"
    and "objects (set_slot_raw h x i v) (old h) = objects h (old h)"
    unfolding set_slot_raw_def using a by (simp_all add: body_write_ok [OF assms(1,2)])
  show "header (set_slot_raw h x i v) y = header h y"
    and "num_slots (set_slot_raw h x i v) y = num_slots h y" if "y \<in> live h"
    using a body_write_ok(6) [OF assms(1,2) _ _ that]
      same_shape_accessors(2) [OF body_write_ok(3) [OF assms(1,2) _ _ that]]
    unfolding set_slot_raw_def by auto
qed

text \<open>
  Storing into a slot of an object keeps the heap well formed and its set of objects the same;
  afterwards every slot of every object reads as before, except the slot written, which reads as
  the value stored; no header changes.
\<close>

theorem slot_store_frame:
  assumes "heap_ok h" and "x \<in> live h" and "i < unat (num_slots h x)"
  shows "heap_ok (set_slot_raw h x i v) \<and> live (set_slot_raw h x i v) = live h
    \<and> (\<forall>y \<in> live h. header (set_slot_raw h x i v) y = header h y
        \<and> num_slots (set_slot_raw h x i v) y = num_slots h y
        \<and> (\<forall>j < unat (num_slots h y).
             slot (set_slot_raw h x i v) y j = (if y = x \<and> j = i then v else slot h y j)))"
  using set_slot_ok [OF assms] slot_set_slot [OF assms] by blast

theorem slot_store_frame_witness:
  "\<exists>h. alloc_fixed small_heap 17 2 5 = Some (4096, h)
     \<and> slot (set_slot_raw h 4096 1 9) 4096 1 = 9 \<and> slot (set_slot_raw h 4096 1 9) 4096 0 = 5"
proof -
  obtain h where h: "alloc_fixed small_heap 17 2 5 = Some (4096, h)"
    using alloc_fixed_small_heap by blast
  note ct = fixed_alloc.contract [OF small_heap_ok class_ok_17 h]
  have n: "unat (num_slots h 4096) = 2" and s: "\<forall>i < 2. slot h 4096 i = 5"
    using ct(2) by (simp_all add: allocated_def)
  have x: "4096 \<in> live h" using ct(4) by simp
  from slot_store_frame [OF ct(1) x, of 1 9] n x s
  have "slot (set_slot_raw h 4096 1 9) 4096 1 = 9 \<and> slot (set_slot_raw h 4096 1 9) 4096 0 = 5"
    by simp
  with h show ?thesis by blast
qed

lemma slot_set_header:
  assumes ok: "heap_ok h" and x: "x \<in> live h" and y: "y \<in> live h" and j: "j < unat (num_slots h y)"
  shows "slot (set_header h x w) y j = slot h y j"
proof -
  have "x \<noteq> y + 8 + j * 8"
    using live_disjoint [OF ok y x] slot_addr [OF ok y j] storage_of_live(1,2) [OF ok x]
      storage_of_live(2) [OF ok y] by (cases "y = x") auto
  then show ?thesis by (auto simp: slot_def set_header_def heap_word_def set_word_def)
qed

lemma obj_bytes_slots_cong:
  assumes "header h' x = header h x" and "num_slots h' x = num_slots h x"
    and "\<And>i. i < unat (num_slots h x) \<Longrightarrow> slot h' x i = slot h x i"
  shows "obj_bytes h' x = obj_bytes h x"
proof -
  have size: "byte_size h' x = byte_size h x"
    using assms by (simp add: byte_size_def)
  have "byte h' x i = byte h x i" if "i < byte_size h x" for i
  proof -
    have "i div 8 < unat (num_slots h x)"
      using that unfolding byte_size_def Let_def by (intro less_mult_imp_div_less) linarith
    from assms(3) [OF this] show ?thesis
      by (simp add: byte_def slot_def mult.commute)
  qed
  then show ?thesis by (simp add: obj_bytes_def size)
qed

lemma set_immutable_other:
  assumes ok: "heap_ok h" and x: "x \<in> live h" and y: "y \<in> live h"
  shows "num_slots (set_immutable h x) y = num_slots h y"
    and "j < unat (num_slots h y) \<Longrightarrow> slot (set_immutable h x) y j = slot h y j"
    and "y \<noteq> x \<Longrightarrow> header (set_immutable h x) y = header h y"
    and "heap_ok (set_immutable h x)" and "live (set_immutable h x) = live h"
proof -
  let ?w = "with_gc_bits (header h x) (gc_bits (header h x) OR GC_BIT_IMMUTABLE)"
  have fits: "gc_fits (gc_bits (header h x) OR GC_BIT_IMMUTABLE)"
    by (rule gc_fits_or) (simp_all add: gc_field.fits_get, simp add: gc_fits_def hmask_def)
  have eq: "set_immutable h x = set_header h x ?w" by (simp add: set_immutable_def Let_def)
  note sh = shape_bits_with_gc_bits [OF fits, of "header h x"]
  show "num_slots (set_immutable h x) y = num_slots h y"
    using same_shape_accessors(2) [OF header_write_shape [OF ok x sh y]] by (simp add: eq)
  show "j < unat (num_slots h y) \<Longrightarrow> slot (set_immutable h x) y j = slot h y j"
    using slot_set_header [OF ok x y] by (simp add: eq)
  show "y \<noteq> x \<Longrightarrow> header (set_immutable h x) y = header h y"
    by (simp add: eq header_set_header)
  show "heap_ok (set_immutable h x)" and "live (set_immutable h x) = live h"
    using header_write_ok [OF ok x sh] by (simp_all add: eq)
qed

lemma set_immutable_self:
  assumes ok: "heap_ok h" and x: "x \<in> live h"
  shows "is_immutable (set_immutable h x) x"
    and "hdr_class_index (header (set_immutable h x) x) = hdr_class_index (header h x)"
    and "hdr_format (header (set_immutable h x) x) = hdr_format (header h x)"
    and "hdr_hash (header (set_immutable h x) x) = hdr_hash (header h x)"
    and "obj_bytes (set_immutable h x) x = obj_bytes h x"
proof -
  have fits: "gc_fits (gc_bits (header h x) OR GC_BIT_IMMUTABLE)"
    by (rule gc_fits_or) (simp_all add: gc_field.fits_get, simp add: gc_fits_def hmask_def)
  have hd: "header (set_immutable h x) x =
      with_gc_bits (header h x) (gc_bits (header h x) OR GC_BIT_IMMUTABLE)"
    by (simp add: set_immutable_def Let_def header_set_header)
  show "is_immutable (set_immutable h x) x"
    by (simp add: is_immutable_def hd gc_field.get_put [OF fits] word_ao_absorbs)
  show "hdr_class_index (header (set_immutable h x) x) = hdr_class_index (header h x)"
    and fm: "hdr_format (header (set_immutable h x) x) = hdr_format (header h x)"
    and "hdr_hash (header (set_immutable h x) x) = hdr_hash (header h x)"
    using gc_field.outside_put [OF fits, of "header h x"] by (simp_all add: hd)
  note o = set_immutable_other [OF ok x x]
  have "byte_size (set_immutable h x) x = byte_size h x"
    by (simp add: byte_size_def fm o(1))
  moreover have "byte (set_immutable h x) x i = byte h x i" if "i < byte_size h x" for i
  proof -
    have "i div 8 < unat (num_slots h x)"
      using that unfolding byte_size_def Let_def by (intro less_mult_imp_div_less) linarith
    from o(2) [OF this] show ?thesis by (simp add: byte_def slot_def mult.commute)
  qed
  ultimately show "obj_bytes (set_immutable h x) x = obj_bytes h x"
    by (simp add: obj_bytes_def)
qed

text \<open>
  Setting the immutable bit of an object keeps the heap well formed, marks that object,
  and leaves its class, format, slot count, hash and every slot of every object as they were.
\<close>

theorem set_immutable_frame:
  assumes "heap_ok h" and "x \<in> live h"
  shows "heap_ok (set_immutable h x) \<and> live (set_immutable h x) = live h
    \<and> is_immutable (set_immutable h x) x
    \<and> hdr_class_index (header (set_immutable h x) x) = hdr_class_index (header h x)
    \<and> hdr_format (header (set_immutable h x) x) = hdr_format (header h x)
    \<and> num_slots (set_immutable h x) x = num_slots h x
    \<and> hdr_hash (header (set_immutable h x) x) = hdr_hash (header h x)
    \<and> (\<forall>y \<in> live h. \<forall>j < unat (num_slots h y). slot (set_immutable h x) y j = slot h y j)"
  using set_immutable_self [OF assms] set_immutable_other [OF assms] assms(2) by blast

theorem set_immutable_frame_witness:
  "\<exists>h. alloc_fixed small_heap 17 2 5 = Some (4096, h) \<and> is_immutable (set_immutable h 4096) 4096
     \<and> hdr_class_index (header (set_immutable h 4096) 4096) = 17"
proof -
  obtain h where h: "alloc_fixed small_heap 17 2 5 = Some (4096, h)"
    using alloc_fixed_small_heap by blast
  note ct = fixed_alloc.contract [OF small_heap_ok class_ok_17 h]
  have "4096 \<in> live h" and "hdr_class_index (header h 4096) = 17"
    using ct(2,4) by (simp_all add: allocated_def)
  with set_immutable_frame [OF ct(1), of 4096] h show ?thesis by auto
qed

subsection \<open>Bytes\<close>

lemma bit_byte_of: "n < 8 \<Longrightarrow> bit (ucast (drop_bit k X :: u64) :: u8) n \<longleftrightarrow> bit X (k + n)"
  by (simp add: bit_ucast_iff bit_drop_bit_eq)

lemma mask_8_u64: "(255 :: u64) = mask 8"
  by (simp add: mask_eq_exp_minus_1)

lemma byte_of_update:
  assumes "s < 8" and "t < 8"
  shows "(ucast (drop_bit (8 * t)
      ((w AND NOT (push_bit (8 * s) 255)) OR push_bit (8 * s) (ucast (b :: u8))) :: u64) :: u8)
    = (if t = s then b else ucast (drop_bit (8 * t) (w :: u64)))"
proof (rule bit_word_eqI)
  fix n assume n: "n < LENGTH(8)"
  have m: "8 * t + n < 64" using n assms by simp
  have small: "\<not> bit (ucast b :: u64) k" if "8 \<le> k" for k
    using that bit_imp_le_length [of b k] by (auto simp: bit_ucast_iff)
  have out: "t \<noteq> s \<Longrightarrow> 8 * s \<le> 8 * t + n \<Longrightarrow> 8 \<le> 8 * t + n - 8 * s" using n by auto
  have "bit (ucast (drop_bit (8 * t) ((w AND NOT (push_bit (8 * s) 255)) OR push_bit (8 * s) (ucast b)))
      :: u8) n
    \<longleftrightarrow> bit ((w AND NOT (push_bit (8 * s) 255)) OR push_bit (8 * s) (ucast b)) (8 * t + n)"
    using n by (intro bit_byte_of) simp
  also have "\<dots> \<longleftrightarrow> (if t = s then bit b n else bit w (8 * t + n))"
    using n m small out
    unfolding mask_8_u64
    by (auto simp: bit_or_iff bit_and_iff bit_not_iff bit_push_bit_iff bit_mask_64 bit_ucast_iff)
  also have "\<dots> \<longleftrightarrow> bit (if t = s then b else ucast (drop_bit (8 * t) w)) n"
    using n bit_byte_of [of n "8 * t" w] by simp
  finally show "bit (ucast (drop_bit (8 * t)
      ((w AND NOT (push_bit (8 * s) 255)) OR push_bit (8 * s) (ucast b))) :: u8) n
    = bit (if t = s then b else ucast (drop_bit (8 * t) w)) n" .
qed

lemma byte_set_byte: "byte (set_byte h x i b) x j = (if j = i then b else byte h x j)"
proof (cases "j div 8 = i div 8")
  case False
  then have "j \<noteq> i" and "x + 8 + 8 * (j div 8) \<noteq> x + 8 + 8 * (i div 8)" by auto
  then show ?thesis by (simp add: byte_def set_byte_def heap_word_def set_word_def Let_def)
next
  case True
  have "j = i \<longleftrightarrow> j mod 8 = i mod 8" using True by (metis div_mult_mod_eq)
  moreover have "byte (set_byte h x i b) x j = ucast (drop_bit (8 * (j mod 8))
      ((mem h (x + 8 + 8 * (i div 8)) AND NOT (push_bit (8 * (i mod 8)) 255))
       OR push_bit (8 * (i mod 8)) (ucast b)))"
    unfolding byte_def set_byte_def Let_def True
    by (simp only: set_word_sel(1) fun_upd_same heap_word_def)
  ultimately show ?thesis
    using True byte_of_update [of "i mod 8" "j mod 8"] by (simp add: byte_def heap_word_def)
qed

lemma set_byte_ok:
  assumes ok: "heap_ok h" and x: "x \<in> live h" and i: "i < byte_size h x"
  shows "heap_ok (set_byte h x i b)" and "live (set_byte h x i b) = live h"
    and "y \<in> live h \<Longrightarrow> header (set_byte h x i b) y = header h y"
    and "byte_size (set_byte h x i b) x = byte_size h x"
proof -
  have "i div 8 < unat (num_slots h x)"
    using i unfolding byte_size_def Let_def by (intro less_mult_imp_div_less) linarith
  then have a: "x + 8 \<le> x + 8 + 8 * (i div 8)" "x + 8 + 8 * (i div 8) < obj_end h x"
    using slot_addr [OF ok x, of "i div 8"] by (simp_all add: mult.commute)
  note w = body_write_ok [OF ok x a]
  show "heap_ok (set_byte h x i b)" and "live (set_byte h x i b) = live h"
    by (simp_all add: set_byte_def Let_def w)
  show hd: "header (set_byte h x i b) y = header h y" if "y \<in> live h" for y
    by (simp add: set_byte_def Let_def w(6) [OF that])
  show "byte_size (set_byte h x i b) x = byte_size h x"
    using hd [OF x] same_shape_accessors(2) [OF w(3) [OF x]]
    by (simp add: byte_size_def) (simp add: set_byte_def Let_def)
qed

lemma write_bytes_from_ok:
  assumes "heap_ok h" and "x \<in> live h" and "i + length bs \<le> byte_size h x"
  shows "heap_ok (write_bytes_from h x i bs) \<and> live (write_bytes_from h x i bs) = live h
    \<and> byte_size (write_bytes_from h x i bs) x = byte_size h x
    \<and> header (write_bytes_from h x i bs) x = header h x
    \<and> (\<forall>j. byte (write_bytes_from h x i bs) x j =
            (if i \<le> j \<and> j < i + length bs then bs ! (j - i) else byte h x j))"
  using assms
proof (induction bs arbitrary: h i)
  case (Cons b bs)
  have i: "i < byte_size h x" using Cons.prems by simp
  note s = set_byte_ok [OF Cons.prems(1,2) i, where b = b]
  note IH = Cons.IH [of "set_byte h x i b" "i + 1"]
  have "byte (write_bytes_from (set_byte h x i b) x (i + 1) bs) x j =
      (if i \<le> j \<and> j < i + length (b # bs) then (b # bs) ! (j - i) else byte h x j)" for j
    using IH s Cons.prems by (auto simp: byte_set_byte nth_Cons' not_less)
  with IH s Cons.prems show ?case by simp
qed auto

text \<open>
  Writing bytes into a byte object and reading the object back gives the bytes written
  followed by the bytes that were there, and the heap stays well formed with the same objects and
  the same header.
\<close>

theorem write_bytes_roundtrip:
  assumes "heap_ok h" and "x \<in> live h" and "length bs \<le> byte_size h x"
  shows "obj_bytes (write_bytes h x bs) x = bs @ drop (length bs) (obj_bytes h x)
    \<and> heap_ok (write_bytes h x bs) \<and> live (write_bytes h x bs) = live h
    \<and> header (write_bytes h x bs) x = header h x"
proof -
  note w = write_bytes_from_ok [of h x 0 bs]
  have "obj_bytes (write_bytes h x bs) x = bs @ drop (length bs) (obj_bytes h x)"
    using w assms
    by (intro nth_equalityI) (auto simp: obj_bytes_def write_bytes_def nth_append)
  with w assms show ?thesis by (simp add: write_bytes_def)
qed

theorem write_bytes_roundtrip_witness:
  "\<exists>h. alloc_bytes small_heap 17 5 = Some (4096, h)
     \<and> obj_bytes (write_bytes h 4096 [72, 105, 33]) 4096 = [72, 105, 33, 0, 0]"
proof -
  obtain h where h: "alloc_bytes small_heap 17 5 = Some (4096, h)"
    by (simp add: alloc_bytes_def alloc_in_young_def small_heap_room alloc_in_small)
  note ct = bytes_alloc.contract [OF small_heap_ok class_ok_17 h]
  have r: "byte_size h 4096 = 5 \<and> obj_bytes h 4096 = replicate 5 0"
    using fresh_bytes [OF small_heap_ok class_ok_17 h] by simp
  have d: "drop (length [72, 105, 33 :: u8]) (replicate 5 0) = [0, 0 :: u8]"
    by (simp add: numeral_2_eq_2)
  from write_bytes_roundtrip [OF ct(1), of 4096 "[72, 105, 33]"] ct(4) r d h
  show ?thesis by auto
qed

end
