(* ===== verification/Vm_Counters.thy ===== *)
theory Vm_Counters
  imports Treaty
begin

section \<open>Event counters\<close>

text \<open>
  The Counters struct of src/counters.rs and the operations on it alone: new, reset, record_gap
  and the opcode names of the report. Every u64 counter is a nat (an increment by one cannot reach
  2 to the 64 in any run); fixed-size arrays and boxed slices are lists of their length.
\<close>

definition GAP_BUCKETS :: nat where
  "GAP_BUCKETS = 40"

record counters =
  inline_cache_miss :: nat
  global_cache_miss :: nat
  dict_walks :: nat
  dict_classes_walked :: nat
  dnu :: nat
  must_be_boolean :: nat
  sends_staged :: nat
  spec_fallthrough :: "nat list"
  prim_calls :: "nat list"
  prim_fails :: "nat list"
  scavenge_ns :: nat
  compact_ns :: nat
  gc_bytes_copied :: nat
  gc_bytes_tenured :: nat
  gc_ssb_drained :: nat
  gc_ssb_drained_max :: nat
  gc_remembered_rebuilt :: nat
  process_switches :: nat
  semaphore_blocks :: nat
  unwind_runs :: nat
  ensure_interceptions :: nat
  nlrs :: nat
  cache_flushes :: nat
  method_installs :: nat
  bitblt_calls :: nat
  pixels_blitted :: nat
  glyphs_drawn :: nat
  events_processed :: nat
  frames_presented :: nat
  gate :: bool
  insns :: nat
  sends :: nat
  opcode_hist :: "nat list"
  gap_current :: nat
  gap_max :: nat
  gap_hist :: "nat list"

definition new_counters :: counters where
  "new_counters =
     \<lparr>inline_cache_miss = 0, global_cache_miss = 0, dict_walks = 0, dict_classes_walked = 0,
      dnu = 0, must_be_boolean = 0, sends_staged = 0,
      spec_fallthrough = replicate SPECSEL_COUNT 0,
      prim_calls = replicate PRIM_TABLE_SIZE 0, prim_fails = replicate PRIM_TABLE_SIZE 0,
      scavenge_ns = 0, compact_ns = 0, gc_bytes_copied = 0, gc_bytes_tenured = 0,
      gc_ssb_drained = 0, gc_ssb_drained_max = 0, gc_remembered_rebuilt = 0,
      process_switches = 0, semaphore_blocks = 0, unwind_runs = 0, ensure_interceptions = 0,
      nlrs = 0, cache_flushes = 0, method_installs = 0,
      bitblt_calls = 0, pixels_blitted = 0, glyphs_drawn = 0, events_processed = 0,
      frames_presented = 0, gate = False, insns = 0, sends = 0,
      opcode_hist = replicate 256 0, gap_current = 0, gap_max = 0,
      gap_hist = replicate GAP_BUCKETS 0\<rparr>"

definition reset_counters_only :: "counters \<Rightarrow> counters" where
  "reset_counters_only c = new_counters\<lparr>gate := gate c\<rparr>"

text \<open>u64::leading_zeros of the standard library, on the value as a nat.\<close>

fun bit_len :: "nat \<Rightarrow> nat" where
  "bit_len n = (if n = 0 then 0 else 1 + bit_len (n div 2))"

declare bit_len.simps [simp del]

definition leading_zeros :: "nat \<Rightarrow> nat" where
  "leading_zeros n = 64 - bit_len n"

definition record_gap :: "counters \<Rightarrow> counters" where
  "record_gap c =
     (let g = gap_current c;
          c1 = c\<lparr>gap_current := 0\<rparr>;
          c2 = (if gap_max c1 < g then c1\<lparr>gap_max := g\<rparr> else c1);
          bucket = min (64 - leading_zeros g) (GAP_BUCKETS - 1)
      in c2\<lparr>gap_hist := (gap_hist c2)[bucket := gap_hist c2 ! bucket + 1]\<rparr>)"

definition opcode_name :: "u8 \<Rightarrow> string option" where
  "opcode_name op =
     (if op = OP_NOP then Some ''NOP''
      else if op = OP_BREAK then Some ''BREAK''
      else if op = OP_MOVE then Some ''MOVE''
      else if op = OP_LOADK then Some ''LOADK''
      else if op = OP_LOADINT then Some ''LOADINT''
      else if op = OP_LOADNIL then Some ''LOADNIL''
      else if op = OP_LOADTRUE then Some ''LOADTRUE''
      else if op = OP_LOADFALSE then Some ''LOADFALSE''
      else if op = OP_LOADSELF then Some ''LOADSELF''
      else if op = OP_GETIVAR then Some ''GETIVAR''
      else if op = OP_SETIVAR then Some ''SETIVAR''
      else if op = OP_GETBOX then Some ''GETBOX''
      else if op = OP_SETBOX then Some ''SETBOX''
      else if op = OP_MKBOX then Some ''MKBOX''
      else if op = OP_SEND then Some ''SEND''
      else if op = OP_SENDSUPER then Some ''SENDSUPER''
      else if op = OP_RET then Some ''RET''
      else if op = OP_RETSELF then Some ''RETSELF''
      else if op = OP_NLR then Some ''NLR''
      else if op = OP_PRIM then Some ''PRIM''
      else if op = OP_MKCLOSURE then Some ''MKCLOSURE''
      else if op = OP_CAPTURE then Some ''CAPTURE''
      else if op = OP_JUMP then Some ''JUMP''
      else if op = OP_JUMPTRUE then Some ''JUMPTRUE''
      else if op = OP_JUMPFALSE then Some ''JUMPFALSE''
      else if op = OP_ADD then Some ''ADD''
      else if op = OP_SUB then Some ''SUB''
      else if op = OP_MUL then Some ''MUL''
      else if op = OP_DIV then Some ''DIV''
      else if op = OP_MOD then Some ''MOD''
      else if op = OP_LT then Some ''LT''
      else if op = OP_GT then Some ''GT''
      else if op = OP_LE then Some ''LE''
      else if op = OP_GE then Some ''GE''
      else if op = OP_EQNUM then Some ''EQNUM''
      else if op = OP_AT then Some ''AT''
      else if op = OP_ATPUT then Some ''ATPUT''
      else if op = OP_SIZE then Some ''SIZE''
      else if op = OP_CLASSOF then Some ''CLASSOF''
      else if op = OP_NOT then Some ''NOT''
      else if op = OP_IDEQ then Some ''IDEQ''
      else None)"

definition SPECSEL_NAMES :: "string list" where
  "SPECSEL_NAMES =
     [''+'', ''-'', ''*'', ''//'', [CHR 92, CHR 92], ''<'', ''>'', ''<='', ''>='', ''='', ''=='',
      ''at:'', ''at:put:'', ''size'', ''class'', ''not'']"

subsection \<open>The gap histogram\<close>

lemma bit_len_bounds: "0 < n \<Longrightarrow> 2 ^ (bit_len n - 1) \<le> n \<and> n < 2 ^ bit_len n \<and> 0 < bit_len n"
proof (induction n rule: bit_len.induct)
  case (1 n)
  show ?case
  proof (cases "n div 2 = 0")
    case True
    with 1(2) have "n = 1" by (cases n) auto
    then show ?thesis by (simp add: bit_len.simps [of 0] bit_len.simps [of "Suc 0"])
  next
    case False
    have e: "bit_len n = Suc (bit_len (n div 2))" using 1(2) by (simp add: bit_len.simps [of n])
    from 1 False have IH: "2 ^ (bit_len (n div 2) - 1) \<le> n div 2 \<and> n div 2 < 2 ^ bit_len (n div 2)
        \<and> 0 < bit_len (n div 2)" by simp
    then obtain k where k: "bit_len (n div 2) = Suc k" by (cases "bit_len (n div 2)") auto
    from IH show ?thesis by (simp add: e k) linarith
  qed
qed

lemma bit_len_le_64: "n < 2 ^ 64 \<Longrightarrow> bit_len n \<le> 64"
proof (rule ccontr)
  assume n: "n < 2 ^ 64" and l: "\<not> bit_len n \<le> 64"
  then have "0 < n" by (cases n) (auto simp: bit_len.simps [of 0])
  with bit_len_bounds [of n] have "2 ^ (bit_len n - 1) \<le> n" by simp
  moreover have "(2 :: nat) ^ 64 \<le> 2 ^ (bit_len n - 1)" using l by (intro power_increasing) auto
  ultimately show False using n by simp
qed

lemma bucket_eq: "n < 2 ^ 64 \<Longrightarrow> 64 - leading_zeros n = bit_len n"
  using bit_len_le_64 [of n] by (simp add: leading_zeros_def)

definition gap_bucket :: "nat \<Rightarrow> nat" where
  "gap_bucket g = min (64 - leading_zeros g) (GAP_BUCKETS - 1)"

text \<open>
  C39. Recording a gap adds one to exactly one bucket of the histogram: bucket 0 for a gap of 0,
  bucket i for a gap of at least 2 to the (i - 1) and less than 2 to the i, and the last bucket, 39,
  for every gap from 2 to the 38 up. The current gap restarts at zero and the maximum is kept.
\<close>

theorem record_gap_bucket:
  assumes "length (gap_hist c) = GAP_BUCKETS" and "gap_current c < 2 ^ 64"
  shows "\<exists>i < GAP_BUCKETS. gap_hist (record_gap c) = (gap_hist c)[i := gap_hist c ! i + 1]
      \<and> (gap_current c = 0 \<longleftrightarrow> i = 0)
      \<and> (0 < i \<longrightarrow> 2 ^ (i - 1) \<le> gap_current c) \<and> (i < 39 \<longrightarrow> gap_current c < 2 ^ i)
      \<and> gap_current (record_gap c) = 0
      \<and> gap_max (record_gap c) = max (gap_max c) (gap_current c)"
proof -
  have rest: "gap_current (record_gap c) = 0"
    "gap_max (record_gap c) = max (gap_max c) (gap_current c)"
    by (simp_all add: record_gap_def Let_def max_def)
  let ?g = "gap_current c" and ?i = "gap_bucket (gap_current c)"
  have i: "?i = min (bit_len ?g) 39"
    using assms(2) by (simp add: gap_bucket_def bucket_eq GAP_BUCKETS_def)
  have h: "gap_hist (record_gap c) = (gap_hist c)[?i := gap_hist c ! ?i + 1]"
    by (simp add: record_gap_def Let_def gap_bucket_def)
  have z: "?g = 0 \<longleftrightarrow> bit_len ?g = 0"
    using bit_len_bounds [of ?g] by (cases "?g = 0") (auto simp: bit_len.simps [of 0])
  have lo: "2 ^ (?i - 1) \<le> ?g" if "0 < ?i"
  proof -
    have "0 < ?g" using z that i by auto
    then have "2 ^ (bit_len ?g - 1) \<le> ?g" using bit_len_bounds by blast
    moreover have "(2 :: nat) ^ (?i - 1) \<le> 2 ^ (bit_len ?g - 1)"
      by (rule power_increasing) (auto simp: i)
    ultimately show ?thesis by (rule le_trans [rotated])
  qed
  have hi: "?g < 2 ^ ?i" if "?i < 39"
    using that z bit_len_bounds [of ?g] by (cases "?g = 0") (auto simp: i min_def split: if_splits)
  have "?g = 0 \<longleftrightarrow> ?i = 0" using z by (simp add: i min_def)
  with h lo hi rest show ?thesis
    by (intro exI [of _ ?i]) (auto simp: i GAP_BUCKETS_def)
qed

theorem record_gap_bucket_witness:
  "gap_current (record_gap (new_counters\<lparr>gap_current := 1000\<rparr>)) = 0
   \<and> gap_max (record_gap (new_counters\<lparr>gap_current := 1000\<rparr>)) = 1000"
proof -
  have "length (gap_hist (new_counters\<lparr>gap_current := 1000\<rparr>)) = GAP_BUCKETS"
    and "gap_current (new_counters\<lparr>gap_current := 1000\<rparr>) < 2 ^ 64"
    by (simp_all add: new_counters_def)
  from record_gap_bucket [OF this] show ?thesis by (auto simp: new_counters_def)
qed

end
