(* ===== verification/Host_Ui.thy ===== *)
theory Host_Ui
  imports Prelude
begin

section \<open>The host side of the user interface\<close>

text \<open>
  src/host_ui.rs without the windowed backend of the feature ui: the present buffer, the queue of
  host events and the clock. Without that feature harvesting events changes nothing. The reading of
  the real clock is an argument, and the diagnostics switch is left out with the messages it gates.
\<close>

datatype time_source = Real | Virtual u64

record host_ui =
  hu_buffer :: "u32 list"
  hu_width :: u32
  hu_height :: u32
  hu_events :: "int list list"
  hu_clock :: time_source

definition new_host_ui :: host_ui where
  "new_host_ui = \<lparr>hu_buffer = [], hu_width = 0, hu_height = 0, hu_events = [], hu_clock = Real\<rparr>"

definition push_event :: "host_ui \<Rightarrow> int list \<Rightarrow> host_ui" where
  "push_event u ev = u\<lparr>hu_events := hu_events u @ [ev]\<rparr>"

definition pop_event :: "host_ui \<Rightarrow> (int list \<times> host_ui) option" where
  "pop_event u =
     (case hu_events u of [] \<Rightarrow> None | ev # evs \<Rightarrow> Some (ev, u\<lparr>hu_events := evs\<rparr>))"

definition harvest :: "host_ui \<Rightarrow> host_ui" where
  "harvest u = u"

subsection \<open>Presenting a form\<close>

text \<open>A byte past the end of the bits reads as zero.\<close>

definition mono_set :: "nat \<Rightarrow> u8 list \<Rightarrow> nat \<Rightarrow> nat \<Rightarrow> bool" where
  "mono_set stride bits y x =
     (let i = y * stride + drop_bit 3 x;
          byte = (if i < length bits then bits ! i else 0)
      in drop_bit (7 - (x AND 7)) byte AND 1 = 1)"

definition mono_stride :: "u32 \<Rightarrow> nat" where
  "mono_stride width = (unat width + 7) div 8"

definition present_mono :: "host_ui \<Rightarrow> u32 \<Rightarrow> u32 \<Rightarrow> u8 list \<Rightarrow> host_ui" where
  "present_mono u width height bits =
     u\<lparr>hu_buffer := concat (map (\<lambda>y. map (\<lambda>x.
            if mono_set (mono_stride width) bits y x then 0xFF000000 else 0xFFFFFFFF)
          [0..<unat width]) [0..<unat height]),
       hu_width := width, hu_height := height\<rparr>"

definition mono_to_rgb :: "u32 \<Rightarrow> u32 \<Rightarrow> u8 list \<Rightarrow> u8 list" where
  "mono_to_rgb width height bits =
     concat (map (\<lambda>y. concat (map (\<lambda>x.
        let v = (if mono_set (mono_stride width) bits y x then 0 else 255) in [v, v, v])
       [0..<unat width])) [0..<unat height])"

subsection \<open>The clock\<close>

definition use_virtual_clock :: "host_ui \<Rightarrow> host_ui" where
  "use_virtual_clock u = u\<lparr>hu_clock := Virtual 0\<rparr>"

definition advance_virtual_ns :: "host_ui \<Rightarrow> u64 \<Rightarrow> host_ui" where
  "advance_virtual_ns u dt =
     (case hu_clock u of
        Virtual now \<Rightarrow> u\<lparr>hu_clock := Virtual (now + dt)\<rparr>
      | Real \<Rightarrow> u)"

definition mono_ns :: "host_ui \<Rightarrow> u64 \<Rightarrow> u64" where
  "mono_ns u elapsed = (case hu_clock u of Virtual now \<Rightarrow> now | Real \<Rightarrow> elapsed)"

subsection \<open>Lemmas\<close>

interpretation host_queue:
  fifo "\<lambda>u evs. hu_events u = evs" "\<lambda>u ev. True" push_event pop_event
  by unfold_locales (auto simp: push_event_def pop_event_def)

lemma concat_rows_nth:
  "y < h \<Longrightarrow> x < w \<Longrightarrow> concat (map (\<lambda>y. map (f y) [0..<w]) [0..<h]) ! (y * w + x) = f y x"
proof (induction h)
  case (Suc h)
  have l: "length (concat (map (\<lambda>y. map (f y) [0..<w]) [0..<h])) = h * w"
    by (simp add: length_concat comp_def sum_list_triv)
  show ?case
  proof (cases "y < h")
    case True
    then have "y * w + x < h * w"
      using Suc.prems(2) mult_le_mono1 [of "Suc y" h w] by simp
    with True Suc show ?thesis by (simp add: nth_append l)
  next
    case False
    then show ?thesis using Suc.prems by (simp add: nth_append l less_Suc_eq)
  qed
qed simp



end
