(* ===== verification/Vm_State.thy ===== *)
theory Vm_State
  imports Heap_Properties Vm_Counters Host_Ui
begin

section \<open>The VM state, symbols and the write barrier\<close>

text \<open>
  The Vm struct of src/vm.rs and the operations on it that need no lookup: the well-known
  values, symbol interning, the write barrier, identity hashes and class registration. Of the
  safepoint flags shared with the profiler thread the record has the one that arms the poll. The
  fields for the start of the clock and the profiler are not part of it: no operation modelled on it
  reads them; of an open file the record has that it is open. Vectors are lists; an index out of range is the outcome
  Panic, except for the special objects, whose array has its full length from bootstrap on.
\<close>

record lookup_entry =
  le_class_index :: u32
  le_selector :: "value"
  le_method :: "value"

definition default_lookup_entry :: lookup_entry where
  "default_lookup_entry = \<lparr>le_class_index = 0, le_selector = 0, le_method = 0\<rparr>"

record vm =
  vm_heap :: heap
  class_table :: "value list"
  specials :: "value list"
  symbols :: "(u8 list \<times> value) list"
  temp_roots :: "value list"
  active_process :: "value"
  site_registry :: "value list"
  lookup_cache :: "lookup_entry list"
  hash_counter :: u32
  safepoint_armed :: bool
  gc_epoch :: nat
  max_stack_bytes :: nat
  stdout_capture :: "u8 list"
  scavenge_count :: nat
  compact_count :: nat
  stack_grow_count :: nat
  tenure_threshold :: nat
  open_files :: "bool list"
  timer_requests :: "(int \<times> value) list"
  snapshot_after_sends :: "(nat \<times> string) option"
  sends_seen :: nat
  snapshot_fired_at_capture_len :: "nat option"
  vm_counters :: counters
  vm_host :: host_ui

record vm_config =
  vc_heap :: heap_config
  vc_max_stack_bytes :: nat

definition default_vm_config :: vm_config where
  "default_vm_config =
     \<lparr>vc_heap = default_heap_config, vc_max_stack_bytes = DEFAULT_MAX_STACK_BYTES\<rparr>"

definition fatal :: "string \<Rightarrow> 'a outcome" where
  "fatal msg = Err (Fatal msg)"

text \<open>The literal Vm bare starts from, before bootstrap fills it; the heap is a parameter.\<close>

definition bare_literal :: "heap \<Rightarrow> nat \<Rightarrow> vm" where
  "bare_literal h max_stack =
     \<lparr>vm_heap = h, class_table = [], specials = [], symbols = [], temp_roots = [],
      active_process = 0, site_registry = [],
      lookup_cache = replicate LOOKUP_CACHE_SIZE default_lookup_entry, hash_counter = 0,
      safepoint_armed = False, gc_epoch = 0, max_stack_bytes = max_stack, stdout_capture = [], scavenge_count = 0,
      compact_count = 0, stack_grow_count = 0, tenure_threshold = unat TENURE_AGE, open_files = [],
      timer_requests = [], snapshot_after_sends = None, sends_seen = 0,
      snapshot_fired_at_capture_len = None, vm_counters = new_counters, vm_host = new_host_ui\<rparr>"

subsection \<open>Well-known values\<close>

definition nil :: "vm \<Rightarrow> value" where
  "nil vm = specials vm ! SPECIAL_NIL"

definition true_v :: "vm \<Rightarrow> value" where
  "true_v vm = specials vm ! SPECIAL_TRUE"

definition false_v :: "vm \<Rightarrow> value" where
  "false_v vm = specials vm ! SPECIAL_FALSE"

definition bool_v :: "vm \<Rightarrow> bool \<Rightarrow> value" where
  "bool_v vm b = (if b then true_v vm else false_v vm)"

definition set_special :: "vm \<Rightarrow> nat \<Rightarrow> value \<Rightarrow> vm outcome" where
  "set_special vm idx v =
     (if idx < length (specials vm) then Ok (vm\<lparr>specials := (specials vm)[idx := v]\<rparr>) else Panic)"

definition class_table_at :: "vm \<Rightarrow> u32 \<Rightarrow> value outcome" where
  "class_table_at vm idx =
     (if unat idx < length (class_table vm) then Ok (class_table vm ! unat idx) else Panic)"

subsection \<open>Slots of the heap of the VM\<close>

definition vslot :: "vm \<Rightarrow> nat \<Rightarrow> nat \<Rightarrow> value" where
  "vslot vm obj i = slot (vm_heap vm) obj i"

definition vset_slot_raw :: "vm \<Rightarrow> nat \<Rightarrow> nat \<Rightarrow> value \<Rightarrow> vm" where
  "vset_slot_raw vm obj i v = vm\<lparr>vm_heap := set_slot_raw (vm_heap vm) obj i v\<rparr>"

subsection \<open>Symbols\<close>

definition intern_bytes :: "vm \<Rightarrow> u8 list \<Rightarrow> (value \<times> vm) outcome" where
  "intern_bytes vm bs =
     (case find (\<lambda>(b, v). b = bs) (symbols vm) of
        Some (_, v) \<Rightarrow> Ok (v, vm)
      | None \<Rightarrow>
          (case alloc_bytes_old (vm_heap vm) CLASS_SYMBOL (length bs) of
             None \<Rightarrow> Panic
           | Some (addr, h) \<Rightarrow>
               rbind (from_ptr_checked addr) (\<lambda>v.
               let h1 = write_bytes h addr bs;
                   h2 = set_immutable h1 addr
               in Ok (v, vm\<lparr>vm_heap := h2, symbols := symbols vm @ [(bs, v)]\<rparr>))))"

definition intern :: "vm \<Rightarrow> string \<Rightarrow> (value \<times> vm) outcome" where
  "intern vm s = intern_bytes vm (map (of_char :: char \<Rightarrow> u8) s)"

subsection \<open>The write barrier\<close>

definition remember :: "heap \<Rightarrow> nat \<Rightarrow> heap" where
  "remember h obj =
     (let w = header h obj
      in if gc_bits w AND GC_BIT_REMEMBERED = 0
         then (set_header h obj (with_gc_bits w (gc_bits w OR GC_BIT_REMEMBERED)))
                \<lparr>ssb := ssb h @ [obj]\<rparr>
         else h)"

definition write_barrier :: "vm \<Rightarrow> nat \<Rightarrow> value \<Rightarrow> vm" where
  "write_barrier vm obj v =
     (let h = vm_heap vm
      in if is_ptr v \<and> is_young h (as_ptr v) \<and> in_old_space h obj
         then vm\<lparr>vm_heap := remember h obj\<rparr>
         else vm)"

definition store_slot :: "vm \<Rightarrow> nat \<Rightarrow> nat \<Rightarrow> value \<Rightarrow> vm" where
  "store_slot vm obj i v = write_barrier (vset_slot_raw vm obj i v) obj v"

subsection \<open>Classes of values\<close>

definition class_index_of :: "vm \<Rightarrow> value \<Rightarrow> u32" where
  "class_index_of vm v =
     (if is_int v then CLASS_SMALLINTEGER else hdr_class_index (header (vm_heap vm) (as_ptr v)))"

definition class_of :: "vm \<Rightarrow> value \<Rightarrow> value outcome" where
  "class_of vm v = class_table_at vm (class_index_of vm v)"

definition class_format_and_slots :: "vm \<Rightarrow> value \<Rightarrow> u64 \<times> nat" where
  "class_format_and_slots vm cls =
     (let fas = as_int (vslot vm (as_ptr cls) BEHAVIOR_FORMAT_AND_SLOTS)
      in (word_of_int (fas div 2 ^ FORMAT_AND_SLOTS_FORMAT_SHIFT),
          unat ((word_of_int fas :: u64) AND FORMAT_AND_SLOTS_NSLOTS_MASK)))"

subsection \<open>Identity hashes\<close>

text \<open>
  The loop runs again only when the counter wraps to zero, and the increment of zero is one, so
  it ends after at most two rounds.
\<close>

definition next_hash :: "u32 \<Rightarrow> u32" where
  "next_hash c = (c + 1) AND (push_bit HDR_HASH_BITS 1 - 1)"

function next_hash_loop :: "u32 \<Rightarrow> u32" where
  "next_hash_loop c = (let c' = next_hash c in if c' \<noteq> 0 then c' else next_hash_loop c')"
  by pat_completeness auto
termination
  by (relation "measure (\<lambda>c. if c = 0 then 0 else 1)") (auto simp: next_hash_def)

declare next_hash_loop.simps [simp del]

definition next_identity_hash :: "vm \<Rightarrow> u32 \<times> vm" where
  "next_identity_hash vm =
     (let c = next_hash_loop (hash_counter vm) in (c, vm\<lparr>hash_counter := c\<rparr>))"

definition identity_hash_of :: "vm \<Rightarrow> value \<Rightarrow> int \<times> vm" where
  "identity_hash_of vm v =
     (if is_int v then (as_int v, vm)
      else let addr = as_ptr v; w = header (vm_heap vm) addr
           in if hdr_hash w = 0
              then let (n, vm1) = next_identity_hash vm
                   in (uint n, vm1\<lparr>vm_heap := set_header (vm_heap vm1) addr (with_hash w n)\<rparr>)
              else (uint (hdr_hash w), vm))"

end
