(* ===== verification/Remembered_Set.thy ===== *)
theory Remembered_Set
  imports Vm_State
begin

section \<open>The remembered set\<close>

text \<open>
  What the scavenger relies on (SPEC 14, Vm::write_barrier in src/vm.rs): every old object that
  holds a pointer into young space is in the store buffer, except the stack of the running process,
  and an old object has its remembered bit set exactly when it is in the buffer. The lemmas show
  that a barrier-checked store keeps this, wherever it stores.
\<close>

definition holds_young :: "heap \<Rightarrow> nat \<Rightarrow> bool" where
  "holds_young h x \<longleftrightarrow> \<not> is_bytes (header h x) \<and>
     (\<exists>i < unat (num_slots h x). is_ptr (slot h x i) \<and> is_young h (as_ptr (slot h x i)))"

definition remembered :: "heap \<Rightarrow> nat \<Rightarrow> bool" where
  "remembered h x \<longleftrightarrow> gc_bits (header h x) AND GC_BIT_REMEMBERED \<noteq> 0"

definition ssb_ok :: "heap \<Rightarrow> bool" where
  "ssb_ok h \<longleftrightarrow> distinct (ssb h) \<and> set (ssb h) \<subseteq> set (objects h (old h))
     \<and> (\<forall>x \<in> set (objects h (old h)). remembered h x \<longleftrightarrow> x \<in> set (ssb h))"

definition remembered_set_ok :: "heap \<Rightarrow> nat set \<Rightarrow> bool" where
  "remembered_set_ok h exempt \<longleftrightarrow> ssb_ok h \<and>
     (\<forall>x \<in> set (objects h (old h)). x \<notin> exempt \<longrightarrow> holds_young h x \<longrightarrow> x \<in> set (ssb h))"

subsection \<open>Old objects\<close>

lemma old_object_in_space:
  assumes "heap_ok h" and "x \<in> set (objects h (old h))"
  shows "in_old_space h x" and "\<not> is_young h x" and "x \<in> live h"
proof -
  have r: "region h (sp_base (old h)) (objects h (old h)) (space_top (old h))"
    using assms(1) by (auto simp: heap_ok_def parsable_def)
  have t: "space_top (old h) \<le> space_limit (old h)"
    using assms(1) by (auto simp: heap_ok_def space_top_le_limit)
  note b = region_bounds(1-4) [OF r assms(2)]
  then show "in_old_space h x" using t by (auto simp: in_old_space_def space_contains_def)
  show "\<not> is_young h x"
    using assms(1) b t by (auto simp: is_young_def space_contains_def heap_ok_def apart_def)
  show "x \<in> live h" using assms(2) by (simp add: live_def)
qed

lemma live_in_old_space:
  assumes "heap_ok h" and "x \<in> live h" and "in_old_space h x"
  shows "x \<in> set (objects h (old h))"
proof (rule ccontr)
  assume "x \<notin> set (objects h (old h))"
  with assms(2) have y: "x \<in> set (objects h (young_from h))" by (simp add: live_def)
  have r: "region h (sp_base (young_from h)) (objects h (young_from h)) (space_top (young_from h))"
    using assms(1) by (auto simp: heap_ok_def parsable_def)
  have t: "space_top (young_from h) \<le> space_limit (young_from h)"
    using assms(1) by (auto simp: heap_ok_def space_top_le_limit)
  from region_bounds(1-4) [OF r y] show False
    using assms(1,3) t by (auto simp: in_old_space_def space_contains_def heap_ok_def apart_def)
qed

subsection \<open>Setting the remembered bit\<close>

text \<open>The buffer is not part of what the heap invariant and the accessors look at.\<close>

lemma mem_only:
  assumes "mem h' = mem h"
  shows "header h' x = header h x" and "num_slots h' x = num_slots h x"
    and "slot h' x i = slot h x i" and "region h' p os t = region h p os t"
    and "walk_region h' p t = walk_region h p t"
proof -
  show hd: "header h' x = header h x" for x by (simp add: header_def heap_word_def assms)
  have w: "heap_word h' a = heap_word h a" for a by (simp add: heap_word_def assms)
  show n: "num_slots h' x = num_slots h x" for x by (simp add: num_slots_def hd w Let_def)
  show "slot h' x i = slot h x i" by (simp add: slot_def w)
  have s: "has_overflow_word h' x = has_overflow_word h x" "storage_start h' x = storage_start h x"
    "footprint h' x = footprint h x" "obj_end h' x = obj_end h x" for x
    by (simp_all add: has_overflow_word_def storage_start_def footprint_def obj_end_def hd n)
  show "region h' p os t = region h p os t"
    by (induction os arbitrary: p) (simp_all add: well_placed_def hd w s)
  show "walk_region h' p t = walk_region h p t"
  proof (induction "t - p" arbitrary: p rule: less_induct)
    case less
    let ?obj = "if drop_bit HDR_CLASS_SHIFT (heap_word h p) = 0 then p + 8 else p"
    show ?case
    proof (cases "p < t")
      case True
      have "p < storage_start h ?obj + footprint h ?obj" by (rule walk_progress) simp
      with True have "t - (storage_start h ?obj + footprint h ?obj) < t - p" by linarith
      from less [OF this] True show ?thesis
        by (subst (1 2) walk_region.simps) (simp add: w s Let_def del: if_split)
    qed (simp add: walk_region.simps)
  qed
qed

lemma mem_only_objects:
  assumes "mem h' = mem h"
  shows "objects h' s = objects h s" and "parsable h' s = parsable h s"
  by (simp_all add: objects_def parsable_def mem_only [OF assms])

lemma remember_mem:
  "mem (remember h x) = mem (if remembered h x then h else set_header h x
     (with_gc_bits (header h x) (gc_bits (header h x) OR GC_BIT_REMEMBERED)))"
  by (simp add: remember_def remembered_def Let_def)

lemma remember_sel [simp]:
  "young_from (remember h x) = young_from h" "young_to (remember h x) = young_to h"
  "old (remember h x) = old h"
  "ssb (remember h x) = (if remembered h x then ssb h else ssb h @ [x])"
  by (simp_all add: remember_def remembered_def Let_def)

lemma remember_fits: "gc_fits (gc_bits w OR GC_BIT_REMEMBERED)"
  by (rule gc_fits_or) (simp_all add: gc_field.fits_get, simp add: gc_fits_def hmask_def)

lemma heap_ok_mem_cong:
  assumes "heap_ok h" and "mem h' = mem h" and "young_from h' = young_from h"
    and "young_to h' = young_to h" and "old h' = old h"
  shows "heap_ok h'"
  using assms by (simp add: heap_ok_def mem_only_objects [OF assms(2)])

lemma remember_frame:
  assumes ok: "heap_ok h" and x: "x \<in> live h"
  shows "heap_ok (remember h x)" and "objects (remember h x) (old h) = objects h (old h)"
    and "objects (remember h x) (young_from h) = objects h (young_from h)"
    and "live (remember h x) = live h"
    and "y \<in> live h \<Longrightarrow> num_slots (remember h x) y = num_slots h y"
    and "y \<in> live h \<Longrightarrow> i < unat (num_slots h y) \<Longrightarrow> slot (remember h x) y i = slot h y i"
    and "is_bytes (header (remember h x) y) = is_bytes (header h y)"
    and "remembered (remember h x) y = (y = x \<or> remembered h y)"
proof -
  let ?r = "remember h x"
  let ?w = "with_gc_bits (header h x) (gc_bits (header h x) OR GC_BIT_REMEMBERED)"
  let ?h1 = "if remembered h x then h else set_header h x ?w"
  note shape = header_write_shape [OF ok x shape_bits_with_gc_bits [OF remember_fits]]
  note hw = header_write_ok [OF ok x shape_bits_with_gc_bits [OF remember_fits]]
  have h1: "heap_ok ?h1" "live ?h1 = live h" "young_from ?h1 = young_from h"
    "young_to ?h1 = young_to h" "old ?h1 = old h"
    using ok hw by auto
  note m = mem_only [OF remember_mem [of h x]] mem_only_objects [OF remember_mem [of h x]]
  show "heap_ok ?r"
    by (rule heap_ok_mem_cong [OF h1(1) remember_mem]) (simp_all add: h1)
  have o: "objects (set_header h x ?w) (old h) = objects h (old h)"
    "objects (set_header h x ?w) (young_from h) = objects h (young_from h)"
    using header_write_objects [OF ok x shape_bits_with_gc_bits [OF remember_fits]] by auto
  show ob: "objects ?r (old h) = objects h (old h)" using o by (simp add: m)
  show yb: "objects ?r (young_from h) = objects h (young_from h)" using o by (simp add: m)
  show "live ?r = live h" by (simp add: live_def ob yb)
  show "num_slots ?r y = num_slots h y" if "y \<in> live h"
    using same_shape_accessors(2) [OF shape [OF that]] by (simp add: m)
  show "slot ?r y i = slot h y i" if "y \<in> live h" "i < unat (num_slots h y)"
    using slot_set_header [OF ok x that] by (simp add: m)
  show "is_bytes (header ?r y) = is_bytes (header h y)"
    using gc_field.outside_put [OF remember_fits, of "header h x" "header h x"]
    by (simp add: m is_bytes_def header_set_header)
  have or2: "(g OR 2) AND 2 \<noteq> 0" for g :: u64
    using word_ao_absorbs(2) [of 2 g] by (simp add: ac_simps)
  show "remembered ?r y = (y = x \<or> remembered h y)"
    using or2 by (auto simp: m remembered_def header_set_header gc_field.get_put [OF remember_fits])
qed

lemma remember_keeps:
  assumes ok: "heap_ok h" and x: "x \<in> set (objects h (old h))" and s: "ssb_ok h"
  shows "ssb_ok (remember h x)" and "x \<in> set (ssb (remember h x))"
    and "set (ssb h) \<subseteq> set (ssb (remember h x))"
proof -
  note r = remember_frame [OF ok old_object_in_space(3) [OF ok x]]
  show "ssb_ok (remember h x)" and "x \<in> set (ssb (remember h x))"
    and "set (ssb h) \<subseteq> set (ssb (remember h x))"
    using s x by (auto simp: ssb_ok_def r(2) r(8))
qed

lemma holds_young_remember:
  assumes ok: "heap_ok h" and x: "x \<in> live h" and y: "y \<in> live h"
  shows "holds_young (remember h x) y = holds_young h y"
  using remember_frame(5,6,7) [OF ok x] y by (auto simp: holds_young_def is_young_def)

lemma remembered_set_remember:
  assumes ok: "heap_ok h" and x: "x \<in> set (objects h (old h))"
    and rs: "remembered_set_ok h (insert x E)"
  shows "remembered_set_ok (remember h x) E"
proof -
  have l: "x \<in> live h" using old_object_in_space(3) [OF ok x] .
  have s: "ssb_ok h" using rs by (simp add: remembered_set_ok_def)
  note k = remember_keeps [OF ok x s]
  show ?thesis
    unfolding remembered_set_ok_def
  proof (intro conjI ballI impI)
    show "ssb_ok (remember h x)" by (rule k)
    fix y assume y: "y \<in> set (objects (remember h x) (old (remember h x)))" "y \<notin> E"
      "holds_young (remember h x) y"
    have y': "y \<in> set (objects h (old h))" using y(1) remember_frame(2) [OF ok l] by simp
    have "holds_young h y"
      using y(3) holds_young_remember [OF ok l old_object_in_space(3) [OF ok y']] by simp
    with rs y' y(2) k(2,3) show "y \<in> set (ssb (remember h x))"
      by (cases "y = x") (auto simp: remembered_set_ok_def)
  qed
qed

lemma ssb_ok_set_slot:
  assumes ok: "heap_ok h" and x: "x \<in> live h" and i: "i < unat (num_slots h x)" and s: "ssb_ok h"
  shows "ssb_ok (set_slot_raw h x i v)"
  using s set_slot_ok(4,5) [OF ok x i] old_object_in_space(3) [OF ok]
  by (auto simp: ssb_ok_def remembered_def)

lemma holds_young_set_slot:
  assumes ok: "heap_ok h" and x: "x \<in> live h" and i: "i < unat (num_slots h x)" and y: "y \<in> live h"
    and h: "holds_young (set_slot_raw h x i v) y"
  shows "holds_young h y \<or> y = x \<and> is_ptr v \<and> is_young h (as_ptr v)"
proof -
  note f = set_slot_ok(5,6) [OF ok x i y, where v = v] and g = slot_set_slot [OF ok x i y, where v = v]
  from h obtain j where j: "j < unat (num_slots h y)" "\<not> is_bytes (header h y)"
    "is_ptr (slot (set_slot_raw h x i v) y j)" "is_young h (as_ptr (slot (set_slot_raw h x i v) y j))"
    by (auto simp: holds_young_def f is_young_def)
  then show ?thesis
    using g [OF j(1)] by (cases "y = x \<and> j = i") (auto simp: holds_young_def)
qed

subsection \<open>The barrier-checked store\<close>

lemma store_slot_heap:
  "vm_heap (store_slot vm x i v) =
     (let h1 = set_slot_raw (vm_heap vm) x i v
      in if is_ptr v \<and> is_young h1 (as_ptr v) \<and> in_old_space h1 x then remember h1 x else h1)"
  by (simp add: store_slot_def write_barrier_def vset_slot_raw_def Let_def)

lemma store_slot_ok:
  assumes ok: "heap_ok (vm_heap vm)" and x: "x \<in> live (vm_heap vm)"
    and i: "i < unat (num_slots (vm_heap vm) x)"
  shows "heap_ok (vm_heap (store_slot vm x i v))"
    and "live (vm_heap (store_slot vm x i v)) = live (vm_heap vm)"
    and "y \<in> live (vm_heap vm) \<Longrightarrow>
      num_slots (vm_heap (store_slot vm x i v)) y = num_slots (vm_heap vm) y"
    and "y \<in> live (vm_heap vm) \<Longrightarrow> j < unat (num_slots (vm_heap vm) y) \<Longrightarrow>
      slot (vm_heap (store_slot vm x i v)) y j
        = (if y = x \<and> j = i then v else slot (vm_heap vm) y j)"
proof -
  note a = set_slot_ok [OF ok x i, where v = v]
  have x1: "x \<in> live (set_slot_raw (vm_heap vm) x i v)" using x a(2) by simp
  note r = remember_frame [OF a(1) x1]
  show "heap_ok (vm_heap (store_slot vm x i v))"
    using a(1) r(1) by (simp add: store_slot_heap Let_def)
  show "live (vm_heap (store_slot vm x i v)) = live (vm_heap vm)"
    using a(2) r(4) by (simp add: store_slot_heap Let_def)
  show n: "num_slots (vm_heap (store_slot vm x i v)) y = num_slots (vm_heap vm) y"
    if "y \<in> live (vm_heap vm)"
    using a(2,6) r(5) [of y] that by (simp add: store_slot_heap Let_def)
  show "slot (vm_heap (store_slot vm x i v)) y j = (if y = x \<and> j = i then v else slot (vm_heap vm) y j)"
    if "y \<in> live (vm_heap vm)" "j < unat (num_slots (vm_heap vm) y)"
  proof -
    have y1: "y \<in> live (set_slot_raw (vm_heap vm) x i v)"
      "j < unat (num_slots (set_slot_raw (vm_heap vm) x i v) y)"
      using a(2,6) that by simp_all
    have "vm_heap (store_slot vm x i v) = set_slot_raw (vm_heap vm) x i v
        \<or> vm_heap (store_slot vm x i v) = remember (set_slot_raw (vm_heap vm) x i v) x"
      by (simp add: store_slot_heap Let_def)
    then show ?thesis
      using r(6) [OF y1] slot_set_slot [OF ok x i that, where v = v] by (elim disjE) simp_all
  qed
qed

lemma store_slot_remembered:
  assumes ok: "heap_ok (vm_heap vm)" and x: "x \<in> live (vm_heap vm)"
    and i: "i < unat (num_slots (vm_heap vm) x)" and rs: "remembered_set_ok (vm_heap vm) E"
  shows "remembered_set_ok (vm_heap (store_slot vm x i v)) E"
proof -
  let ?h = "vm_heap vm" and ?h1 = "set_slot_raw (vm_heap vm) x i v"
  note a = set_slot_ok [OF ok x i, where v = v]
  have s1: "ssb_ok ?h1"
    using ssb_ok_set_slot [OF ok x i] rs by (simp add: remembered_set_ok_def)
  have rest: "y \<in> set (ssb ?h1)"
    if "y \<in> set (objects ?h1 (old ?h1))" "y \<notin> E" "holds_young ?h1 y"
      "\<not> (y = x \<and> is_ptr v \<and> is_young ?h (as_ptr v))" for y
  proof -
    have y: "y \<in> set (objects ?h (old ?h))" using that(1) a(4) by simp
    have "holds_young ?h y"
      using holds_young_set_slot [OF ok x i old_object_in_space(3) [OF ok y] that(3)] that(4) by blast
    with rs y that(2) show ?thesis by (simp add: remembered_set_ok_def)
  qed
  show ?thesis
  proof (cases "is_ptr v \<and> is_young ?h (as_ptr v) \<and> in_old_space ?h x")
    case True
    then have eq: "vm_heap (store_slot vm x i v) = remember ?h1 x"
      by (simp add: store_slot_heap is_young_def in_old_space_def)
    have x1: "x \<in> set (objects ?h1 (old ?h1))"
      using live_in_old_space [OF ok x] True a(4) by simp
    have "remembered_set_ok ?h1 (insert x E)"
      using s1 rest unfolding remembered_set_ok_def by blast
    from remembered_set_remember [OF a(1) x1 this] show ?thesis by (simp add: eq)
  next
    case False
    then have eq: "vm_heap (store_slot vm x i v) = ?h1"
      by (auto simp: store_slot_heap is_young_def in_old_space_def Let_def)
    have "\<not> (y = x \<and> is_ptr v \<and> is_young ?h (as_ptr v))" if "y \<in> set (objects ?h1 (old ?h1))" for y
      using that False old_object_in_space(1) [OF ok, of y] a(4) by auto
    with s1 rest show ?thesis unfolding eq remembered_set_ok_def by blast
  qed
qed

text \<open>
  C7. A barrier-checked store keeps the remembered set complete: whatever value is stored in
  whatever slot of whatever object, afterwards every old object that holds a pointer into young
  space (the exempted running stack apart) is in the store buffer, the buffer and the remembered
  bits agree, the heap is well formed, and only the slot written has changed.
\<close>

theorem store_slot_keeps_remembered_set:
  assumes "heap_ok (vm_heap vm)" and "remembered_set_ok (vm_heap vm) E"
    and "x \<in> live (vm_heap vm)" and "i < unat (num_slots (vm_heap vm) x)"
  shows "heap_ok (vm_heap (store_slot vm x i v))
    \<and> remembered_set_ok (vm_heap (store_slot vm x i v)) E
    \<and> live (vm_heap (store_slot vm x i v)) = live (vm_heap vm)
    \<and> (\<forall>y \<in> live (vm_heap vm). \<forall>j < unat (num_slots (vm_heap vm) y).
         slot (vm_heap (store_slot vm x i v)) y j
           = (if y = x \<and> j = i then v else slot (vm_heap vm) y j))"
  using store_slot_ok [OF assms(1,3,4)] store_slot_remembered [OF assms(1,3,4,2)] by blast

lemma remembered_set_no_old: "objects h (old h) = [] \<Longrightarrow> ssb h = [] \<Longrightarrow> remembered_set_ok h E"
  by (simp add: remembered_set_ok_def ssb_ok_def)

text \<open>
  A heap with one old object of two slots and one young object; the store of the young object
  into the old one enters the old one in the buffer.
\<close>

definition two_gen_heap :: heap where
  "two_gen_heap = snd (the (alloc_fixed (snd (the (alloc_fixed_old small_heap 17 2 1))) 17 1 1))"

lemma two_gen_heap:
  "heap_ok two_gen_heap" "remembered_set_ok two_gen_heap {}" "live two_gen_heap = {12288, 4096}"
  "unat (num_slots two_gen_heap 12288) = 2" "is_young two_gen_heap 4096"
  "in_old_space two_gen_heap 12288"
proof -
  have "\<exists>h1. alloc_fixed_old small_heap 17 2 1 = Some (12288, h1)
      \<and> config h1 = config small_heap \<and> young_from h1 = young_from small_heap \<and> ssb h1 = []
      \<and> old h1 = (old small_heap)\<lparr>sp_alloc := 3\<rparr>"
    by (auto simp: alloc_fixed_old_def alloc_in_old_def alloc_in_small small_heap_def new_heap_def
        space_top_def fill_slots_eq count_old_def)
  then obtain h1 where h1: "alloc_fixed_old small_heap 17 2 1 = Some (12288, h1)"
    "config h1 = config small_heap" "young_from h1 = young_from small_heap" "ssb h1 = []"
    "old h1 = (old small_heap)\<lparr>sp_alloc := 3\<rparr>" by blast
  have "\<exists>h2. alloc_fixed h1 17 1 1 = Some (4096, h2) \<and> ssb h2 = [] \<and> old h2 = old h1
      \<and> young_from h2 = (young_from small_heap)\<lparr>sp_alloc := 2\<rparr>"
    by (auto simp: alloc_fixed_def alloc_body_def alloc_in_young_def small_heap_room alloc_in_small
        fill_slots_eq count_young_def h1)
  then obtain h2 where h2: "alloc_fixed h1 17 1 1 = Some (4096, h2)" "ssb h2 = []"
    "old h2 = old h1" "young_from h2 = (young_from small_heap)\<lparr>sp_alloc := 2\<rparr>" by blast
  have eq: "two_gen_heap = h2"
    unfolding two_gen_heap_def h1(1) option.sel snd_conv h2(1) by (rule refl)
  note c1 = fixed_old_alloc.contract [OF small_heap_ok class_ok_17 h1(1)]
  note c2 = fixed_alloc.contract [OF c1(1) class_ok_17 h2(1)]
  note u = fixed_alloc.others_unchanged [OF c1(1) class_ok_17 h2(1)]
  have e: "objects small_heap (young_from small_heap) = []" "objects small_heap (old small_heap) = []"
    "live small_heap = {}"
    by (simp_all add: small_heap_def new_heap_def objects_empty live_def)
  have l1: "live h1 = {12288}" using c1(4) e by simp
  have o1: "12288 \<in> live h1" by (simp add: l1)
  have n1: "unat (num_slots h1 12288) = 2" and g1: "gc_bits (header h1 12288) = 0"
    and s1: "\<forall>i < 2. slot h1 12288 i = 1"
    using c1(2) by (simp_all add: allocated_def)
  note defs = small_heap_def new_heap_def is_young_def in_old_space_def space_contains_def
    space_limit_def
  have young: "is_young h2 4096" by (simp add: h2 defs)
  have in_old: "in_old_space h2 12288" "\<not> in_old_space h2 4096" "\<not> is_young h1 12288"
    by (simp_all add: h2 h1 defs)
  have "objects h1 (old h1) = [12288]" using c1(2) e in_old(3) by (auto simp: allocated_def)
  then have old_h2: "in_old_space h2 12288 \<and> objects h2 (old h2) = [12288]"
    using c2(2) in_old by (auto simp: allocated_def)
  show "heap_ok two_gen_heap" by (simp add: eq c2)
  show "live two_gen_heap = {12288, 4096}" using c2(4) l1 by (auto simp: eq)
  show "unat (num_slots two_gen_heap 12288) = 2" using u(2) [OF o1] n1 by (simp add: eq)
  show "is_young two_gen_heap 4096" using young by (simp add: eq)
  show "in_old_space two_gen_heap 12288" using old_h2 by (simp add: eq)
  have "slot h2 12288 i = 1" if "i < 2" for i using u(3) [OF o1] n1 s1 that by simp
  moreover have "\<not> is_ptr 1" by (simp add: is_ptr_def)
  ultimately have "\<not> holds_young h2 12288"
    using u(2) [OF o1] n1 by (auto simp: holds_young_def)
  then show "remembered_set_ok two_gen_heap {}"
    using old_h2 h2(2) u(1) [OF o1] g1
    by (simp add: eq remembered_set_ok_def ssb_ok_def remembered_def)
qed

theorem store_slot_keeps_remembered_set_witness:
  "remembered_set_ok (vm_heap (store_slot (bare_literal two_gen_heap 0) 12288 1 (from_ptr 4096))) {}
   \<and> slot (vm_heap (store_slot (bare_literal two_gen_heap 0) 12288 1 (from_ptr 4096))) 12288 1
       = from_ptr 4096"
  using store_slot_keeps_remembered_set [of "bare_literal two_gen_heap 0" "{}" 12288 1 "from_ptr 4096"]
    two_gen_heap
  by (simp add: bare_literal_def)

text \<open>
  The scavenger misses nothing that was stored with a barrier: a young object stored into an
  old one puts the old one in the store buffer, once, and sets its remembered bit.
\<close>

theorem store_young_in_old_is_buffered:
  assumes "heap_ok (vm_heap vm)" and "remembered_set_ok (vm_heap vm) E"
    and "x \<in> live (vm_heap vm)" and "i < unat (num_slots (vm_heap vm) x)"
    and "in_old_space (vm_heap vm) x" and "is_ptr v" and "is_young (vm_heap vm) (as_ptr v)"
  shows "x \<in> set (ssb (vm_heap (store_slot vm x i v)))
    \<and> distinct (ssb (vm_heap (store_slot vm x i v)))
    \<and> remembered (vm_heap (store_slot vm x i v)) x"
proof -
  let ?h1 = "set_slot_raw (vm_heap vm) x i v"
  note a = set_slot_ok [OF assms(1,3,4), where v = v]
  have eq: "vm_heap (store_slot vm x i v) = remember ?h1 x"
    using assms(5-7) by (simp add: store_slot_heap is_young_def in_old_space_def)
  have x: "x \<in> set (objects ?h1 (old ?h1))" using live_in_old_space [OF assms(1,3,5)] a(4) by simp
  have s: "ssb_ok ?h1"
    using ssb_ok_set_slot [OF assms(1,3,4)] assms(2) by (simp add: remembered_set_ok_def)
  note k = remember_keeps [OF a(1) x s]
  from x have x1: "x \<in> live ?h1" by (simp add: live_def)
  show ?thesis
    using k remember_frame(8) [OF a(1) x1, of x] unfolding eq by (simp add: ssb_ok_def)
qed

theorem store_young_in_old_is_buffered_witness:
  "12288 \<in> set (ssb (vm_heap (store_slot (bare_literal two_gen_heap 0) 12288 1 (from_ptr 4096))))"
  using store_young_in_old_is_buffered
    [of "bare_literal two_gen_heap 0" "{}" 12288 1 "from_ptr 4096"] two_gen_heap
    is_ptr_from_ptr [of 4096] as_ptr_from_ptr [of 4096]
  by (simp add: bare_literal_def aligned_def)

end
