(* ===== verification/Method_Lookup.thy ===== *)
theory Method_Lookup
  imports Remembered_Set
begin

section \<open>Method lookup\<close>

text \<open>
  The slow path of a send in src/vm.rs: scanning a method dictionary and walking the superclass
  chain. The walk is a loop over object pointers that ends only if the chain does, so it is a
  partial function whose value None means that it does not return. The contract of the walk is
  stated on the list of classes of a chain: the method found is the one of the first class that
  has one, and the count is the number of classes visited.
\<close>

definition mdict_lookup :: "heap \<Rightarrow> value \<Rightarrow> value \<Rightarrow> value option" where
  "mdict_lookup h mdict selector =
     (let keys = slot h (as_ptr mdict) MDICT_KEYS;
          vals = slot h (as_ptr mdict) MDICT_VALUES;
          n = unat (num_slots h (as_ptr keys))
      in case find (\<lambda>i. slot h (as_ptr keys) i = selector) [0..<n] of
           None \<Rightarrow> None
         | Some i \<Rightarrow> Some (slot h (as_ptr vals) i))"

partial_function (option) lookup_walk ::
  "heap \<Rightarrow> value \<Rightarrow> value \<Rightarrow> value \<Rightarrow> nat \<Rightarrow> (value option \<times> nat) option" where
  "lookup_walk h nilv cls selector walked =
     (if cls = nilv then Some (None, walked)
      else let mdict = slot h (as_ptr cls) BEHAVIOR_METHOD_DICTIONARY
           in case (if mdict \<noteq> nilv then mdict_lookup h mdict selector else None) of
                Some m \<Rightarrow> Some (Some m, walked + 1)
              | None \<Rightarrow>
                  lookup_walk h nilv (slot h (as_ptr cls) BEHAVIOR_SUPERCLASS) selector (walked + 1))"

definition lookup_method_counted ::
  "vm \<Rightarrow> u32 \<Rightarrow> value \<Rightarrow> (value option \<times> nat) outcome" where
  "lookup_method_counted vm class_index selector =
     rbind (class_table_at vm class_index) (\<lambda>cls.
     case lookup_walk (vm_heap vm) (nil vm) cls selector 0 of None \<Rightarrow> Diverge | Some r \<Rightarrow> Ok r)"

definition lookup_method :: "vm \<Rightarrow> u32 \<Rightarrow> value \<Rightarrow> value option outcome" where
  "lookup_method vm class_index selector =
     rbind (lookup_method_counted vm class_index selector) (\<lambda>(m, _). Ok m)"

definition lookup_method_above :: "vm \<Rightarrow> value \<Rightarrow> value \<Rightarrow> value option outcome" where
  "lookup_method_above vm static_class selector =
     (let sup = vslot vm (as_ptr static_class) BEHAVIOR_SUPERCLASS
      in if sup = nil vm then Ok None
         else lookup_method vm (word_of_int (as_int (vslot vm (as_ptr sup) BEHAVIOR_CLASS_INDEX)))
                selector)"

subsection \<open>The superclass chain\<close>

fun superchain :: "heap \<Rightarrow> value \<Rightarrow> value \<Rightarrow> value list \<Rightarrow> bool" where
  "superchain h nilv cls [] \<longleftrightarrow> cls = nilv"
| "superchain h nilv cls (c # cs) \<longleftrightarrow>
     c = cls \<and> cls \<noteq> nilv \<and> superchain h nilv (slot h (as_ptr cls) BEHAVIOR_SUPERCLASS) cs"

definition class_method :: "heap \<Rightarrow> value \<Rightarrow> value \<Rightarrow> value \<Rightarrow> value option" where
  "class_method h nilv selector cls =
     (let mdict = slot h (as_ptr cls) BEHAVIOR_METHOD_DICTIONARY
      in if mdict = nilv then None else mdict_lookup h mdict selector)"

fun first_method :: "heap \<Rightarrow> value \<Rightarrow> value \<Rightarrow> value list \<Rightarrow> value option \<times> nat" where
  "first_method h nilv selector [] = (None, 0)"
| "first_method h nilv selector (c # cs) =
     (case class_method h nilv selector c of
        Some m \<Rightarrow> (Some m, 1)
      | None \<Rightarrow> (let (r, n) = first_method h nilv selector cs in (r, n + 1)))"

lemma lookup_walk_chain:
  "superchain h nilv cls cs \<Longrightarrow>
     lookup_walk h nilv cls selector w
       = Some (fst (first_method h nilv selector cs), w + snd (first_method h nilv selector cs))"
proof (induction cs arbitrary: cls w)
  case Nil
  then show ?case by (simp add: lookup_walk.simps)
next
  case (Cons c cs)
  then have ne: "cls \<noteq> nilv" and c: "c = cls" by auto
  show ?case
  proof (cases "class_method h nilv selector cls")
    case None
    with Cons ne show ?thesis
      by (subst lookup_walk.simps)
         (auto simp: class_method_def c Let_def split: prod.splits if_splits)
  next
    case (Some m)
    with ne show ?thesis
      by (subst lookup_walk.simps)
         (auto simp: class_method_def c Let_def split: if_splits)
  qed
qed

lemma superchain_unique: "superchain h nilv cls cs \<Longrightarrow> superchain h nilv cls ds \<Longrightarrow> cs = ds"
proof (induction cs arbitrary: cls ds)
  case Nil
  then show ?case by (cases ds) auto
next
  case (Cons c cs)
  then show ?case by (cases ds) auto
qed

lemma first_method_count:
  "snd (first_method h nilv selector cs) \<le> length cs"
  "fst (first_method h nilv selector cs) = None \<longleftrightarrow> (\<forall>c \<in> set cs. class_method h nilv selector c = None)"
  by (induction cs) (auto split: option.splits prod.splits)

lemma first_method_eq:
  "fst (first_method h nilv selector cs) =
     (case dropWhile (\<lambda>c. class_method h nilv selector c = None) cs of
        [] \<Rightarrow> None | c # _ \<Rightarrow> class_method h nilv selector c)"
  by (induction cs) (auto split: option.splits prod.splits)

text \<open>
  C25. For a class whose superclass chain ends, lookup returns, and what it returns is the method
  that the first class of the chain with an entry for the selector has, or nothing when no class of
  the chain has one; it reports how many classes it visited, at most the length of the chain.
\<close>

theorem lookup_first_in_chain:
  assumes "unat ci < length (class_table vm)" and "superchain (vm_heap vm) (nil vm) (class_table vm ! unat ci) cs"
  shows "\<exists>n \<le> length cs. lookup_method_counted vm ci selector =
      Ok (case dropWhile (\<lambda>c. class_method (vm_heap vm) (nil vm) selector c = None) cs of
            [] \<Rightarrow> None | c # _ \<Rightarrow> class_method (vm_heap vm) (nil vm) selector c, n)
    \<and> lookup_method vm ci selector =
      Ok (case dropWhile (\<lambda>c. class_method (vm_heap vm) (nil vm) selector c = None) cs of
            [] \<Rightarrow> None | c # _ \<Rightarrow> class_method (vm_heap vm) (nil vm) selector c)"
  using assms first_method_count(1) [of "vm_heap vm" "nil vm" selector cs]
  by (auto simp: lookup_method_counted_def lookup_method_def class_table_at_def
      lookup_walk_chain first_method_eq)

text \<open>One class with one method: nil is at 8, the class at 1000, selector 5000, method 6000.\<close>

definition one_class_vm :: vm where
  "one_class_vm = (bare_literal (small_heap\<lparr>mem := (\<lambda>_. 0)
       (1008 := 8, 1016 := 2000, 2008 := 3000, 2016 := 4000, 3000 := new_header 17 1 1,
        3008 := 5000, 4008 := 6000)\<rparr>) 0)
     \<lparr>specials := replicate SPECIAL_OBJECTS_COUNT 8, class_table := [8, 1000]\<rparr>"

lemma one_class_vm_sel:
  "nil one_class_vm = 8" "class_table one_class_vm = [8, 1000]"
  "specials one_class_vm = replicate 13 8"
  by (simp_all add: one_class_vm_def nil_def)

lemma one_class_header: "num_slots_field (new_header 17 1 1) = 1"
  by (rule new_header_fields) (simp add: header_args_ok_def hmask_def)

lemma one_class_slots:
  "slot (vm_heap one_class_vm) 1000 0 = 8" "slot (vm_heap one_class_vm) 1000 (Suc 0) = 2000"
  "slot (vm_heap one_class_vm) 2000 0 = 3000" "slot (vm_heap one_class_vm) 2000 (Suc 0) = 4000"
  "slot (vm_heap one_class_vm) 3000 0 = 5000" "slot (vm_heap one_class_vm) 4000 0 = 6000"
  "num_slots (vm_heap one_class_vm) 3000 = 1"
  by (simp_all add: one_class_vm_def bare_literal_def slot_def heap_word_def num_slots_def
      header_def one_class_header)

lemma one_class_mdict: "mdict_lookup (vm_heap one_class_vm) 2000 5000 = Some 6000"
  by (simp add: mdict_lookup_def as_ptr_def one_class_slots)

theorem lookup_first_in_chain_witness: "lookup_method one_class_vm 1 5000 = Ok (Some 6000)"
proof -
  have c: "superchain (vm_heap one_class_vm) (nil one_class_vm) (class_table one_class_vm ! unat (1 :: u32)) [1000]"
    by (simp add: one_class_vm_sel as_ptr_def one_class_slots)
  have m: "class_method (vm_heap one_class_vm) (nil one_class_vm) 5000 1000 = Some 6000"
    using one_class_mdict by (simp add: class_method_def as_ptr_def one_class_slots one_class_vm_sel)
  have l: "unat (1 :: u32) < length (class_table one_class_vm)" by (simp add: one_class_vm_sel)
  from lookup_first_in_chain [OF l c, of 5000] m show ?thesis by auto
qed

lemma find_upt: "find P [0..<n] = Some i \<longleftrightarrow> i < n \<and> P i \<and> (\<forall>j < i. \<not> P j)"
  by (auto simp: find_Some_iff)

lemma find_upt_map:
  "(case find P [0..<n] of None \<Rightarrow> None | Some i \<Rightarrow> Some (f i)) = Some m \<longleftrightarrow>
     (\<exists>i < n. P i \<and> m = f i \<and> \<not> (\<exists>j < i. P j))"
  using find_upt [of P n] by (auto split: option.splits) (metis nat_neq_iff)

text \<open>
  A method dictionary answers with the value at the first index whose key is the selector, and
  with nothing exactly when no key is the selector.
\<close>

theorem mdict_lookup_first:
  "mdict_lookup h mdict selector = Some m \<longleftrightarrow>
     (\<exists>i < unat (num_slots h (as_ptr (slot h (as_ptr mdict) MDICT_KEYS))).
        slot h (as_ptr (slot h (as_ptr mdict) MDICT_KEYS)) i = selector
        \<and> m = slot h (as_ptr (slot h (as_ptr mdict) MDICT_VALUES)) i
        \<and> \<not> (\<exists>j < i. slot h (as_ptr (slot h (as_ptr mdict) MDICT_KEYS)) j = selector))"
  unfolding mdict_lookup_def Let_def find_upt_map by blast

end
