(* ===== verification/Lookup_Cache.thy ===== *)
theory Lookup_Cache
  imports Method_Lookup
begin

section \<open>Lookup caches and method installation\<close>

text \<open>
  The global lookup cache of src/interp.rs (lookup_cached) and its invalidation in src/vm.rs:
  flush_caches, stamp_and_flush, install_method and register_class. The invariant cache_ok says
  that every filled entry holds the answer of the slow lookup; lookups keep it, and flushing
  establishes it whatever the heap has become. The inline caches live in the send-site arrays of
  methods; flushing clears those of every registered array.
\<close>

definition cache_index :: "u32 \<Rightarrow> value \<Rightarrow> nat" where
  "cache_index class_index selector =
     unat ((ucast class_index * 31 + drop_bit 3 selector) :: u64) mod LOOKUP_CACHE_SIZE"

definition lookup_cached :: "vm \<Rightarrow> u32 \<Rightarrow> value \<Rightarrow> (value option \<times> vm) outcome" where
  "lookup_cached vm class_index selector =
     (let h = cache_index class_index selector;
          e = lookup_cache vm ! h
      in if le_class_index e = class_index \<and> le_selector e = selector
         then Ok (Some (le_method e), vm)
         else
           let c = vm_counters vm;
               vm1 = vm\<lparr>vm_counters := c\<lparr>global_cache_miss := global_cache_miss c + 1,
                                         dict_walks := dict_walks c + 1\<rparr>\<rparr>
           in rbind (lookup_method_counted vm1 class_index selector) (\<lambda>(m, walked).
              let c1 = vm_counters vm1;
                  vm2 = vm1\<lparr>vm_counters :=
                          c1\<lparr>dict_classes_walked := dict_classes_walked c1 + walked\<rparr>\<rparr>
              in case m of
                   None \<Rightarrow> Ok (None, vm2)
                 | Some meth \<Rightarrow>
                     Ok (Some meth, vm2\<lparr>lookup_cache := (lookup_cache vm2)[h :=
                        \<lparr>le_class_index = class_index, le_selector = selector,
                         le_method = meth\<rparr>]\<rparr>)))"

definition clear_sites :: "value \<Rightarrow> nat \<Rightarrow> nat \<Rightarrow> heap \<Rightarrow> heap" where
  "clear_sites nilv addr n h =
     fold (\<lambda>s h. set_slot_raw
                   (set_slot_raw h addr (s * SITE_STRIDE + SITE_CACHE_CLASS) (from_int 0))
                   addr (s * SITE_STRIDE + SITE_CACHE_METHOD) nilv)
       [0..<n] h"

definition clear_registry :: "value \<Rightarrow> value list \<Rightarrow> heap \<Rightarrow> heap" where
  "clear_registry nilv registry h =
     fold (\<lambda>sites h. clear_sites nilv (as_ptr sites)
                       (unat (num_slots h (as_ptr sites)) div SITE_STRIDE) h)
       registry h"

definition flush_caches :: "vm \<Rightarrow> vm" where
  "flush_caches vm =
     (let c = vm_counters vm
      in vm\<lparr>vm_counters := c\<lparr>cache_flushes := cache_flushes c + 1\<rparr>,
            lookup_cache := map (\<lambda>_. default_lookup_entry) (lookup_cache vm),
            vm_heap := clear_registry (nil vm) (site_registry vm) (vm_heap vm)\<rparr>)"

definition stamp_and_flush :: "vm \<Rightarrow> value \<Rightarrow> value \<Rightarrow> value \<Rightarrow> vm" where
  "stamp_and_flush vm method selector cls =
     (let m = as_ptr method;
          vm1 = store_slot vm m METHOD_SELECTOR selector;
          vm2 = store_slot vm1 m METHOD_CLASS cls;
          sites = vslot vm2 m METHOD_SEND_SITES;
          vm3 = (if is_ptr sites \<and> sites \<noteq> nil vm2 \<and> sites \<notin> set (site_registry vm2)
                 then vm2\<lparr>site_registry := site_registry vm2 @ [sites]\<rparr> else vm2)
      in flush_caches vm3)"

definition copy_entries :: "vm \<Rightarrow> nat \<Rightarrow> nat \<Rightarrow> nat \<Rightarrow> nat \<Rightarrow> nat \<Rightarrow> vm" where
  "copy_entries vm keys vals new_keys new_vals n =
     fold (\<lambda>i vm. let k = vslot vm keys i; v = vslot vm vals i
                   in store_slot (store_slot vm new_keys i k) new_vals i v)
       [0..<n] vm"

definition install_method :: "vm \<Rightarrow> value \<Rightarrow> value \<Rightarrow> value \<Rightarrow> vm outcome" where
  "install_method vm0 cls selector method =
     (let c = vm_counters vm0;
          vm = vm0\<lparr>vm_counters := c\<lparr>method_installs := method_installs c + 1\<rparr>\<rparr>;
          mdict = vslot vm (as_ptr cls) BEHAVIOR_METHOD_DICTIONARY;
          keys = vslot vm (as_ptr mdict) MDICT_KEYS;
          vals = vslot vm (as_ptr mdict) MDICT_VALUES;
          n = unat (num_slots (vm_heap vm) (as_ptr keys))
      in case find (\<lambda>i. vslot vm (as_ptr keys) i = selector) [0..<n] of
           Some i \<Rightarrow>
             Ok (stamp_and_flush (store_slot vm (as_ptr vals) i method) method selector cls)
         | None \<Rightarrow>
             (case alloc_ptrs_old (vm_heap vm) CLASS_ARRAY (n + 1) (nil vm) of
                None \<Rightarrow> Panic
              | Some (new_keys, h1) \<Rightarrow>
                  (case alloc_ptrs_old h1 CLASS_ARRAY (n + 1) (nil vm) of
                     None \<Rightarrow> Panic
                   | Some (new_vals, h2) \<Rightarrow>
                       (let vm1 = copy_entries (vm\<lparr>vm_heap := h2\<rparr>) (as_ptr keys) (as_ptr vals)
                                    new_keys new_vals n;
                            vm2 = store_slot vm1 new_keys n selector;
                            vm3 = store_slot vm2 new_vals n method;
                            md = as_ptr mdict
                        in rbind (from_ptr_checked new_keys) (\<lambda>kv.
                           rbind (from_ptr_checked new_vals) (\<lambda>vv.
                           Ok (stamp_and_flush
                                 (store_slot (store_slot vm3 md MDICT_KEYS kv) md MDICT_VALUES vv)
                                 method selector cls)))))))"

definition register_class :: "vm \<Rightarrow> value \<Rightarrow> (u32 \<times> vm) outcome" where
  "register_class vm cls =
     (let idx = (of_nat (length (class_table vm)) :: u32)
      in if \<not> (ucast idx :: u64) < push_bit HDR_CLASS_BITS 1 then Panic
         else let vm1 = vm\<lparr>class_table := class_table vm @ [cls]\<rparr>;
                  vm2 = vset_slot_raw vm1 (as_ptr cls) BEHAVIOR_CLASS_INDEX (from_int (uint idx))
              in Ok (idx, flush_caches vm2))"

subsection \<open>The global cache is transparent\<close>

definition entry_ok :: "vm \<Rightarrow> lookup_entry \<Rightarrow> bool" where
  "entry_ok vm e \<longleftrightarrow> le_class_index e = 0
     \<or> lookup_method vm (le_class_index e) (le_selector e) = Ok (Some (le_method e))"

definition cache_ok :: "vm \<Rightarrow> bool" where
  "cache_ok vm \<longleftrightarrow> length (lookup_cache vm) = LOOKUP_CACHE_SIZE
     \<and> (\<forall>e \<in> set (lookup_cache vm). entry_ok vm e)"

lemma cache_index_less: "cache_index ci s < LOOKUP_CACHE_SIZE"
  by (simp add: cache_index_def)

text \<open>Lookup looks at the heap, the class table and the special objects only.\<close>

lemma lookup_cong:
  assumes "vm_heap vm' = vm_heap vm" and "class_table vm' = class_table vm"
    and "specials vm' = specials vm"
  shows "lookup_method_counted vm' ci s = lookup_method_counted vm ci s"
    and "lookup_method vm' ci s = lookup_method vm ci s"
    and "entry_ok vm' e = entry_ok vm e"
proof -
  show c: "lookup_method_counted vm' ci s = lookup_method_counted vm ci s" for ci s
    using assms by (simp add: lookup_method_counted_def class_table_at_def nil_def)
  show "lookup_method vm' ci s = lookup_method vm ci s" by (simp add: lookup_method_def c)
  show "entry_ok vm' e = entry_ok vm e" by (simp add: entry_ok_def lookup_method_def c)
qed

text \<open>
  C6. The global lookup cache cannot be observed: with a coherent cache, a cached lookup returns
  exactly what the walk up the superclass chain returns (found, not found, out of the class table
  or not returning), it leaves the heap, the class table and the special objects alone, and the
  cache stays coherent.
\<close>

theorem lookup_cached_transparent:
  assumes "cache_ok vm" and "ci \<noteq> 0"
  shows "rbind (lookup_cached vm ci s) (\<lambda>(m, _). Ok m) = lookup_method vm ci s
    \<and> (\<forall>m vm'. lookup_cached vm ci s = Ok (m, vm') \<longrightarrow>
         cache_ok vm' \<and> vm_heap vm' = vm_heap vm \<and> class_table vm' = class_table vm
         \<and> specials vm' = specials vm)"
proof -
  let ?i = "cache_index ci s" and ?e = "lookup_cache vm ! cache_index ci s"
  have len: "length (lookup_cache vm) = LOOKUP_CACHE_SIZE" and
    es: "\<forall>e \<in> set (lookup_cache vm). entry_ok vm e"
    using assms(1) by (auto simp: cache_ok_def)
  show ?thesis
  proof (cases "le_class_index ?e = ci \<and> le_selector ?e = s")
    case True
    have "entry_ok vm ?e" using es len cache_index_less [of ci s] by simp
    with True assms show ?thesis
      by (auto simp: lookup_cached_def Let_def entry_ok_def)
  next
    case False
    let ?c = "vm_counters vm"
    let ?vm1 = "vm\<lparr>vm_counters := ?c\<lparr>global_cache_miss := global_cache_miss ?c + 1,
                                     dict_walks := dict_walks ?c + 1\<rparr>\<rparr>"
    have same: "lookup_method_counted ?vm1 ci s = lookup_method_counted vm ci s"
      by (rule lookup_cong) simp_all
    show ?thesis
    proof (cases "lookup_method_counted vm ci s")
      case (Ok r)
      obtain m w where r: "r = (m, w)" by (cases r)
      have lm: "lookup_method vm ci s = Ok m" using Ok r by (simp add: lookup_method_def)
      have "entry_ok vm' \<lparr>le_class_index = ci, le_selector = s, le_method = x\<rparr>"
        if "m = Some x" "vm_heap vm' = vm_heap vm" "class_table vm' = class_table vm"
          "specials vm' = specials vm" for x vm'
        using lookup_cong(2) [OF that(2-4)] lm that(1) by (simp add: entry_ok_def)
      moreover have "entry_ok vm' e"
        if "e \<in> set (lookup_cache vm)" "vm_heap vm' = vm_heap vm" "class_table vm' = class_table vm"
          "specials vm' = specials vm" for e vm'
        using lookup_cong(3) [OF that(2-4)] es that(1) by simp
      ultimately show ?thesis
        using False Ok same r lm len
        by (cases m) (auto simp: lookup_cached_def Let_def cache_ok_def
            dest!: subsetD [OF set_update_subset_insert])
    qed (use False same in \<open>auto simp: lookup_cached_def Let_def lookup_method_def\<close>)
  qed
qed

lemma bare_cache_ok: "cache_ok (bare_literal h n)"
  by (simp add: cache_ok_def bare_literal_def entry_ok_def default_lookup_entry_def)

theorem lookup_cached_transparent_witness:
  "rbind (lookup_cached one_class_vm 1 5000) (\<lambda>(m, _). Ok m) = lookup_method one_class_vm 1 5000"
proof -
  have "cache_ok one_class_vm"
    by (simp add: one_class_vm_def bare_literal_def cache_ok_def entry_ok_def
        default_lookup_entry_def)
  from lookup_cached_transparent [OF this, of 1 5000] show ?thesis by simp
qed

subsection \<open>Flushing\<close>

text \<open>What a write into slots of one object leaves alone.\<close>

definition same_but_slots :: "heap \<Rightarrow> heap \<Rightarrow> (nat \<Rightarrow> nat \<Rightarrow> value option) \<Rightarrow> bool" where
  "same_but_slots h h' upd \<longleftrightarrow> heap_ok h' \<and> live h' = live h
     \<and> objects h' (young_from h) = objects h (young_from h) \<and> objects h' (old h) = objects h (old h)
     \<and> young_from h' = young_from h \<and> young_to h' = young_to h \<and> old h' = old h
     \<and> ssb h' = ssb h
     \<and> (\<forall>y \<in> live h. header h' y = header h y \<and> num_slots h' y = num_slots h y
          \<and> (\<forall>j < unat (num_slots h y). slot h' y j = (case upd y j of None \<Rightarrow> slot h y j | Some v \<Rightarrow> v)))"

lemma same_but_slots_refl: "heap_ok h \<Longrightarrow> same_but_slots h h (\<lambda>_ _. None)"
  by (simp add: same_but_slots_def)

lemma same_but_slots_write:
  assumes s: "same_but_slots h h' upd" and x: "x \<in> live h" and i: "i < unat (num_slots h x)"
  shows "same_but_slots h (set_slot_raw h' x i v)
    (\<lambda>y j. if y = x \<and> j = i then Some v else upd y j)"
proof -
  have ok: "heap_ok h'" and x': "x \<in> live h'" and i': "i < unat (num_slots h' x)"
    using s x i by (auto simp: same_but_slots_def)
  note w = set_slot_ok [OF ok x' i', where v = v] and g = slot_set_slot [OF ok x' i', where v = v]
  have f: "header (set_slot_raw h' x i v) y = header h y"
    "num_slots (set_slot_raw h' x i v) y = num_slots h y"
    "\<And>j. j < unat (num_slots h y) \<Longrightarrow> slot (set_slot_raw h' x i v) y j =
      (if y = x \<and> j = i then v else (case upd y j of None \<Rightarrow> slot h y j | Some v \<Rightarrow> v))"
    if y: "y \<in> live h" for y
    using w(5,6) [of y] g [of y] s y by (auto simp: same_but_slots_def)
  show ?thesis
    using w(1-4) f s by (simp add: same_but_slots_def)
qed

lemma same_but_slots_cong:
  assumes "same_but_slots h h' upd"
    and "\<And>y j. y \<in> live h \<Longrightarrow> j < unat (num_slots h y) \<Longrightarrow>
      (case upd' y j of None \<Rightarrow> slot h y j | Some v \<Rightarrow> v) = (case upd y j of None \<Rightarrow> slot h y j | Some v \<Rightarrow> v)"
  shows "same_but_slots h h' upd'"
  using assms by (simp add: same_but_slots_def)

definition site_clear :: "value \<Rightarrow> nat \<Rightarrow> value option" where
  "site_clear nilv j =
     (if j mod SITE_STRIDE = SITE_CACHE_CLASS then Some (from_int 0)
      else if j mod SITE_STRIDE = SITE_CACHE_METHOD then Some nilv else None)"

lemma clear_sites_Suc:
  "clear_sites nilv a (Suc n) h =
     set_slot_raw
       (set_slot_raw (clear_sites nilv a n h) a (n * SITE_STRIDE + SITE_CACHE_CLASS) (from_int 0))
       a (n * SITE_STRIDE + SITE_CACHE_METHOD) nilv"
  by (simp add: clear_sites_def)

lemma clear_sites_ok:
  assumes s: "same_but_slots h h' upd" and x: "a \<in> live h" and n: "n * SITE_STRIDE \<le> unat (num_slots h a)"
  shows "same_but_slots h (clear_sites nilv a n h')
    (\<lambda>y j. if y = a \<and> j < n * SITE_STRIDE \<and> site_clear nilv j \<noteq> None
           then site_clear nilv j else upd y j)"
  using n
proof (induction n)
  case 0
  with s show ?case by (simp add: clear_sites_def)
next
  case (Suc n)
  have b: "n * 5 + 2 < unat (num_slots h a)" "n * 5 + 3 < unat (num_slots h a)"
    using Suc.prems by simp_all
  have IH: "same_but_slots h (clear_sites nilv a n h')
    (\<lambda>y j. if y = a \<and> j < n * SITE_STRIDE \<and> site_clear nilv j \<noteq> None
           then site_clear nilv j else upd y j)"
    using Suc by simp
  have split: "j < Suc n * 5 \<longleftrightarrow> j < n * 5 \<or> j \<in> {n * 5, n * 5 + 1, n * 5 + 2, n * 5 + 3, n * 5 + 4}"
    for j by auto
  have md: "(n * 5) mod 5 = 0" "Suc (n * 5) mod 5 = 1" "Suc (Suc (n * 5)) mod 5 = 2"
    "(n * 5 + 1) mod 5 = 1" "(n * 5 + 2) mod 5 = 2" "(n * 5 + 3) mod 5 = 3" "(n * 5 + 4) mod 5 = 4"
    by presburger+
  have eq: "(if y = a \<and> j = n * 5 + 3 then Some nilv
      else if y = a \<and> j = n * 5 + 2 then Some (from_int 0)
      else if y = a \<and> j < n * SITE_STRIDE \<and> site_clear nilv j \<noteq> None
           then site_clear nilv j else upd y j)
    = (if y = a \<and> j < Suc n * SITE_STRIDE \<and> site_clear nilv j \<noteq> None
       then site_clear nilv j else upd y j)" for y j
    unfolding split using md by (auto simp: site_clear_def)
  show ?case
    unfolding clear_sites_Suc
    using same_but_slots_write [OF same_but_slots_write [OF IH x b(1), of "from_int 0"] x b(2), of nilv]
    unfolding eq [symmetric] by simp
qed

definition complete_site_slot :: "heap \<Rightarrow> nat \<Rightarrow> nat \<Rightarrow> bool" where
  "complete_site_slot h a j \<longleftrightarrow> j < unat (num_slots h a) div SITE_STRIDE * SITE_STRIDE"

definition registry_clear :: "heap \<Rightarrow> value \<Rightarrow> value list \<Rightarrow> nat \<Rightarrow> nat \<Rightarrow> value option" where
  "registry_clear h nilv registry y j =
     (if y \<in> as_ptr ` set registry \<and> complete_site_slot h y j then site_clear nilv j else None)"

lemma clear_registry_ok:
  assumes "same_but_slots h h' upd" and "\<forall>v \<in> set registry. as_ptr v \<in> live h"
  shows "same_but_slots h (clear_registry nilv registry h')
    (\<lambda>y j. case registry_clear h nilv registry y j of Some v \<Rightarrow> Some v | None \<Rightarrow> upd y j)"
  using assms
proof (induction registry arbitrary: h' upd)
  case Nil
  then show ?case by (simp add: clear_registry_def registry_clear_def)
next
  case (Cons v registry)
  let ?a = "as_ptr v"
  have a: "?a \<in> live h" using Cons.prems by simp
  have n: "num_slots h' ?a = num_slots h ?a"
    using Cons.prems(1) a by (simp add: same_but_slots_def)
  have le: "unat (num_slots h ?a) div 5 * 5 \<le> unat (num_slots h ?a)" by simp
  note one = clear_sites_ok [OF Cons.prems(1) a le, of nilv]
  have tl: "\<forall>v \<in> set registry. as_ptr v \<in> live h" using Cons.prems by simp
  note rest = Cons.IH [OF one tl]
  have eq: "(case registry_clear h nilv registry y j of Some v \<Rightarrow> Some v
      | None \<Rightarrow> if y = ?a \<and> j < unat (num_slots h ?a) div 5 * SITE_STRIDE \<and> site_clear nilv j \<noteq> None
                then site_clear nilv j else upd y j)
    = (case registry_clear h nilv (v # registry) y j of Some v \<Rightarrow> Some v | None \<Rightarrow> upd y j)" for y j
    by (cases "site_clear nilv j") (auto simp: registry_clear_def complete_site_slot_def)
  show ?case
    using rest unfolding eq by (simp add: clear_registry_def n)
qed

lemma flush_caches_sel [simp]:
  "class_table (flush_caches vm) = class_table vm" "specials (flush_caches vm) = specials vm"
  "site_registry (flush_caches vm) = site_registry vm"
  "symbols (flush_caches vm) = symbols vm" "temp_roots (flush_caches vm) = temp_roots vm"
  "vm_heap (flush_caches vm) = clear_registry (nil vm) (site_registry vm) (vm_heap vm)"
  by (simp_all add: flush_caches_def Let_def)

lemma flush_cache_ok:
  "length (lookup_cache vm) = LOOKUP_CACHE_SIZE \<Longrightarrow> cache_ok (flush_caches vm)"
  by (auto simp: cache_ok_def flush_caches_def Let_def entry_ok_def default_lookup_entry_def)

text \<open>
  Flushing empties every cache at once: the global cache is coherent whatever the classes have
  become, every send site of every registered array is left with class 0, which is no class index,
  and method nil, and nothing else in the heap changes.
\<close>

theorem flush_caches_clears:
  assumes "heap_ok (vm_heap vm)" and "length (lookup_cache vm) = LOOKUP_CACHE_SIZE"
    and "\<forall>v \<in> set (site_registry vm). as_ptr v \<in> live (vm_heap vm)"
  shows "cache_ok (flush_caches vm) \<and> heap_ok (vm_heap (flush_caches vm))
    \<and> live (vm_heap (flush_caches vm)) = live (vm_heap vm)
    \<and> (\<forall>v \<in> set (site_registry vm). \<forall>s < unat (num_slots (vm_heap vm) (as_ptr v)) div SITE_STRIDE.
         as_int (slot (vm_heap (flush_caches vm)) (as_ptr v) (s * SITE_STRIDE + SITE_CACHE_CLASS)) = 0
         \<and> slot (vm_heap (flush_caches vm)) (as_ptr v) (s * SITE_STRIDE + SITE_CACHE_METHOD) = nil vm)
    \<and> (\<forall>y \<in> live (vm_heap vm). header (vm_heap (flush_caches vm)) y = header (vm_heap vm) y
         \<and> (\<forall>j < unat (num_slots (vm_heap vm) y).
              (y \<in> as_ptr ` set (site_registry vm) \<longrightarrow>
                 j mod SITE_STRIDE \<notin> {SITE_CACHE_CLASS, SITE_CACHE_METHOD})
              \<longrightarrow> slot (vm_heap (flush_caches vm)) y j = slot (vm_heap vm) y j))"
proof -
  let ?h = "vm_heap vm" and ?r = "site_registry vm"
  have s: "same_but_slots ?h (vm_heap (flush_caches vm))
      (\<lambda>y j. case registry_clear ?h (nil vm) ?r y j of Some v \<Rightarrow> Some v | None \<Rightarrow> None)"
    using clear_registry_ok [OF same_but_slots_refl [OF assms(1)] assms(3), of "nil vm"] by simp
  have cleared: "as_int (slot (vm_heap (flush_caches vm)) a (i * 5 + 2)) = 0"
    "slot (vm_heap (flush_caches vm)) a (i * 5 + 3) = nil vm"
    if a: "a \<in> as_ptr ` set ?r" and i: "i < unat (num_slots ?h a) div 5" for a i
  proof -
    have l: "a \<in> live ?h" using assms(3) a by auto
    have m: "(i * 5 + 2) mod 5 = 2" "(i * 5 + 3) mod 5 = 3" by presburger+
    have c: "i * 5 + 2 < unat (num_slots ?h a) div 5 * 5" "i * 5 + 3 < unat (num_slots ?h a) div 5 * 5"
      using i by linarith+
    then have n: "i * 5 + 2 < unat (num_slots ?h a)" "i * 5 + 3 < unat (num_slots ?h a)"
      by (meson div_times_less_eq_dividend less_le_trans)+
    have "slot (vm_heap (flush_caches vm)) a (i * 5 + 2) = from_int 0"
      "slot (vm_heap (flush_caches vm)) a (i * 5 + 3) = nil vm"
      using s l n a c m
      by (auto simp: same_but_slots_def registry_clear_def complete_site_slot_def site_clear_def)
    then show "as_int (slot (vm_heap (flush_caches vm)) a (i * 5 + 2)) = 0"
      "slot (vm_heap (flush_caches vm)) a (i * 5 + 3) = nil vm"
      by (simp_all add: in_smallint_def SMALLINT_MAX_def SMALLINT_MIN_def)
  qed
  have kept: "slot (vm_heap (flush_caches vm)) y j = slot ?h y j"
    if "y \<in> live ?h" "j < unat (num_slots ?h y)" "y \<in> as_ptr ` set ?r \<longrightarrow> j mod 5 \<notin> {2, 3}" for y j
    using s that by (auto simp: same_but_slots_def registry_clear_def site_clear_def split: option.splits)
  show ?thesis
    using s cleared kept flush_cache_ok [OF assms(2)] unfolding same_but_slots_def by blast
qed

text \<open>One registered array of one send site in a fresh heap.\<close>

definition one_site_vm :: vm where
  "one_site_vm = (bare_literal (snd (the (alloc_fixed small_heap 17 5 1))) 0)
     \<lparr>site_registry := [from_ptr 4096], specials := replicate SPECIAL_OBJECTS_COUNT 8\<rparr>"

lemma one_site_vm:
  "heap_ok (vm_heap one_site_vm)" "live (vm_heap one_site_vm) = {4096}"
  "unat (num_slots (vm_heap one_site_vm) 4096) = 5" "site_registry one_site_vm = [from_ptr 4096]"
proof -
  have "\<exists>h'. alloc_fixed small_heap 17 5 1 = Some (4096, h')"
    by (simp add: alloc_fixed_def alloc_body_def alloc_in_young_def small_heap_room alloc_in_small)
  then obtain h' where h': "alloc_fixed small_heap 17 5 1 = Some (4096, h')" by blast
  note ct = fixed_alloc.contract [OF small_heap_ok class_ok_17 h']
  have e: "live small_heap = {}" by (simp add: small_heap_def new_heap_def objects_empty live_def)
  have h: "vm_heap one_site_vm = h'" by (simp add: one_site_vm_def bare_literal_def h')
  show "heap_ok (vm_heap one_site_vm)" "live (vm_heap one_site_vm) = {4096}"
    "unat (num_slots (vm_heap one_site_vm) 4096) = 5" "site_registry one_site_vm = [from_ptr 4096]"
    using ct e by (simp_all add: h allocated_def) (simp add: one_site_vm_def)
qed

theorem flush_caches_clears_witness:
  "cache_ok (flush_caches one_site_vm)
   \<and> as_int (slot (vm_heap (flush_caches one_site_vm)) 4096 (0 * SITE_STRIDE + SITE_CACHE_CLASS)) = 0"
proof -
  have p: "as_ptr (from_ptr 4096) = 4096" by (rule as_ptr_from_ptr) simp
  have len: "length (lookup_cache one_site_vm) = LOOKUP_CACHE_SIZE"
    by (simp add: one_site_vm_def bare_literal_def)
  have l: "\<forall>v \<in> set (site_registry one_site_vm). as_ptr v \<in> live (vm_heap one_site_vm)"
    by (simp add: one_site_vm p)
  from flush_caches_clears [OF one_site_vm(1) len l] show ?thesis
    by (simp add: one_site_vm p)
qed

end
