(* ===== verification/Sample_Heap.thy ===== *)
theory Sample_Heap
  imports Remembered_Set
begin

section \<open>Sample heaps for the concrete instances\<close>

text \<open>
  A pool of n old objects of class 17 with eight slots each, all holding the integer 0, made by
  alloc_fixed_old in the small heap; object i is at pool_obj i. The concrete instances of the
  theorems about classes, processes and queues are built on it.
\<close>

definition pool_obj :: "nat \<Rightarrow> nat" where
  "pool_obj i = 12288 + 72 * i"

fun pool :: "nat \<Rightarrow> heap" where
  "pool 0 = small_heap"
| "pool (Suc n) = snd (the (alloc_fixed_old (pool n) 17 8 1))"

definition pool_ok :: "nat \<Rightarrow> heap \<Rightarrow> bool" where
  "pool_ok n h \<longleftrightarrow> heap_ok h \<and> old h = (old small_heap)\<lparr>sp_alloc := 9 * n\<rparr>
     \<and> young_from h = young_from small_heap \<and> ssb h = []
     \<and> live h = pool_obj ` {..<n} \<and> objects h (old h) = map pool_obj [0..<n]
     \<and> (\<forall>i < n. unat (num_slots h (pool_obj i)) = 8 \<and> gc_bits (header h (pool_obj i)) = 0
          \<and> hdr_class_index (header h (pool_obj i)) = 17 \<and> hdr_format (header h (pool_obj i)) = FMT_FIXED
          \<and> (\<forall>j < 8. slot h (pool_obj i) j = 1))"

abbreviation pool_ref :: "nat \<Rightarrow> value" where
  "pool_ref i \<equiv> from_ptr (pool_obj i)"

lemma pool_ok_0: "pool_ok 0 small_heap"
  by (simp add: pool_ok_def small_heap_ok live_def objects_empty)
     (simp add: small_heap_def new_heap_def objects_empty)

lemma pool_step:
  assumes p: "pool_ok n h" and n: "n < 56"
  shows "\<exists>h'. alloc_fixed_old h 17 8 1 = Some (pool_obj n, h') \<and> pool_ok (Suc n) h'"
proof -
  have ok: "heap_ok h" and o: "old h = (old small_heap)\<lparr>sp_alloc := 9 * n\<rparr>"
    and y: "young_from h = young_from small_heap" "ssb h = []"
    using p by (auto simp: pool_ok_def)
  have "\<exists>h'. alloc_fixed_old h 17 8 1 = Some (pool_obj n, h')
      \<and> old h' = (old small_heap)\<lparr>sp_alloc := 9 * Suc n\<rparr> \<and> young_from h' = young_from small_heap
      \<and> ssb h' = []"
    using n o y
    by (auto simp: alloc_fixed_old_def alloc_in_old_def alloc_in_small small_heap_def new_heap_def
        space_top_def pool_obj_def fill_slots_eq count_old_def)
  then obtain h' where h': "alloc_fixed_old h 17 8 1 = Some (pool_obj n, h')"
    "old h' = (old small_heap)\<lparr>sp_alloc := 9 * Suc n\<rparr>" "young_from h' = young_from small_heap"
    "ssb h' = []" by blast
  note ct = fixed_old_alloc.contract [OF ok class_ok_17 h'(1)]
    and u = fixed_old_alloc.others_unchanged [OF ok class_ok_17 h'(1)]
  have "\<not> is_young h' (pool_obj n)"
    using n by (simp add: h' is_young_def space_contains_def space_limit_def small_heap_def
        new_heap_def pool_obj_def)
  then have ob: "objects h' (old h') = map pool_obj [0..<Suc n]"
    using ct(2) p by (auto simp: allocated_def pool_ok_def)
  have lv: "live h' = pool_obj ` {..<Suc n}"
    using ct(4) p by (simp add: pool_ok_def lessThan_Suc)
  have "unat (num_slots h' (pool_obj i)) = 8 \<and> gc_bits (header h' (pool_obj i)) = 0
      \<and> hdr_class_index (header h' (pool_obj i)) = 17 \<and> hdr_format (header h' (pool_obj i)) = FMT_FIXED
      \<and> (\<forall>j < 8. slot h' (pool_obj i) j = 1)" if i: "i < Suc n" for i
  proof (cases "i = n")
    case True
    then show ?thesis using ct(2) by (simp add: allocated_def)
  next
    case False
    then have l: "pool_obj i \<in> live h" and i': "i < n" using p i by (auto simp: pool_ok_def)
    then show ?thesis using u [OF l] p by (simp add: pool_ok_def)
  qed
  then have "pool_ok (Suc n) h'" using ct(1) h' ob lv by (simp add: pool_ok_def)
  with h'(1) show ?thesis by blast
qed

lemma pool_ok: "n \<le> 56 \<Longrightarrow> pool_ok n (pool n)"
proof (induction n)
  case 0
  show ?case using pool_ok_0 by simp
next
  case (Suc n)
  then obtain h' where h': "alloc_fixed_old (pool n) 17 8 1 = Some (pool_obj n, h')" "pool_ok (Suc n) h'"
    using pool_step [of n "pool n"] by auto
  have "pool (Suc n) = h'" unfolding pool.simps h'(1) by simp
  with h'(2) show ?case by simp
qed

lemma pool_obj_inject [simp]: "pool_obj i = pool_obj j \<longleftrightarrow> i = j"
  by (simp add: pool_obj_def)

lemma pool_obj_ptr:
  "i < 56 \<Longrightarrow> as_ptr (from_ptr (pool_obj i)) = pool_obj i"
  "i < 56 \<Longrightarrow> is_ptr (from_ptr (pool_obj i))"
  "i < 56 \<Longrightarrow> j < 56 \<Longrightarrow> from_ptr (pool_obj i) = from_ptr (pool_obj j) \<longleftrightarrow> i = j"
proof -
  have b: "i < 56 \<Longrightarrow> pool_obj i < 2 ^ 64" for i by (simp add: pool_obj_def)
  show "i < 56 \<Longrightarrow> as_ptr (from_ptr (pool_obj i)) = pool_obj i" by (rule as_ptr_from_ptr [OF b])
  show "i < 56 \<Longrightarrow> is_ptr (from_ptr (pool_obj i))"
    using is_ptr_from_ptr [OF b] by (simp add: pool_obj_def aligned_def mod_add_eq [symmetric])
  show "i < 56 \<Longrightarrow> j < 56 \<Longrightarrow> from_ptr (pool_obj i) = from_ptr (pool_obj j) \<longleftrightarrow> i = j"
    using from_ptr_inject [OF b b] by simp
qed

text \<open>Setting slots of pool objects, given as a list of (object, slot, value).\<close>

fun set_slots :: "heap \<Rightarrow> (nat \<times> nat \<times> value) list \<Rightarrow> heap" where
  "set_slots h [] = h"
| "set_slots h ((i, j, v) # ws) = set_slots (set_slot_raw h (pool_obj i) j v) ws"

fun last_write :: "(nat \<times> nat \<times> value) list \<Rightarrow> nat \<Rightarrow> nat \<Rightarrow> value \<Rightarrow> value" where
  "last_write [] i j d = d"
| "last_write ((i', j', v) # ws) i j d = last_write ws i j (if i = i' \<and> j = j' then v else d)"

lemma set_slots_ok:
  assumes "heap_ok h" and "live h = pool_obj ` {..<n}" and "\<forall>i < n. unat (num_slots h (pool_obj i)) = 8"
    and "\<forall>(i, j, v) \<in> set ws. i < n \<and> j < 8"
  shows "heap_ok (set_slots h ws) \<and> live (set_slots h ws) = live h
    \<and> old (set_slots h ws) = old h \<and> young_from (set_slots h ws) = young_from h
    \<and> ssb (set_slots h ws) = ssb h
    \<and> (\<forall>i < n. header (set_slots h ws) (pool_obj i) = header h (pool_obj i)
         \<and> unat (num_slots (set_slots h ws) (pool_obj i)) = 8
         \<and> (\<forall>j < 8. slot (set_slots h ws) (pool_obj i) j = last_write ws i j (slot h (pool_obj i) j)))"
  using assms
proof (induction ws arbitrary: h)
  case (Cons w ws)
  obtain i j v where w: "w = (i, j, v)" by (cases w)
  let ?h = "set_slot_raw h (pool_obj i) j v"
  have i: "i < n" "j < 8" using Cons.prems(4) w by auto
  have x: "pool_obj i \<in> live h" and b: "j < unat (num_slots h (pool_obj i))"
    using Cons.prems(2,3) i by auto
  note s = set_slot_ok [OF Cons.prems(1) x b, where v = v]
    and g = slot_set_slot [OF Cons.prems(1) x b, where v = v]
  have l: "pool_obj a \<in> live h" if "a < n" for a using Cons.prems(2) that by auto
  have n': "\<forall>i < n. unat (num_slots ?h (pool_obj i)) = 8" using s(6) l Cons.prems(3) by simp
  have sl: "slot ?h (pool_obj a) c = (if a = i \<and> c = j then v else slot h (pool_obj a) c)"
    if "a < n" "c < 8" for a c
    using g [OF l [OF that(1)]] Cons.prems(3) that by simp
  have "\<forall>(i, j, v) \<in> set ws. i < n \<and> j < 8" using Cons.prems(4) by auto
  note IH = Cons.IH [OF s(1) _ n' this]
  show ?case
    using IH s(2) Cons.prems(2) s(5) l sl by (auto simp: w)
qed auto

end
