(* ===== verification/Heap_View.thy ===== *)
theory Heap_View
  imports Remembered_Set
begin

section \<open>Heaps as updates of an earlier heap\<close>

text \<open>
  A sequence of barrier-checked stores is followed by the relation view: which slots of which
  objects differ from an earlier heap, and how. The proofs about method installation, run queues
  and the context switch all use it.
\<close>

definition view :: "heap \<Rightarrow> heap \<Rightarrow> (nat \<Rightarrow> nat \<Rightarrow> value option) \<Rightarrow> bool" where
  "view h h' upd \<longleftrightarrow> heap_ok h' \<and> live h \<subseteq> live h'
     \<and> (\<forall>y \<in> live h. num_slots h' y = num_slots h y
          \<and> (\<forall>j < unat (num_slots h y). slot h' y j = (case upd y j of None \<Rightarrow> slot h y j | Some v \<Rightarrow> v)))"

lemma view_refl: "heap_ok h \<Longrightarrow> view h h (\<lambda>_ _. None)"
  by (simp add: view_def)

lemma view_cong: "view h h' upd \<Longrightarrow> upd = upd' \<Longrightarrow> view h h' upd'"
  by simp

lemma view_slot:
  "view h h' upd \<Longrightarrow> y \<in> live h \<Longrightarrow> j < unat (num_slots h y) \<Longrightarrow>
     slot h' y j = (case upd y j of None \<Rightarrow> slot h y j | Some v \<Rightarrow> v)"
  by (simp add: view_def)

lemma view_store:
  assumes s: "view h (vm_heap vm) upd" and x: "x \<in> live h" and i: "i < unat (num_slots h x)"
  shows "view h (vm_heap (store_slot vm x i v)) (\<lambda>y j. if y = x \<and> j = i then Some v else upd y j)"
proof -
  have ok: "heap_ok (vm_heap vm)" and x': "x \<in> live (vm_heap vm)"
    and i': "i < unat (num_slots (vm_heap vm) x)"
    using s x i by (auto simp: view_def)
  note w = store_slot_ok [OF ok x' i', where v = v]
  have "num_slots (vm_heap (store_slot vm x i v)) y = num_slots h y"
    and "\<And>j. j < unat (num_slots h y) \<Longrightarrow> slot (vm_heap (store_slot vm x i v)) y j =
      (case (if y = x \<and> j = i then Some v else upd y j) of None \<Rightarrow> slot h y j | Some v \<Rightarrow> v)"
    if y: "y \<in> live h" for y
    using w(3,4) [of y] s y by (auto simp: view_def)
  then show ?thesis
    using w(1,2) s by (simp add: view_def)
qed

lemma store_slot_sel [simp]:
  "class_table (store_slot vm x i v) = class_table vm" "specials (store_slot vm x i v) = specials vm"
  "site_registry (store_slot vm x i v) = site_registry vm"
  "lookup_cache (store_slot vm x i v) = lookup_cache vm" "symbols (store_slot vm x i v) = symbols vm"
  "temp_roots (store_slot vm x i v) = temp_roots vm"
  "active_process (store_slot vm x i v) = active_process vm"
  "timer_requests (store_slot vm x i v) = timer_requests vm"
  "nil (store_slot vm x i v) = nil vm"
  by (simp_all add: store_slot_def write_barrier_def vset_slot_raw_def nil_def Let_def)

lemma view_vset:
  assumes s: "view h (vm_heap vm) upd" and x: "x \<in> live h" and i: "i < unat (num_slots h x)"
  shows "view h (vm_heap (vset_slot_raw vm x i v)) (\<lambda>y j. if y = x \<and> j = i then Some v else upd y j)"
proof -
  have ok: "heap_ok (vm_heap vm)" and x': "x \<in> live (vm_heap vm)"
    and i': "i < unat (num_slots (vm_heap vm) x)"
    using s x i by (auto simp: view_def)
  note w = set_slot_ok [OF ok x' i', where v = v] and g = slot_set_slot [OF ok x' i', where v = v]
  have "num_slots (vm_heap (vset_slot_raw vm x i v)) y = num_slots h y"
    and "\<And>j. j < unat (num_slots h y) \<Longrightarrow> slot (vm_heap (vset_slot_raw vm x i v)) y j =
      (case (if y = x \<and> j = i then Some v else upd y j) of None \<Rightarrow> slot h y j | Some v \<Rightarrow> v)"
    if y: "y \<in> live h" for y
    using w(6) [of y] g [of y] s y by (auto simp: view_def vset_slot_raw_def)
  then show ?thesis
    using w(1,2) s by (simp add: view_def vset_slot_raw_def)
qed

lemma vset_slot_raw_sel [simp]:
  "class_table (vset_slot_raw vm x i v) = class_table vm" "specials (vset_slot_raw vm x i v) = specials vm"
  "active_process (vset_slot_raw vm x i v) = active_process vm" "nil (vset_slot_raw vm x i v) = nil vm"
  "timer_requests (vset_slot_raw vm x i v) = timer_requests vm"
  by (simp_all add: vset_slot_raw_def nil_def)

lemma vslot_view:
  assumes "view (vm_heap vm) (vm_heap vm') upd" and "y \<in> live (vm_heap vm)"
    and "j < unat (num_slots (vm_heap vm) y)"
  shows "vslot vm' y j = (case upd y j of None \<Rightarrow> vslot vm y j | Some v \<Rightarrow> v)"
  using view_slot [OF assms] by (simp add: vslot_def split: option.splits)

text \<open>What reads only objects outside A is untouched by an operation that writes only objects of A.\<close>

definition touches :: "nat set \<Rightarrow> vm \<Rightarrow> vm \<Rightarrow> bool" where
  "touches A vm vm' \<longleftrightarrow> (heap_ok (vm_heap vm) \<longrightarrow> heap_ok (vm_heap vm')) \<and> specials vm' = specials vm \<and> live (vm_heap vm) \<subseteq> live (vm_heap vm')
     \<and> (\<forall>y \<in> live (vm_heap vm). num_slots (vm_heap vm') y = num_slots (vm_heap vm) y
          \<and> (y \<notin> A \<longrightarrow> (\<forall>j < unat (num_slots (vm_heap vm) y). vslot vm' y j = vslot vm y j)))"

lemma touches_refl: "touches A vm vm"
  by (simp add: touches_def)

lemma touches_trans: "touches A vm vm1 \<Longrightarrow> touches A vm1 vm2 \<Longrightarrow> touches A vm vm2"
  unfolding touches_def by (metis subset_iff)

lemma touches_mono: "touches A vm vm' \<Longrightarrow> A \<subseteq> B \<Longrightarrow> touches B vm vm'"
  unfolding touches_def by blast

lemma touches_slot:
  "touches A vm vm' \<Longrightarrow> y \<in> live (vm_heap vm) \<Longrightarrow> y \<notin> A \<Longrightarrow> j < unat (num_slots (vm_heap vm) y) \<Longrightarrow>
     vslot vm' y j = vslot vm y j"
  by (simp add: touches_def)

lemma touches_nil: "touches A vm vm' \<Longrightarrow> nil vm' = nil vm"
  by (simp add: touches_def nil_def)

lemma touches_view:
  assumes "view (vm_heap vm) (vm_heap vm') upd" and "specials vm' = specials vm"
    and "\<And>y j. y \<notin> A \<Longrightarrow> upd y j = None"
  shows "touches A vm vm'"
  using assms by (simp add: touches_def view_def vslot_def)

end
