(* ===== verification/Method_Install.thy ===== *)
theory Method_Install
  imports Lookup_Cache Sample_Heap Heap_View
begin

section \<open>Installing a method\<close>

text \<open>
  What Vm::install_method of src/vm.rs achieves: afterwards the dictionary of the class answers
  the new method for its selector and what it answered before for every other selector, both when
  the selector was there and when the parallel arrays had to grow, and the global cache is
  coherent. The state is followed through the sequence of stores by the relation view.
\<close>

lemma view_trans_flush:
  assumes s: "view h (vm_heap vm) upd" and r: "\<forall>v \<in> set (site_registry vm). as_ptr v \<in> live (vm_heap vm)"
  shows "view h (vm_heap (flush_caches vm))
    (\<lambda>y j. if y \<in> as_ptr ` set (site_registry vm)
           then Some (slot (vm_heap (flush_caches vm)) y j) else upd y j)"
proof -
  have ok: "heap_ok (vm_heap vm)" using s by (simp add: view_def)
  have f: "same_but_slots (vm_heap vm) (vm_heap (flush_caches vm))
      (\<lambda>y j. case registry_clear (vm_heap vm) (nil vm) (site_registry vm) y j of
               Some v \<Rightarrow> Some v | None \<Rightarrow> None)"
    using clear_registry_ok [OF same_but_slots_refl [OF ok] r, of "nil vm"] by simp
  show ?thesis
    unfolding view_def
  proof (intro conjI ballI allI impI)
    show "heap_ok (vm_heap (flush_caches vm))" using f by (simp add: same_but_slots_def)
    show "live h \<subseteq> live (vm_heap (flush_caches vm))"
      using f s by (simp add: same_but_slots_def view_def)
    fix y assume y: "y \<in> live h"
    then have y': "y \<in> live (vm_heap vm)" using s by (auto simp: view_def)
    show n: "num_slots (vm_heap (flush_caches vm)) y = num_slots h y"
      using f s y y' by (simp add: same_but_slots_def view_def)
    fix j assume j: "j < unat (num_slots h y)"
    then have j': "j < unat (num_slots (vm_heap vm) y)" using s y by (simp add: view_def)
    show "slot (vm_heap (flush_caches vm)) y j =
        (case if y \<in> as_ptr ` set (site_registry vm)
           then Some (slot (vm_heap (flush_caches vm)) y j) else upd y j of
         None \<Rightarrow> slot h y j | Some v \<Rightarrow> v)"
      using f y' j' view_slot [OF s y j]
      by (auto simp: same_but_slots_def registry_clear_def)
  qed
qed

subsection \<open>Copying the entries\<close>

lemma copy_entries_Suc:
  "copy_entries vm keys vals nk nv (Suc n) =
     (let vm1 = copy_entries vm keys vals nk nv n
      in store_slot (store_slot vm1 nk n (vslot vm1 keys n)) nv n (vslot vm1 vals n))"
  by (simp add: copy_entries_def Let_def)

lemma copy_entries_sel:
  "site_registry (copy_entries vm keys vals nk nv n) = site_registry vm
   \<and> specials (copy_entries vm keys vals nk nv n) = specials vm
   \<and> lookup_cache (copy_entries vm keys vals nk nv n) = lookup_cache vm"
  by (induction n) (simp_all add: copy_entries_Suc copy_entries_def [of _ _ _ _ _ 0] Let_def store_slot_sel)

lemma copy_entries_view:
  assumes s: "heap_ok h" "vm_heap vm = h"
    and k: "keys \<in> live h" "vals \<in> live h" "nk \<in> live h" "nv \<in> live h"
    and d: "nk \<noteq> nv" "keys \<noteq> nk" "keys \<noteq> nv" "vals \<noteq> nk" "vals \<noteq> nv"
    and n: "n \<le> unat (num_slots h keys)" "n \<le> unat (num_slots h vals)" "n \<le> unat (num_slots h nk)"
      "n \<le> unat (num_slots h nv)"
  shows "view h (vm_heap (copy_entries vm keys vals nk nv n))
    (\<lambda>y j. if y = nv \<and> j < n then Some (slot h vals j)
           else if y = nk \<and> j < n then Some (slot h keys j) else None)"
  using n
proof (induction n)
  case 0
  then show ?case using s by (simp add: copy_entries_def view_def)
next
  case (Suc n)
  let ?vm = "copy_entries vm keys vals nk nv n"
  let ?u = "\<lambda>y j. if y = nv \<and> j < n then Some (slot h vals j)
           else if y = nk \<and> j < n then Some (slot h keys j) else None"
  have IH: "view h (vm_heap ?vm) ?u" using Suc by simp
  have kv: "vslot ?vm keys n = slot h keys n" "vslot ?vm vals n = slot h vals n"
    using view_slot [OF IH k(1), of n] view_slot [OF IH k(2), of n] Suc.prems d
    by (simp_all add: vslot_def)
  have b: "n < unat (num_slots h nk)" "n < unat (num_slots h nv)" using Suc.prems by simp_all
  have "view h (vm_heap (copy_entries vm keys vals nk nv (Suc n)))
    (\<lambda>y j. if y = nv \<and> j = n then Some (slot h vals n)
           else if y = nk \<and> j = n then Some (slot h keys n) else ?u y j)"
    unfolding copy_entries_Suc Let_def kv
    by (rule view_store [OF view_store [OF IH k(3) b(1)] k(4) b(2)])
  moreover have "(\<lambda>y j. if y = nv \<and> j = n then Some (slot h vals n)
           else if y = nk \<and> j = n then Some (slot h keys n) else ?u y j)
    = (\<lambda>y j. if y = nv \<and> j < Suc n then Some (slot h vals j)
           else if y = nk \<and> j < Suc n then Some (slot h keys j) else None)"
    using d(1) by (auto simp: fun_eq_iff less_Suc_eq)
  ultimately show ?case by simp
qed

subsection \<open>Dictionaries as association lists\<close>

definition assoc :: "nat \<Rightarrow> (nat \<Rightarrow> value) \<Rightarrow> (nat \<Rightarrow> value) \<Rightarrow> value \<Rightarrow> value option" where
  "assoc n K V s = (case find (\<lambda>i. K i = s) [0..<n] of None \<Rightarrow> None | Some i \<Rightarrow> Some (V i))"

lemma mdict_lookup_assoc:
  "mdict_lookup h md s = assoc (unat (num_slots h (as_ptr (slot h (as_ptr md) MDICT_KEYS))))
     (slot h (as_ptr (slot h (as_ptr md) MDICT_KEYS)))
     (slot h (as_ptr (slot h (as_ptr md) MDICT_VALUES))) s"
  by (simp add: mdict_lookup_def assoc_def Let_def)

lemma assoc_Some: "assoc n K V s = Some m \<longleftrightarrow> (\<exists>i < n. K i = s \<and> m = V i \<and> \<not> (\<exists>j < i. K j = s))"
  unfolding assoc_def by (rule find_upt_map)

lemma assoc_None: "assoc n K V s = None \<longleftrightarrow> (\<forall>i < n. K i \<noteq> s)"
  by (auto simp: assoc_def find_None_iff find_upt split: option.splits)

lemma option_eqI: "(\<And>m. x = Some m \<longleftrightarrow> y = Some m) \<Longrightarrow> x = y"
  by (cases x; cases y) auto

lemma assoc_cong:
  assumes "\<And>i. i < n \<Longrightarrow> K' i = K i" and "\<And>i. i < n \<Longrightarrow> V' i = V i"
  shows "assoc n K' V' s = assoc n K V s"
  by (rule option_eqI) (use assms in \<open>auto simp: assoc_Some intro: less_trans\<close>)

lemma assoc_update:
  assumes "find (\<lambda>i. K i = s) [0..<n] = Some i"
  shows "assoc n K (\<lambda>j. if j = i then m else V j) t = (if t = s then Some m else assoc n K V t)"
proof (cases "t = s")
  case True
  with assms show ?thesis by (simp add: assoc_def)
next
  case False
  have "K i = s" using assms by (simp add: find_upt)
  then have "assoc n K (\<lambda>j. if j = i then m else V j) t = assoc n K V t"
    using False by (intro option_eqI) (auto simp: assoc_Some)
  with False show ?thesis by simp
qed

lemma assoc_extend:
  assumes "find (\<lambda>i. K i = s) [0..<n] = None"
  shows "assoc (Suc n) (\<lambda>j. if j = n then s else K j) (\<lambda>j. if j = n then m else V j) t
    = (if t = s then Some m else assoc n K V t)"
proof -
  have no: "\<forall>i < n. K i \<noteq> s" using assms by (auto simp: find_None_iff)
  show ?thesis
  proof (rule option_eqI)
    fix r
    show "assoc (Suc n) (\<lambda>j. if j = n then s else K j) (\<lambda>j. if j = n then m else V j) t = Some r
      \<longleftrightarrow> (if t = s then Some m else assoc n K V t) = Some r"
      using no by (auto simp: assoc_Some less_Suc_eq)
  qed
qed

subsection \<open>Stamping and flushing\<close>

text \<open>The send-site arrays a flush after installing the method m writes to.\<close>

definition site_arrays :: "vm \<Rightarrow> heap \<Rightarrow> nat \<Rightarrow> nat set" where
  "site_arrays vm h m = as_ptr ` (set (site_registry vm) \<union>
     (let v = slot h m METHOD_SEND_SITES in if is_ptr v \<and> v \<noteq> nil vm then {v} else {}))"

lemma stamp_and_flush_view:
  assumes v: "view h (vm_heap vm) upd" and m: "as_ptr meth \<in> live h"
    and n: "METHOD_CLASS < unat (num_slots h (as_ptr meth))"
    and u: "upd (as_ptr meth) METHOD_SEND_SITES = None"
    and r: "site_arrays vm h (as_ptr meth) \<subseteq> live h"
  shows "\<exists>upd'. view h (vm_heap (stamp_and_flush vm meth selector cls)) upd'
    \<and> (\<forall>y. y \<noteq> as_ptr meth \<longrightarrow> y \<notin> site_arrays vm h (as_ptr meth) \<longrightarrow> upd' y = upd y)"
proof -
  let ?m = "as_ptr meth"
  let ?vm2 = "store_slot (store_slot vm ?m METHOD_SELECTOR selector) ?m METHOD_CLASS cls"
  let ?u2 = "\<lambda>y j. if y = ?m \<and> j = 5 then Some cls
     else if y = ?m \<and> j = 4 then Some selector else upd y j"
  have v2: "view h (vm_heap ?vm2) ?u2"
    by (rule view_store [OF view_store [OF v m] m n]) (use n in simp)
  have s: "vslot ?vm2 ?m METHOD_SEND_SITES = slot h ?m METHOD_SEND_SITES"
    using view_slot [OF v2 m, of 3] n u by (simp add: vslot_def)
  let ?sites = "slot h ?m METHOD_SEND_SITES"
  define vm3 where "vm3 = (if is_ptr ?sites \<and> ?sites \<noteq> nil ?vm2 \<and> ?sites \<notin> set (site_registry ?vm2)
     then ?vm2\<lparr>site_registry := site_registry ?vm2 @ [?sites]\<rparr> else ?vm2)"
  have eq: "stamp_and_flush vm meth selector cls = flush_caches vm3"
    by (simp add: stamp_and_flush_def Let_def s vm3_def)
  have reg: "as_ptr ` set (site_registry vm3) = site_arrays vm h ?m"
    by (auto simp: site_arrays_def Let_def vm3_def)
  have v3: "view h (vm_heap vm3) ?u2" using v2 by (simp add: vm3_def)
  then have "live h \<subseteq> live (vm_heap vm3)" by (simp add: view_def)
  then have l: "\<forall>v \<in> set (site_registry vm3). as_ptr v \<in> live (vm_heap vm3)"
    using r reg by blast
  note fin = view_trans_flush [OF v3 l]
  show ?thesis
    unfolding eq
    by (rule exI, rule conjI [OF fin]) (simp add: reg)
qed

subsection \<open>The new method is what lookup finds\<close>

definition installable :: "vm \<Rightarrow> value \<Rightarrow> value \<Rightarrow> bool" where
  "installable vm cls meth \<longleftrightarrow>
     (let h = vm_heap vm; c = as_ptr cls; m = as_ptr meth;
          md = slot h c BEHAVIOR_METHOD_DICTIONARY; d = as_ptr md;
          k = as_ptr (slot h d MDICT_KEYS); v = as_ptr (slot h d MDICT_VALUES)
      in heap_ok h \<and> md \<noteq> nil vm \<and> {c, d, k, v, m} \<subseteq> live h \<and> distinct [c, d, k, v, m]
         \<and> BEHAVIOR_METHOD_DICTIONARY < unat (num_slots h c)
         \<and> MDICT_VALUES < unat (num_slots h d) \<and> METHOD_CLASS < unat (num_slots h m)
         \<and> num_slots h v = num_slots h k
         \<and> site_arrays vm h m \<subseteq> live h - {c, d, k, v, m}
         \<and> length (lookup_cache vm) = LOOKUP_CACHE_SIZE)"

lemma stamp_cache_ok:
  "length (lookup_cache vm) = LOOKUP_CACHE_SIZE \<Longrightarrow>
     cache_ok (stamp_and_flush vm meth selector cls)"
  unfolding stamp_and_flush_def Let_def by (rule flush_cache_ok) simp

lemma class_method_view:
  assumes v: "view h h' upd" and c: "c = as_ptr cls" "c \<in> live h" "1 < unat (num_slots h c)"
    and u: "upd c 1 = None" and md: "slot h c 1 = md" "md \<noteq> nilv"
    and d: "d = as_ptr md" "d \<in> live h" "1 < unat (num_slots h d)"
    and kv: "as_ptr (slot h' d 0) = k" "as_ptr (slot h' d 1) = w"
    and k: "k \<in> live h"
  shows "class_method h' nilv t cls = assoc (unat (num_slots h k)) (slot h' k) (slot h' w) t"
proof -
  have "slot h' c 1 = md" using view_slot [OF v c(2,3)] u md(1) by simp
  moreover have "num_slots h' k = num_slots h k" using v k by (simp add: view_def)
  ultimately show ?thesis
    using md(2) kv d(1) by (simp add: class_method_def mdict_lookup_assoc c(1))
qed

lemma install_overwrite:
  assumes i: "installable vm cls meth" and r: "install_method vm cls selector meth = Ok vm'"
    and f: "find (\<lambda>i. vslot vm (as_ptr (vslot vm (as_ptr (vslot vm (as_ptr cls) 1)) 0)) i = selector)
      [0..<unat (num_slots (vm_heap vm) (as_ptr (vslot vm (as_ptr (vslot vm (as_ptr cls) 1)) 0)))]
      = Some i0"
  shows "class_method (vm_heap vm') (nil vm) t cls =
      (if t = selector then Some meth else class_method (vm_heap vm) (nil vm) t cls)
    \<and> cache_ok vm' \<and> heap_ok (vm_heap vm')"
proof -
  let ?h = "vm_heap vm"
  define c where "c = as_ptr cls"
  define m where "m = as_ptr meth"
  define md where "md = slot ?h c 1"
  define d where "d = as_ptr md"
  define k where "k = as_ptr (slot ?h d 0)"
  define v where "v = as_ptr (slot ?h d 1)"
  note defs = c_def m_def md_def d_def k_def v_def
  have ok: "heap_ok ?h" "md \<noteq> nil vm" "{c, d, k, v, m} \<subseteq> live ?h" "distinct [c, d, k, v, m]"
    "1 < unat (num_slots ?h c)" "1 < unat (num_slots ?h d)" "5 < unat (num_slots ?h m)"
    "num_slots ?h v = num_slots ?h k" "site_arrays vm ?h m \<subseteq> live ?h - {c, d, k, v, m}"
    "length (lookup_cache vm) = LOOKUP_CACHE_SIZE"
    using i unfolding installable_def Let_def by (simp_all add: defs)
  have f': "find (\<lambda>i. slot ?h k i = selector) [0..<unat (num_slots ?h k)] = Some i0"
    using f by (simp add: defs vslot_def)
  then have i0: "i0 < unat (num_slots ?h v)" by (simp add: find_upt ok(8))
  define vm1 where "vm1 = vm\<lparr>vm_counters :=
    (vm_counters vm)\<lparr>method_installs := method_installs (vm_counters vm) + 1\<rparr>\<rparr>"
  have vm1: "vm_heap vm1 = ?h" "site_registry vm1 = site_registry vm" "nil vm1 = nil vm"
    "lookup_cache vm1 = lookup_cache vm"
    by (simp_all add: vm1_def nil_def)
  have vm': "vm' = stamp_and_flush (store_slot vm1 v i0 meth) meth selector cls"
    using r f' unfolding install_method_def Let_def
    by (simp add: defs vslot_def vm1_def [unfolded One_nat_def] split: option.splits)
  have "view ?h (vm_heap vm1) (\<lambda>_ _. None)" using view_refl [OF ok(1)] by (simp add: vm1)
  from view_store [OF this, of v i0 meth] ok(3) i0
  have v1: "view ?h (vm_heap (store_slot vm1 v i0 meth)) (\<lambda>y j. if y = v \<and> j = i0 then Some meth else None)"
    by simp
  have sa: "site_arrays (store_slot vm1 v i0 meth) ?h m = site_arrays vm ?h m"
    by (simp add: site_arrays_def vm1)
  have sub: "site_arrays vm ?h m \<subseteq> live ?h" using ok(9) by blast
  obtain upd where u: "view ?h (vm_heap vm') upd"
    "\<And>y. y \<noteq> m \<Longrightarrow> y \<notin> site_arrays vm ?h m \<Longrightarrow>
       upd y = (\<lambda>j. if y = v \<and> j = i0 then Some meth else None)"
    using stamp_and_flush_view [OF v1, of meth selector cls] ok(3,4,7) sa sub
    unfolding vm' m_def [symmetric] by auto
  have un: "upd y = (\<lambda>j. if y = v \<and> j = i0 then Some meth else None)" if "y \<in> {c, d, k, v}" for y
    using u(2) [of y] ok(4,9) that by auto
  have sl: "slot (vm_heap vm') y j = (if y = v \<and> j = i0 then meth else slot ?h y j)"
    if "y \<in> {c, d, k, v}" "j < unat (num_slots ?h y)" for y j
    using view_slot [OF u(1) _ that(2)] un [OF that(1)] ok(3) that(1) by auto
  have new: "class_method (vm_heap vm') (nil vm) t cls =
      assoc (unat (num_slots ?h k)) (slot (vm_heap vm') k) (slot (vm_heap vm') v) t"
    using ok(3) un [of c] sl [of d] ok(4-6)
    by (intro class_method_view [OF u(1) c_def _ ok(5) _ md_def [symmetric] ok(2) d_def _ ok(6)])
       (auto simp: k_def v_def)
  have old: "class_method ?h (nil vm) t cls = assoc (unat (num_slots ?h k)) (slot ?h k) (slot ?h v) t"
    using ok(3)
    by (intro class_method_view [OF view_refl [OF ok(1)] c_def _ ok(5) _ md_def [symmetric] ok(2)
          d_def _ ok(6)])
       (simp_all add: k_def v_def)
  have "assoc (unat (num_slots ?h k)) (slot (vm_heap vm') k) (slot (vm_heap vm') v) t
    = assoc (unat (num_slots ?h k)) (slot ?h k) (\<lambda>j. if j = i0 then meth else slot ?h v j) t"
    by (rule assoc_cong) (use sl ok in auto)
  also have "\<dots> = (if t = selector then Some meth else class_method ?h (nil vm) t cls)"
    unfolding old by (rule assoc_update [OF f'])
  finally have "class_method (vm_heap vm') (nil vm) t cls =
      (if t = selector then Some meth else class_method ?h (nil vm) t cls)"
    by (simp add: new)
  moreover have "cache_ok vm'" unfolding vm' by (rule stamp_cache_ok) (simp add: vm1 ok(10))
  moreover have "heap_ok (vm_heap vm')" using u(1) by (simp add: view_def)
  ultimately show ?thesis by blast
qed

lemma install_grow:
  assumes i: "installable vm cls meth" and r: "install_method vm cls selector meth = Ok vm'"
    and f: "find (\<lambda>i. vslot vm (as_ptr (vslot vm (as_ptr (vslot vm (as_ptr cls) 1)) 0)) i = selector)
      [0..<unat (num_slots (vm_heap vm) (as_ptr (vslot vm (as_ptr (vslot vm (as_ptr cls) 1)) 0)))]
      = None"
  shows "class_method (vm_heap vm') (nil vm) t cls =
      (if t = selector then Some meth else class_method (vm_heap vm) (nil vm) t cls)
    \<and> cache_ok vm' \<and> heap_ok (vm_heap vm')"
proof -
  let ?h = "vm_heap vm"
  define c where "c = as_ptr cls"
  define m where "m = as_ptr meth"
  define md where "md = slot ?h c 1"
  define d where "d = as_ptr md"
  define k where "k = as_ptr (slot ?h d 0)"
  define v where "v = as_ptr (slot ?h d 1)"
  define n where "n = unat (num_slots ?h k)"
  note defs = c_def m_def md_def d_def k_def v_def
  have ok: "heap_ok ?h" "md \<noteq> nil vm" "{c, d, k, v, m} \<subseteq> live ?h" "distinct [c, d, k, v, m]"
    "1 < unat (num_slots ?h c)" "1 < unat (num_slots ?h d)" "5 < unat (num_slots ?h m)"
    "num_slots ?h v = num_slots ?h k" "site_arrays vm ?h m \<subseteq> live ?h - {c, d, k, v, m}"
    "length (lookup_cache vm) = LOOKUP_CACHE_SIZE"
    using i unfolding installable_def Let_def by (simp_all add: defs)
  have f': "find (\<lambda>i. slot ?h k i = selector) [0..<n] = None"
    using f by (simp add: defs vslot_def n_def)
  define vm1 where "vm1 = vm\<lparr>vm_counters :=
    (vm_counters vm)\<lparr>method_installs := method_installs (vm_counters vm) + 1\<rparr>\<rparr>"
  have vm1: "vm_heap vm1 = ?h" "site_registry vm1 = site_registry vm" "nil vm1 = nil vm"
    "lookup_cache vm1 = lookup_cache vm"
    by (simp_all add: vm1_def nil_def)
  obtain nk h1 nv h2 where a1: "alloc_ptrs_old ?h CLASS_ARRAY (n + 1) (nil vm) = Some (nk, h1)"
    and a2: "alloc_ptrs_old h1 CLASS_ARRAY (n + 1) (nil vm) = Some (nv, h2)"
    and vm': "vm' = stamp_and_flush (store_slot (store_slot (store_slot (store_slot
        (copy_entries (vm1\<lparr>vm_heap := h2\<rparr>) k v nk nv n) nk n selector) nv n meth)
        d 0 (from_ptr nk)) d 1 (from_ptr nv)) meth selector cls"
    using r f' vm1(1,3) unfolding install_method_def Let_def
    by (auto simp: defs n_def vslot_def vm1_def [unfolded One_nat_def] from_ptr_checked_def
        split: option.splits if_splits prod.splits)
  have ca: "class_ok CLASS_ARRAY" by (simp add: class_ok_def hmask_def)
  note c1 = ptrs_old_alloc.contract [OF ok(1) ca a1] and o1 = ptrs_old_alloc.others_unchanged [OF ok(1) ca a1]
  note c2 = ptrs_old_alloc.contract [OF c1(1) ca a2] and o2 = ptrs_old_alloc.others_unchanged [OF c1(1) ca a2]
  have nk: "nk \<notin> live ?h" "nv \<notin> live ?h" "nk \<noteq> nv" "live h2 = insert nv (insert nk (live ?h))"
    using c1(3,4) c2(3,4) by auto
  have ns: "unat (num_slots h2 nk) = Suc n" "unat (num_slots h2 nv) = Suc n"
    using c1(2,4) c2(2) o2(2) [of nk] by (simp_all add: allocated_def)
  have same: "num_slots h2 y = num_slots ?h y"
    "\<And>j. j < unat (num_slots ?h y) \<Longrightarrow> slot h2 y j = slot ?h y j" if "y \<in> live ?h" for y
    using that o1(2,3) [OF that] o2(2,3) [of y] c1(4) by simp_all
  let ?vmc = "vm1\<lparr>vm_heap := h2\<rparr>"
  let ?uc = "\<lambda>y j. if y = nv \<and> j < n then Some (slot h2 v j)
           else if y = nk \<and> j < n then Some (slot h2 k j) else None"
  have km: "k \<in> live ?h" "v \<in> live ?h" "d \<in> live ?h" "m \<in> live ?h" "c \<in> live ?h" using ok(3) by auto
  have nv: "unat (num_slots ?h v) = n" using ok(8) by (simp add: n_def)
  have vc: "view h2 (vm_heap (copy_entries ?vmc k v nk nv n)) ?uc"
    by (rule copy_entries_view) (use c2(1) nk km ns same(1) nv n_def in auto)
  let ?U = "\<lambda>y j. if y = d \<and> j = 1 then Some (from_ptr nv) else if y = d \<and> j = 0 then Some (from_ptr nk)
      else if y = nv \<and> j = n then Some meth else if y = nk \<and> j = n then Some selector else ?uc y j"
  let ?vms = "store_slot (store_slot (store_slot (store_slot
        (copy_entries ?vmc k v nk nv n) nk n selector) nv n meth)
        d 0 (from_ptr nk)) d 1 (from_ptr nv)"
  have vs: "view h2 (vm_heap ?vms) ?U"
    by (rule view_store [OF view_store [OF view_store [OF view_store [OF vc]]]])
       (use nk ns km same(1) ok(6) in auto)
  have sa: "site_arrays ?vms h2 m = site_arrays vm ?h m"
    using copy_entries_sel [of ?vmc k v nk nv n] same(2) [OF km(4), of 3] ok(7)
    by (simp add: site_arrays_def vm1 nil_def) (simp add: vm1_def)
  have sub: "site_arrays vm ?h m \<subseteq> live h2" using ok(9) nk(4) by blast
  have prem: "as_ptr meth \<in> live h2" "METHOD_CLASS < unat (num_slots h2 (as_ptr meth))"
    "?U (as_ptr meth) METHOD_SEND_SITES = None" "site_arrays ?vms h2 (as_ptr meth) \<subseteq> live h2"
    using km(4) nk same(1) [OF km(4)] ok(4,7) sub sa unfolding m_def [symmetric] by auto
  from stamp_and_flush_view [OF vs prem, of selector cls]
  obtain upd where u: "view h2 (vm_heap vm') upd"
    "\<And>y. y \<noteq> m \<Longrightarrow> y \<notin> site_arrays vm ?h m \<Longrightarrow> upd y = ?U y"
    unfolding m_def [symmetric] sa vm' by blast
  have un: "upd y = ?U y" if "y \<in> {c, d, nk, nv}" for y
    using u(2) [of y] ok(4,9) that nk(1,2) km by auto
  have sl: "slot (vm_heap vm') y j = (case ?U y j of None \<Rightarrow> slot h2 y j | Some w \<Rightarrow> w)"
    if "y \<in> {c, d, nk, nv}" "j < unat (num_slots h2 y)" for y j
    using view_slot [OF u(1) _ that(2)] un [OF that(1)] nk(4) km that(1) by auto
  have bd: "as_ptr (from_ptr nk) = nk" "as_ptr (from_ptr nv) = nv"
    using live_bounds [OF c2(1)] nk(4) by (simp_all add: as_ptr_from_ptr)
  have dslots: "as_ptr (slot (vm_heap vm') d 0) = nk" "as_ptr (slot (vm_heap vm') d 1) = nv"
    using sl [of d 0] sl [of d 1] same(1) [OF km(3)] ok(6) bd nk(1,2) km(3) by auto
  have md2: "slot h2 c 1 = md" using same(2) [OF km(5), of 1] ok(5) by (simp add: md_def)
  have new: "class_method (vm_heap vm') (nil vm) t cls =
      assoc (Suc n) (slot (vm_heap vm') nk) (slot (vm_heap vm') nv) t"
    unfolding ns(1) [symmetric]
    by (rule class_method_view [OF u(1) c_def _ _ _ md2 ok(2) d_def _ _ dslots])
       (use nk km same(1) ok(4-6) un [of c] in auto)
  have old: "class_method ?h (nil vm) t cls = assoc n (slot ?h k) (slot ?h v) t"
    unfolding n_def using ok(3)
    by (intro class_method_view [OF view_refl [OF ok(1)] c_def _ ok(5) _ md_def [symmetric] ok(2)
          d_def _ ok(6)])
       (simp_all add: k_def v_def)
  have kslots: "slot (vm_heap vm') nk i = (if i = n then selector else slot ?h k i)"
    "slot (vm_heap vm') nv i = (if i = n then meth else slot ?h v i)" if "i < Suc n" for i
    using sl [of nk i] sl [of nv i] ns that nk(1-3) km same(2) [OF km(1), of i] same(2) [OF km(2), of i]
      nv n_def by auto
  have "assoc (Suc n) (slot (vm_heap vm') nk) (slot (vm_heap vm') nv) t
    = assoc (Suc n) (\<lambda>j. if j = n then selector else slot ?h k j) (\<lambda>j. if j = n then meth else slot ?h v j) t"
    by (rule assoc_cong) (use kslots in auto)
  also have "\<dots> = (if t = selector then Some meth else class_method ?h (nil vm) t cls)"
    unfolding old by (rule assoc_extend [OF f'])
  finally have "class_method (vm_heap vm') (nil vm) t cls =
      (if t = selector then Some meth else class_method ?h (nil vm) t cls)"
    by (simp add: new)
  moreover have "cache_ok vm'"
    unfolding vm' by (rule stamp_cache_ok)
      (use copy_entries_sel [of ?vmc k v nk nv n] ok(10) in \<open>simp add: vm1_def\<close>)
  moreover have "heap_ok (vm_heap vm')" using u(1) by (simp add: view_def)
  ultimately show ?thesis by blast
qed

text \<open>
  C13. Installing a method makes it the method of its class for its selector, whether the selector
  was already in the dictionary or the parallel arrays had to grow; the class answers as before for
  every other selector, the global cache is coherent afterwards and the heap is well formed.
\<close>

theorem install_method_visible:
  assumes "installable vm cls meth" and "install_method vm cls selector meth = Ok vm'"
  shows "class_method (vm_heap vm') (nil vm) t cls =
      (if t = selector then Some meth else class_method (vm_heap vm) (nil vm) t cls)
    \<and> cache_ok vm' \<and> heap_ok (vm_heap vm')"
proof (cases "find (\<lambda>i. vslot vm (as_ptr (vslot vm (as_ptr (vslot vm (as_ptr cls) 1)) 0)) i = selector)
      [0..<unat (num_slots (vm_heap vm) (as_ptr (vslot vm (as_ptr (vslot vm (as_ptr cls) 1)) 0)))]")
  case None
  from install_grow [OF assms None] show ?thesis .
next
  case (Some i0)
  from install_overwrite [OF assms Some] show ?thesis .
qed

text \<open>
  A class (object 1) with a dictionary (2) of keys (3) and values (4), and a method (5); nil is
  object 0 and the selector is the key every slot of the sample keys holds.
\<close>

definition install_heap :: heap where
  "install_heap = set_slots (pool 6)
     [(1, 1, from_ptr (pool_obj 2)), (2, 0, from_ptr (pool_obj 3)), (2, 1, from_ptr (pool_obj 4))]"

definition install_vm :: vm where
  "install_vm = (bare_literal install_heap 0)
     \<lparr>specials := replicate SPECIAL_OBJECTS_COUNT (from_ptr (pool_obj 0))\<rparr>"

lemma install_heap:
  "heap_ok install_heap" "live install_heap = pool_obj ` {..<6}"
  "i < 6 \<Longrightarrow> unat (num_slots install_heap (pool_obj i)) = 8"
  "i < 6 \<Longrightarrow> j < 8 \<Longrightarrow> slot install_heap (pool_obj i) j = last_write
     [(1, 1, from_ptr (pool_obj 2)), (2, 0, from_ptr (pool_obj 3)), (2, 1, from_ptr (pool_obj 4))] i j 1"
proof -
  have p: "pool_ok 6 (pool 6)" by (rule pool_ok) simp
  note s = set_slots_ok [of "pool 6" 6 "[(1, 1, from_ptr (pool_obj 2)), (2, 0, from_ptr (pool_obj 3)),
    (2, 1, from_ptr (pool_obj 4))]"]
  have all: "heap_ok (pool 6)" "live (pool 6) = pool_obj ` {..<6}"
    "\<forall>i < 6. unat (num_slots (pool 6) (pool_obj i)) = 8"
    "\<And>i j. i < 6 \<Longrightarrow> j < 8 \<Longrightarrow> slot (pool 6) (pool_obj i) j = 1"
    using p unfolding pool_ok_def by blast+
  show "heap_ok install_heap" "live install_heap = pool_obj ` {..<6}"
    "i < 6 \<Longrightarrow> unat (num_slots install_heap (pool_obj i)) = 8"
    using s [OF all(1-3)] all(2) by (simp_all add: install_heap_def)
  show "slot install_heap (pool_obj i) j = last_write
     [(1, 1, from_ptr (pool_obj 2)), (2, 0, from_ptr (pool_obj 3)), (2, 1, from_ptr (pool_obj 4))] i j 1"
    if "i < 6" "j < 8"
    using s [OF all(1-3)] all(4) [OF that] that by (simp add: install_heap_def)
qed

lemma installable_sample: "installable install_vm (from_ptr (pool_obj 1)) (from_ptr (pool_obj 5))"
proof -
  have l: "pool_obj i \<in> live install_heap" if "i < 6" for i using that by (simp add: install_heap(2))
  have n: "num_slots install_heap (pool_obj i) = 8" if "i < 6" for i
    using install_heap(3) [OF that] by (simp add: word_unat_eq_iff)
  have h: "vm_heap install_vm = install_heap" "nil install_vm = from_ptr (pool_obj 0)"
    "site_registry install_vm = []" "length (lookup_cache install_vm) = LOOKUP_CACHE_SIZE"
    by (simp_all add: install_vm_def bare_literal_def nil_def)
  have s: "slot install_heap (pool_obj 1) 1 = from_ptr (pool_obj 2)"
    "slot install_heap (pool_obj 2) 0 = from_ptr (pool_obj 3)"
    "slot install_heap (pool_obj 2) 1 = from_ptr (pool_obj 4)"
    "slot install_heap (pool_obj 5) 3 = 1"
    by (simp_all add: install_heap(4))
  have "\<not> is_ptr 1" by (simp add: is_ptr_def)
  then show ?thesis
    unfolding installable_def Let_def h
    using s l n install_heap(1) pool_obj_ptr
    by (simp add: site_arrays_def h Let_def)
qed

theorem install_method_visible_witness:
  "\<exists>vm'. install_method install_vm (from_ptr (pool_obj 1)) 1 (from_ptr (pool_obj 5)) = Ok vm'
     \<and> class_method (vm_heap vm') (nil install_vm) 1 (from_ptr (pool_obj 1)) = Some (from_ptr (pool_obj 5))"
proof -
  have "find (\<lambda>i. slot install_heap (pool_obj 3) i = 1) [0..<8] = Some 0"
    by (simp add: find_upt install_heap(4))
  moreover have "unat (num_slots install_heap (pool_obj 3)) = 8" by (simp add: install_heap(3))
  ultimately have "\<exists>vm'. install_method install_vm (from_ptr (pool_obj 1)) 1 (from_ptr (pool_obj 5)) = Ok vm'"
    using pool_obj_ptr install_heap(4)
    by (simp add: install_method_def Let_def vslot_def install_vm_def bare_literal_def)
  then obtain vm' where
    r: "install_method install_vm (from_ptr (pool_obj 1)) 1 (from_ptr (pool_obj 5)) = Ok vm'" by blast
  from install_method_visible [OF installable_sample r, of 1] r show ?thesis by auto
qed

end
