(* ===== verification/Symbol_Table.thy ===== *)
theory Symbol_Table
  imports Remembered_Set
begin

section \<open>The symbol table\<close>

text \<open>
  Vm::intern_bytes of src/vm.rs. The table maps byte strings to symbol objects; interning looks
  the string up and allocates a byte object in old space when it is new. The invariant symbols_ok
  says that the table is a bijection between its strings and its objects and that each object holds
  its string, so equal symbols are identical objects and identical objects equal symbols.
\<close>

definition symbol_entry_ok :: "heap \<Rightarrow> u8 list \<times> value \<Rightarrow> bool" where
  "symbol_entry_ok h e \<longleftrightarrow>
     (case e of (bs, v) \<Rightarrow> is_ptr v \<and> as_ptr v \<in> live h \<and> is_bytes (header h (as_ptr v))
        \<and> hdr_class_index (header h (as_ptr v)) = CLASS_SYMBOL
        \<and> obj_bytes h (as_ptr v) = bs \<and> is_immutable h (as_ptr v))"

definition symbols_ok :: "vm \<Rightarrow> bool" where
  "symbols_ok vm \<longleftrightarrow> distinct (map fst (symbols vm)) \<and> distinct (map snd (symbols vm))
     \<and> (\<forall>e \<in> set (symbols vm). symbol_entry_ok (vm_heap vm) e)"

lemma symbol_entry_cong:
  assumes e: "symbol_entry_ok h (bs, v)" and l: "as_ptr v \<in> live h'"
    and f: "header h' (as_ptr v) = header h (as_ptr v)"
      "num_slots h' (as_ptr v) = num_slots h (as_ptr v)"
      "\<And>i. i < unat (num_slots h (as_ptr v)) \<Longrightarrow> slot h' (as_ptr v) i = slot h (as_ptr v) i"
  shows "symbol_entry_ok h' (bs, v)"
  using e l f(1) obj_bytes_slots_cong [OF f]
  by (simp add: symbol_entry_ok_def is_immutable_def)

text \<open>The object a new symbol is stored in.\<close>

lemma write_bytes_other:
  assumes ok: "heap_ok h" and x: "x \<in> live h" and y: "y \<in> live h" and ne: "y \<noteq> x"
    and n: "i + length bs \<le> byte_size h x"
  shows "header (write_bytes_from h x i bs) y = header h y
    \<and> num_slots (write_bytes_from h x i bs) y = num_slots h y
    \<and> (\<forall>j < unat (num_slots h y). slot (write_bytes_from h x i bs) y j = slot h y j)"
  using ok x y n
proof (induction bs arbitrary: h i)
  case (Cons b bs)
  have i: "i < byte_size h x" using Cons.prems by simp
  note s = set_byte_ok [OF Cons.prems(1,2) i, where b = b]
  have d: "i div 8 < unat (num_slots h x)"
    using i unfolding byte_size_def Let_def by (intro less_mult_imp_div_less) linarith
  have eq: "set_byte h x i b = set_slot_raw h x (i div 8)
      ((heap_word h (x + 8 + 8 * (i div 8)) AND NOT (push_bit (8 * (i mod 8)) 255))
       OR push_bit (8 * (i mod 8)) (ucast b))"
    by (simp only: set_byte_def set_slot_raw_def Let_def mult.commute)
  note f = set_slot_ok(5,6) [OF Cons.prems(1,2) d Cons.prems(3)]
    and g = slot_set_slot [OF Cons.prems(1,2) d Cons.prems(3)]
  have "header (set_byte h x i b) y = header h y"
    and n: "num_slots (set_byte h x i b) y = num_slots h y"
    and "\<And>j. j < unat (num_slots h y) \<Longrightarrow> slot (set_byte h x i b) y j = slot h y j"
    unfolding eq using f g ne by auto
  moreover have "i + 1 + length bs \<le> byte_size (set_byte h x i b) x"
    using Cons.prems s(4) by simp
  ultimately show ?case
    using Cons.IH [of "set_byte h x i b" "i + 1"] s(1,2) Cons.prems by simp
qed auto

subsection \<open>Interning a new string\<close>

definition symbol_heap :: "heap \<Rightarrow> nat \<Rightarrow> u8 list \<Rightarrow> heap" where
  "symbol_heap h0 addr bs = set_immutable (write_bytes h0 addr bs) addr"

lemma new_symbol:
  assumes ok: "heap_ok h" and a: "alloc_bytes_old h CLASS_SYMBOL (length bs) = Some (addr, h0)"
    and al: "aligned addr"
  shows "heap_ok (symbol_heap h0 addr bs)" and "live (symbol_heap h0 addr bs) = insert addr (live h)"
    and "addr \<notin> live h" and "as_ptr (from_ptr addr) = addr" and "is_ptr (from_ptr addr)"
    and "symbol_entry_ok (symbol_heap h0 addr bs) (bs, from_ptr addr)"
    and "y \<in> live h \<Longrightarrow> header (symbol_heap h0 addr bs) y = header h y"
    and "y \<in> live h \<Longrightarrow> num_slots (symbol_heap h0 addr bs) y = num_slots h y"
    and "y \<in> live h \<Longrightarrow> i < unat (num_slots h y) \<Longrightarrow>
      slot (symbol_heap h0 addr bs) y i = slot h y i"
proof -
  have c: "class_ok CLASS_SYMBOL" by (simp add: class_ok_def hmask_def)
  note ct = bytes_old_alloc.contract [OF ok c a] and others = bytes_old_alloc.others_unchanged [OF ok c a]
  note fb = allocated_bytes [OF ct(2)]
  have x: "addr \<in> live h0" using ct(4) by simp
  let ?h1 = "write_bytes h0 addr bs"
  have w: "heap_ok ?h1" "live ?h1 = live h0" "header ?h1 addr = header h0 addr"
    "obj_bytes ?h1 addr = bs"
    using write_bytes_from_ok [of h0 addr 0 bs] ct(1) x fb(2)
    by (auto simp: write_bytes_def obj_bytes_def intro!: nth_equalityI)
  have x1: "addr \<in> live ?h1" using x w(2) by simp
  note im = set_immutable_other [OF w(1) x1] and self = set_immutable_self [OF w(1) x1]
  show "heap_ok (symbol_heap h0 addr bs)" and
    l2: "live (symbol_heap h0 addr bs) = insert addr (live h)"
    using im(4,5) [OF x1] w(2) ct(4) by (simp_all add: symbol_heap_def)
  show fresh: "addr \<notin> live h" by (rule ct(3))
  have b: "addr < 2 ^ 64" by (rule live_bounds [OF ct(1) x])
  show p: "as_ptr (from_ptr addr) = addr" by (rule as_ptr_from_ptr [OF b])
  show q: "is_ptr (from_ptr addr)" using is_ptr_from_ptr [OF b] al by simp
  have "is_bytes (header (symbol_heap h0 addr bs) addr)"
    using self(3) w(3) fb(1) by (simp add: symbol_heap_def is_bytes_def)
  moreover have "hdr_class_index (header (symbol_heap h0 addr bs) addr) = CLASS_SYMBOL"
    using self(2) w(3) ct(2) by (simp add: symbol_heap_def allocated_def)
  moreover have "obj_bytes (symbol_heap h0 addr bs) addr = bs"
    using self(5) w(4) by (simp add: symbol_heap_def)
  moreover have "is_immutable (symbol_heap h0 addr bs) addr"
    using self(1) by (simp add: symbol_heap_def)
  ultimately show "symbol_entry_ok (symbol_heap h0 addr bs) (bs, from_ptr addr)"
    using l2 p q by (simp add: symbol_entry_ok_def)
  show "header (symbol_heap h0 addr bs) y = header h y"
    and "num_slots (symbol_heap h0 addr bs) y = num_slots h y"
    and "i < unat (num_slots h y) \<Longrightarrow> slot (symbol_heap h0 addr bs) y i = slot h y i"
    if y: "y \<in> live h"
  proof -
    have ne: "y \<noteq> addr" using y fresh by auto
    have y0: "y \<in> live h0" and y1: "y \<in> live ?h1" using y ct(4) w(2) by auto
    note o = others [OF y] and wo = write_bytes_other [OF ct(1) x y0 ne, of 0 bs] fb(2)
    have wo': "header ?h1 y = header h0 y" "num_slots ?h1 y = num_slots h0 y"
      "\<And>j. j < unat (num_slots h0 y) \<Longrightarrow> slot ?h1 y j = slot h0 y j"
      using wo by (simp_all add: write_bytes_def)
    show "header (symbol_heap h0 addr bs) y = header h y"
      using im(3) [OF y1 ne] wo'(1) o(1) by (simp add: symbol_heap_def)
    show "num_slots (symbol_heap h0 addr bs) y = num_slots h y"
      using im(1) [OF y1] wo'(2) o(2) by (simp add: symbol_heap_def)
    show "i < unat (num_slots h y) \<Longrightarrow> slot (symbol_heap h0 addr bs) y i = slot h y i"
      using im(2) [OF y1, of i] wo'(2,3) o(2,3) by (simp add: symbol_heap_def)
  qed
qed

lemma intern_new:
  assumes "find (\<lambda>(b, v). b = bs) (symbols vm) = None"
  shows "intern_bytes vm bs = Ok (v, vm') \<longleftrightarrow>
    (\<exists>addr h0. alloc_bytes_old (vm_heap vm) CLASS_SYMBOL (length bs) = Some (addr, h0)
       \<and> aligned addr \<and> v = from_ptr addr
       \<and> vm' = vm\<lparr>vm_heap := symbol_heap h0 addr bs, symbols := symbols vm @ [(bs, v)]\<rparr>)"
  using assms
  by (auto simp: intern_bytes_def from_ptr_checked_def symbol_heap_def Let_def split: option.splits
      if_splits)

lemma find_symbol_None: "find (\<lambda>(b, v). b = bs) xs = None \<longleftrightarrow> bs \<notin> fst ` set xs"
  by (force simp: find_None_iff)

lemma find_symbol_Some:
  assumes "distinct (map fst xs)"
  shows "find (\<lambda>(b, v). b = bs) xs = Some e \<longleftrightarrow> e \<in> set xs \<and> fst e = bs"
  using assms by (induction xs) force+

lemma intern_hit:
  assumes "distinct (map fst (symbols vm))" and "(bs, v) \<in> set (symbols vm)"
  shows "intern_bytes vm bs = Ok (v, vm)"
proof -
  from find_symbol_Some [OF assms(1), of bs "(bs, v)"] assms(2)
  have "find (\<lambda>(b, v). b = bs) (symbols vm) = Some (bs, v)" by simp
  then show ?thesis by (simp add: intern_bytes_def)
qed

lemma assoc_inj:
  assumes "distinct (map fst xs)" and "distinct (map snd xs)"
    and "(a, v) \<in> set xs" and "(b, u) \<in> set xs"
  shows "u = v \<longleftrightarrow> b = a"
  using assms by (metis distinct_map inj_on_def prod.sel)

lemma intern_keeps:
  assumes "heap_ok (vm_heap vm)" and "symbols_ok vm" and "intern_bytes vm bs = Ok (v, vm')"
  shows "heap_ok (vm_heap vm') \<and> symbols_ok vm' \<and> (bs, v) \<in> set (symbols vm')
    \<and> set (symbols vm) \<subseteq> set (symbols vm')"
proof (cases "find (\<lambda>(b, v). b = bs) (symbols vm)")
  case (Some e)
  then have "e \<in> set (symbols vm) \<and> fst e = bs"
    using assms(2) find_symbol_Some [of "symbols vm" bs e] by (simp add: symbols_ok_def)
  with Some assms show ?thesis
    by (cases e) (auto simp: intern_bytes_def)
next
  case None
  with assms(3) obtain addr h0 where
    a: "alloc_bytes_old (vm_heap vm) CLASS_SYMBOL (length bs) = Some (addr, h0)" "aligned addr"
    and v: "v = from_ptr addr"
    and vm': "vm' = vm\<lparr>vm_heap := symbol_heap h0 addr bs, symbols := symbols vm @ [(bs, v)]\<rparr>"
    by (auto simp: intern_new)
  note new = new_symbol [OF assms(1) a]
  have keep: "symbol_entry_ok (symbol_heap h0 addr bs) (b, u)" and ne: "u \<noteq> v"
    if "(b, u) \<in> set (symbols vm)" for b u
  proof -
    have e: "symbol_entry_ok (vm_heap vm) (b, u)" using that assms(2) by (auto simp: symbols_ok_def)
    then have l: "as_ptr u \<in> live (vm_heap vm)" by (simp add: symbol_entry_ok_def)
    show "symbol_entry_ok (symbol_heap h0 addr bs) (b, u)"
      by (rule symbol_entry_cong [OF e]) (use l new in auto)
    show "u \<noteq> v" using l new(3,4) by (auto simp: v)
  qed
  have "bs \<notin> fst ` set (symbols vm)" using None by (simp add: find_symbol_None)
  moreover have "v \<notin> snd ` set (symbols vm)"
  proof
    assume "v \<in> snd ` set (symbols vm)"
    then obtain b where "(b, v) \<in> set (symbols vm)" by auto
    from ne [OF this] show False by simp
  qed
  moreover have "\<forall>e \<in> set (symbols vm). symbol_entry_ok (symbol_heap h0 addr bs) e"
    using keep by auto
  ultimately have "symbols_ok vm'"
    using assms(2) new(6) by (simp add: symbols_ok_def vm' v)
  then show ?thesis using new(1) by (auto simp: vm')
qed

text \<open>
  C19. Interning is canonical: the symbol returned holds exactly the bytes asked for and is
  immutable, interning the same bytes again returns the same object and changes nothing, every
  symbol already interned keeps its object, and two strings of the table have the same object only
  if they are equal. The heap and the table stay well formed.
\<close>

theorem intern_canonical:
  assumes "heap_ok (vm_heap vm)" and "symbols_ok vm" and "intern_bytes vm bs = Ok (v, vm')"
  shows "heap_ok (vm_heap vm') \<and> symbols_ok vm' \<and> obj_bytes (vm_heap vm') (as_ptr v) = bs
    \<and> is_immutable (vm_heap vm') (as_ptr v) \<and> intern_bytes vm' bs = Ok (v, vm')
    \<and> set (symbols vm) \<subseteq> set (symbols vm')
    \<and> (\<forall>(b, u) \<in> set (symbols vm'). u = v \<longleftrightarrow> b = bs)"
proof -
  note main = intern_keeps [OF assms]
  then have d: "distinct (map fst (symbols vm'))" "distinct (map snd (symbols vm'))"
    and e: "symbol_entry_ok (vm_heap vm') (bs, v)" and m: "(bs, v) \<in> set (symbols vm')"
    by (auto simp: symbols_ok_def)
  have "u = v \<longleftrightarrow> b = bs" if "(b, u) \<in> set (symbols vm')" for b u
    by (rule assoc_inj [OF d m that])
  with main e intern_hit [OF d(1) m] show ?thesis by (auto simp: symbol_entry_ok_def)
qed

theorem intern_canonical_witness:
  "\<exists>v vm'. intern_bytes (bare_literal small_heap 0) [102, 111, 111] = Ok (v, vm')
     \<and> obj_bytes (vm_heap vm') (as_ptr v) = [102, 111, 111]
     \<and> intern_bytes vm' [102, 111, 111] = Ok (v, vm')"
proof -
  let ?vm = "bare_literal small_heap 0"
  have ok: "heap_ok (vm_heap ?vm)" "symbols_ok ?vm"
    by (simp_all add: bare_literal_def small_heap_ok symbols_ok_def)
  obtain addr h0 where a: "alloc_bytes_old small_heap CLASS_SYMBOL 3 = Some (addr, h0)"
    and al: "aligned addr"
    by (auto simp: alloc_bytes_old_def alloc_in_old_def alloc_in_small small_heap_def new_heap_def
        space_top_def aligned_def)
  have "intern_bytes ?vm [102, 111, 111] = Ok (from_ptr addr,
      ?vm\<lparr>vm_heap := symbol_heap h0 addr [102, 111, 111],
         symbols := [([102, 111, 111], from_ptr addr)]\<rparr>)"
    unfolding intern_bytes_def
    using a al by (simp add: bare_literal_def from_ptr_checked_def symbol_heap_def Let_def
        numeral_3_eq_3)
  with intern_canonical [OF ok this] show ?thesis by blast
qed

end
