(* ===== verification/Identity_Hash.thy ===== *)
theory Identity_Hash
  imports Remembered_Set
begin

section \<open>Identity hashes\<close>

text \<open>
  Vm::next_identity_hash and Vm::identity_hash_of of src/vm.rs: the hash of an object is drawn
  from a counter at the first request and kept in the header. The lemmas show that the counter
  never yields zero, which would mean no hash, and that a hash once given stays.
\<close>

lemma next_hash_eq: "next_hash c = take_bit 22 (c + 1)"
  by (simp add: next_hash_def take_bit_eq_mask mask_eq_exp_minus_1)

lemma next_hash_fits: "hash_fits (next_hash c)"
  by (auto simp: hash_fits_bits next_hash_eq bit_take_bit_iff)

lemma next_hash_zero: "next_hash 0 = 1"
  by (simp add: next_hash_def)

lemma next_hash_loop_eq:
  "next_hash_loop c = (if next_hash c \<noteq> 0 then next_hash c else 1)"
  by (subst next_hash_loop.simps)
     (simp add: Let_def next_hash_loop.simps [of 0] next_hash_zero)

lemma next_hash_loop_ok: "next_hash_loop c \<noteq> 0" "hash_fits (next_hash_loop c)"
  by (auto simp: next_hash_loop_eq next_hash_fits) (simp add: hash_fits_def hmask_def)

lemma hash_fits_less: "hash_fits v \<Longrightarrow> uint v < 2 ^ 22"
proof -
  assume "hash_fits v"
  then have "take_bit 22 v = v"
    by (intro bit_word_eqI) (auto simp: bit_take_bit_iff hash_fits_bits not_less [symmetric])
  then have "take_bit 22 (uint v) = uint v" by (metis unsigned_take_bit_eq)
  then show ?thesis by (metis take_bit_int_less_exp)
qed

lemma identity_hash_fresh:
  assumes "\<not> is_int v" and "hdr_hash (header (vm_heap vm) (as_ptr v)) = 0"
  shows "identity_hash_of vm v =
    (uint (next_hash_loop (hash_counter vm)),
     vm\<lparr>hash_counter := next_hash_loop (hash_counter vm),
        vm_heap := set_header (vm_heap vm) (as_ptr v)
          (with_hash (header (vm_heap vm) (as_ptr v)) (next_hash_loop (hash_counter vm)))\<rparr>)"
  using assms by (simp add: identity_hash_of_def next_identity_hash_def Let_def)

text \<open>
  C32. An object gets its identity hash once: asking for it returns a number between 1 and 2 to
  the 22 minus 1, asking again returns the same number and changes nothing, and meanwhile the heap
  is well formed and no slot of any object has changed.
\<close>

theorem identity_hash_stable:
  assumes ok: "heap_ok (vm_heap vm)" and v: "\<not> is_int v" and x: "as_ptr v \<in> live (vm_heap vm)"
    and eq: "identity_hash_of vm v = (n, vm')"
  shows "0 < n \<and> n < 2 ^ 22 \<and> identity_hash_of vm' v = (n, vm') \<and> heap_ok (vm_heap vm')
    \<and> live (vm_heap vm') = live (vm_heap vm)
    \<and> (\<forall>y \<in> live (vm_heap vm). \<forall>j < unat (num_slots (vm_heap vm) y).
         slot (vm_heap vm') y j = slot (vm_heap vm) y j)"
proof (cases "hdr_hash (header (vm_heap vm) (as_ptr v)) = 0")
  case True
  let ?a = "as_ptr v" and ?n = "next_hash_loop (hash_counter vm)"
  let ?w = "with_hash (header (vm_heap vm) ?a) ?n"
  note f = next_hash_loop_ok(2) [of "hash_counter vm"]
  from eq identity_hash_fresh [OF v True]
  have n: "n = uint ?n" and vm': "vm_heap vm' = set_header (vm_heap vm) ?a ?w" by auto
  have h: "hdr_hash (header (vm_heap vm') ?a) = ?n"
    by (simp add: vm' header_set_header hash_field.get_put [OF f])
  have again: "identity_hash_of vm' v = (n, vm')"
    using v next_hash_loop_ok(1) by (simp add: identity_hash_of_def h n)
  have "0 < n" unfolding n using next_hash_loop_ok(1) [of "hash_counter vm"]
    by (metis uint_0_iff uint_ge_0 order_le_less)
  moreover have "n < 2 ^ 22" unfolding n by (rule hash_fits_less [OF f])
  ultimately show ?thesis
    using again header_write_ok [OF ok x shape_bits_with_hash [OF f]] slot_set_header [OF ok x]
    by (simp add: vm')
next
  case False
  then have e: "n = uint (hdr_hash (header (vm_heap vm) (as_ptr v)))" "vm' = vm"
    using eq v by (auto simp: identity_hash_of_def Let_def)
  have "0 < n" unfolding e using False by (metis uint_0_iff uint_ge_0 order_le_less)
  moreover have "n < 2 ^ 22" unfolding e by (rule hash_fits_less [OF hash_field.fits_get])
  ultimately show ?thesis using eq ok by (simp add: e)
qed

theorem identity_hash_stable_witness:
  "\<exists>n vm'. identity_hash_of (bare_literal two_gen_heap 0) (from_ptr 4096) = (n, vm')
     \<and> identity_hash_of vm' (from_ptr 4096) = (n, vm') \<and> 0 < n"
proof -
  obtain n vm' where eq: "identity_hash_of (bare_literal two_gen_heap 0) (from_ptr 4096) = (n, vm')"
    by (metis surj_pair)
  have p: "is_ptr (from_ptr 4096)" "as_ptr (from_ptr 4096) = 4096"
    using is_ptr_from_ptr [of 4096] as_ptr_from_ptr [of 4096] by (simp_all add: aligned_def)
  have "heap_ok (vm_heap (bare_literal two_gen_heap 0))" "\<not> is_int (from_ptr 4096)"
    "as_ptr (from_ptr 4096) \<in> live (vm_heap (bare_literal two_gen_heap 0))"
    using two_gen_heap ptr_not_int [OF p(1)] p(2) by (simp_all add: bare_literal_def)
  from identity_hash_stable [OF this eq] eq show ?thesis by blast
qed

end
