(* ===== verification/Method_Header.thy ===== *)
theory Method_Header
  imports Vm_State
begin

section \<open>Method header words\<close>

text \<open>
  Vm::pack_method_header and the field readers of src/vm.rs: frame size, argument count, primitive
  number, handler slot base and flags packed into one i64, which the image stores as a SmallInteger.
  An i64 is an int; shifting the flags, a u64, wraps like the cast and shift of the code do.
\<close>

definition i64_bits :: "u64 \<Rightarrow> int" where
  "i64_bits w = sint w"

definition pack_method_header ::
  "nat \<Rightarrow> nat \<Rightarrow> u16 option \<Rightarrow> nat \<Rightarrow> u64 \<Rightarrow> int outcome" where
  "pack_method_header frame_slots argc primitive handler_slot_base flags =
     (if \<not> (frame_slots \<le> MAX_FRAME_SLOTS \<and> argc \<le> 15 \<and> handler_slot_base \<le> 255) then Panic
      else
        rbind
          (case primitive of
             Some n \<Rightarrow> if unat n < PRIM_TABLE_SIZE then Ok (uint n, 1) else Panic
           | None \<Rightarrow> Ok (0, 0))
          (\<lambda>(prim, has).
             Ok (int frame_slots
                 OR push_bit MH_ARGC_SHIFT (int argc)
                 OR push_bit MH_PRIMITIVE_SHIFT prim
                 OR push_bit MH_HAS_PRIMITIVE_SHIFT has
                 OR push_bit MH_HANDLER_SLOT_BASE_SHIFT (int handler_slot_base)
                 OR i64_bits (push_bit MH_FLAGS_SHIFT flags))))"

definition method_header_bits :: "vm \<Rightarrow> value \<Rightarrow> int" where
  "method_header_bits vm m = as_int (vslot vm (as_ptr m) METHOD_HEADER)"

definition mh_frame_slots :: "int \<Rightarrow> nat" where
  "mh_frame_slots bits = nat (drop_bit MH_FRAME_SLOTS_SHIFT bits AND 255)"

definition mh_argc :: "int \<Rightarrow> nat" where
  "mh_argc bits = nat (drop_bit MH_ARGC_SHIFT bits AND 15)"

definition mh_primitive :: "int \<Rightarrow> u16 option" where
  "mh_primitive bits =
     (if drop_bit MH_HAS_PRIMITIVE_SHIFT bits AND 1 \<noteq> 0
      then Some (word_of_int (drop_bit MH_PRIMITIVE_SHIFT bits AND 4095)) else None)"

definition mh_handler_slot_base :: "int \<Rightarrow> nat" where
  "mh_handler_slot_base bits = nat (drop_bit MH_HANDLER_SLOT_BASE_SHIFT bits AND 255)"

definition mh_flags :: "int \<Rightarrow> u64" where
  "mh_flags bits = word_of_int (drop_bit MH_FLAGS_SHIFT bits)"

definition method_frame_slots :: "vm \<Rightarrow> value \<Rightarrow> nat" where
  "method_frame_slots vm m = mh_frame_slots (method_header_bits vm m)"

definition method_argc :: "vm \<Rightarrow> value \<Rightarrow> nat" where
  "method_argc vm m = mh_argc (method_header_bits vm m)"

definition method_primitive :: "vm \<Rightarrow> value \<Rightarrow> u16 option" where
  "method_primitive vm m = mh_primitive (method_header_bits vm m)"

definition method_handler_slot_base :: "vm \<Rightarrow> value \<Rightarrow> nat" where
  "method_handler_slot_base vm m = mh_handler_slot_base (method_header_bits vm m)"

subsection \<open>Packing and reading back\<close>

lemma int_bit_less: "0 \<le> n \<Longrightarrow> n < 2 ^ k \<Longrightarrow> bit (n :: int) i \<Longrightarrow> i < k"
  by (metis bit_take_bit_iff take_bit_int_eq_self)

lemma flags_small:
  assumes "flags < 2 ^ 28"
  shows "i64_bits (push_bit 33 flags) = push_bit 33 (uint flags)"
proof -
  have u: "uint flags < 2 ^ 28" "0 \<le> uint flags" using assms by (simp_all add: word_less_def)
  have b: "push_bit 33 (uint flags) < 2 ^ 61"
    using u(1) by (simp add: push_bit_eq_mult)
  have "uint (push_bit 33 flags) = take_bit 64 (push_bit 33 (uint flags))"
    by (simp add: unsigned_push_bit_eq)
  also have "\<dots> = push_bit 33 (uint flags)"
    using b by (intro take_bit_int_eq_self) (simp_all add: push_bit_eq_mult)
  finally have e: "uint (push_bit 33 flags) = push_bit 33 (uint flags)" .
  have "sint (push_bit 33 flags) = signed_take_bit 63 (push_bit 33 (uint flags))"
    unfolding e [symmetric] by (simp add: sint_uint)
  also have "\<dots> = push_bit 33 (uint flags)"
  proof (rule signed_take_bit_int_eq_self)
    show "push_bit 33 (uint flags) < 2 ^ 63" by (rule less_trans [OF b]) simp
    have "0 \<le> push_bit 33 (uint flags)" by simp
    then show "- (2 ^ 63) \<le> push_bit 33 (uint flags)" by (rule order_trans [rotated]) simp
  qed
  finally show ?thesis by (simp add: i64_bits_def)
qed

definition packed :: "int \<Rightarrow> int \<Rightarrow> int \<Rightarrow> int \<Rightarrow> int \<Rightarrow> int \<Rightarrow> int" where
  "packed fs a p h s f =
     fs OR push_bit 8 a OR push_bit 12 p OR push_bit 24 h OR push_bit 25 s OR push_bit 33 f"

lemma and_masks:
  "x AND 255 = take_bit 8 (x :: int)" "x AND 15 = take_bit 4 (x :: int)"
  "x AND 4095 = take_bit 12 (x :: int)" "x AND 1 = take_bit 1 (x :: int)"
  by (simp_all add: take_bit_eq_mask mask_eq_exp_minus_1)

lemma packed_fields:
  assumes "0 \<le> fs" "fs < 2 ^ 8" "0 \<le> a" "a < 2 ^ 4" "0 \<le> p" "p < 2 ^ 12" "0 \<le> h" "h < 2 ^ 1"
    "0 \<le> s" "s < 2 ^ 8" "0 \<le> f" "f < 2 ^ 28"
  shows "take_bit 8 (packed fs a p h s f) = fs"
    and "take_bit 4 (drop_bit 8 (packed fs a p h s f)) = a"
    and "take_bit 12 (drop_bit 12 (packed fs a p h s f)) = p"
    and "take_bit 1 (drop_bit 24 (packed fs a p h s f)) = h"
    and "take_bit 8 (drop_bit 25 (packed fs a p h s f)) = s"
    and "drop_bit 33 (packed fs a p h s f) = f"
    and "take_bit 61 (packed fs a p h s f) = packed fs a p h s f"
proof -
  have b: "bit fs i \<Longrightarrow> i < 8" "bit a i \<Longrightarrow> i < 4" "bit p i \<Longrightarrow> i < 12" "bit h i \<Longrightarrow> i < 1"
    "bit s i \<Longrightarrow> i < 8" "bit f i \<Longrightarrow> i < 28" for i
    using assms int_bit_less by blast+
  note bits = packed_def bit_take_bit_iff bit_drop_bit_eq bit_or_iff bit_push_bit_iff
  show "take_bit 8 (packed fs a p h s f) = fs"
    by (rule bit_eqI, unfold bits) (auto dest: b)
  show "take_bit 4 (drop_bit 8 (packed fs a p h s f)) = a"
    by (rule bit_eqI, unfold bits) (auto dest: b)
  show "take_bit 12 (drop_bit 12 (packed fs a p h s f)) = p"
    by (rule bit_eqI, unfold bits) (auto dest: b)
  show "take_bit 1 (drop_bit 24 (packed fs a p h s f)) = h"
    by (rule bit_eqI, unfold bits) (auto dest: b)
  show "take_bit 8 (drop_bit 25 (packed fs a p h s f)) = s"
    by (rule bit_eqI, unfold bits) (auto dest: b)
  show "drop_bit 33 (packed fs a p h s f) = f"
    by (rule bit_eqI, unfold bits) (auto dest: b)
  show "take_bit 61 (packed fs a p h s f) = packed fs a p h s f"
    by (rule bit_eqI, unfold bits) (auto dest: b)
qed

lemma pack_Ok:
  "pack_method_header fs a prim s flags = Ok bits \<longleftrightarrow>
     fs \<le> 255 \<and> a \<le> 15 \<and> s \<le> 255 \<and> (\<forall>n. prim = Some n \<longrightarrow> unat n < 4096)
     \<and> bits = packed (int fs) (int a) (case prim of None \<Rightarrow> 0 | Some n \<Rightarrow> uint n)
         (if prim = None then 0 else 1) (int s) 0
       OR i64_bits (push_bit 33 flags)"
  by (auto simp: pack_method_header_def packed_def ac_simps split: option.splits)

lemma packed_header_fields:
  assumes "pack_method_header fs argc prim hsb flags = Ok bits" and "flags < 2 ^ 28"
    and "method_header_bits vm m = as_int (from_int bits)"
  shows "in_smallint bits \<and> method_frame_slots vm m = fs \<and> method_argc vm m = argc
    \<and> method_primitive vm m = prim \<and> method_handler_slot_base vm m = hsb
    \<and> mh_flags (method_header_bits vm m) = flags"
proof -
  let ?p = "case prim of None \<Rightarrow> 0 | Some n \<Rightarrow> uint n" and ?h = "if prim = None then 0 else 1 :: int"
  let ?b = "packed (int fs) (int argc) ?p ?h (int hsb) (uint flags)"
  from assms(1) have bd: "fs \<le> 255" "argc \<le> 15" "hsb \<le> 255"
    and pr: "\<And>n. prim = Some n \<Longrightarrow> unat n < 4096"
    and bits: "bits = packed (int fs) (int argc) ?p ?h (int hsb) 0 OR i64_bits (push_bit 33 flags)"
    by (auto simp: pack_Ok)
  have b: "bits = ?b" by (simp add: bits flags_small [OF assms(2)] packed_def or.assoc)
  have fl: "0 \<le> uint flags" "uint flags < 2 ^ 28"
    using assms(2) by (simp_all add: word_less_def)
  have p0: "0 \<le> ?p" "?p < 2 ^ 12"
    using pr by (auto split: option.splits) (metis nat_less_iff numeral_less_iff of_nat_less_iff
        of_nat_numeral uint_nat)
  note f = packed_fields [of "int fs" "int argc" ?p ?h "int hsb" "uint flags"]
  have f8: "take_bit 8 ?b = int fs" and f4: "take_bit 4 (drop_bit 8 ?b) = int argc"
    and f12: "take_bit 12 (drop_bit 12 ?b) = ?p" and f1: "take_bit 1 (drop_bit 24 ?b) = ?h"
    and fs8: "take_bit 8 (drop_bit 25 ?b) = int hsb" and ff: "drop_bit 33 ?b = uint flags"
    and fb: "take_bit 61 ?b = ?b"
    using f bd p0 fl by simp_all
  have "0 \<le> ?b" "?b < 2 ^ 61" using fb take_bit_nonnegative [of 61 ?b] take_bit_int_less_exp [of 61 ?b]
    by simp_all
  then have si: "in_smallint bits"
    by (simp add: b in_smallint_def SMALLINT_MAX_def SMALLINT_MIN_def)
  then have mb: "method_header_bits vm m = ?b" using assms(3) b by simp
  have "method_primitive vm m = prim"
    using f12 f1 by (cases prim) (simp_all add: method_primitive_def mh_primitive_def mb and_masks)
  with si f8 f4 fs8 ff show ?thesis
    by (simp add: method_frame_slots_def mh_frame_slots_def method_argc_def mh_argc_def
        method_handler_slot_base_def mh_handler_slot_base_def mh_flags_def mb and_masks)
qed

text \<open>
  C38. A method header packed from arguments within the asserted bounds and flags below 2 to the 28
  fits a SmallInteger, and reading the fields of the stored value gives back the frame size, the
  argument count, the primitive (present or not), the handler slot base and the flags.
\<close>

theorem method_header_roundtrip:
  assumes "pack_method_header fs argc prim hsb flags = Ok bits" and "flags < 2 ^ 28"
    and "method_header_bits vm m = as_int (from_int bits)"
  shows "in_smallint bits \<and> method_frame_slots vm m = fs \<and> method_argc vm m = argc
    \<and> method_primitive vm m = prim \<and> method_handler_slot_base vm m = hsb
    \<and> mh_flags (method_header_bits vm m) = flags"
  by (rule packed_header_fields [OF assms])

theorem method_header_roundtrip_witness:
  "\<exists>bits. pack_method_header 10 2 (Some 17) 3 1 = Ok bits
     \<and> method_argc (bare_literal (set_slot_raw small_heap 4096 0 (from_int bits)) 0) (from_ptr 4096) = 2
     \<and> method_primitive (bare_literal (set_slot_raw small_heap 4096 0 (from_int bits)) 0) (from_ptr 4096)
         = Some 17"
proof -
  obtain bits where b: "pack_method_header 10 2 (Some 17) 3 1 = Ok bits"
    by (simp add: pack_Ok)
  have "method_header_bits (bare_literal (set_slot_raw small_heap 4096 0 (from_int bits)) 0)
      (from_ptr 4096) = as_int (from_int bits)"
    using as_ptr_from_ptr [of 4096]
    by (simp add: method_header_bits_def vslot_def bare_literal_def slot_set_slot_same)
  from method_header_roundtrip [OF b _ this] b show ?thesis by (auto simp: word_less_def)
qed

end
