(* ===== verification/Run_Queues.thy ===== *)
theory Run_Queues
  imports Heap_View Sample_Heap
begin

section \<open>Linked process queues\<close>

text \<open>
  The queues of src/prims.rs: a run queue of the scheduler and the waiting list of a semaphore are
  both lists of Process objects, linked through nextLink, with the head and the tail kept in two
  slots of the list object and a back pointer myList in each member. The abstraction of a queue is
  the list of its processes, and the operations implement a FIFO on it.
\<close>

definition scheduler_queues :: "vm \<Rightarrow> value" where
  "scheduler_queues vm = vslot vm (as_ptr (specials vm ! SPECIAL_PROCESSOR)) SCHEDULER_QUEUES"

definition process_priority :: "vm \<Rightarrow> value \<Rightarrow> int" where
  "process_priority vm p = as_int (vslot vm (as_ptr p) PROCESS_PRIORITY)"

definition is_process :: "vm \<Rightarrow> value \<Rightarrow> bool" where
  "is_process vm v \<longleftrightarrow> is_ptr v \<and> hdr_class_index (header (vm_heap vm) (as_ptr v)) = CLASS_PROCESS"

definition enqueue_process :: "vm \<Rightarrow> value \<Rightarrow> nat \<Rightarrow> nat \<Rightarrow> value \<Rightarrow> vm" where
  "enqueue_process vm lst head_slot tail_slot p =
     (let nilv = nil vm;
          la = as_ptr lst;
          pa = as_ptr p;
          vm1 = store_slot vm pa PROCESS_NEXT_LINK nilv;
          vm2 = store_slot vm1 pa PROCESS_MY_LIST lst;
          head = vslot vm2 la head_slot;
          vm3 = (if head = nilv then store_slot vm2 la head_slot p
                 else let tail = vslot vm2 la tail_slot
                      in store_slot vm2 (as_ptr tail) PROCESS_NEXT_LINK p)
      in store_slot vm3 la tail_slot p)"

definition dequeue_process :: "vm \<Rightarrow> value \<Rightarrow> nat \<Rightarrow> nat \<Rightarrow> (value \<times> vm) option" where
  "dequeue_process vm lst head_slot tail_slot =
     (let nilv = nil vm;
          la = as_ptr lst;
          head = vslot vm la head_slot
      in if head = nilv then None
         else let nxt = vslot vm (as_ptr head) PROCESS_NEXT_LINK;
                  vm1 = store_slot vm la head_slot nxt;
                  vm2 = (if nxt = nilv then store_slot vm1 la tail_slot nilv else vm1);
                  vm3 = store_slot vm2 (as_ptr head) PROCESS_NEXT_LINK nilv;
                  vm4 = store_slot vm3 (as_ptr head) PROCESS_MY_LIST nilv
              in Some (head, vm4))"

definition queue_slots_of :: "vm \<Rightarrow> value \<Rightarrow> nat \<times> nat" where
  "queue_slots_of vm lst =
     (if hdr_class_index (header (vm_heap vm) (as_ptr lst)) = CLASS_SEMAPHORE
      then (SEMAPHORE_QUEUE_HEAD, SEMAPHORE_QUEUE_TAIL) else (LIST_HEAD, LIST_TAIL))"

text \<open>The search along the links does not end on a cyclic list that lacks the process.\<close>

partial_function (option) unlink_loop ::
  "vm \<Rightarrow> nat \<Rightarrow> nat \<Rightarrow> nat \<Rightarrow> value \<Rightarrow> value \<Rightarrow> value \<Rightarrow> vm option" where
  "unlink_loop vm la hs ts p prev cur =
     (if cur = nil vm then Some vm
      else let nxt = vslot vm (as_ptr cur) PROCESS_NEXT_LINK
           in if cur = p
              then let vm1 = (if prev = nil vm then store_slot vm la hs nxt
                              else store_slot vm (as_ptr prev) PROCESS_NEXT_LINK nxt)
                   in Some (if nxt = nil vm then store_slot vm1 la ts prev else vm1)
              else unlink_loop vm la hs ts p cur nxt)"

definition remove_process_from_its_list :: "vm \<Rightarrow> value \<Rightarrow> vm option" where
  "remove_process_from_its_list vm p =
     (let nilv = nil vm;
          lst = vslot vm (as_ptr p) PROCESS_MY_LIST
      in if lst = nilv then Some vm
         else let (hs, ts) = queue_slots_of vm lst;
                  la = as_ptr lst
              in (case unlink_loop vm la hs ts p nilv (vslot vm la hs) of
                    None \<Rightarrow> None
                  | Some vm1 \<Rightarrow>
                      Some (store_slot (store_slot vm1 (as_ptr p) PROCESS_NEXT_LINK nilv)
                              (as_ptr p) PROCESS_MY_LIST nilv)))"

definition make_runnable :: "vm \<Rightarrow> value \<Rightarrow> vm" where
  "make_runnable vm p =
     (let prio = nat (min (max (process_priority vm p) 1) (int NUM_PRIORITIES));
          queues = scheduler_queues vm;
          q = vslot vm (as_ptr queues) (prio - 1)
      in enqueue_process vm q LIST_HEAD LIST_TAIL p)"

text \<open>The loops over the priorities run from the given number of priorities downwards.\<close>

fun take_below :: "vm \<Rightarrow> nat \<Rightarrow> nat \<Rightarrow> (value \<times> vm) option" where
  "take_below vm queues 0 = None"
| "take_below vm queues (Suc prio) =
     (case dequeue_process vm (vslot vm queues prio) LIST_HEAD LIST_TAIL of
        Some r \<Rightarrow> Some r
      | None \<Rightarrow> take_below vm queues prio)"

definition take_next_runnable :: "vm \<Rightarrow> (value \<times> vm) option" where
  "take_next_runnable vm = take_below vm (as_ptr (scheduler_queues vm)) NUM_PRIORITIES"

fun ceiling_below :: "vm \<Rightarrow> nat \<Rightarrow> nat \<Rightarrow> int option" where
  "ceiling_below vm queues 0 = None"
| "ceiling_below vm queues (Suc prio) =
     (if vslot vm (as_ptr (vslot vm queues prio)) LIST_HEAD \<noteq> nil vm then Some (int prio + 1)
      else ceiling_below vm queues prio)"

definition runnable_priority_ceiling :: "vm \<Rightarrow> int option" where
  "runnable_priority_ceiling vm = ceiling_below vm (as_ptr (scheduler_queues vm)) NUM_PRIORITIES"

subsection \<open>The list a queue holds\<close>

text \<open>seg vm v ps w: following nextLink from v visits the processes ps and arrives at w.\<close>

fun seg :: "vm \<Rightarrow> value \<Rightarrow> value list \<Rightarrow> value \<Rightarrow> bool" where
  "seg vm v [] w = (v = w)"
| "seg vm v (p # ps) w = (v = p \<and> seg vm (vslot vm (as_ptr p) PROCESS_NEXT_LINK) ps w)"

definition process_ok :: "vm \<Rightarrow> value \<Rightarrow> bool" where
  "process_ok vm p \<longleftrightarrow> p \<noteq> nil vm \<and> as_ptr p \<in> live (vm_heap vm)
     \<and> PROCESS_NUM_VM_SLOTS \<le> unat (num_slots (vm_heap vm) (as_ptr p))"

definition list_ok :: "vm \<Rightarrow> value \<Rightarrow> nat \<Rightarrow> nat \<Rightarrow> bool" where
  "list_ok vm l hs ts \<longleftrightarrow> heap_ok (vm_heap vm) \<and> as_ptr l \<in> live (vm_heap vm) \<and> hs \<noteq> ts
     \<and> hs < unat (num_slots (vm_heap vm) (as_ptr l)) \<and> ts < unat (num_slots (vm_heap vm) (as_ptr l))"

definition holds :: "value \<Rightarrow> nat \<Rightarrow> nat \<Rightarrow> vm \<Rightarrow> value list \<Rightarrow> bool" where
  "holds l hs ts vm ps \<longleftrightarrow> list_ok vm l hs ts \<and> distinct ps \<and> l \<notin> set ps
     \<and> seg vm (vslot vm (as_ptr l) hs) ps (nil vm)
     \<and> vslot vm (as_ptr l) ts = (if ps = [] then nil vm else last ps)
     \<and> (\<forall>p \<in> set ps. process_ok vm p \<and> vslot vm (as_ptr p) PROCESS_MY_LIST = l)"

text \<open>A process that is in no queue.\<close>

definition idle :: "vm \<Rightarrow> value \<Rightarrow> bool" where
  "idle vm p \<longleftrightarrow> process_ok vm p \<and> vslot vm (as_ptr p) PROCESS_NEXT_LINK = nil vm
     \<and> vslot vm (as_ptr p) PROCESS_MY_LIST = nil vm"

definition parts :: "value \<Rightarrow> value list \<Rightarrow> nat set" where
  "parts l ps = as_ptr ` insert l (set ps)"

lemma as_ptr_inject [simp]: "as_ptr v = as_ptr w \<longleftrightarrow> v = w"
  by (simp add: as_ptr_def word_unat_eq_iff)

lemma as_ptr_in_image [simp]: "as_ptr v \<in> as_ptr ` A \<longleftrightarrow> v \<in> A"
  by (auto simp: image_iff)

lemma seg_append: "seg vm v (ps @ qs) w \<longleftrightarrow> (\<exists>u. seg vm v ps u \<and> seg vm u qs w)"
  by (induction ps arbitrary: v) auto

lemma seg_cong:
  "(\<And>p. p \<in> set ps \<Longrightarrow> vslot vm' (as_ptr p) PROCESS_NEXT_LINK = vslot vm (as_ptr p) PROCESS_NEXT_LINK)
     \<Longrightarrow> seg vm' v ps w = seg vm v ps w"
  by (induction ps arbitrary: v) auto

lemma process_ok_view:
  "view (vm_heap vm) (vm_heap vm') upd \<Longrightarrow> nil vm' = nil vm \<Longrightarrow> process_ok vm p \<Longrightarrow> process_ok vm' p"
  by (auto simp: process_ok_def view_def)

lemma process_ok_slot:
  "process_ok vm p \<Longrightarrow> as_ptr p \<in> live (vm_heap vm)"
  "process_ok vm p \<Longrightarrow> j < PROCESS_NUM_VM_SLOTS \<Longrightarrow> j < unat (num_slots (vm_heap vm) (as_ptr p))"
  by (simp_all add: process_ok_def)

lemma list_ok_view:
  "view (vm_heap vm) (vm_heap vm') upd \<Longrightarrow> list_ok vm l hs ts \<Longrightarrow> list_ok vm' l hs ts"
  by (auto simp: list_ok_def view_def)

lemma view_process:
  "view (vm_heap vm) (vm_heap vm') upd \<Longrightarrow> process_ok vm p \<Longrightarrow> j < PROCESS_NUM_VM_SLOTS \<Longrightarrow>
     vslot vm' (as_ptr p) j = (case upd (as_ptr p) j of None \<Rightarrow> vslot vm (as_ptr p) j | Some v \<Rightarrow> v)"
  using process_ok_slot by (auto intro: vslot_view)

lemma view_list:
  "view (vm_heap vm) (vm_heap vm') upd \<Longrightarrow> list_ok vm l hs ts \<Longrightarrow>
     vslot vm' (as_ptr l) hs = (case upd (as_ptr l) hs of None \<Rightarrow> vslot vm (as_ptr l) hs | Some v \<Rightarrow> v)
     \<and> vslot vm' (as_ptr l) ts = (case upd (as_ptr l) ts of None \<Rightarrow> vslot vm (as_ptr l) ts | Some v \<Rightarrow> v)"
  by (auto simp: list_ok_def intro: vslot_view)

subsection \<open>Appending\<close>

lemma enqueue_view:
  assumes q: "holds l hs ts vm ps" and p: "process_ok vm p" "p \<notin> set ps" "p \<noteq> l"
  shows "view (vm_heap vm) (vm_heap (enqueue_process vm l hs ts p))
    (\<lambda>y j. if y = as_ptr l \<and> j = ts then Some p
           else if ps = [] \<and> y = as_ptr l \<and> j = hs then Some p
           else if ps \<noteq> [] \<and> y = as_ptr (last ps) \<and> j = PROCESS_NEXT_LINK then Some p
           else if y = as_ptr p \<and> j = PROCESS_MY_LIST then Some l
           else if y = as_ptr p \<and> j = PROCESS_NEXT_LINK then Some (nil vm) else None)"
    (is "view _ _ ?U")
proof -
  have l: "list_ok vm l hs ts" and ok: "heap_ok (vm_heap vm)" and lx: "as_ptr l \<in> live (vm_heap vm)"
    "hs < unat (num_slots (vm_heap vm) (as_ptr l))" "ts < unat (num_slots (vm_heap vm) (as_ptr l))"
    using q by (auto simp: holds_def list_ok_def)
  let ?vm2 = "store_slot (store_slot vm (as_ptr p) PROCESS_NEXT_LINK (nil vm)) (as_ptr p) PROCESS_MY_LIST l"
  have v2: "view (vm_heap vm) (vm_heap ?vm2) (\<lambda>y j. if y = as_ptr p \<and> j = PROCESS_MY_LIST then Some l
           else if y = as_ptr p \<and> j = PROCESS_NEXT_LINK then Some (nil vm) else None)"
    by (intro view_store view_refl ok) (simp_all add: process_ok_slot [OF p(1)])
  have hd: "vslot ?vm2 (as_ptr l) hs = vslot vm (as_ptr l) hs"
    "vslot ?vm2 (as_ptr l) ts = vslot vm (as_ptr l) ts"
    using view_list [OF v2 l] p(3) by auto
  show ?thesis
  proof (cases ps)
    case Nil
    then have e: "enqueue_process vm l hs ts p = store_slot (store_slot ?vm2 (as_ptr l) hs p) (as_ptr l) ts p"
      using q hd by (simp add: enqueue_process_def Let_def holds_def)
    have "view (vm_heap vm) (vm_heap (enqueue_process vm l hs ts p))
      (\<lambda>y j. if y = as_ptr l \<and> j = ts then Some p else if y = as_ptr l \<and> j = hs then Some p
           else if y = as_ptr p \<and> j = PROCESS_MY_LIST then Some l
           else if y = as_ptr p \<and> j = PROCESS_NEXT_LINK then Some (nil vm) else None)"
      unfolding e by (intro view_store v2 lx)
    then show ?thesis by (rule view_cong) (auto simp: fun_eq_iff Nil)
  next
    case (Cons a as)
    have lp: "process_ok vm (last ps)" and a: "a \<noteq> nil vm" using q by (auto simp: holds_def Cons process_ok_def)
    have e: "enqueue_process vm l hs ts p
        = store_slot (store_slot ?vm2 (as_ptr (last ps)) PROCESS_NEXT_LINK p) (as_ptr l) ts p"
      using q hd a by (simp add: enqueue_process_def Let_def holds_def Cons)
    have "view (vm_heap vm) (vm_heap (enqueue_process vm l hs ts p))
      (\<lambda>y j. if y = as_ptr l \<and> j = ts then Some p
           else if y = as_ptr (last ps) \<and> j = PROCESS_NEXT_LINK then Some p
           else if y = as_ptr p \<and> j = PROCESS_MY_LIST then Some l
           else if y = as_ptr p \<and> j = PROCESS_NEXT_LINK then Some (nil vm) else None)"
      unfolding e by (intro view_store v2 lx) (simp_all add: process_ok_slot [OF lp])
    then show ?thesis by (rule view_cong) (auto simp: fun_eq_iff Cons)
  qed
qed

lemma enqueue_sel [simp]: "specials (enqueue_process vm l hs ts p) = specials vm"
  "nil (enqueue_process vm l hs ts p) = nil vm"
  by (simp_all add: enqueue_process_def Let_def nil_def)

lemma enqueue_holds:
  assumes q: "holds l hs ts vm ps" and p: "process_ok vm p" "p \<notin> set ps" "p \<noteq> l"
  shows "holds l hs ts (enqueue_process vm l hs ts p) (ps @ [p])"
proof -
  let ?vm' = "enqueue_process vm l hs ts p"
  note v = enqueue_view [OF assms]
  have l: "list_ok vm l hs ts" and m: "\<And>r. r \<in> set ps \<Longrightarrow> process_ok vm r \<and> r \<noteq> l"
    and sg: "seg vm (vslot vm (as_ptr l) hs) ps (nil vm)"
    and d: "distinct ps" "l \<notin> set ps" "hs \<noteq> ts"
    and ml: "\<And>r. r \<in> set ps \<Longrightarrow> vslot vm (as_ptr r) PROCESS_MY_LIST = l"
    using q by (auto simp: holds_def list_ok_def)
  note vp = view_process [OF v] and vl = view_list [OF v l]
  have nx: "vslot ?vm' (as_ptr r) PROCESS_NEXT_LINK = (if r = last ps then p else vslot vm (as_ptr r) PROCESS_NEXT_LINK)"
    if "r \<in> set ps" for r
    using vp [of r PROCESS_NEXT_LINK] m [OF that] that p by auto
  have np: "vslot ?vm' (as_ptr p) PROCESS_NEXT_LINK = nil vm"
    using vp [OF p(1), of PROCESS_NEXT_LINK] p by (auto dest: last_in_set)
  have "seg ?vm' (vslot ?vm' (as_ptr l) hs) (ps @ [p]) (nil vm)"
  proof (cases ps rule: rev_cases)
    case Nil
    then show ?thesis using vl np d(3) by simp
  next
    case (snoc bs t)
    have "seg ?vm' (vslot vm (as_ptr l) hs) bs t"
      using sg nx d(1) by (subst seg_cong [where vm = vm]) (auto simp: seg_append snoc)
    moreover have "vslot ?vm' (as_ptr l) hs = vslot vm (as_ptr l) hs"
      using vl d(3) d(2) p(3) by (auto simp: snoc)
    ultimately show ?thesis using nx np by (auto simp: seg_append snoc)
  qed
  moreover have "process_ok ?vm' r \<and> vslot ?vm' (as_ptr r) PROCESS_MY_LIST = l" if "r \<in> set (ps @ [p])" for r
    using that m ml p vp [of r PROCESS_MY_LIST] process_ok_view [OF v] by auto
  moreover have "vslot ?vm' (as_ptr l) ts = p" using vl by simp
  ultimately show ?thesis
    using list_ok_view [OF v l] d p unfolding holds_def by simp
qed

subsection \<open>Taking the first\<close>

lemma dequeue_empty:
  "holds l hs ts vm [] \<Longrightarrow> dequeue_process vm l hs ts = None"
  by (simp add: holds_def dequeue_process_def Let_def)

lemma dequeue_view:
  assumes q: "holds l hs ts vm (p # ps)"
  shows "\<exists>vm'. dequeue_process vm l hs ts = Some (p, vm') \<and> specials vm' = specials vm
    \<and> view (vm_heap vm) (vm_heap vm')
    (\<lambda>y j. if y = as_ptr p \<and> j = PROCESS_MY_LIST then Some (nil vm)
           else if y = as_ptr p \<and> j = PROCESS_NEXT_LINK then Some (nil vm)
           else if ps = [] \<and> y = as_ptr l \<and> j = ts then Some (nil vm)
           else if y = as_ptr l \<and> j = hs then Some (vslot vm (as_ptr p) PROCESS_NEXT_LINK) else None)"
proof -
  have ok: "heap_ok (vm_heap vm)" and lx: "as_ptr l \<in> live (vm_heap vm)"
    "hs < unat (num_slots (vm_heap vm) (as_ptr l))" "ts < unat (num_slots (vm_heap vm) (as_ptr l))"
    and hd: "vslot vm (as_ptr l) hs = p" and p: "process_ok vm p" "p \<noteq> nil vm" "p \<noteq> l"
    using q by (auto simp: holds_def list_ok_def process_ok_def)
  let ?n = "vslot vm (as_ptr p) PROCESS_NEXT_LINK"
  have n: "?n = nil vm \<longleftrightarrow> ps = []" using q by (cases ps) (auto simp: holds_def process_ok_def)
  let ?vm1 = "store_slot vm (as_ptr l) hs ?n"
  let ?vm2 = "if ?n = nil vm then store_slot ?vm1 (as_ptr l) ts (nil vm) else ?vm1"
  let ?U1 = "\<lambda>y j. if y = as_ptr l \<and> j = hs then Some ?n else None"
  have v1: "view (vm_heap vm) (vm_heap ?vm1) ?U1"
    by (intro view_store view_refl ok lx)
  have "view (vm_heap vm) (vm_heap ?vm2)
      (\<lambda>y j. if ps = [] \<and> y = as_ptr l \<and> j = ts then Some (nil vm) else ?U1 y j)"
    using v1 view_store [OF v1 lx(1,3), of "nil vm"] n by (cases "ps = []") simp_all
  from view_store [OF view_store [OF this, of "as_ptr p" PROCESS_NEXT_LINK "nil vm"],
    of "as_ptr p" PROCESS_MY_LIST "nil vm"]
  show ?thesis using p hd by (simp add: dequeue_process_def Let_def process_ok_slot)
qed

lemma dequeue_holds:
  assumes q: "holds l hs ts vm (p # ps)"
  shows "\<exists>vm'. dequeue_process vm l hs ts = Some (p, vm') \<and> holds l hs ts vm' ps \<and> idle vm' p"
proof -
  obtain vm' where e: "dequeue_process vm l hs ts = Some (p, vm')" and sp: "specials vm' = specials vm"
    and v: "view (vm_heap vm) (vm_heap vm')
    (\<lambda>y j. if y = as_ptr p \<and> j = PROCESS_MY_LIST then Some (nil vm)
           else if y = as_ptr p \<and> j = PROCESS_NEXT_LINK then Some (nil vm)
           else if ps = [] \<and> y = as_ptr l \<and> j = ts then Some (nil vm)
           else if y = as_ptr l \<and> j = hs then Some (vslot vm (as_ptr p) PROCESS_NEXT_LINK) else None)"
    using dequeue_view [OF q] by blast
  have nv: "nil vm' = nil vm" using sp by (simp add: nil_def)
  have l: "list_ok vm l hs ts" and pl: "p \<noteq> l" "p \<notin> set ps" and d: "distinct ps" "l \<notin> set ps" "hs \<noteq> ts"
    and m: "\<And>r. r \<in> set (p # ps) \<Longrightarrow> process_ok vm r"
    and ml: "\<And>r. r \<in> set ps \<Longrightarrow> vslot vm (as_ptr r) PROCESS_MY_LIST = l"
    and sg: "seg vm (vslot vm (as_ptr p) PROCESS_NEXT_LINK) ps (nil vm)"
    and tl: "vslot vm (as_ptr l) ts = last (p # ps)"
    using q by (auto simp: holds_def list_ok_def)
  have same: "vslot vm' (as_ptr r) j = vslot vm (as_ptr r) j" if "r \<in> set ps" "j < PROCESS_NUM_VM_SLOTS" for r j
    using view_process [OF v m that(2), of r] that pl d by auto
  have "vslot vm' (as_ptr l) hs = vslot vm (as_ptr p) PROCESS_NEXT_LINK"
    "vslot vm' (as_ptr l) ts = (if ps = [] then nil vm else last ps)"
    using view_list [OF v l] pl d(3) tl by auto
  moreover have "seg vm' v ps w = seg vm v ps w" for v w by (rule seg_cong) (simp add: same)
  ultimately have "holds l hs ts vm' ps"
    using list_ok_view [OF v l] d sg nv ml same process_ok_view [OF v nv m] by (simp add: holds_def)
  moreover have "idle vm' p"
    using view_process [OF v m, of p PROCESS_MY_LIST] view_process [OF v m, of p PROCESS_NEXT_LINK]
      process_ok_view [OF v nv m, of p] nv by (simp add: idle_def)
  ultimately show ?thesis using e by blast
qed

subsection \<open>What a queue operation leaves alone\<close>

lemma list_ok_touches: "touches A vm vm' \<Longrightarrow> list_ok vm l hs ts \<Longrightarrow> list_ok vm' l hs ts"
  by (auto simp: list_ok_def touches_def)

lemma process_ok_touches: "touches A vm vm' \<Longrightarrow> process_ok vm p \<Longrightarrow> process_ok vm' p"
  by (auto simp: process_ok_def touches_def nil_def)

lemma process_slot_touches:
  "touches A vm vm' \<Longrightarrow> process_ok vm p \<Longrightarrow> as_ptr p \<notin> A \<Longrightarrow> j < PROCESS_NUM_VM_SLOTS \<Longrightarrow>
     vslot vm' (as_ptr p) j = vslot vm (as_ptr p) j"
  by (simp add: touches_slot process_ok_slot)

lemma holds_touches:
  assumes t: "touches A vm vm'" and q: "holds l hs ts vm ps" and d: "parts l ps \<inter> A = {}"
  shows "holds l hs ts vm' ps"
proof -
  have n: "as_ptr l \<notin> A" "\<And>p. p \<in> set ps \<Longrightarrow> as_ptr p \<notin> A" using d by (auto simp: parts_def)
  have l: "list_ok vm l hs ts" and m: "\<And>p. p \<in> set ps \<Longrightarrow> process_ok vm p"
    using q by (auto simp: holds_def)
  have "seg vm' v ps w = seg vm v ps w" for v w
    using process_slot_touches [OF t m n(2)] by (intro seg_cong) simp
  moreover have "vslot vm' (as_ptr l) hs = vslot vm (as_ptr l) hs"
    "vslot vm' (as_ptr l) ts = vslot vm (as_ptr l) ts"
    using touches_slot [OF t _ n(1)] l by (auto simp: list_ok_def)
  ultimately show ?thesis
    using q list_ok_touches [OF t l] process_ok_touches [OF t m] process_slot_touches [OF t m n(2)]
      touches_nil [OF t]
    unfolding holds_def by simp
qed

lemma idle_touches: "touches A vm vm' \<Longrightarrow> idle vm p \<Longrightarrow> as_ptr p \<notin> A \<Longrightarrow> idle vm' p"
  using process_ok_touches process_slot_touches touches_nil by (simp add: idle_def)

lemma enqueue_touches:
  assumes q: "holds l hs ts vm ps" and p: "process_ok vm p" "p \<notin> set ps" "p \<noteq> l"
  shows "touches (parts l (p # ps)) vm (enqueue_process vm l hs ts p)"
  by (rule touches_view [OF enqueue_view [OF assms]]) (auto simp: parts_def dest: last_in_set)

lemma dequeue_touches:
  assumes q: "holds l hs ts vm (p # ps)"
  shows "touches (parts l (p # ps)) vm (snd (the (dequeue_process vm l hs ts)))"
proof -
  from dequeue_view [OF q] obtain vm' where e: "dequeue_process vm l hs ts = Some (p, vm')"
    and sp: "specials vm' = specials vm" and v: "view (vm_heap vm) (vm_heap vm')
    (\<lambda>y j. if y = as_ptr p \<and> j = PROCESS_MY_LIST then Some (nil vm)
           else if y = as_ptr p \<and> j = PROCESS_NEXT_LINK then Some (nil vm)
           else if ps = [] \<and> y = as_ptr l \<and> j = ts then Some (nil vm)
           else if y = as_ptr l \<and> j = hs then Some (vslot vm (as_ptr p) PROCESS_NEXT_LINK) else None)"
    by blast
  have "touches (parts l (p # ps)) vm vm'"
    by (rule touches_view [OF v sp]) (auto simp: parts_def)
  then show ?thesis by (simp add: e)
qed

lemma idle_not_queued: "holds l hs ts vm ps \<Longrightarrow> idle vm p \<Longrightarrow> l \<noteq> nil vm \<Longrightarrow> p \<notin> set ps"
  by (auto simp: holds_def idle_def)

text \<open>Every process queue of the machine is a FIFO.\<close>

interpretation process_queue: fifo
  "\<lambda>vm ps. holds l hs ts vm ps \<and> l \<noteq> nil vm" "\<lambda>vm p. idle vm p \<and> p \<noteq> l"
  "\<lambda>vm p. enqueue_process vm l hs ts p" "\<lambda>vm. dequeue_process vm l hs ts" for l hs ts
proof
  fix vm ps p q
  assume q: "holds l hs ts vm ps \<and> l \<noteq> nil vm" and p: "idle vm p \<and> p \<noteq> l"
  then have a: "holds l hs ts vm ps" "process_ok vm p" "p \<notin> set ps" "p \<noteq> l"
    using idle_not_queued [of l hs ts vm ps p] by (auto simp: idle_def)
  show "holds l hs ts (enqueue_process vm l hs ts p) (ps @ [p]) \<and> l \<noteq> nil (enqueue_process vm l hs ts p)"
    using enqueue_holds [OF a] q by simp
  assume r: "idle vm q \<and> q \<noteq> l" and "p \<noteq> q"
  then have "as_ptr q \<notin> parts l (p # ps)"
    using idle_not_queued [of l hs ts vm ps q] q by (auto simp: parts_def)
  with idle_touches [OF enqueue_touches [OF a]] r
  show "idle (enqueue_process vm l hs ts p) q \<and> q \<noteq> l" by blast
next
  fix vm
  assume "holds l hs ts vm [] \<and> l \<noteq> nil vm"
  then show "dequeue_process vm l hs ts = None" by (simp add: dequeue_empty)
next
  fix vm p ps
  assume q: "holds l hs ts vm (p # ps) \<and> l \<noteq> nil vm"
  then obtain vm' where e: "dequeue_process vm l hs ts = Some (p, vm')" "holds l hs ts vm' ps"
    using dequeue_holds by blast
  have "nil vm' = nil vm" using dequeue_touches [of l hs ts vm p ps] q e(1) touches_nil by fastforce
  with e q show "\<exists>vm'. dequeue_process vm l hs ts = Some (p, vm')
      \<and> holds l hs ts vm' ps \<and> l \<noteq> nil vm'" by auto
qed

subsection \<open>Unlinking from the middle\<close>

lemma unlink_loop_finds:
  assumes "seg vm cur (as @ p # qs) (nil vm)" and "p \<notin> set as" and "nil vm \<notin> set (as @ p # qs)"
  shows "unlink_loop vm la hs ts p prev cur =
    (let prev' = (if as = [] then prev else last as); nxt = vslot vm (as_ptr p) PROCESS_NEXT_LINK;
         vm1 = (if prev' = nil vm then store_slot vm la hs nxt
                else store_slot vm (as_ptr prev') PROCESS_NEXT_LINK nxt)
     in Some (if nxt = nil vm then store_slot vm1 la ts prev' else vm1))"
  using assms
proof (induction as arbitrary: cur prev)
  case Nil
  then show ?case by (subst unlink_loop.simps) (auto simp: Let_def)
next
  case (Cons a as)
  then have "unlink_loop vm la hs ts p prev cur
    = unlink_loop vm la hs ts p a (vslot vm (as_ptr a) PROCESS_NEXT_LINK)"
    by (subst unlink_loop.simps) auto
  with Cons show ?case by simp
qed

lemma remove_view:
  assumes q: "holds l hs ts vm (as @ p # qs)" and s: "queue_slots_of vm l = (hs, ts)" and n: "l \<noteq> nil vm"
  shows "\<exists>vm'. remove_process_from_its_list vm p = Some vm' \<and> specials vm' = specials vm
    \<and> view (vm_heap vm) (vm_heap vm')
    (\<lambda>y j. if y = as_ptr p \<and> j = PROCESS_MY_LIST then Some (nil vm)
           else if y = as_ptr p \<and> j = PROCESS_NEXT_LINK then Some (nil vm)
           else if qs = [] \<and> y = as_ptr l \<and> j = ts then Some (if as = [] then nil vm else last as)
           else if as = [] \<and> y = as_ptr l \<and> j = hs
                \<or> as \<noteq> [] \<and> y = as_ptr (last as) \<and> j = PROCESS_NEXT_LINK
                then Some (vslot vm (as_ptr p) PROCESS_NEXT_LINK) else None)"
proof -
  have ok: "heap_ok (vm_heap vm)" and lx: "as_ptr l \<in> live (vm_heap vm)"
    "hs < unat (num_slots (vm_heap vm) (as_ptr l))" "ts < unat (num_slots (vm_heap vm) (as_ptr l))"
    and sg: "seg vm (vslot vm (as_ptr l) hs) (as @ p # qs) (nil vm)" and pa: "p \<notin> set as"
    and m: "\<And>r. r \<in> set (as @ p # qs) \<Longrightarrow> process_ok vm r"
    and ml: "vslot vm (as_ptr p) PROCESS_MY_LIST = l"
    using q by (auto simp: holds_def list_ok_def)
  have nl: "nil vm \<notin> set (as @ p # qs)" using m by (auto simp: process_ok_def)
  let ?n = "vslot vm (as_ptr p) PROCESS_NEXT_LINK" and ?prev = "if as = [] then nil vm else last as"
  have "seg vm ?n qs (nil vm)" using sg by (auto simp: seg_append)
  then have nx: "?n = nil vm \<longleftrightarrow> qs = []" using nl by (cases qs) auto
  have prev: "?prev = nil vm \<longleftrightarrow> as = []" using nl by (auto dest: last_in_set)
  have lp: "as \<noteq> [] \<Longrightarrow> process_ok vm (last as)" using m by simp
  have pp: "process_ok vm p" using m by simp
  let ?vm1 = "if as = [] then store_slot vm (as_ptr l) hs ?n
     else store_slot vm (as_ptr (last as)) PROCESS_NEXT_LINK ?n"
  let ?vm2 = "if qs = [] then store_slot ?vm1 (as_ptr l) ts ?prev else ?vm1"
  let ?U1 = "\<lambda>y j. if as = [] \<and> y = as_ptr l \<and> j = hs
                \<or> as \<noteq> [] \<and> y = as_ptr (last as) \<and> j = PROCESS_NEXT_LINK then Some ?n else None"
  have u: "unlink_loop vm (as_ptr l) hs ts p (nil vm) (vslot vm (as_ptr l) hs) = Some ?vm2"
    unfolding unlink_loop_finds [OF sg pa nl] Let_def prev nx by (cases "as = []") simp_all
  have v1: "view (vm_heap vm) (vm_heap ?vm1) ?U1"
  proof (cases "as = []")
    case True
    show ?thesis unfolding if_P [OF True] by (rule view_cong [OF view_store [OF view_refl [OF ok] lx(1,2), of ?n]])
        (auto simp: fun_eq_iff True)
  next
    case False
    then show ?thesis using view_store [OF view_refl [OF ok] process_ok_slot(1) [OF lp]
      process_ok_slot(2) [OF lp], of PROCESS_NEXT_LINK ?n] by simp
  qed
  have v2: "view (vm_heap vm) (vm_heap ?vm2)
      (\<lambda>y j. if qs = [] \<and> y = as_ptr l \<and> j = ts then Some ?prev else ?U1 y j)"
    using v1 view_store [OF v1 lx(1,3), of ?prev] by (cases "qs = []") simp_all
  have sp: "specials ?vm2 = specials vm" by simp
  have r: "remove_process_from_its_list vm p = Some (store_slot (store_slot ?vm2 (as_ptr p)
      PROCESS_NEXT_LINK (nil vm)) (as_ptr p) PROCESS_MY_LIST (nil vm))"
    unfolding remove_process_from_its_list_def Let_def ml s prod.case u by (simp add: n)
  show ?thesis
    unfolding r option.inject ex_simps simp_thms
    using view_store [OF view_store [OF v2, of "as_ptr p" PROCESS_NEXT_LINK "nil vm"],
      of "as_ptr p" PROCESS_MY_LIST "nil vm"] pp sp by (simp add: process_ok_slot)
qed

lemma remove_holds:
  assumes q: "holds l hs ts vm (as @ p # qs)" and s: "queue_slots_of vm l = (hs, ts)" and n: "l \<noteq> nil vm"
  shows "\<exists>vm'. remove_process_from_its_list vm p = Some vm' \<and> holds l hs ts vm' (as @ qs) \<and> idle vm' p
    \<and> touches (parts l (as @ p # qs)) vm vm'"
proof -
  from remove_view [OF assms] obtain vm' where r: "remove_process_from_its_list vm p = Some vm'"
    and sp: "specials vm' = specials vm" and v: "view (vm_heap vm) (vm_heap vm')
    (\<lambda>y j. if y = as_ptr p \<and> j = PROCESS_MY_LIST then Some (nil vm)
           else if y = as_ptr p \<and> j = PROCESS_NEXT_LINK then Some (nil vm)
           else if qs = [] \<and> y = as_ptr l \<and> j = ts then Some (if as = [] then nil vm else last as)
           else if as = [] \<and> y = as_ptr l \<and> j = hs
                \<or> as \<noteq> [] \<and> y = as_ptr (last as) \<and> j = PROCESS_NEXT_LINK
                then Some (vslot vm (as_ptr p) PROCESS_NEXT_LINK) else None)" by blast
  have nv: "nil vm' = nil vm" using sp by (simp add: nil_def)
  have l: "list_ok vm l hs ts" and d: "distinct (as @ p # qs)" "l \<notin> set (as @ p # qs)" "hs \<noteq> ts"
    and m: "\<And>r. r \<in> set (as @ p # qs) \<Longrightarrow> process_ok vm r"
    and ml: "\<And>r. r \<in> set (as @ p # qs) \<Longrightarrow> vslot vm (as_ptr r) PROCESS_MY_LIST = l"
    and tl: "vslot vm (as_ptr l) ts = last (as @ p # qs)"
    and sg: "seg vm (vslot vm (as_ptr l) hs) as p" "seg vm (vslot vm (as_ptr p) PROCESS_NEXT_LINK) qs (nil vm)"
    using q by (auto simp: holds_def list_ok_def seg_append)
  note vp = view_process [OF v m] and vl = view_list [OF v l]
  have same: "vslot vm' (as_ptr r) j = vslot vm (as_ptr r) j"
    if "r \<in> set (as @ qs)" "j < PROCESS_NUM_VM_SLOTS" "as = [] \<or> r \<noteq> last as \<or> j \<noteq> PROCESS_NEXT_LINK" for r j
  proof -
    have "r \<in> set (as @ p # qs)" "r \<noteq> p" "r \<noteq> l" using that(1) d by auto
    with vp [of r j] that(2,3) show ?thesis by (auto split: if_splits)
  qed
  have sq: "seg vm' v qs w = seg vm v qs w" for v w
    using d by (intro seg_cong same) (auto dest: last_in_set)
  have "seg vm' (vslot vm' (as_ptr l) hs) (as @ qs) (nil vm)"
  proof (cases as rule: rev_cases)
    case Nil
    then show ?thesis using vl d sg(2) sq by auto
  next
    case (snoc bs t)
    have "seg vm' v bs w = seg vm v bs w" for v w
      using d snoc by (intro seg_cong same) auto
    moreover have "vslot vm' (as_ptr t) PROCESS_NEXT_LINK = vslot vm (as_ptr p) PROCESS_NEXT_LINK"
      using vp [of t PROCESS_NEXT_LINK] d by (auto simp: snoc)
    moreover have "vslot vm' (as_ptr l) hs = vslot vm (as_ptr l) hs" using vl d by (auto simp: snoc)
    ultimately show ?thesis using sg sq by (auto simp: seg_append snoc)
  qed
  moreover have "vslot vm' (as_ptr l) ts = (if as @ qs = [] then nil vm else last (as @ qs))"
    using vl d tl by (auto dest: last_in_set)
  ultimately have "holds l hs ts vm' (as @ qs)"
    using list_ok_view [OF v l] d nv same ml process_ok_view [OF v nv m] by (simp add: holds_def)
  moreover have "idle vm' p"
    using vp [of p PROCESS_MY_LIST] vp [of p PROCESS_NEXT_LINK] process_ok_view [OF v nv m, of p] nv
    by (simp add: idle_def)
  moreover have "touches (parts l (as @ p # qs)) vm vm'"
    by (rule touches_view [OF v sp]) (auto simp: parts_def dest: last_in_set)
  ultimately show ?thesis using r by blast
qed

end
