(* ===== verification/Gc.thy ===== *)
theory Gc
  imports Run_Queues
begin

section \<open>The collectors\<close>

text \<open>
  src/gc.rs: the copying scavenger of the young generation and the mark-compact collector of the old
  one. The work queue and the list of tenured objects of a scavenge are kept with the machine in one
  record; a queue is a list whose head is its last element, so that pop takes the head. A to-space
  that is too small is the failed expect, Panic. Both transitive closures are total functions: each
  object entered into the work queue of the scavenger takes words of a space, and each object
  entered into the mark stack sets a mark bit. The clock readings that time the pauses and the
  profiler samples taken at the start of a collection are left out.
\<close>

subsection \<open>Copying survivors\<close>

record scav =
  sv_vm :: vm
  sv_work :: "nat list"
  sv_tenured :: "nat list"

definition gc_mask :: "nat \<Rightarrow> u64" where
  "gc_mask n = push_bit n 1 - 1"

definition copy_words :: "memory \<Rightarrow> nat \<Rightarrow> nat \<Rightarrow> nat \<Rightarrow> memory" where
  "copy_words m src dst n = (\<lambda>a. if dst \<le> a \<and> a < dst + 8 * n then m (src + (a - dst)) else m a)"

text \<open>
  Where a survivor of n words goes: old space if it is old enough and old space has room, to-space
  otherwise.
\<close>

definition survivor_space :: "heap \<Rightarrow> bool \<Rightarrow> nat \<Rightarrow> (nat \<times> bool \<times> heap) outcome" where
  "survivor_space h wants_tenure n =
     (let to_space = (case alloc_words (young_to h) n of
                        None \<Rightarrow> Panic
                      | Some (s, sp) \<Rightarrow> Ok (s, False, h\<lparr>young_to := sp\<rparr>))
      in if wants_tenure
         then (case alloc_words (old h) n of
                 Some (s, sp) \<Rightarrow> Ok (s, True, h\<lparr>old := sp\<rparr>)
               | None \<Rightarrow> to_space)
         else to_space)"

definition forward :: "value \<Rightarrow> scav \<Rightarrow> (value \<times> scav) outcome" where
  "forward v st =
     (let vm = sv_vm st; h = vm_heap vm; addr = as_ptr v
      in if \<not> is_ptr v then Ok (v, st)
         else if \<not> space_contains (young_from h) addr then Ok (v, st)
         else
           let hword = heap_word h addr
           in if hword AND 1 = 1
              then rbind (from_ptr_checked (unat (hword AND NOT 1))) (\<lambda>f. Ok (f, st))
              else
                let has_over = (num_slots_field hword = HDR_NSLOTS_OVERFLOW);
                    nslots = (if has_over then unat (heap_word h (addr - 8)) else unat (num_slots_field hword));
                    extra = (if has_over then 1 else 0);
                    total_words = extra + 1 + nslots;
                    age = drop_bit GC_AGE_SHIFT (gc_bits hword) AND gc_mask GC_AGE_BITS;
                    new_age = min (age + 1) (gc_mask GC_AGE_BITS);
                    wants_tenure = (tenure_threshold vm \<le> unat new_age)
                in rbind (survivor_space h wants_tenure total_words) (\<lambda>(start, is_old, h1).
                   let src = addr - extra * 8;
                       h2 = h1\<lparr>mem := copy_words (mem h1) src start total_words\<rparr>;
                       c = vm_counters vm;
                       c1 = c\<lparr>gc_bytes_copied := gc_bytes_copied c + total_words * 8\<rparr>;
                       c2 = (if is_old then c1\<lparr>gc_bytes_tenured := gc_bytes_tenured c1 + total_words * 8\<rparr>
                             else c1);
                       new_obj = start + extra * 8;
                       keep = gc_bits hword AND (GC_BIT_IMMUTABLE OR GC_BIT_PINNED);
                       h3 = set_header h2 new_obj
                              (with_gc_bits hword (keep OR push_bit GC_AGE_SHIFT new_age));
                       h4 = set_word h3 addr (word_of_nat new_obj OR 1)
                   in rbind (from_ptr_checked new_obj) (\<lambda>f.
                      Ok (f, \<lparr>sv_vm = vm\<lparr>vm_heap := h4, vm_counters := c2\<rparr>,
                              sv_work = new_obj # sv_work st,
                              sv_tenured = (if is_old then sv_tenured st @ [new_obj]
                                            else sv_tenured st)\<rparr>))))"

fun forward_all :: "value list \<Rightarrow> scav \<Rightarrow> (value list \<times> scav) outcome" where
  "forward_all [] st = Ok ([], st)"
| "forward_all (v # vs) st =
     rbind (forward v st) (\<lambda>(f, st1). rbind (forward_all vs st1) (\<lambda>(fs, st2). Ok (f # fs, st2)))"

text \<open>The loop over the slots of an object, from slot i up to slot n.\<close>

function scan_slots :: "nat \<Rightarrow> nat \<Rightarrow> nat \<Rightarrow> scav \<Rightarrow> scav outcome" where
  "scan_slots obj i n st =
     (if i < n
      then let v = vslot (sv_vm st) obj i
           in rbind (forward v st) (\<lambda>(f, st1).
                scan_slots obj (i + 1) n
                  (if f \<noteq> v then st1\<lparr>sv_vm := vset_slot_raw (sv_vm st1) obj i f\<rparr> else st1))
      else Ok st)"
  by pat_completeness auto
termination by (relation "measure (\<lambda>(obj, i, n, st). n - i)") auto

declare scan_slots.simps [simp del]

definition scan_object :: "nat \<Rightarrow> scav \<Rightarrow> scav outcome" where
  "scan_object obj st =
     (let h = vm_heap (sv_vm st)
      in if is_bytes (header h obj) then Ok st
         else scan_slots obj 0 (unat (num_slots h obj)) st)"

fun scan_objects :: "nat list \<Rightarrow> scav \<Rightarrow> scav outcome" where
  "scan_objects [] st = Ok st"
| "scan_objects (obj # objs) st = rbind (scan_object obj st) (scan_objects objs)"

subsection \<open>The transitive closure\<close>

text \<open>
  What a scavenge has left to do: the words still free in to-space and in old space bound the
  objects that can still be copied, and the work queue holds those copied and not yet scanned.
\<close>

definition scav_measure :: "scav \<Rightarrow> nat" where
  "scav_measure st =
     (let h = vm_heap (sv_vm st)
      in (sp_words (young_to h) - sp_alloc (young_to h)) + (sp_words (old h) - sp_alloc (old h))
         + length (sv_work st))"

lemma survivor_space_measure:
  assumes "survivor_space h t n = Ok (s, b, h')" and "0 < n"
  shows "(sp_words (young_to h') - sp_alloc (young_to h')) + (sp_words (old h') - sp_alloc (old h')) + 1
    \<le> (sp_words (young_to h) - sp_alloc (young_to h)) + (sp_words (old h) - sp_alloc (old h))"
  using assms by (auto simp: survivor_space_def alloc_words_def Let_def split: if_splits option.splits)

lemma forward_cases:
  assumes "forward v st = Ok (f, st')"
  shows "st' = st \<or> (\<exists>total start is_old h1 m c obj.
    survivor_space (vm_heap (sv_vm st)) (tenure_threshold (sv_vm st) \<le>
       unat (min ((drop_bit GC_AGE_SHIFT (gc_bits (heap_word (vm_heap (sv_vm st)) (as_ptr v))) AND gc_mask GC_AGE_BITS) + 1)
              (gc_mask GC_AGE_BITS))) total = Ok (start, is_old, h1)
    \<and> 0 < total
    \<and> st' = \<lparr>sv_vm = (sv_vm st)\<lparr>vm_heap := h1\<lparr>mem := m\<rparr>, vm_counters := c\<rparr>,
        sv_work = obj # sv_work st, sv_tenured = (if is_old then sv_tenured st @ [obj] else sv_tenured st)\<rparr>)"
  using assms
  by (auto simp: forward_def Let_def set_header_def set_word_def split: if_splits) blast+

lemma forward_measure: "forward v st = Ok (f, st') \<Longrightarrow> scav_measure st' \<le> scav_measure st"
  by (drule forward_cases) (auto simp: scav_measure_def Let_def dest!: survivor_space_measure)

lemma scan_slots_measure: "scan_slots obj i n st = Ok st' \<Longrightarrow> scav_measure st' \<le> scav_measure st"
proof (induction "n - i" arbitrary: i st)
  case 0
  then show ?case by (subst (asm) scan_slots.simps) simp
next
  case (Suc k)
  let ?v = "vslot (sv_vm st) obj i"
  have "i < n" using Suc.hyps(2) by simp
  then obtain f st1 where f: "forward ?v st = Ok (f, st1)" and r: "scan_slots obj (i + 1) n
      (if f \<noteq> ?v then st1\<lparr>sv_vm := vset_slot_raw (sv_vm st1) obj i f\<rparr> else st1) = Ok st'"
    using Suc.prems unfolding scan_slots.simps [of obj i n st] Let_def by auto
  have "scav_measure (if f \<noteq> ?v then st1\<lparr>sv_vm := vset_slot_raw (sv_vm st1) obj i f\<rparr> else st1)
    = scav_measure st1"
    by (simp add: scav_measure_def Let_def vset_slot_raw_def set_slot_raw_def)
  moreover have "k = n - (i + 1)" using Suc.hyps(2) by simp
  ultimately show ?case using Suc.hyps(1) [OF _ r] forward_measure [OF f] by simp
qed

lemma scan_object_measure: "scan_object obj st = Ok st' \<Longrightarrow> scav_measure st' \<le> scav_measure st"
  by (auto simp: scan_object_def Let_def scan_slots_measure split: if_splits)

function scav_close :: "scav \<Rightarrow> scav outcome" where
  "scav_close st =
     (case sv_work st of
        [] \<Rightarrow> Ok st
      | obj # rest \<Rightarrow> rbind (scan_object obj (st\<lparr>sv_work := rest\<rparr>)) (\<lambda>st1. scav_close st1))"
  by pat_completeness auto
termination
proof (relation "measure scav_measure", goal_cases)
  case (2 st obj rest st1)
  have "scav_measure (st\<lparr>sv_work := rest\<rparr>) < scav_measure st"
    using 2(1) by (simp add: scav_measure_def Let_def)
  with scan_object_measure [OF 2(2)] show ?case by simp
qed simp

declare scav_close.simps [simp del]

subsection \<open>The scavenge\<close>

definition forward_field ::
  "(vm \<Rightarrow> value list) \<Rightarrow> (value list \<Rightarrow> vm \<Rightarrow> vm) \<Rightarrow> scav \<Rightarrow> scav outcome" where
  "forward_field get put st =
     rbind (forward_all (get (sv_vm st)) st) (\<lambda>(fs, st1). Ok (st1\<lparr>sv_vm := put fs (sv_vm st1)\<rparr>))"

definition scavenge_roots :: "scav \<Rightarrow> scav outcome" where
  "scavenge_roots st =
     rbind (forward_field specials (\<lambda>vs vm. vm\<lparr>specials := vs\<rparr>) st) (\<lambda>st.
     rbind (forward_field class_table (\<lambda>vs vm. vm\<lparr>class_table := vs\<rparr>) st) (\<lambda>st.
     rbind (forward_field temp_roots (\<lambda>vs vm. vm\<lparr>temp_roots := vs\<rparr>) st) (\<lambda>st.
     rbind (forward_field site_registry (\<lambda>vs vm. vm\<lparr>site_registry := vs\<rparr>) st) (\<lambda>st.
     rbind (forward_field (\<lambda>vm. map snd (symbols vm))
             (\<lambda>vs vm. vm\<lparr>symbols := zip (map fst (symbols vm)) vs\<rparr>) st) (\<lambda>st.
     rbind (forward_field (\<lambda>vm. map snd (timer_requests vm))
             (\<lambda>vs vm. vm\<lparr>timer_requests := zip (map fst (timer_requests vm)) vs\<rparr>) st) (\<lambda>st.
     rbind (forward (active_process (sv_vm st)) st) (\<lambda>(f, st).
       Ok (st\<lparr>sv_vm := (sv_vm st)\<lparr>active_process := f\<rparr>\<rparr>))))))))"

text \<open>The running stack is scanned whatever space it is in; an old one is checked again later.\<close>

definition scan_active_stack :: "scav \<Rightarrow> (nat option \<times> scav) outcome" where
  "scan_active_stack st =
     (let vm = sv_vm st; ap = active_process vm
      in if is_ptr ap \<and> ap \<noteq> nil vm
         then let p = as_ptr ap; stack = vslot vm p PROCESS_STACK
              in if is_ptr stack \<and> stack \<noteq> nil vm
                 then rbind (forward stack st) (\<lambda>(f, st1).
                      let st2 = (if f \<noteq> stack
                                 then st1\<lparr>sv_vm := vset_slot_raw (sv_vm st1) p PROCESS_STACK f\<rparr>
                                 else st1)
                      in rbind (scan_object (as_ptr f) st2) (\<lambda>st3.
                         Ok (if in_old_space (vm_heap (sv_vm st3)) (as_ptr f) then Some (as_ptr f)
                             else None, st3)))
                 else Ok (None, st)
         else Ok (None, st))"

definition flip_spaces :: "heap \<Rightarrow> heap" where
  "flip_spaces h =
     (let (empty, m) = space_reset (young_from h) (mem h)
      in h\<lparr>young_from := young_to h, young_to := empty, mem := m\<rparr>)"

definition object_points_young :: "heap \<Rightarrow> nat \<Rightarrow> bool" where
  "object_points_young h obj \<longleftrightarrow> \<not> is_bytes (header h obj) \<and>
     list_ex (\<lambda>i. is_ptr (slot h obj i) \<and> is_young h (as_ptr (slot h obj i)))
       [0..<unat (num_slots h obj)]"

definition recheck_object :: "heap \<Rightarrow> nat \<Rightarrow> heap" where
  "recheck_object h obj =
     (let w = header h obj; bits = gc_bits w
      in if object_points_young h obj
         then let h1 = (if bits AND GC_BIT_REMEMBERED = 0
                        then set_header h obj (with_gc_bits w (bits OR GC_BIT_REMEMBERED)) else h)
              in h1\<lparr>ssb := ssb h1 @ [obj]\<rparr>
         else if bits AND GC_BIT_REMEMBERED \<noteq> 0
              then set_header h obj (with_gc_bits w (bits AND NOT GC_BIT_REMEMBERED))
              else h)"

definition begin_collection :: "vm \<Rightarrow> vm" where
  "begin_collection vm =
     vm\<lparr>gc_epoch := gc_epoch vm + 1,
        lookup_cache := map (\<lambda>_. default_lookup_entry) (lookup_cache vm)\<rparr>"

definition count_drained :: "vm \<Rightarrow> nat \<Rightarrow> vm" where
  "count_drained vm n =
     vm\<lparr>vm_counters := (vm_counters vm)
          \<lparr>gc_ssb_drained := gc_ssb_drained (vm_counters vm) + n,
           gc_ssb_drained_max := max (gc_ssb_drained_max (vm_counters vm)) n\<rparr>\<rparr>"

definition collect_young :: "vm \<Rightarrow> vm outcome" where
  "collect_young vm =
     (let vm0 = (begin_collection vm)\<lparr>scavenge_count := scavenge_count vm + 1\<rparr>
      in rbind (scavenge_roots \<lparr>sv_vm = vm0, sv_work = [], sv_tenured = []\<rparr>) (\<lambda>st1.
         rbind (scan_active_stack st1) (\<lambda>(active_old_stack, st2).
         let vm2 = sv_vm st2;
             drained = ssb (vm_heap vm2);
             vm3 = count_drained (vm2\<lparr>vm_heap := (vm_heap vm2)\<lparr>ssb := []\<rparr>\<rparr>) (length drained)
         in rbind (scan_objects drained (st2\<lparr>sv_vm := vm3\<rparr>)) (\<lambda>st4.
            rbind (scav_close st4) (\<lambda>st5.
            let vm5 = sv_vm st5;
                recheck = remdups_adj (sort (drained @ sv_tenured st5
                            @ (case active_old_stack of None \<Rightarrow> [] | Some a \<Rightarrow> [a])));
                h6 = foldl recheck_object (flip_spaces (vm_heap vm5)) recheck;
                c = vm_counters vm5
            in Ok (vm5\<lparr>vm_heap := h6,
                      vm_counters := c\<lparr>gc_remembered_rebuilt := gc_remembered_rebuilt c + length (ssb h6)\<rparr>\<rparr>))))))"

subsection \<open>Marking\<close>

type_synonym marking = "heap \<times> nat list"

definition marked :: "heap \<Rightarrow> nat \<Rightarrow> bool" where
  "marked h a \<longleftrightarrow> gc_bits (header h a) AND GC_BIT_MARK \<noteq> 0"

definition set_mark :: "heap \<Rightarrow> nat \<Rightarrow> heap" where
  "set_mark h a = set_header h a (with_gc_bits (header h a) (gc_bits (header h a) OR GC_BIT_MARK))"

definition mark_value :: "value \<Rightarrow> marking \<Rightarrow> marking" where
  "mark_value v st =
     (let (h, stack) = st; a = as_ptr v
      in if \<not> is_ptr v then st
         else if \<not> is_young h a \<and> \<not> in_old_space h a then st
         else if marked h a then st
         else (set_mark h a, a # stack))"

definition mark_object :: "nat \<Rightarrow> marking \<Rightarrow> marking" where
  "mark_object obj st =
     (let h = fst st
      in if is_bytes (header h obj) then st
         else fold (\<lambda>i st. mark_value (slot (fst st) obj i) st) [0..<unat (num_slots h obj)] st)"

definition markable :: "heap \<Rightarrow> nat set" where
  "markable h = {a. is_young h a \<or> in_old_space h a}"

definition mark_measure :: "marking \<Rightarrow> nat" where
  "mark_measure st = card {a \<in> markable (fst st). \<not> marked (fst st) a} + length (snd st)"

lemma mark_fits: "gc_fits (gc_bits w OR GC_BIT_MARK)"
  by (rule gc_fits_or) (simp_all add: gc_field.fits_get, simp add: gc_fits_def hmask_def)

lemma marked_set_mark: "marked (set_mark h a) b \<longleftrightarrow> b = a \<or> marked h b"
proof -
  have "(g OR 1) AND 1 \<noteq> 0" for g :: u64
    using word_ao_absorbs(2) [of 1 g] by (simp add: ac_simps)
  then show ?thesis
    by (auto simp: marked_def set_mark_def header_set_header gc_field.get_put [OF mark_fits])
qed

lemma set_mark_sel [simp]:
  "young_from (set_mark h a) = young_from h" "young_to (set_mark h a) = young_to h"
  "old (set_mark h a) = old h" "ssb (set_mark h a) = ssb h"
  by (simp_all add: set_mark_def set_header_def)

lemma in_space_set_mark [simp]:
  "is_young (set_mark h a) b = is_young h b" "in_old_space (set_mark h a) b = in_old_space h b"
  by (simp_all add: is_young_def in_old_space_def)

lemma markable_set_mark [simp]: "markable (set_mark h a) = markable h"
  by (simp add: markable_def is_young_def in_old_space_def)

lemma finite_markable [simp]: "finite (markable h)"
proof (rule finite_subset)
  show "markable h \<subseteq> {..<space_limit (young_from h)} \<union> {..<space_limit (old h)}"
    by (auto simp: markable_def is_young_def in_old_space_def space_contains_def)
qed simp

lemma mark_value_measure: "mark_measure (mark_value v st) \<le> mark_measure st"
proof -
  obtain h stack where st: "st = (h, stack)" by (cases st)
  show ?thesis
  proof (cases "is_ptr v \<and> as_ptr v \<in> markable h \<and> \<not> marked h (as_ptr v)")
    case True
    then have "{a \<in> markable h. \<not> marked (set_mark h (as_ptr v)) a}
        = {a \<in> markable h. \<not> marked h a} - {as_ptr v}"
      and "as_ptr v \<in> {a \<in> markable h. \<not> marked h a}"
      by (auto simp: marked_set_mark)
    then have "card {a \<in> markable h. \<not> marked (set_mark h (as_ptr v)) a} + 1 \<le> card {a \<in> markable h. \<not> marked h a}"
      using card_Suc_Diff1 [of "{a \<in> markable h. \<not> marked h a}" "as_ptr v"] by simp
    with True show ?thesis by (simp add: mark_value_def st mark_measure_def markable_def Let_def)
  next
    case False
    then show ?thesis by (auto simp: mark_value_def st Let_def markable_def)
  qed
qed

lemma mark_object_measure: "mark_measure (mark_object obj st) \<le> mark_measure st"
proof -
  have "mark_measure (fold (\<lambda>i st. mark_value (slot (fst st) obj i) st) is st) \<le> mark_measure st" for "is"
  proof (induction "is" arbitrary: st)
    case (Cons i "is")
    show ?case
      using Cons [of "mark_value (slot (fst st) obj i) st"] mark_value_measure [of "slot (fst st) obj i" st]
      by simp
  qed simp
  then show ?thesis by (simp add: mark_object_def Let_def)
qed

function mark_close :: "marking \<Rightarrow> heap" where
  "mark_close st =
     (case snd st of
        [] \<Rightarrow> fst st
      | obj # rest \<Rightarrow> mark_close (mark_object obj (fst st, rest)))"
  by pat_completeness auto
termination
proof (relation "measure mark_measure", goal_cases)
  case (2 st obj rest)
  have "mark_measure (fst st, rest) < mark_measure st" using 2 by (simp add: mark_measure_def)
  with mark_object_measure [of obj "(fst st, rest)"] show ?case by simp
qed simp

declare mark_close.simps [simp del]

definition root_values :: "vm \<Rightarrow> value list" where
  "root_values vm =
     specials vm @ class_table vm @ temp_roots vm @ site_registry vm
     @ map snd (symbols vm) @ map snd (timer_requests vm) @ [active_process vm]"

definition mark_from :: "heap \<Rightarrow> value list \<Rightarrow> heap" where
  "mark_from h roots = mark_close (fold mark_value roots (h, []))"

subsection \<open>Sliding\<close>

text \<open>
  The forwarding table is the list of the moves, in address order; the HashMap built next to it is
  the map of that list, whose keys are distinct addresses.
\<close>

fun plan_moves :: "heap \<Rightarrow> nat list \<Rightarrow> nat \<Rightarrow> (nat \<times> nat) list \<times> nat" where
  "plan_moves h [] next = ([], next)"
| "plan_moves h (obj # objs) next =
     (if \<not> marked h obj then plan_moves h objs next
      else let extra = obj - storage_start h obj;
               new_obj = next + extra;
               (moves, end) = plan_moves h objs (next + (extra + footprint h obj))
           in ((obj, new_obj) # moves, end))"

definition fix_value :: "(nat \<rightharpoonup> nat) \<Rightarrow> value \<Rightarrow> value" where
  "fix_value fwd v =
     (if is_ptr v then (case fwd (as_ptr v) of Some n \<Rightarrow> from_ptr n | None \<Rightarrow> v) else v)"

definition fix_roots :: "(nat \<rightharpoonup> nat) \<Rightarrow> vm \<Rightarrow> vm" where
  "fix_roots fwd vm =
     vm\<lparr>specials := map (fix_value fwd) (specials vm),
        class_table := map (fix_value fwd) (class_table vm),
        temp_roots := map (fix_value fwd) (temp_roots vm),
        site_registry := map (fix_value fwd) (site_registry vm),
        symbols := map (\<lambda>(b, v). (b, fix_value fwd v)) (symbols vm),
        timer_requests := map (\<lambda>(t, v). (t, fix_value fwd v)) (timer_requests vm),
        active_process := fix_value fwd (active_process vm)\<rparr>"

definition fix_slot :: "(nat \<rightharpoonup> nat) \<Rightarrow> nat \<Rightarrow> nat \<Rightarrow> heap \<Rightarrow> heap" where
  "fix_slot fwd obj i h =
     (let v = slot h obj i
      in if is_ptr v
         then (case fwd (as_ptr v) of Some n \<Rightarrow> set_slot_raw h obj i (from_ptr n) | None \<Rightarrow> h)
         else h)"

definition fix_slots :: "(nat \<rightharpoonup> nat) \<Rightarrow> nat \<Rightarrow> heap \<Rightarrow> heap" where
  "fix_slots fwd obj h =
     (if \<not> marked h obj \<or> is_bytes (header h obj) then h
      else fold (fix_slot fwd obj) [0..<unat (num_slots h obj)] h)"

definition move_object :: "nat \<times> nat \<Rightarrow> heap \<Rightarrow> heap" where
  "move_object mv h =
     (let (obj, new_obj) = mv;
          start = storage_start h obj;
          words = footprint h obj div 8;
          new_start = new_obj - (obj - start);
          h1 = h\<lparr>mem := copy_words (mem h) start new_start words\<rparr>;
          w = header h1 new_obj;
          bits = gc_bits w AND NOT (GC_BIT_MARK OR GC_BIT_REMEMBERED);
          (bits1, h2) = (if object_points_young h1 new_obj
                         then (bits OR GC_BIT_REMEMBERED, h1\<lparr>ssb := ssb h1 @ [new_obj]\<rparr>)
                         else (bits, h1))
      in set_header h2 new_obj (with_gc_bits w bits1))"

definition clear_mark :: "nat \<Rightarrow> heap \<Rightarrow> heap" where
  "clear_mark obj h =
     (let w = header h obj
      in if gc_bits w AND GC_BIT_MARK \<noteq> 0
         then set_header h obj (with_gc_bits w (gc_bits w AND NOT GC_BIT_MARK)) else h)"

text \<open>
  The subtraction of the sizes at the end fails when the plan needs more words than were in use;
  a release build would then try to clear almost the whole address space.
\<close>

definition collect_old :: "vm \<Rightarrow> vm outcome" where
  "collect_old vm0 =
     rbind (collect_young vm0) (\<lambda>vm1.
     let vm2 = (begin_collection vm1)\<lparr>compact_count := compact_count vm1 + 1\<rparr>;
         h2 = mark_from (vm_heap vm2) (root_values vm2);
         old_base = sp_base (old h2);
         live = walk_region h2 old_base (space_top (old h2));
         (moves, next) = plan_moves h2 live old_base;
         fwd = map_of moves;
         vm3 = fix_roots fwd vm2;
         young_objs = walk_region h2 (sp_base (young_from h2)) (space_top (young_from h2));
         h4 = fold (fix_slots fwd) live (fold (fix_slots fwd) young_objs h2);
         h5 = fold move_object moves (h4\<lparr>ssb := []\<rparr>);
         h6 = fold clear_mark young_objs h5;
         new_top_words = (next - old_base) div 8;
         old_alloc_words = sp_alloc (old h6)
     in if old_alloc_words < new_top_words then Panic
        else Ok (vm3\<lparr>vm_heap := h6
               \<lparr>old := (old h6)\<lparr>sp_alloc := new_top_words\<rparr>,
                mem := (\<lambda>a. if next \<le> a \<and> a < next + 8 * (old_alloc_words - new_top_words) then 0
                           else mem h6 a)\<rparr>\<rparr>))"

end
