(* ===== verification/Scavenge.thy ===== *)
theory Scavenge
  imports Gc
begin

section \<open>Copying into a space\<close>

text \<open>
  The facts about spaces that the correctness of the scavenger rests on. A scavenge keeps the heap
  it is building in to-space and in old space, while from-space holds forwarding words; flip_spaces
  shows it as the heap it will be at the end. That view is well formed all the time: entering a copy
  adds an object at the end of a space, and a slot written in the real heap is the same slot written
  in the view.
\<close>

subsection \<open>A new object at the end of a space\<close>

definition grown :: "space \<Rightarrow> nat \<Rightarrow> space" where
  "grown s n = s\<lparr>sp_alloc := sp_alloc s + n\<rparr>"

text \<open>g2 is g with n words written at the end of the space s, an object at obj.\<close>

definition appended :: "heap \<Rightarrow> heap \<Rightarrow> space \<Rightarrow> nat \<Rightarrow> nat \<Rightarrow> bool" where
  "appended g g2 s n obj \<longleftrightarrow> sp_alloc s + n \<le> sp_words s
     \<and> well_placed g2 (space_top s) obj \<and> obj_end g2 obj = space_top s + 8 * n
     \<and> (\<forall>a. a < space_top s \<or> space_top s + 8 * n \<le> a \<longrightarrow> mem g2 a = mem g a)"

lemma grown_sel [simp]:
  "sp_base (grown s n) = sp_base s" "sp_words (grown s n) = sp_words s"
  "sp_alloc (grown s n) = sp_alloc s + n" "space_limit (grown s n) = space_limit s"
  "space_top (grown s n) = space_top s + 8 * n" "space_contains (grown s n) a = space_contains s a"
  by (simp_all add: grown_def space_limit_def space_top_def space_contains_def)

lemma appended_space:
  assumes "appended g g2 s n obj" and "space_ok s" and "parsable g s" and "zero_free (mem g) s"
  shows "space_ok (grown s n)" and "parsable g2 (grown s n)"
    and "objects g2 (grown s n) = objects g s @ [obj]" and "zero_free (mem g2) (grown s n)"
proof -
  show "space_ok (grown s n)" using assms(1,2) by (auto simp: appended_def space_ok_def)
  have "region g2 (sp_base s) (objects g s) (space_top s)"
    using assms(1,3) by (auto simp: parsable_def appended_def intro: region_mem_cong)
  from region_snoc [OF this, of obj] assms(1)
  have r: "region g2 (sp_base (grown s n)) (objects g s @ [obj]) (space_top (grown s n))"
    by (simp add: appended_def)
  then show "parsable g2 (grown s n)" unfolding parsable_iff by blast
  from walk_region_eq [OF r] show "objects g2 (grown s n) = objects g s @ [obj]"
    by (simp add: objects_def)
  show "zero_free (mem g2) (grown s n)"
    using assms(1,4) by (simp add: appended_def zero_free_def)
qed

lemma appended_inside:
  assumes "appended g g2 s n obj"
  shows "space_top s + 8 * n \<le> space_limit s"
  using assms by (auto simp: appended_def space_top_def space_limit_def)

lemma appended_apart:
  assumes a: "appended g g2 s n obj" and t: "apart s t \<or> apart t s" and ok: "space_ok t"
  shows "parsable g t \<Longrightarrow> parsable g2 t" and "parsable g t \<Longrightarrow> objects g2 t = objects g t"
    and "zero_free (mem g) t \<Longrightarrow> zero_free (mem g2) t"
proof -
  have same: "mem g2 x = mem g x" if "sp_base t \<le> x" "x < space_limit t" for x
  proof -
    have "x < space_top s \<or> space_top s + 8 * n \<le> x"
      using t that appended_inside [OF a] base_le_top [of s] unfolding apart_def by linarith
    with a show ?thesis by (auto simp: appended_def)
  qed
  have le: "space_top t \<le> space_limit t" using space_top_le_limit [OF ok] .
  show "parsable g t \<Longrightarrow> parsable g2 t"
    using le by (rule_tac parsable_mem_cong(1) [of g]) (auto intro: same)
  show "parsable g t \<Longrightarrow> objects g2 t = objects g t"
    using le by (rule_tac parsable_mem_cong(2) [of g]) (auto intro: same)
  show "zero_free (mem g) t \<Longrightarrow> zero_free (mem g2) t"
    using same base_le_top [of t] by (simp add: zero_free_def)
qed

lemma apart_grown [simp]:
  "apart (grown s n) t = apart s t" "apart t (grown s n) = apart t s"
  by (simp_all add: apart_def)

text \<open>
  An object appended to young or to old space: the heap stays well formed, the object is new, and
  every object that was there keeps its words.
\<close>

definition adds_object :: "heap \<Rightarrow> heap \<Rightarrow> nat \<Rightarrow> bool" where
  "adds_object g g2 obj \<longleftrightarrow> heap_ok g2 \<and> obj \<notin> live g \<and> live g2 = insert obj (live g)
     \<and> (\<forall>x \<in> live g. header g2 x = header g x \<and> num_slots g2 x = num_slots g x
         \<and> (\<forall>i < unat (num_slots g x). slot g2 x i = slot g x i))"

lemma appended_keeps:
  assumes ok: "heap_ok g" and ok2: "heap_ok g2" and a: "appended g g2 s n obj"
    and s: "s = young_from g \<or> s = old g" and l: "live g2 = insert obj (live g)"
  shows "adds_object g g2 obj"
proof -
  have st: "storage_start g2 obj = space_top s" "obj_end g2 obj = space_top s + 8 * n"
    "space_top s \<le> obj"
    using a well_placed_storage well_placed_bounds by (auto simp: appended_def)
  have out: "obj_end g x \<le> space_top s \<or> space_limit s \<le> storage_start g x" if "x \<in> live g" for x
  proof -
    have lim: "space_top (young_from g) \<le> space_limit (young_from g)" "space_top (old g) \<le> space_limit (old g)"
      and ap: "apart (young_from g) (old g)"
      using ok by (auto simp: heap_ok_def space_top_le_limit)
    from storage_of_live(3) [OF ok that] s lim ap base_le_top [of "young_from g"] base_le_top [of "old g"]
    show ?thesis by (auto simp: apart_def)
  qed
  have new: "obj \<notin> live g"
  proof
    assume o: "obj \<in> live g"
    from out [OF o] storage_of_live(1,2) [OF ok o] st appended_inside [OF a] show False
      using well_placed_bounds(2) [of g2 "space_top s" obj] a by (auto simp: appended_def)
  qed
  have "header g2 x = header g x \<and> num_slots g2 x = num_slots g x
      \<and> (\<forall>i < unat (num_slots g x). slot g2 x i = slot g x i)" if x: "x \<in> live g" for x
  proof -
    note sx = storage_of_live(1,2) [OF ok x]
    have w: "heap_word g2 y = heap_word g y" if "storage_start g x \<le> y" "y < obj_end g x" for y
      using out [OF x] that a appended_inside [OF a] by (auto simp: appended_def heap_word_def)
    have hd: "header g2 x = header g x" using sx by (simp add: header_def w)
    moreover have "has_overflow_word g x \<Longrightarrow> heap_word g2 (x - 8) = heap_word g (x - 8)"
      using live_shape(2) [OF ok x] sx by (intro w) auto
    ultimately have ns: "num_slots g2 x = num_slots g x"
      by (auto simp: num_slots_def has_overflow_word_def Let_def)
    have "slot g2 x i = slot g x i" if "i < unat (num_slots g x)" for i
      using sx that by (simp add: slot_def w)
    with hd ns show ?thesis by blast
  qed
  with ok2 new l show ?thesis unfolding adds_object_def by blast
qed

lemma append_young:
  assumes ok: "heap_ok g" and a: "appended g g2 (young_from g) n obj"
    and sp: "young_from g2 = grown (young_from g) n" "young_to g2 = young_to g" "old g2 = old g"
  shows "adds_object g g2 obj" and "objects g2 (old g2) = objects g (old g)"
proof -
  have h: "space_ok (young_from g)" "parsable g (young_from g)" "zero_free (mem g) (young_from g)"
    "space_ok (old g)" "parsable g (old g)" "zero_free (mem g) (old g)"
    "space_ok (young_to g)" "zero_free (mem g) (young_to g)"
    "apart (young_from g) (old g)" "apart (young_from g) (young_to g)" "apart (young_to g) (old g)"
    "sp_alloc (young_to g) = 0"
    using ok by (auto simp: heap_ok_def)
  note e = appended_space [OF a h(1-3)]
  note f = appended_apart [OF a disjI1 [OF h(9)] h(4)] appended_apart [OF a disjI1 [OF h(10)] h(7)]
  have ok2: "heap_ok g2"
    using e f h unfolding heap_ok_def sp by simp
  show o: "objects g2 (old g2) = objects g (old g)" using f h by (simp add: sp)
  have "live g2 = insert obj (live g)" using e(3) o by (auto simp: live_def sp)
  from appended_keeps [OF ok ok2 a _ this] show "adds_object g g2 obj" by simp
qed

lemma append_old:
  assumes ok: "heap_ok g" and a: "appended g g2 (old g) n obj"
    and sp: "young_from g2 = young_from g" "young_to g2 = young_to g" "old g2 = grown (old g) n"
  shows "adds_object g g2 obj" and "objects g2 (old g2) = objects g (old g) @ [obj]"
proof -
  have h: "space_ok (young_from g)" "parsable g (young_from g)" "zero_free (mem g) (young_from g)"
    "space_ok (old g)" "parsable g (old g)" "zero_free (mem g) (old g)"
    "space_ok (young_to g)" "zero_free (mem g) (young_to g)"
    "apart (young_from g) (old g)" "apart (young_from g) (young_to g)" "apart (young_to g) (old g)"
    "sp_alloc (young_to g) = 0"
    using ok by (auto simp: heap_ok_def)
  note e = appended_space [OF a h(4-6)]
  note f = appended_apart [OF a disjI2 [OF h(9)] h(1)] appended_apart [OF a disjI2 [OF h(11)] h(7)]
  have ok2: "heap_ok g2"
    using e f h unfolding heap_ok_def sp by simp
  show o: "objects g2 (old g2) = objects g (old g) @ [obj]" using e(3) by (simp add: sp)
  have "live g2 = insert obj (live g)" using o f h by (auto simp: live_def sp)
  from appended_keeps [OF ok ok2 a _ this] show "adds_object g g2 obj" by simp
qed

subsection \<open>The heap being built\<close>

lemma flip_sel [simp]:
  "young_from (flip_spaces h) = young_to h" "young_to (flip_spaces h) = (young_from h)\<lparr>sp_alloc := 0\<rparr>"
  "old (flip_spaces h) = old h" "ssb (flip_spaces h) = ssb h"
  "mem (flip_spaces h) a = (if space_contains (young_from h) a then 0 else mem h a)"
  by (simp_all add: flip_spaces_def space_reset_def)

lemma apart_not_contains: "apart s t \<or> apart t s \<Longrightarrow> space_contains s x \<Longrightarrow> \<not> space_contains t x"
  by (auto simp: apart_def space_contains_def)

lemma contains_reset [simp]: "space_contains (s\<lparr>sp_alloc := n\<rparr>) x = space_contains s x"
  by (simp add: space_contains_def space_limit_def)

lemma live_not_to:
  assumes ok: "heap_ok g" and n: "n \<in> live g" and x: "storage_start g n \<le> x" "x < obj_end g n"
  shows "\<not> space_contains (young_to g) x"
proof -
  have lim: "space_top (young_from g) \<le> space_limit (young_from g)" "space_top (old g) \<le> space_limit (old g)"
    and ap: "apart (young_from g) (young_to g)" "apart (young_to g) (old g)"
    using ok by (auto simp: heap_ok_def space_top_le_limit)
  from storage_of_live(3) [OF ok n] x lim ap show ?thesis
    by (auto simp: apart_def space_contains_def)
qed

lemma flip_reads:
  assumes ok: "heap_ok (flip_spaces h)" and n: "n \<in> live (flip_spaces h)"
  shows "header h n = header (flip_spaces h) n" and "num_slots h n = num_slots (flip_spaces h) n"
    and "i < unat (num_slots (flip_spaces h) n) \<Longrightarrow> slot h n i = slot (flip_spaces h) n i"
proof -
  let ?g = "flip_spaces h"
  note st = storage_of_live(1,2) [OF ok n]
  have w: "heap_word h x = heap_word ?g x" if "storage_start ?g n \<le> x" "x < obj_end ?g n" for x
    using live_not_to [OF ok n that] by (simp add: heap_word_def)
  show hd: "header h n = header ?g n" using st by (simp add: header_def w)
  have "has_overflow_word ?g n \<Longrightarrow> heap_word h (n - 8) = heap_word ?g (n - 8)"
    using live_shape(2) [OF ok n] st by (intro w) auto
  then show "num_slots h n = num_slots ?g n"
    using hd by (auto simp: num_slots_def has_overflow_word_def Let_def)
  show "i < unat (num_slots ?g n) \<Longrightarrow> slot h n i = slot ?g n i"
    using st by (simp add: slot_def w)
qed

lemma flip_set_slot:
  assumes ok: "heap_ok (flip_spaces h)" and n: "n \<in> live (flip_spaces h)"
    and i: "i < unat (num_slots (flip_spaces h) n)"
  shows "flip_spaces (set_slot_raw h n i v) = set_slot_raw (flip_spaces h) n i v"
proof -
  have "\<not> space_contains (young_from h) (n + 8 + i * 8)"
    using live_not_to [OF ok n, of "n + 8 + i * 8"] slot_addr [OF ok n i] storage_of_live(2) [OF ok n]
    by simp
  then have "mem (flip_spaces (set_slot_raw h n i v)) = mem (set_slot_raw (flip_spaces h) n i v)"
    by (intro ext) (simp add: set_slot_raw_def)
  then show ?thesis
    by (intro heap.equality) (simp_all add: flip_spaces_def space_reset_def set_slot_raw_def set_word_def)
qed

subsection \<open>A copy\<close>

lemma young_object:
  assumes "heap_ok h" and "a \<in> set (objects h (young_from h))"
  shows "well_placed h (storage_start h a) a" and "a \<in> live h" and "is_young h a"
    and "storage_start h a \<le> x \<Longrightarrow> x < obj_end h a \<Longrightarrow> is_young h x"
proof -
  have r: "region h (sp_base (young_from h)) (objects h (young_from h)) (space_top (young_from h))"
    and t: "space_top (young_from h) \<le> space_limit (young_from h)"
    using assms(1) by (auto simp: heap_ok_def parsable_def space_top_le_limit)
  from r assms(2) obtain q where q: "well_placed h q a" by (rule region_member)
  with well_placed_storage [OF q] show "well_placed h (storage_start h a) a" by simp
  show "a \<in> live h" using assms(2) by (simp add: live_def)
  note b = region_bounds [OF r assms(2)]
  show x: "storage_start h a \<le> x \<Longrightarrow> x < obj_end h a \<Longrightarrow> is_young h x" for x
    using b t by (auto simp: is_young_def space_contains_def)
  show "is_young h a" using b by (intro x) auto
qed

lemma placed_footprint:
  "well_placed h (storage_start h a) a \<Longrightarrow> obj_end h a = storage_start h a + footprint h a"
  "well_placed h (storage_start h a) a \<Longrightarrow> a - storage_start h a < footprint h a"
  "8 * (footprint h a div 8) = footprint h a"
  by (auto simp: obj_end_def well_placed_def footprint_def storage_start_def split: if_splits)

lemma install_copy:
  assumes ok0: "heap_ok h0" and a: "a \<in> set (objects h0 (young_from h0))"
    and yf: "young_from h = young_from h0" and ok: "heap_ok (flip_spaces h)"
    and src: "\<And>x. storage_start h0 a \<le> x \<Longrightarrow> x < obj_end h0 a \<Longrightarrow> mem h x = mem h0 x"
    and s: "s = young_to h \<and> h1 = h\<lparr>young_to := grown s N\<rparr> \<or> s = old h \<and> h1 = h\<lparr>old := grown s N\<rparr>"
    and N: "8 * N = footprint h0 a" and fits: "sp_alloc s + N \<le> sp_words s" and bits: "gc_fits bits"
    and obj: "obj = space_top s + (a - storage_start h0 a)"
    and h4: "h4 = set_word (set_header (h1\<lparr>mem := copy_words (mem h1) (storage_start h0 a) (space_top s) N\<rparr>)
      obj (with_gc_bits (header h0 a) bits)) a fw"
  shows "appended (flip_spaces h) (flip_spaces h4) s N obj"
    and "header (flip_spaces h4) obj = with_gc_bits (header h0 a) bits"
    and "num_slots (flip_spaces h4) obj = num_slots h0 a"
    and "i < unat (num_slots h0 a) \<Longrightarrow> slot (flip_spaces h4) obj i = slot h0 a i"
    and "is_young h0 x \<Longrightarrow> mem h4 x = (if x = a then fw else mem h x)"
proof -
  let ?g = "flip_spaces h4" and ?st = "storage_start h0 a"
  note ya = young_object [OF ok0 a]
  note fp = placed_footprint(1,2) [OF ya(1)]
  have le: "?st \<le> a" using well_placed_bounds [OF ya(1)] by simp
  have yf4: "young_from h4 = young_from h0" using s yf by (auto simp: h4)
  have lim: "space_top s + 8 * N \<le> space_limit s" using fits by (simp add: space_top_def space_limit_def)
  have out: "\<not> is_young h0 x" if "sp_base s \<le> x" "x < space_limit s" for x
  proof -
    have "apart s ((young_from h)\<lparr>sp_alloc := 0\<rparr>) \<or> apart ((young_from h)\<lparr>sp_alloc := 0\<rparr>) s"
      using ok s by (auto simp: heap_ok_def)
    from apart_not_contains [OF this] that show ?thesis
      by (simp add: is_young_def space_contains_def space_limit_def yf)
  qed
  have ins: "sp_base s \<le> x \<and> x < space_limit s" if "space_top s \<le> x" "x < space_top s + 8 * N" for x
    using that lim base_le_top [of s] by linarith
  have obj_in: "space_top s \<le> obj" "obj < space_top s + 8 * N" using fp N by (simp_all add: obj)
  have W: "mem ?g x = (if x = obj then with_gc_bits (header h0 a) bits else mem h0 (?st + (x - space_top s)))"
    if "space_top s \<le> x" "x < space_top s + 8 * N" for x
  proof -
    have "\<not> is_young h0 x" using out ins [OF that] by blast
    then have "x \<noteq> a" "\<not> space_contains (young_from h4) x" using ya(3) yf4 by (auto simp: is_young_def)
    moreover have "mem h1 = mem h" using s by auto
    moreover have "mem h (?st + (x - space_top s)) = mem h0 (?st + (x - space_top s))"
      using that fp N by (intro src) auto
    ultimately show ?thesis using that by (simp add: h4 set_header_def copy_words_def)
  qed
  show hd: "header ?g obj = with_gc_bits (header h0 a) bits"
    using W [OF obj_in] by (simp add: header_def heap_word_def)
  note sh = shape_bits_with_gc_bits [OF bits, of "header h0 a"]
  have ov: "has_overflow_word ?g obj = has_overflow_word h0 a"
    using sh by (simp add: has_overflow_word_def hd shape_bits_def)
  have ow: "heap_word ?g (obj - 8) = heap_word h0 (a - 8)" if "has_overflow_word h0 a"
  proof -
    have st: "?st + 8 = a" using live_shape(2) [OF ok0 ya(2) that] .
    then have "obj = space_top s + 8" by (simp add: obj)
    moreover have "a - 8 = ?st" using st by linarith
    ultimately show ?thesis using W [of "space_top s"] N fp by (simp add: heap_word_def)
  qed
  show ns: "num_slots ?g obj = num_slots h0 a"
    using ow ov sh by (auto simp: num_slots_def has_overflow_word_def hd shape_bits_def Let_def)
  have "drop_bit HDR_CLASS_SHIFT (header ?g obj) \<noteq> 0"
    using ya(1) sh by (simp add: hd shape_bits_def well_placed_def)
  then have "well_placed ?g (space_top s) obj"
    using ya(1) ov ow unfolding well_placed_def
    by (auto simp: obj storage_start_def split: if_splits)
  moreover from this have "obj_end ?g obj = space_top s + 8 * N"
    using ns ov by (simp add: N placed_footprint footprint_def obj_end_def well_placed_storage)
  moreover have "mem ?g x = mem (flip_spaces h) x" if "x < space_top s \<or> space_top s + 8 * N \<le> x" for x
    using that obj_in s ya(3) yf4 yf
    by (auto simp: h4 set_header_def copy_words_def is_young_def)
  ultimately show "appended (flip_spaces h) ?g s N obj" using fits by (simp add: appended_def)
  show "slot ?g obj i = slot h0 a i" if "i < unat (num_slots h0 a)"
  proof -
    have e: "obj_end h0 a = a + 8 + unat (num_slots h0 a) * 8" using obj_end_eq [OF ya(1)] .
    have "obj + 8 + i * 8 < space_top s + 8 * N" using e fp N that le by (simp add: obj)
    moreover have "?st + (obj + 8 + i * 8 - space_top s) = a + 8 + i * 8" using le by (simp add: obj)
    ultimately show ?thesis using W [of "obj + 8 + i * 8"] obj_in by (simp add: slot_def heap_word_def)
  qed
  show "mem h4 x = (if x = a then fw else mem h x)" if "is_young h0 x"
  proof -
    have "x < space_top s \<or> space_top s + 8 * N \<le> x" using out [of x] ins [of x] that by (meson not_le)
    then show ?thesis using s obj_in by (auto simp: h4 set_header_def copy_words_def)
  qed
qed

end
