(* ===== verification/Scavenge_Step.thy ===== *)
theory Scavenge_Step
  imports Scavenge Remembered_Set
begin

section \<open>One step of the scavenger\<close>

text \<open>
  The invariant of a scavenge and the operations that keep it: forwarding a value and storing a
  forwarded value. h0 is the heap the scavenge starts from and m maps the addresses of the young
  objects copied so far to their copies.
\<close>

subsection \<open>Where objects and values go\<close>

abbreviation young_objs :: "heap \<Rightarrow> nat set" where
  "young_objs h \<equiv> set (objects h (young_from h))"

abbreviation old_objs :: "heap \<Rightarrow> nat set" where
  "old_objs h \<equiv> set (objects h (old h))"

text \<open>Forwarding: a pointer into young space becomes the pointer to the copy.\<close>

definition fwd :: "heap \<Rightarrow> (nat \<rightharpoonup> nat) \<Rightarrow> value \<Rightarrow> value \<Rightarrow> bool" where
  "fwd h0 m v w \<longleftrightarrow> (if is_ptr v \<and> is_young h0 (as_ptr v)
     then (\<exists>n. m (as_ptr v) = Some n \<and> w = from_ptr n) else w = v)"

text \<open>A pointer into one of the young spaces leads to a young object.\<close>

definition valid_value :: "heap \<Rightarrow> value \<Rightarrow> bool" where
  "valid_value h0 v \<longleftrightarrow>
     (is_ptr v \<longrightarrow> is_young h0 (as_ptr v) \<or> space_contains (young_to h0) (as_ptr v) \<longrightarrow>
        as_ptr v \<in> young_objs h0)"

text \<open>Old objects stay where they are.\<close>

definition place :: "heap \<Rightarrow> (nat \<rightharpoonup> nat) \<Rightarrow> nat \<Rightarrow> nat option" where
  "place h0 m a = (if a \<in> old_objs h0 then Some a else m a)"

definition same_header :: "header \<Rightarrow> header \<Rightarrow> bool" where
  "same_header w w' \<longleftrightarrow> hdr_class_index w' = hdr_class_index w \<and> hdr_format w' = hdr_format w
     \<and> hdr_hash w' = hdr_hash w
     \<and> gc_bits w' AND GC_BIT_IMMUTABLE = gc_bits w AND GC_BIT_IMMUTABLE"

definition slot_ok :: "heap \<Rightarrow> (nat \<rightharpoonup> nat) \<Rightarrow> heap \<Rightarrow> nat \<Rightarrow> nat \<Rightarrow> nat \<Rightarrow> bool" where
  "slot_ok h0 m g a n i \<longleftrightarrow> slot g n i = slot h0 a i
     \<or> \<not> is_bytes (header h0 a) \<and> fwd h0 m (slot h0 a i) (slot g n i)"

definition same_object :: "heap \<Rightarrow> (nat \<rightharpoonup> nat) \<Rightarrow> heap \<Rightarrow> nat \<Rightarrow> nat \<Rightarrow> bool" where
  "same_object h0 m g a n \<longleftrightarrow> same_header (header h0 a) (header g n)
     \<and> num_slots g n = num_slots h0 a \<and> (\<forall>i < unat (num_slots h0 a). slot_ok h0 m g a n i)"

subsection \<open>The invariant\<close>

definition gc_heap :: "heap \<Rightarrow> bool" where
  "gc_heap h0 \<longleftrightarrow> heap_ok h0 \<and> sp_words (young_to h0) = sp_words (young_from h0)
     \<and> (\<forall>a \<in> young_objs h0. gc_bits (header h0 a) AND GC_BIT_MARK = 0)
     \<and> (\<forall>x \<in> live h0. \<not> is_bytes (header h0 x) \<longrightarrow>
          (\<forall>i < unat (num_slots h0 x). valid_value h0 (slot h0 x i)))"

definition same_extent :: "space \<Rightarrow> space \<Rightarrow> bool" where
  "same_extent s t \<longleftrightarrow> sp_base t = sp_base s \<and> sp_words t = sp_words s"

definition from_words :: "heap \<Rightarrow> (nat \<rightharpoonup> nat) \<Rightarrow> heap \<Rightarrow> bool" where
  "from_words h0 m h \<longleftrightarrow> young_from h = young_from h0
     \<and> (\<forall>x. is_young h0 x \<longrightarrow> mem h x = (case m x of None \<Rightarrow> mem h0 x | Some n \<Rightarrow> word_of_nat n OR 1))"

definition volume :: "heap \<Rightarrow> (nat \<rightharpoonup> nat) \<Rightarrow> heap \<Rightarrow> bool" where
  "volume h0 m h \<longleftrightarrow> same_extent (young_to h0) (young_to h) \<and> same_extent (old h0) (old h)
     \<and> sp_alloc (old h0) \<le> sp_alloc (old h)
     \<and> 8 * sp_alloc (young_to h) + 8 * sp_alloc (old h)
         = 8 * sp_alloc (old h0) + (\<Sum>a \<in> dom m. footprint h0 a)"

definition copies :: "heap \<Rightarrow> (nat \<rightharpoonup> nat) \<Rightarrow> nat list \<Rightarrow> heap \<Rightarrow> bool" where
  "copies h0 m tenured g \<longleftrightarrow> heap_ok g \<and> dom m \<subseteq> young_objs h0 \<and> inj_on m (dom m)
     \<and> live g = ran m \<union> old_objs h0 \<and> ran m \<inter> old_objs h0 = {}
     \<and> objects g (old g) = objects h0 (old h0) @ tenured
     \<and> (\<forall>x \<in> old_objs h0. header g x = header h0 x)
     \<and> (\<forall>n \<in> ran m. gc_bits (header g n) AND GC_BIT_REMEMBERED = 0 \<and> gc_bits (header g n) AND GC_BIT_MARK = 0)
     \<and> (\<forall>a n. place h0 m a = Some n \<longrightarrow> same_object h0 m g a n)"

definition sinv :: "heap \<Rightarrow> (nat \<rightharpoonup> nat) \<Rightarrow> scav \<Rightarrow> bool" where
  "sinv h0 m st \<longleftrightarrow> (let h = vm_heap (sv_vm st) in from_words h0 m h \<and> volume h0 m h
     \<and> copies h0 m (sv_tenured st) (flip_spaces h) \<and> set (sv_work st) \<subseteq> ran m)"

text \<open>What every step leaves: more copies, all new ones queued, and no forwarded slot lost.\<close>

definition goes :: "heap \<Rightarrow> (nat \<rightharpoonup> nat) \<Rightarrow> scav \<Rightarrow> (nat \<rightharpoonup> nat) \<Rightarrow> scav \<Rightarrow> bool" where
  "goes h0 m st m' st' \<longleftrightarrow> sinv h0 m' st' \<and> m \<subseteq>\<^sub>m m'
     \<and> ssb (vm_heap (sv_vm st')) = ssb (vm_heap (sv_vm st))
     \<and> (\<exists>new. sv_work st' = new @ sv_work st \<and> ran m' = ran m \<union> set new)
     \<and> (\<forall>a n i. place h0 m a = Some n \<longrightarrow> i < unat (num_slots h0 a) \<longrightarrow>
          fwd h0 m (slot h0 a i) (slot (flip_spaces (vm_heap (sv_vm st))) n i) \<longrightarrow>
          fwd h0 m' (slot h0 a i) (slot (flip_spaces (vm_heap (sv_vm st'))) n i))"

lemma fwd_mono: "m \<subseteq>\<^sub>m m' \<Longrightarrow> fwd h0 m v w \<Longrightarrow> fwd h0 m' v w"
  by (auto simp: fwd_def map_le_def dom_def split: if_splits)

lemma place_mono: "m \<subseteq>\<^sub>m m' \<Longrightarrow> place h0 m a = Some n \<Longrightarrow> place h0 m' a = Some n"
  by (auto simp: place_def map_le_def dom_def split: if_splits)

lemma goes_refl: "sinv h0 m st \<Longrightarrow> goes h0 m st m st"
  by (simp add: goes_def)

lemma goes_trans:
  assumes "goes h0 m st m1 st1" and "goes h0 m1 st1 m2 st2"
  shows "goes h0 m st m2 st2"
proof -
  obtain n1 n2 where n: "sv_work st1 = n1 @ sv_work st" "ran m1 = ran m \<union> set n1"
    "sv_work st2 = n2 @ sv_work st1" "ran m2 = ran m1 \<union> set n2"
    using assms by (auto simp: goes_def)
  have "m \<subseteq>\<^sub>m m2" using assms by (auto simp: goes_def intro: map_le_trans)
  moreover have "\<exists>new. sv_work st2 = new @ sv_work st \<and> ran m2 = ran m \<union> set new"
    using n by (intro exI [of _ "n2 @ n1"]) auto
  ultimately show ?thesis
    using assms place_mono [of m m1] unfolding goes_def by fastforce
qed

lemma goes_mono: "goes h0 m st m' st' \<Longrightarrow> m \<subseteq>\<^sub>m m'"
  by (simp add: goes_def)

lemma goes_sinv: "goes h0 m st m' st' \<Longrightarrow> sinv h0 m' st'"
  by (simp add: goes_def)

lemma place_live:
  assumes "sinv h0 m st" and "place h0 m a = Some n"
  shows "n \<in> live (flip_spaces (vm_heap (sv_vm st)))"
    and "same_object h0 m (flip_spaces (vm_heap (sv_vm st))) a n"
proof -
  have c: "copies h0 m (sv_tenured st) (flip_spaces (vm_heap (sv_vm st)))"
    using assms(1) by (simp add: sinv_def Let_def)
  then show "same_object h0 m (flip_spaces (vm_heap (sv_vm st))) a n"
    using assms(2) by (simp add: copies_def)
  show "n \<in> live (flip_spaces (vm_heap (sv_vm st)))"
    using c assms(2) by (auto simp: copies_def place_def ran_def split: if_splits)
qed

lemma live_bound:
  assumes "heap_ok g" and "n \<in> live g"
  shows "n < 2 ^ 64"
proof -
  have "space_top (young_from g) \<le> space_limit (young_from g)" "space_top (old g) \<le> space_limit (old g)"
    "space_limit (young_from g) < 2 ^ 64" "space_limit (old g) < 2 ^ 64"
    using assms(1) by (auto simp: heap_ok_def space_top_le_limit space_ok_def)
  with storage_of_live(1,3) [OF assms] show ?thesis by linarith
qed

lemma fwd_not_young:
  assumes "sinv h0 m st" and "fwd h0 m v w" and "is_ptr w"
  shows "\<not> is_young h0 (as_ptr w)"
proof (cases "is_ptr v \<and> is_young h0 (as_ptr v)")
  case True
  then obtain n where n: "m (as_ptr v) = Some n" "w = from_ptr n" using assms(2) by (auto simp: fwd_def)
  let ?g = "flip_spaces (vm_heap (sv_vm st))"
  have i: "heap_ok ?g" "n \<in> live ?g" "young_from (vm_heap (sv_vm st)) = young_from h0"
    using assms(1) n by (auto simp: sinv_def copies_def from_words_def Let_def intro: ranI)
  note st = storage_of_live(1,2) [OF i(1,2)]
  have "\<not> space_contains (young_to ?g) n"
    using st by (intro live_not_to [OF i(1,2)]) auto
  then show ?thesis using live_bound [OF i(1,2)] i(3) n by (simp add: is_young_def)
qed (use assms in \<open>auto simp: fwd_def split: if_splits\<close>)

subsection \<open>Copying an object\<close>

lemma and_one_gc: "gc_bits w AND GC_BIT_MARK = w AND 1"
  by (rule bit_word_eqI) (auto simp: bit_and_iff bit_gc_bits bit_1_iff)

lemma survivor_header:
  assumes "age = min x (gc_mask 3)"
  shows "gc_fits (gc_bits w AND (GC_BIT_IMMUTABLE OR GC_BIT_PINNED) OR push_bit GC_AGE_SHIFT age)"
    and "(gc_bits w AND (GC_BIT_IMMUTABLE OR GC_BIT_PINNED) OR push_bit GC_AGE_SHIFT age) AND GC_BIT_REMEMBERED = 0
      \<and> (gc_bits w AND (GC_BIT_IMMUTABLE OR GC_BIT_PINNED) OR push_bit GC_AGE_SHIFT age) AND GC_BIT_MARK = 0"
    and "(gc_bits w AND (GC_BIT_IMMUTABLE OR GC_BIT_PINNED) OR push_bit GC_AGE_SHIFT age) AND GC_BIT_IMMUTABLE
      = gc_bits w AND GC_BIT_IMMUTABLE"
proof -
  have "age \<le> hmask 3" using assms by (simp add: gc_mask_def hmask_def)
  then have a: "\<not> bit age i" if "3 \<le> i" for i using that by (rule le_hmask_bits)
  show "gc_fits (gc_bits w AND (GC_BIT_IMMUTABLE OR GC_BIT_PINNED) OR push_bit GC_AGE_SHIFT age)"
    using a by (auto simp: gc_fits_bits field_bits bit_gc_bits)
  have b: "bit (2 :: u64) i \<longleftrightarrow> i = 1" "bit (128 :: u64) i \<longleftrightarrow> i = 7" "bit (4 :: u64) i \<longleftrightarrow> i = 2" for i
    using bit_exp_iff [where 'a = u64, of 1 i] bit_exp_iff [where 'a = u64, of 7 i]
      bit_exp_iff [where 'a = u64, of 2 i] by auto
  show "(gc_bits w AND (GC_BIT_IMMUTABLE OR GC_BIT_PINNED) OR push_bit GC_AGE_SHIFT age) AND GC_BIT_REMEMBERED = 0
      \<and> (gc_bits w AND (GC_BIT_IMMUTABLE OR GC_BIT_PINNED) OR push_bit GC_AGE_SHIFT age) AND GC_BIT_MARK = 0"
    by (intro conjI bit_word_eqI) (simp only: field_bits b bit_1_iff, auto)+
  show "(gc_bits w AND (GC_BIT_IMMUTABLE OR GC_BIT_PINNED) OR push_bit GC_AGE_SHIFT age) AND GC_BIT_IMMUTABLE
      = gc_bits w AND GC_BIT_IMMUTABLE"
    using a [of 4] by (intro bit_word_eqI) (simp only: field_bits b, auto)
qed

lemma survivor_space_room:
  assumes "sp_alloc (young_to h) + n \<le> sp_words (young_to h)"
  shows "survivor_space h wants n = Ok (space_top (young_to h), False, h\<lparr>young_to := grown (young_to h) n\<rparr>)
    \<or> sp_alloc (old h) + n \<le> sp_words (old h)
      \<and> survivor_space h wants n = Ok (space_top (old h), True, h\<lparr>old := grown (old h) n\<rparr>)"
  using assms by (auto simp: survivor_space_def alloc_words_def grown_def space_top_def Let_def)

text \<open>To-space has room for every young object that has no copy yet.\<close>

lemma room_for_copy:
  assumes g: "gc_heap h0" and i: "sinv h0 m st" and a: "a \<in> young_objs h0" "m a = None"
    and n: "8 * n = footprint h0 a"
  shows "sp_alloc (young_to (vm_heap (sv_vm st))) + n \<le> sp_words (young_to (vm_heap (sv_vm st)))"
proof -
  let ?h = "vm_heap (sv_vm st)"
  have d: "dom m \<subseteq> young_objs h0" and v: "volume h0 m ?h" and ok: "heap_ok h0"
    using i g by (auto simp: sinv_def copies_def gc_heap_def Let_def)
  have r: "region h0 (sp_base (young_from h0)) (objects h0 (young_from h0)) (space_top (young_from h0))"
    and al: "sp_alloc (young_from h0) \<le> sp_words (young_from h0)"
    using ok by (auto simp: heap_ok_def parsable_def space_ok_def)
  have "(\<Sum>x \<in> dom m. footprint h0 x) + footprint h0 a = (\<Sum>x \<in> insert a (dom m). footprint h0 x)"
    using d a(2) by (subst sum.insert) (auto intro: finite_subset)
  also have "\<dots> \<le> (\<Sum>x \<in> young_objs h0. footprint h0 x)"
    using d a(1) by (intro sum_mono2) auto
  also have "\<dots> = 8 * sp_alloc (young_from h0)"
    using region_length [OF r] region_distinct [OF r]
    by (simp add: sum_list_distinct_conv_sum_set space_top_def)
  finally show ?thesis
    using v n al g by (simp add: volume_def same_extent_def gc_heap_def)
qed

lemma from_word_unforwarded:
  assumes ok: "heap_ok h0" and d: "dom m \<subseteq> young_objs h0" and f: "from_words h0 m h"
    and a: "a \<in> young_objs h0" "m a = None" and x: "storage_start h0 a \<le> x" "x < obj_end h0 a"
  shows "mem h x = mem h0 x"
proof -
  have "m x = None"
  proof (rule ccontr)
    assume "m x \<noteq> None"
    then have "x \<in> young_objs h0" "x \<noteq> a" using d a(2) by auto
    moreover from this(1) have "x \<in> live h0" by (simp add: live_def)
    ultimately show False
      using live_disjoint [OF ok _ young_object(2) [OF ok a(1)], of x] storage_of_live(1,2) [OF ok, of x] x
      by auto
  qed
  then show ?thesis using f young_object(4) [OF ok a(1) x] by (simp add: from_words_def)
qed

lemma forward_copies:
  assumes g: "gc_heap h0" and i: "sinv h0 m st" and v: "is_ptr v" and a: "as_ptr v \<in> young_objs h0" "m (as_ptr v) = None"
  obtains n is_old h1 s obj bits h4 c where
    "8 * n = footprint h0 (as_ptr v)" "sp_alloc s + n \<le> sp_words s" "gc_fits bits"
    "bits AND GC_BIT_REMEMBERED = 0 \<and> bits AND GC_BIT_MARK = 0" "bits AND GC_BIT_IMMUTABLE = gc_bits (header h0 (as_ptr v)) AND GC_BIT_IMMUTABLE"
    "if is_old then s = old (vm_heap (sv_vm st)) \<and> h1 = vm_heap (sv_vm st)\<lparr>old := grown s n\<rparr>
     else s = young_to (vm_heap (sv_vm st)) \<and> h1 = vm_heap (sv_vm st)\<lparr>young_to := grown s n\<rparr>"
    "obj = space_top s + (as_ptr v - storage_start h0 (as_ptr v))"
    "h4 = set_word (set_header (h1\<lparr>mem := copy_words (mem h1) (storage_start h0 (as_ptr v)) (space_top s) n\<rparr>)
      obj (with_gc_bits (header h0 (as_ptr v)) bits)) (as_ptr v) (word_of_nat obj OR 1)"
    "forward v st = Ok (from_ptr obj, \<lparr>sv_vm = (sv_vm st)\<lparr>vm_heap := h4, vm_counters := c\<rparr>,
       sv_work = obj # sv_work st, sv_tenured = (if is_old then sv_tenured st @ [obj] else sv_tenured st)\<rparr>)"
proof -
  let ?h = "vm_heap (sv_vm st)" and ?a = "as_ptr v" and ?vm = "sv_vm st"
  have ok: "heap_ok h0" and d: "dom m \<subseteq> young_objs h0" and f: "from_words h0 m ?h" and gok: "heap_ok (flip_spaces ?h)"
    using g i by (auto simp: gc_heap_def sinv_def copies_def Let_def)
  note ya = young_object [OF ok a(1)]
  have yf: "young_from ?h = young_from h0" using f by (simp add: from_words_def)
  note src = from_word_unforwarded [OF ok d f a]
  have b: "storage_start h0 ?a \<le> ?a" "?a < obj_end h0 ?a" using well_placed_bounds [OF ya(1)] by auto
  have hw: "heap_word ?h ?a = header h0 ?a" using src b by (simp add: heap_word_def header_def)
  have odd: "header h0 ?a AND 1 = 0" using g a(1) and_one_gc by (simp add: gc_heap_def)
  define ov where "ov = has_overflow_word h0 ?a"
  define n where "n = (if ov then 1 else 0) + 1 + unat (num_slots h0 ?a)"
  have n: "8 * n = footprint h0 ?a" by (simp add: n_def ov_def footprint_def)
  have ex: "(if ov then 1 else 0) * 8 = ?a - storage_start h0 ?a" "?a - (if ov then 1 else 0) * 8 = storage_start h0 ?a"
    using live_shape(2) [OF ok ya(2)] by (auto simp: ov_def storage_start_def)
  have ns: "(if ov then unat (heap_word ?h (?a - 8)) else unat (num_slots_field (heap_word ?h ?a))) = unat (num_slots h0 ?a)"
  proof (cases ov)
    case True
    then have "mem ?h (?a - 8) = mem h0 (?a - 8)" using ex b by (intro src) auto
    with True show ?thesis by (simp add: ov_def num_slots_def has_overflow_word_def heap_word_def Let_def)
  qed (simp add: ov_def hw num_slots_def has_overflow_word_def Let_def)
  define age where "age = min ((drop_bit GC_AGE_SHIFT (gc_bits (header h0 ?a)) AND gc_mask GC_AGE_BITS) + 1) (gc_mask GC_AGE_BITS)"
  define bits where "bits = gc_bits (header h0 ?a) AND (GC_BIT_IMMUTABLE OR GC_BIT_PINNED) OR push_bit GC_AGE_SHIFT age"
  note bits = survivor_header [OF age_def, of "header h0 ?a", folded bits_def]
  define wants where "wants \<longleftrightarrow> tenure_threshold ?vm \<le> unat age"
  from survivor_space_room [OF room_for_copy [OF g i a n], of wants]
  obtain is_old s h1 where s: "survivor_space ?h wants n = Ok (space_top s, is_old, h1)" "sp_alloc s + n \<le> sp_words s"
    "if is_old then s = old ?h \<and> h1 = ?h\<lparr>old := grown s n\<rparr> else s = young_to ?h \<and> h1 = ?h\<lparr>young_to := grown s n\<rparr>"
    using room_for_copy [OF g i a n] by fastforce
  define obj where "obj = space_top s + (?a - storage_start h0 ?a)"
  have "space_ok (old ?h)" "space_ok (young_to ?h)" using gok by (simp_all add: heap_ok_def)
  then have "space_top s mod 8 = 0" using s(3) by (auto simp: space_ok_def space_top_def mod_add_left_eq split: if_splits)
  then have al: "from_ptr_checked obj = Ok (from_ptr obj)"
    using ex(1) by (cases ov) (auto simp: from_ptr_checked_def aligned_def obj_def)
  define h4 where "h4 = set_word (set_header (h1\<lparr>mem := copy_words (mem h1) (storage_start h0 ?a) (space_top s) n\<rparr>)
      obj (with_gc_bits (header h0 ?a) bits)) ?a (word_of_nat obj OR 1)"
  have "space_contains (young_from ?h) ?a" using ya(3) yf by (simp add: is_young_def)
  then have e: "\<exists>c. forward v st = Ok (from_ptr obj, \<lparr>sv_vm = ?vm\<lparr>vm_heap := h4, vm_counters := c\<rparr>,
       sv_work = obj # sv_work st, sv_tenured = (if is_old then sv_tenured st @ [obj] else sv_tenured st)\<rparr>)"
    unfolding forward_def Let_def hw ns [unfolded hw] ov_def [unfolded has_overflow_word_def, symmetric]
      n_def [symmetric] wants_def [symmetric] age_def [symmetric] bits_def [symmetric] ex(1)
      diff_diff_cancel [OF b(1)] s(1)
    by (cases is_old) (simp_all add: v odd al obj_def [symmetric] h4_def del: of_nat_add, (rule exI, rule refl)+)
  from e obtain c where "forward v st = Ok (from_ptr obj, \<lparr>sv_vm = ?vm\<lparr>vm_heap := h4, vm_counters := c\<rparr>,
       sv_work = obj # sv_work st, sv_tenured = (if is_old then sv_tenured st @ [obj] else sv_tenured st)\<rparr>)" ..
  then show thesis by (rule that [OF n s(2) bits s(3) obj_def h4_def])
qed

lemma same_header_gc_bits:
  assumes "gc_fits bits" and "bits AND GC_BIT_IMMUTABLE = gc_bits w AND GC_BIT_IMMUTABLE"
  shows "same_header w (with_gc_bits w bits)"
  using gc_field.outside_put [OF assms(1), of w] gc_field.get_put [OF assms(1), of w] assms(2)
  by (simp add: same_header_def)

lemma same_object_mono: "m \<subseteq>\<^sub>m m' \<Longrightarrow> same_object h0 m g a n \<Longrightarrow> same_object h0 m' g a n"
  by (auto simp: same_object_def slot_ok_def intro: fwd_mono)

lemma copy_goes:
  assumes g: "gc_heap h0" and i: "sinv h0 m st" and v: "is_ptr v" and a: "as_ptr v \<in> young_objs h0" "m (as_ptr v) = None"
  shows "\<exists>n st'. forward v st = Ok (from_ptr n, st') \<and> goes h0 m st (m(as_ptr v \<mapsto> n)) st'
    \<and> (\<exists>h c. sv_vm st' = (sv_vm st)\<lparr>vm_heap := h, vm_counters := c\<rparr>)"
proof -
  let ?h = "vm_heap (sv_vm st)" and ?a = "as_ptr v"
  let ?g = "flip_spaces ?h"
  have ok: "heap_ok h0" and f: "from_words h0 m ?h" and vo: "volume h0 m ?h" and c: "copies h0 m (sv_tenured st) ?g"
    and w: "set (sv_work st) \<subseteq> ran m"
    using g i by (auto simp: gc_heap_def sinv_def Let_def)
  have gok: "heap_ok ?g" and d: "dom m \<subseteq> young_objs h0" and yf: "young_from ?h = young_from h0"
    using c f by (auto simp: copies_def from_words_def)
  obtain n is_old h1 s obj bits h4 ct where F:
    "8 * n = footprint h0 ?a" "sp_alloc s + n \<le> sp_words s" "gc_fits bits" "bits AND GC_BIT_REMEMBERED = 0 \<and> bits AND GC_BIT_MARK = 0"
    "bits AND GC_BIT_IMMUTABLE = gc_bits (header h0 ?a) AND GC_BIT_IMMUTABLE"
    "if is_old then s = old ?h \<and> h1 = ?h\<lparr>old := grown s n\<rparr> else s = young_to ?h \<and> h1 = ?h\<lparr>young_to := grown s n\<rparr>"
    "obj = space_top s + (?a - storage_start h0 ?a)"
    "h4 = set_word (set_header (h1\<lparr>mem := copy_words (mem h1) (storage_start h0 ?a) (space_top s) n\<rparr>)
      obj (with_gc_bits (header h0 ?a) bits)) ?a (word_of_nat obj OR 1)"
    "forward v st = Ok (from_ptr obj, \<lparr>sv_vm = (sv_vm st)\<lparr>vm_heap := h4, vm_counters := ct\<rparr>,
       sv_work = obj # sv_work st, sv_tenured = (if is_old then sv_tenured st @ [obj] else sv_tenured st)\<rparr>)"
    by (rule forward_copies [OF g i v a])
  let ?g4 = "flip_spaces h4" and ?m = "m(?a \<mapsto> obj)"
  let ?st = "\<lparr>sv_vm = (sv_vm st)\<lparr>vm_heap := h4, vm_counters := ct\<rparr>,
       sv_work = obj # sv_work st, sv_tenured = (if is_old then sv_tenured st @ [obj] else sv_tenured st)\<rparr>"
  have s: "s = young_to ?h \<and> h1 = ?h\<lparr>young_to := grown s n\<rparr> \<or> s = old ?h \<and> h1 = ?h\<lparr>old := grown s n\<rparr>"
    using F(6) by (auto split: if_splits)
  note src = from_word_unforwarded [OF ok d f a]
  note ic = install_copy [OF ok a(1) yf gok src s F(1,2,3,7,8)]
  have sp4: "young_from h4 = young_from ?h" "young_to h4 = (if is_old then young_to ?h else grown s n)"
    "old h4 = (if is_old then grown s n else old ?h)" "ssb h4 = ssb ?h"
    using F(6) by (auto simp: F(8) split: if_splits)
  have add: "adds_object ?g ?g4 obj \<and> objects ?g4 (old ?g4) = objects ?g (old ?g) @ (if is_old then [obj] else [])"
  proof (cases is_old)
    case True
    then have "s = old ?g" using F(6) by simp
    with append_old [OF gok, of ?g4 n obj] ic(1) True sp4 show ?thesis by simp
  next
    case False
    then have "s = young_from ?g" using F(6) by simp
    with append_young [OF gok, of ?g4 n obj] ic(1) False sp4 show ?thesis by simp
  qed
  then have ao: "heap_ok ?g4" "obj \<notin> live ?g" "live ?g4 = insert obj (live ?g)"
    and keep: "\<And>x. x \<in> live ?g \<Longrightarrow> header ?g4 x = header ?g x \<and> num_slots ?g4 x = num_slots ?g x"
    and keeps: "\<And>x i. x \<in> live ?g \<Longrightarrow> i < unat (num_slots ?g x) \<Longrightarrow> slot ?g4 x i = slot ?g x i"
    by (auto simp: adds_object_def)
  have mm: "m \<subseteq>\<^sub>m ?m" using a(2) by (auto simp: map_le_def)
  have rm: "ran ?m = insert obj (ran m)" using a(2) by (rule ran_map_upd)
  have lg: "live ?g = ran m \<union> old_objs h0" using c by (simp add: copies_def)
  have yo: "?a \<notin> old_objs h0"
    using old_object_in_space(2) [OF ok] young_object(3) [OF ok a(1)] by blast
  have so: "same_object h0 ?m ?g4 x y" if p: "place h0 ?m x = Some y" for x y
  proof (cases "x = ?a")
    case True
    then have "y = obj" using p yo by (simp add: place_def)
    with True show ?thesis
      using ic(2,3,4) same_header_gc_bits [OF F(3,5)] by (simp add: same_object_def slot_ok_def)
  next
    case False
    then have p': "place h0 m x = Some y" using p by (simp add: place_def split: if_splits)
    note pl = place_live [OF i p']
    show ?thesis
      using pl(2) keep [OF pl(1)] keeps [OF pl(1)] mm
      by (intro same_object_mono [OF mm]) (simp add: same_object_def slot_ok_def)
  qed
  have "copies h0 ?m (sv_tenured ?st) ?g4"
    unfolding copies_def
  proof (intro conjI allI impI)
    show "heap_ok ?g4" by (rule ao)
    show "dom ?m \<subseteq> young_objs h0" using d a by simp
    show "inj_on ?m (dom ?m)"
      using c a(2) ao(2) lg by (auto simp: copies_def inj_on_def dom_def ran_def)
    show "live ?g4 = ran ?m \<union> old_objs h0" using ao(3) lg rm by simp
    show "ran ?m \<inter> old_objs h0 = {}" using c ao(2) lg rm by (simp add: copies_def)
    show "objects ?g4 (old ?g4) = objects h0 (old h0) @ sv_tenured ?st"
      using c add by (simp add: copies_def)
    show "\<forall>x \<in> old_objs h0. header ?g4 x = header h0 x" using c keep lg by (simp add: copies_def)
    show "\<forall>x \<in> ran ?m. gc_bits (header ?g4 x) AND GC_BIT_REMEMBERED = 0 \<and> gc_bits (header ?g4 x) AND GC_BIT_MARK = 0"
      using c keep lg rm ic(2) gc_field.get_put [OF F(3)] F(4) by (simp add: copies_def)
  qed (rule so)
  moreover have "from_words h0 ?m h4"
    using f ic(5) sp4(1) by (auto simp: from_words_def)
  moreover have "volume h0 ?m h4"
  proof -
    have "dom ?m = insert ?a (dom m)" by auto
    moreover have "finite (dom m)" using d by (rule finite_subset) simp
    ultimately have "(\<Sum>x \<in> dom ?m. footprint h0 x) = footprint h0 ?a + (\<Sum>x \<in> dom m. footprint h0 x)"
      using a(2) by (simp add: domIff)
    with vo F(1,6) show ?thesis
      by (cases is_old) (auto simp: volume_def same_extent_def sp4)
  qed
  ultimately have "sinv h0 ?m ?st" using w rm by (auto simp: sinv_def)
  moreover have "fwd h0 ?m (slot h0 x j) (slot ?g4 y j)"
    if "place h0 m x = Some y" "j < unat (num_slots h0 x)" "fwd h0 m (slot h0 x j) (slot ?g y j)" for x y j
    using keeps [OF place_live(1) [OF i that(1)], of j] that(2,3) place_live(2) [OF i that(1)] fwd_mono [OF mm]
    by (simp add: same_object_def)
  ultimately have "goes h0 m st ?m ?st"
    unfolding goes_def using mm rm sp4(4) by (simp add: exI [of _ "[obj]"])
  with F(9) show ?thesis by (intro exI [of _ obj] exI [of _ ?st] conjI) auto
qed

subsection \<open>Forwarding any value\<close>

definition heap_only :: "scav \<Rightarrow> scav \<Rightarrow> bool" where
  "heap_only st st' \<longleftrightarrow> (\<exists>h c. sv_vm st' = (sv_vm st)\<lparr>vm_heap := h, vm_counters := c\<rparr>)"

lemma heap_only_refl: "heap_only st st"
  by (auto simp: heap_only_def intro!: exI [of _ "vm_heap (sv_vm st)"] exI [of _ "vm_counters (sv_vm st)"])

lemma heap_only_trans: "heap_only a b \<Longrightarrow> heap_only b c \<Longrightarrow> heap_only a c"
proof -
  assume "heap_only a b" and "heap_only b c"
  then obtain h k where "sv_vm c = (sv_vm a)\<lparr>vm_heap := h, vm_counters := k\<rparr>"
    by (auto simp: heap_only_def)
  then show "heap_only a c" unfolding heap_only_def by (intro exI)
qed

lemma word_of_copy:
  assumes "aligned n" and "n < 2 ^ 64"
  shows "(word_of_nat n OR 1 :: u64) AND 1 = 1"
    and "unat ((word_of_nat n OR 1 :: u64) AND NOT 1) = n"
proof -
  have e: "even (unat (word_of_nat n :: u64))" using assms by (simp add: unat_word_of_nat_64 aligned_def) presburger
  show "(word_of_nat n OR 1 :: u64) AND 1 = 1"
    by (rule bit_word_eqI) (auto simp: bit_and_iff bit_or_iff bit_1_iff)
  have "bit (unat (word_of_nat n :: u64)) 0 \<longleftrightarrow> bit (word_of_nat n :: u64) 0" by (simp add: bit_unsigned_iff)
  then have "\<not> bit (word_of_nat n :: u64) 0" using e by (simp add: bit_0)
  then have "(word_of_nat n OR 1 :: u64) AND NOT 1 = word_of_nat n"
    by (intro bit_word_eqI) (auto simp: bit_and_iff bit_or_iff bit_not_iff bit_1_iff intro!: gr0I)
  then show "unat ((word_of_nat n OR 1 :: u64) AND NOT 1) = n" using assms(2) by (simp add: unat_word_of_nat_64)
qed

lemma live_aligned:
  assumes ok: "heap_ok g" and n: "n \<in> live g"
  shows "aligned n"
proof -
  have al: "x mod 8 = 0" if "region g p os t" "p mod 8 = 0" "x \<in> set os" for p os t x
    using that
  proof (induction os arbitrary: p)
    case (Cons a os)
    then have w: "well_placed g p a" and r: "region g (obj_end g a) os t" by auto
    have a: "a mod 8 = 0" using w Cons.prems(2) by (auto simp: well_placed_def split: if_splits)
    moreover have "obj_end g a mod 8 = 0" using obj_end_eq [OF w] a by simp
    ultimately show ?case using Cons.IH [OF r] Cons.prems(3) by auto
  qed simp
  from assms show ?thesis
    by (auto simp: live_def heap_ok_def parsable_def space_ok_def aligned_def intro: al)
qed

text \<open>The value of a slot is the one it had, or has been forwarded already.\<close>

lemma forward_goes:
  assumes g: "gc_heap h0" and i: "sinv h0 m st" and va: "valid_value h0 v" and w: "w = v \<or> fwd h0 m v w"
  shows "\<exists>f st' m'. forward w st = Ok (f, st') \<and> goes h0 m st m' st' \<and> heap_only st st' \<and> fwd h0 m' v f"
proof (cases "is_ptr w \<and> is_young h0 (as_ptr w)")
  case False
  have "young_from (vm_heap (sv_vm st)) = young_from h0"
    using i by (simp add: sinv_def from_words_def Let_def)
  then have "forward w st = Ok (w, st)" using False by (auto simp: forward_def Let_def is_young_def)
  moreover have "fwd h0 m v w" using w False by (auto simp: fwd_def)
  ultimately show ?thesis using goes_refl [OF i] heap_only_refl by blast
next
  case True
  then have wv: "w = v" using w fwd_not_young [OF i] by blast
  then have y: "as_ptr v \<in> young_objs h0" using va True by (simp add: valid_value_def)
  show ?thesis
  proof (cases "m (as_ptr v)")
    case None
    from copy_goes [OF g i _ y None] True wv obtain n st' where
      "forward v st = Ok (from_ptr n, st')" "goes h0 m st (m(as_ptr v \<mapsto> n)) st'" "heap_only st st'"
      by (auto simp: heap_only_def)
    moreover have "fwd h0 (m(as_ptr v \<mapsto> n)) v (from_ptr n)" using True wv by (simp add: fwd_def)
    ultimately show ?thesis using wv by blast
  next
    case (Some n)
    have f: "from_words h0 m (vm_heap (sv_vm st))" and c: "copies h0 m (sv_tenured st) (flip_spaces (vm_heap (sv_vm st)))"
      using i by (simp_all add: sinv_def Let_def)
    have l: "heap_ok (flip_spaces (vm_heap (sv_vm st)))" "n \<in> live (flip_spaces (vm_heap (sv_vm st)))"
      using c Some by (auto simp: copies_def intro: ranI)
    have n: "aligned n" "n < 2 ^ 64" using live_aligned [OF l] live_bound [OF l] by auto
    have "heap_word (vm_heap (sv_vm st)) (as_ptr v) = word_of_nat n OR 1"
      using f Some True wv by (simp add: from_words_def heap_word_def)
    moreover have "space_contains (young_from (vm_heap (sv_vm st))) (as_ptr v)"
      using f True wv by (simp add: from_words_def is_young_def)
    ultimately have "forward w st = Ok (from_ptr n, st)"
      using True wv n word_of_copy [OF n] by (simp add: forward_def Let_def from_ptr_checked_def)
    moreover have "fwd h0 m v (from_ptr n)" using True wv Some by (simp add: fwd_def)
    ultimately show ?thesis using goes_refl [OF i] heap_only_refl by blast
  qed
qed

subsection \<open>Storing a forwarded value\<close>

lemma store_goes:
  assumes i: "sinv h0 m st" and p: "place h0 m a = Some n" and j: "j < unat (num_slots h0 a)"
    and b: "\<not> is_bytes (header h0 a)" and f: "fwd h0 m (slot h0 a j) f"
  shows "goes h0 m st m (st\<lparr>sv_vm := vset_slot_raw (sv_vm st) n j f\<rparr>)"
    and "slot (flip_spaces (vm_heap (vset_slot_raw (sv_vm st) n j f))) n j = f"
proof -
  let ?h = "vm_heap (sv_vm st)"
  let ?g = "flip_spaces ?h"
  note pl = place_live [OF i p]
  have c: "copies h0 m (sv_tenured st) ?g" and fw: "from_words h0 m ?h" and vo: "volume h0 m ?h"
    and wk: "set (sv_work st) \<subseteq> ran m"
    using i by (simp_all add: sinv_def Let_def)
  have ok: "heap_ok ?g" using c by (simp add: copies_def)
  have j': "j < unat (num_slots ?g n)" using pl(2) j by (simp add: same_object_def)
  note e = flip_set_slot [OF ok pl(1) j', of f]
  note w = set_slot_ok [OF ok pl(1) j', where v = f]
  note r = slot_set_slot [OF ok pl(1) j', where v = f]
  let ?g' = "set_slot_raw ?g n j f"
  have vh: "vm_heap (vset_slot_raw (sv_vm st) n j f) = set_slot_raw ?h n j f" by (simp add: vset_slot_raw_def)
  show "slot (flip_spaces (vm_heap (vset_slot_raw (sv_vm st) n j f))) n j = f"
    by (simp add: vh e slot_set_slot_same)
  have inj: "a' = a" if "place h0 m a' = Some n" for a'
    using that p c by (auto simp: place_def copies_def inj_on_def dom_def ran_def split: if_splits)
  have sl: "slot ?g' y k = (if y = n \<and> k = j then f else slot ?g y k)"
    if "place h0 m x = Some y" "k < unat (num_slots h0 x)" for x y k
    using r [OF place_live(1) [OF i that(1)], of k] place_live(2) [OF i that(1)] that(2)
    by (simp add: same_object_def)
  have so: "same_object h0 m ?g' x y" if "place h0 m x = Some y" for x y
    using place_live [OF i that] w(5,6) [of y] sl [OF that] inj that b f
    by (auto simp: same_object_def slot_ok_def)
  have yn: "\<not> is_young h0 (n + 8 + j * 8)"
  proof -
    have "\<not> space_contains (young_to ?g) (n + 8 + j * 8)"
      using live_not_to [OF ok pl(1), of "n + 8 + j * 8"] slot_addr [OF ok pl(1) j'] storage_of_live(2) [OF ok pl(1)]
      by simp
    then show ?thesis using fw by (simp add: from_words_def is_young_def)
  qed
  have "copies h0 m (sv_tenured st) ?g'"
    using c w so by (simp add: copies_def)
  moreover have "from_words h0 m (set_slot_raw ?h n j f)"
    using fw yn by (auto simp: from_words_def set_slot_raw_def)
  moreover have "volume h0 m (set_slot_raw ?h n j f)" using vo by (simp add: volume_def)
  ultimately have "sinv h0 m (st\<lparr>sv_vm := vset_slot_raw (sv_vm st) n j f\<rparr>)"
    using wk by (simp add: sinv_def vh e)
  moreover have "fwd h0 m (slot h0 x k) (slot ?g' y k)"
    if "place h0 m x = Some y" "k < unat (num_slots h0 x)" "fwd h0 m (slot h0 x k) (slot ?g y k)" for x y k
    using sl [OF that(1,2)] that(3) f inj [of x] that(1) by auto
  ultimately show "goes h0 m st m (st\<lparr>sv_vm := vset_slot_raw (sv_vm st) n j f\<rparr>)"
    by (simp add: goes_def vh e map_le_def)
qed

end
