(* ===== verification/Scavenge_Closure.thy ===== *)
theory Scavenge_Closure
  imports Scavenge_Step
begin

section \<open>The transitive closure of the scavenger\<close>

text \<open>
  Scanning an object forwards all its slots, and emptying the work queue scans every copy. None of
  these operations fails.
\<close>

definition scanned :: "heap \<Rightarrow> (nat \<rightharpoonup> nat) \<Rightarrow> scav \<Rightarrow> nat \<Rightarrow> nat \<Rightarrow> bool" where
  "scanned h0 m st a n \<longleftrightarrow> is_bytes (header h0 a)
     \<or> (\<forall>i < unat (num_slots h0 a). fwd h0 m (slot h0 a i) (slot (flip_spaces (vm_heap (sv_vm st))) n i))"

text \<open>What is left when the work queue is emptied as well.\<close>

definition keeps :: "heap \<Rightarrow> (nat \<rightharpoonup> nat) \<Rightarrow> scav \<Rightarrow> (nat \<rightharpoonup> nat) \<Rightarrow> scav \<Rightarrow> bool" where
  "keeps h0 m st m' st' \<longleftrightarrow> sinv h0 m' st' \<and> m \<subseteq>\<^sub>m m' \<and> heap_only st st'
     \<and> ssb (vm_heap (sv_vm st')) = ssb (vm_heap (sv_vm st))
     \<and> (\<forall>a n. place h0 m a = Some n \<longrightarrow> scanned h0 m st a n \<longrightarrow> scanned h0 m' st' a n)"

lemma goes_scanned:
  "goes h0 m st m' st' \<Longrightarrow> place h0 m a = Some n \<Longrightarrow> scanned h0 m st a n \<Longrightarrow> scanned h0 m' st' a n"
  unfolding goes_def scanned_def by blast

lemma goes_keeps: "goes h0 m st m' st' \<Longrightarrow> heap_only st st' \<Longrightarrow> keeps h0 m st m' st'"
  using goes_scanned [of h0 m st m' st'] unfolding keeps_def by (auto simp: goes_def)

lemma keeps_trans:
  assumes "keeps h0 m st m1 st1" and "keeps h0 m1 st1 m2 st2"
  shows "keeps h0 m st m2 st2"
  using assms place_mono [of m m1] map_le_trans [of m m1 m2] heap_only_trans [of st st1 st2]
  unfolding keeps_def by metis

lemma keeps_refl: "sinv h0 m st \<Longrightarrow> keeps h0 m st m st"
  by (simp add: keeps_def heap_only_refl)

lemma place_origin:
  assumes "sinv h0 m st" and "place h0 m a = Some n"
  shows "a \<in> live h0"
  using assms by (auto simp: sinv_def copies_def place_def live_def Let_def split: if_splits)

lemma valid_slot:
  assumes "gc_heap h0" and "sinv h0 m st" and "place h0 m a = Some n" and "\<not> is_bytes (header h0 a)"
    and "i < unat (num_slots h0 a)"
  shows "valid_value h0 (slot h0 a i)"
  using assms place_origin [OF assms(2,3)] by (simp add: gc_heap_def)

text \<open>A slot of a placed object holds what it held or what that has become.\<close>

lemma placed_slot:
  assumes i: "sinv h0 m st" and p: "place h0 m a = Some n" and j: "j < unat (num_slots h0 a)"
  shows "vslot (sv_vm st) n j = slot (flip_spaces (vm_heap (sv_vm st))) n j"
    and "slot_ok h0 m (flip_spaces (vm_heap (sv_vm st))) a n j"
proof -
  note pl = place_live [OF i p]
  have ok: "heap_ok (flip_spaces (vm_heap (sv_vm st)))" using i by (simp add: sinv_def copies_def Let_def)
  show "vslot (sv_vm st) n j = slot (flip_spaces (vm_heap (sv_vm st))) n j"
    using flip_reads(3) [OF ok pl(1)] pl(2) j by (simp add: vslot_def same_object_def)
  show "slot_ok h0 m (flip_spaces (vm_heap (sv_vm st))) a n j" using pl(2) j by (simp add: same_object_def)
qed

subsection \<open>Scanning\<close>

lemma forward_slot:
  assumes g: "gc_heap h0" and i: "sinv h0 m st" and p: "place h0 m a = Some n"
    and b: "\<not> is_bytes (header h0 a)" and j: "j < unat (num_slots h0 a)"
  shows "\<exists>f st1 m'. forward (vslot (sv_vm st) n j) st = Ok (f, st1) \<and> fwd h0 m' (slot h0 a j) f
    \<and> (let st2 = (if f \<noteq> vslot (sv_vm st) n j then st1\<lparr>sv_vm := vset_slot_raw (sv_vm st1) n j f\<rparr> else st1)
       in goes h0 m st m' st2 \<and> heap_only st st2
          \<and> fwd h0 m' (slot h0 a j) (slot (flip_spaces (vm_heap (sv_vm st2))) n j))"
proof -
  note sl = placed_slot [OF i p j]
  have w: "vslot (sv_vm st) n j = slot h0 a j \<or> fwd h0 m (slot h0 a j) (vslot (sv_vm st) n j)"
    using sl by (auto simp: slot_ok_def)
  from forward_goes [OF g i valid_slot [OF g i p b j] w] obtain f st1 m' where
    F: "forward (vslot (sv_vm st) n j) st = Ok (f, st1)" "goes h0 m st m' st1" "heap_only st st1"
      "fwd h0 m' (slot h0 a j) f" by blast
  have p': "place h0 m' a = Some n" using place_mono [OF goes_mono [OF F(2)] p] .
  note i1 = goes_sinv [OF F(2)]
  note sg = store_goes [OF i1 p' j b F(4)]
  let ?st2 = "st1\<lparr>sv_vm := vset_slot_raw (sv_vm st1) n j f\<rparr>"
  have "heap_only st1 ?st2"
    by (auto simp: heap_only_def vset_slot_raw_def intro!: exI [of _ "vm_counters (sv_vm st1)"])
  moreover have "fwd h0 m' (slot h0 a j) (slot (flip_spaces (vm_heap (sv_vm st1))) n j)"
    if "f = vslot (sv_vm st) n j"
  proof (cases "fwd h0 m (slot h0 a j) (vslot (sv_vm st) n j)")
    case True
    then show ?thesis using F(2) p j sl(1) by (simp add: goes_def)
  next
    case False
    then have "f = slot h0 a j" using w that by simp
    with F(4) have "fwd h0 m' (slot h0 a j) (slot h0 a j)" by simp
    moreover have "slot (flip_spaces (vm_heap (sv_vm st1))) n j = slot h0 a j \<or>
      fwd h0 m' (slot h0 a j) (slot (flip_spaces (vm_heap (sv_vm st1))) n j)"
      using placed_slot(2) [OF i1 p' j] by (auto simp: slot_ok_def)
    ultimately show ?thesis by auto
  qed
  ultimately show ?thesis
    using F sg goes_trans [OF F(2) sg(1)] heap_only_trans [OF F(3)] by (intro exI [of _ f] exI [of _ st1] exI [of _ m']) (auto simp: Let_def)
qed

lemma scan_slots_goes:
  assumes "gc_heap h0" and "sinv h0 m st" and "place h0 m a = Some n" and "\<not> is_bytes (header h0 a)"
    and "i \<le> unat (num_slots h0 a)"
    and "\<forall>j < i. fwd h0 m (slot h0 a j) (slot (flip_spaces (vm_heap (sv_vm st))) n j)"
  shows "\<exists>st' m'. scan_slots n i (unat (num_slots h0 a)) st = Ok st' \<and> goes h0 m st m' st' \<and> heap_only st st'
    \<and> scanned h0 m' st' a n"
  using assms
proof (induction "unat (num_slots h0 a) - i" arbitrary: i st m)
  case 0
  then show ?case
    using goes_refl [OF 0(3)] heap_only_refl by (subst scan_slots.simps) (auto simp: scanned_def)
next
  case (Suc k)
  let ?N = "unat (num_slots h0 a)" and ?v = "vslot (sv_vm st) n i"
  have i: "i < ?N" using Suc.hyps(2) by simp
  from forward_slot [OF Suc.prems(1-4) i] obtain f st1 m1 where
    F: "forward ?v st = Ok (f, st1)" and
    G: "let st2 = (if f \<noteq> ?v then st1\<lparr>sv_vm := vset_slot_raw (sv_vm st1) n i f\<rparr> else st1)
       in goes h0 m st m1 st2 \<and> heap_only st st2
          \<and> fwd h0 m1 (slot h0 a i) (slot (flip_spaces (vm_heap (sv_vm st2))) n i)" by blast
  define st2 where "st2 = (if f \<noteq> ?v then st1\<lparr>sv_vm := vset_slot_raw (sv_vm st1) n i f\<rparr> else st1)"
  have g: "goes h0 m st m1 st2" "heap_only st st2"
    "fwd h0 m1 (slot h0 a i) (slot (flip_spaces (vm_heap (sv_vm st2))) n i)"
    using G by (simp_all add: st2_def Let_def)
  have "\<forall>j < i + 1. fwd h0 m1 (slot h0 a j) (slot (flip_spaces (vm_heap (sv_vm st2))) n j)"
  proof (intro allI impI)
    fix j assume "j < i + 1"
    then show "fwd h0 m1 (slot h0 a j) (slot (flip_spaces (vm_heap (sv_vm st2))) n j)"
      using g(1,3) Suc.prems(3,6) i by (cases "j = i") (auto simp: goes_def)
  qed
  moreover have "k = ?N - (i + 1)" using Suc.hyps(2) by simp
  ultimately obtain st' m' where r: "scan_slots n (i + 1) ?N st2 = Ok st'" "goes h0 m1 st2 m' st'"
    "heap_only st2 st'" "scanned h0 m' st' a n"
    using Suc.hyps(1) [OF _ Suc.prems(1) goes_sinv [OF g(1)] place_mono [OF goes_mono [OF g(1)] Suc.prems(3)] Suc.prems(4)] i
    by fastforce
  have "scan_slots n i ?N st = Ok st'"
    using i F r(1) by (subst scan_slots.simps) (simp add: Let_def st2_def)
  then show ?case using r goes_trans [OF g(1) r(2)] heap_only_trans [OF g(2) r(3)] by blast
qed

lemma scan_object_goes:
  assumes g: "gc_heap h0" and i: "sinv h0 m st" and p: "place h0 m a = Some n"
  shows "\<exists>st' m'. scan_object n st = Ok st' \<and> goes h0 m st m' st' \<and> heap_only st st' \<and> scanned h0 m' st' a n"
proof -
  note pl = place_live [OF i p]
  have ok: "heap_ok (flip_spaces (vm_heap (sv_vm st)))" using i by (simp add: sinv_def copies_def Let_def)
  have e: "is_bytes (header (vm_heap (sv_vm st)) n) = is_bytes (header h0 a)"
    "num_slots (vm_heap (sv_vm st)) n = num_slots h0 a"
    using pl(2) flip_reads(1,2) [OF ok pl(1)] by (simp_all add: same_object_def same_header_def is_bytes_def)
  show ?thesis
  proof (cases "is_bytes (header h0 a)")
    case True
    then show ?thesis using goes_refl [OF i] heap_only_refl e by (auto simp: scan_object_def scanned_def)
  next
    case False
    then show ?thesis using scan_slots_goes [OF g i p False, of 0] e by (simp add: scan_object_def Let_def)
  qed
qed

lemma scan_objects_keeps:
  assumes "gc_heap h0" and "sinv h0 m st" and "set xs \<subseteq> old_objs h0"
  shows "\<exists>st' m'. scan_objects xs st = Ok st' \<and> goes h0 m st m' st' \<and> heap_only st st'
    \<and> (\<forall>a \<in> set xs. scanned h0 m' st' a a)"
  using assms(2,3)
proof (induction xs arbitrary: st m)
  case Nil
  then show ?case using goes_refl heap_only_refl by auto
next
  case (Cons x xs)
  have p: "place h0 m' x = Some x" for m' using Cons.prems(2) by (simp add: place_def)
  from scan_object_goes [OF assms(1) Cons.prems(1) p] obtain st1 m1 where
    a: "scan_object x st = Ok st1" "goes h0 m st m1 st1" "heap_only st st1" "scanned h0 m1 st1 x x" by blast
  from Cons.IH [OF goes_sinv [OF a(2)]] Cons.prems(2) obtain st2 m2 where
    b: "scan_objects xs st1 = Ok st2" "goes h0 m1 st1 m2 st2" "heap_only st1 st2" "\<forall>a \<in> set xs. scanned h0 m2 st2 a a"
    by auto
  then show ?case
    using a goes_trans [OF a(2) b(2)] heap_only_trans [OF a(3) b(3)] goes_scanned [OF b(2) p a(4)] by auto
qed

subsection \<open>Emptying the work queue\<close>

lemma pop_keeps:
  assumes "sinv h0 m st" and "sv_work st = obj # rest"
  shows "keeps h0 m st m (st\<lparr>sv_work := rest\<rparr>)" and "obj \<in> ran m"
  using assms heap_only_refl [of st]
  by (auto simp: keeps_def sinv_def scanned_def heap_only_def Let_def)

lemma scav_close_keeps:
  assumes "gc_heap h0" and "sinv h0 m st"
    and "\<forall>a n. m a = Some n \<longrightarrow> n \<notin> set (sv_work st) \<longrightarrow> scanned h0 m st a n"
  shows "\<exists>st' m'. scav_close st = Ok st' \<and> keeps h0 m st m' st' \<and> (\<forall>a n. m' a = Some n \<longrightarrow> scanned h0 m' st' a n)"
  using assms(2,3)
proof (induction st arbitrary: m rule: scav_close.induct)
  case (1 st)
  show ?case
  proof (cases "sv_work st")
    case Nil
    then have "scav_close st = Ok st" by (subst scav_close.simps) simp
    moreover have "\<forall>a n. m a = Some n \<longrightarrow> scanned h0 m st a n" using "1.prems"(2) Nil by simp
    ultimately show ?thesis using keeps_refl [OF "1.prems"(1)] by blast
  next
    case (Cons obj rest)
    let ?st = "st\<lparr>sv_work := rest\<rparr>"
    note pop = pop_keeps [OF "1.prems"(1) Cons]
    have i: "sinv h0 m ?st" using pop(1) by (simp add: keeps_def)
    obtain a where a: "m a = Some obj" using pop(2) by (auto simp: ran_def)
    have yng: "place h0 m' x = Some n" if "m' x = Some n" "sinv h0 m' st'" for m' x n st'
    proof -
      have "x \<in> young_objs h0" using that by (auto simp: sinv_def copies_def Let_def)
      then have "x \<notin> old_objs h0"
        using assms(1) old_object_in_space(2) [of h0 x] young_object(3) [of h0 x] by (auto simp: gc_heap_def)
      with that show ?thesis by (simp add: place_def)
    qed
    from scan_object_goes [OF assms(1) i yng [OF a i]] obtain st1 m1 where
      s: "scan_object obj ?st = Ok st1" "goes h0 m ?st m1 st1" "heap_only ?st st1" "scanned h0 m1 st1 a obj" by blast
    have i1: "sinv h0 m1 st1" using goes_sinv [OF s(2)] .
    obtain new where new: "sv_work st1 = new @ rest" "ran m1 = ran m \<union> set new"
      using s(2) by (auto simp: goes_def)
    have inj: "u = w" if "m1 u = Some n" "m1 w = Some n" for u w n
      using i1 that by (metis sinv_def copies_def inj_onD domI)
    have "\<forall>x n. m1 x = Some n \<longrightarrow> n \<notin> set (sv_work st1) \<longrightarrow> scanned h0 m1 st1 x n"
    proof (intro allI impI)
      fix x n assume x: "m1 x = Some n" "n \<notin> set (sv_work st1)"
      then have "n \<in> ran m" using new by (auto intro: ranI)
      then obtain y where y: "m y = Some n" by (auto simp: ran_def)
      then have "m1 y = Some n" using goes_mono [OF s(2)] by (auto simp: map_le_def dom_def)
      then have xy: "y = x" using inj x(1) by blast
      show "scanned h0 m1 st1 x n"
      proof (cases "n = obj")
        case True
        then have "m1 a = Some n" using a goes_mono [OF s(2)] by (auto simp: map_le_def dom_def)
        then have "a = x" using inj x(1) by blast
        with s(4) True show ?thesis by simp
      next
        case False
        then have "scanned h0 m st x n" using "1.prems"(2) y xy x(2) new(1) Cons by simp
        then have "scanned h0 m ?st x n" by (simp add: scanned_def)
        with goes_scanned [OF s(2) yng [OF y i]] xy show ?thesis by simp
      qed
    qed
    from "1.IH" [OF Cons s(1) i1 this] obtain st' m' where
      r: "scav_close st1 = Ok st'" "keeps h0 m1 st1 m' st'" "\<forall>a n. m' a = Some n \<longrightarrow> scanned h0 m' st' a n" by blast
    have "scav_close st = Ok st'" using Cons s(1) r(1) by (subst scav_close.simps) simp
    moreover have "keeps h0 m st m' st'"
      using pop(1) goes_keeps [OF s(2,3)] r(2) keeps_trans by blast
    ultimately show ?thesis using r(3) by blast
  qed
qed

end
