(* ===== verification/Scavenge_Roots.thy ===== *)
theory Scavenge_Roots
  imports Scavenge_Closure
begin

section \<open>The roots of a scavenge\<close>

text \<open>
  Forwarding the root vectors of the machine, and scanning the stack of the running process, which is
  a root whatever space it is in.
\<close>

subsection \<open>The root vectors\<close>

definition roots_fwd :: "heap \<Rightarrow> (nat \<rightharpoonup> nat) \<Rightarrow> vm \<Rightarrow> vm \<Rightarrow> bool" where
  "roots_fwd h0 m vm vm' \<longleftrightarrow> list_all2 (fwd h0 m) (specials vm) (specials vm')
     \<and> list_all2 (fwd h0 m) (class_table vm) (class_table vm')
     \<and> list_all2 (fwd h0 m) (temp_roots vm) (temp_roots vm')
     \<and> list_all2 (fwd h0 m) (site_registry vm) (site_registry vm')
     \<and> map fst (symbols vm') = map fst (symbols vm)
     \<and> list_all2 (fwd h0 m) (map snd (symbols vm)) (map snd (symbols vm'))
     \<and> map fst (timer_requests vm') = map fst (timer_requests vm)
     \<and> list_all2 (fwd h0 m) (map snd (timer_requests vm)) (map snd (timer_requests vm'))
     \<and> fwd h0 m (active_process vm) (active_process vm')"

lemma fwds_mono: "m \<subseteq>\<^sub>m m' \<Longrightarrow> list_all2 (fwd h0 m) xs ys \<Longrightarrow> list_all2 (fwd h0 m') xs ys"
  by (auto elim!: list_all2_mono intro: fwd_mono)

lemma roots_fwd_mono: "m \<subseteq>\<^sub>m m' \<Longrightarrow> roots_fwd h0 m vm vm' \<Longrightarrow> roots_fwd h0 m' vm vm'"
  by (simp only: roots_fwd_def) (blast intro: fwds_mono fwd_mono)

lemma roots_fwd_values: "roots_fwd h0 m vm vm' \<Longrightarrow> list_all2 (fwd h0 m) (root_values vm) (root_values vm')"
  by (simp add: roots_fwd_def root_values_def list_all2_appendI)

lemma forward_all_goes:
  assumes "gc_heap h0" and "sinv h0 m st" and "\<forall>v \<in> set vs. valid_value h0 v"
  shows "\<exists>fs st' m'. forward_all vs st = Ok (fs, st') \<and> goes h0 m st m' st' \<and> heap_only st st'
    \<and> list_all2 (fwd h0 m') vs fs"
  using assms(2,3)
proof (induction vs arbitrary: st m)
  case Nil
  then show ?case using goes_refl heap_only_refl by auto
next
  case (Cons v vs)
  then have "valid_value h0 v" by simp
  from forward_goes [OF assms(1) Cons.prems(1) this, of v] obtain f st1 m1 where
    a: "forward v st = Ok (f, st1)" "goes h0 m st m1 st1" "heap_only st st1" "fwd h0 m1 v f" by blast
  from Cons.IH [OF goes_sinv [OF a(2)]] Cons.prems(2) obtain fs st2 m2 where
    b: "forward_all vs st1 = Ok (fs, st2)" "goes h0 m1 st1 m2 st2" "heap_only st1 st2" "list_all2 (fwd h0 m2) vs fs"
    by auto
  then show ?case
    using a goes_trans [OF a(2) b(2)] heap_only_trans [OF a(3) b(3)] fwd_mono [OF goes_mono [OF b(2)] a(4)] by auto
qed

lemma sinv_cong:
  "vm_heap (sv_vm st') = vm_heap (sv_vm st) \<Longrightarrow> sv_work st' = sv_work st \<Longrightarrow> sv_tenured st' = sv_tenured st \<Longrightarrow>
     sinv h0 m st' = sinv h0 m st"
  "vm_heap (sv_vm st') = vm_heap (sv_vm st) \<Longrightarrow> sv_work st' = sv_work st \<Longrightarrow> sv_tenured st' = sv_tenured st \<Longrightarrow>
     goes h0 m0 st0 m st' = goes h0 m0 st0 m st"
  by (simp_all add: sinv_def goes_def)

lemma forward_field_goes:
  assumes g: "gc_heap h0" and i: "sinv h0 m st" and v: "\<forall>v \<in> set (get (sv_vm st)). valid_value h0 v"
    and put: "\<And>vs vm. vm_heap (put vs vm) = vm_heap vm"
  shows "\<exists>st' m' fs h c. forward_field get put st = Ok st' \<and> goes h0 m st m' st'
    \<and> list_all2 (fwd h0 m') (get (sv_vm st)) fs
    \<and> sv_vm st' = put fs ((sv_vm st)\<lparr>vm_heap := h, vm_counters := c\<rparr>)"
proof -
  from forward_all_goes [OF g i v] obtain fs st1 m1 where
    a: "forward_all (get (sv_vm st)) st = Ok (fs, st1)" "goes h0 m st m1 st1" "heap_only st st1"
    "list_all2 (fwd h0 m1) (get (sv_vm st)) fs" by blast
  let ?st = "st1\<lparr>sv_vm := put fs (sv_vm st1)\<rparr>"
  have "goes h0 m st m1 ?st" using a(2) by (subst sinv_cong(2) [of _ st1]) (simp_all add: put)
  moreover obtain h c where "sv_vm st1 = (sv_vm st)\<lparr>vm_heap := h, vm_counters := c\<rparr>"
    using a(3) by (auto simp: heap_only_def)
  then have "sv_vm ?st = put fs ((sv_vm st)\<lparr>vm_heap := h, vm_counters := c\<rparr>)" by simp
  moreover have "forward_field get put st = Ok ?st" using a(1) by (simp add: forward_field_def)
  ultimately show ?thesis using a(4) by blast
qed

lemma scavenge_roots_goes:
  assumes g: "gc_heap h0" and i: "sinv h0 m st" and v: "\<forall>v \<in> set (root_values (sv_vm st)). valid_value h0 v"
  shows "\<exists>st' m'. scavenge_roots st = Ok st' \<and> goes h0 m st m' st' \<and> roots_fwd h0 m' (sv_vm st) (sv_vm st')"
proof -
  let ?vm = "sv_vm st"
  have rv: "\<forall>v \<in> set (specials ?vm). valid_value h0 v" "\<forall>v \<in> set (class_table ?vm). valid_value h0 v"
    "\<forall>v \<in> set (temp_roots ?vm). valid_value h0 v" "\<forall>v \<in> set (site_registry ?vm). valid_value h0 v"
    "\<forall>v \<in> set (map snd (symbols ?vm)). valid_value h0 v"
    "\<forall>v \<in> set (map snd (timer_requests ?vm)). valid_value h0 v" "valid_value h0 (active_process ?vm)"
    using v by (auto simp: root_values_def)
  obtain st1 m1 f1 h1 c1 where s1: "forward_field specials (\<lambda>vs vm. vm\<lparr>specials := vs\<rparr>) st = Ok st1"
    "goes h0 m st m1 st1" "list_all2 (fwd h0 m1) (specials ?vm) f1"
    "sv_vm st1 = (?vm\<lparr>vm_heap := h1, vm_counters := c1\<rparr>)\<lparr>specials := f1\<rparr>"
    using forward_field_goes [OF g i, of specials "\<lambda>vs vm. vm\<lparr>specials := vs\<rparr>"] rv by auto
  obtain st2 m2 f2 h2 c2 where s2: "forward_field class_table (\<lambda>vs vm. vm\<lparr>class_table := vs\<rparr>) st1 = Ok st2"
    "goes h0 m1 st1 m2 st2" "list_all2 (fwd h0 m2) (class_table ?vm) f2"
    "sv_vm st2 = ((sv_vm st1)\<lparr>vm_heap := h2, vm_counters := c2\<rparr>)\<lparr>class_table := f2\<rparr>"
    using forward_field_goes [OF g goes_sinv [OF s1(2)], of class_table "\<lambda>vs vm. vm\<lparr>class_table := vs\<rparr>"] rv s1(4) by auto
  obtain st3 m3 f3 h3 c3 where s3: "forward_field temp_roots (\<lambda>vs vm. vm\<lparr>temp_roots := vs\<rparr>) st2 = Ok st3"
    "goes h0 m2 st2 m3 st3" "list_all2 (fwd h0 m3) (temp_roots ?vm) f3"
    "sv_vm st3 = ((sv_vm st2)\<lparr>vm_heap := h3, vm_counters := c3\<rparr>)\<lparr>temp_roots := f3\<rparr>"
    using forward_field_goes [OF g goes_sinv [OF s2(2)], of temp_roots "\<lambda>vs vm. vm\<lparr>temp_roots := vs\<rparr>"] rv s1(4) s2(4) by auto
  obtain st4 m4 f4 h4 c4 where s4: "forward_field site_registry (\<lambda>vs vm. vm\<lparr>site_registry := vs\<rparr>) st3 = Ok st4"
    "goes h0 m3 st3 m4 st4" "list_all2 (fwd h0 m4) (site_registry ?vm) f4"
    "sv_vm st4 = ((sv_vm st3)\<lparr>vm_heap := h4, vm_counters := c4\<rparr>)\<lparr>site_registry := f4\<rparr>"
    using forward_field_goes [OF g goes_sinv [OF s3(2)], of site_registry "\<lambda>vs vm. vm\<lparr>site_registry := vs\<rparr>"] rv s1(4) s2(4) s3(4) by auto
  obtain st5 m5 f5 h5 c5 where s5: "forward_field (\<lambda>vm. map snd (symbols vm)) (\<lambda>vs vm. vm\<lparr>symbols := zip (map fst (symbols vm)) vs\<rparr>) st4 = Ok st5"
    "goes h0 m4 st4 m5 st5" "list_all2 (fwd h0 m5) (map snd (symbols ?vm)) f5"
    "sv_vm st5 = ((sv_vm st4)\<lparr>vm_heap := h5, vm_counters := c5\<rparr>)\<lparr>symbols := zip (map fst (symbols ?vm)) f5\<rparr>"
    using forward_field_goes [OF g goes_sinv [OF s4(2)], of "\<lambda>vm. map snd (symbols vm)" "\<lambda>vs vm. vm\<lparr>symbols := zip (map fst (symbols vm)) vs\<rparr>"]
      rv s1(4) s2(4) s3(4) s4(4) by auto
  obtain st6 m6 f6 h6 c6 where s6: "forward_field (\<lambda>vm. map snd (timer_requests vm)) (\<lambda>vs vm. vm\<lparr>timer_requests := zip (map fst (timer_requests vm)) vs\<rparr>) st5 = Ok st6"
    "goes h0 m5 st5 m6 st6" "list_all2 (fwd h0 m6) (map snd (timer_requests ?vm)) f6"
    "sv_vm st6 = ((sv_vm st5)\<lparr>vm_heap := h6, vm_counters := c6\<rparr>)\<lparr>timer_requests := zip (map fst (timer_requests ?vm)) f6\<rparr>"
    using forward_field_goes [OF g goes_sinv [OF s5(2)], of "\<lambda>vm. map snd (timer_requests vm)" "\<lambda>vs vm. vm\<lparr>timer_requests := zip (map fst (timer_requests vm)) vs\<rparr>"]
      rv s1(4) s2(4) s3(4) s4(4) s5(4) by auto
  have a6: "active_process (sv_vm st6) = active_process ?vm"
    by (simp add: s1(4) s2(4) s3(4) s4(4) s5(4) s6(4))
  from forward_goes [OF g goes_sinv [OF s6(2)] rv(7), of "active_process ?vm"] obtain f7 st7 m7 where
    s7: "forward (active_process ?vm) st6 = Ok (f7, st7)" "goes h0 m6 st6 m7 st7" "heap_only st6 st7"
    "fwd h0 m7 (active_process ?vm) f7" by blast
  let ?st = "st7\<lparr>sv_vm := (sv_vm st7)\<lparr>active_process := f7\<rparr>\<rparr>"
  have "scavenge_roots st = Ok ?st"
    unfolding scavenge_roots_def s1(1) rbind.simps s2(1) s3(1) s4(1) s5(1) s6(1) a6 s7(1) prod.case by (rule refl)
  moreover have "goes h0 m st m7 st7"
    using s1(2) s2(2) s3(2) s4(2) s5(2) s6(2) s7(2) goes_trans by meson
  then have "goes h0 m st m7 ?st" by (subst sinv_cong(2) [of _ st7]) simp_all
  moreover have "roots_fwd h0 m7 ?vm (sv_vm ?st)"
  proof -
    have mm: "m6 \<subseteq>\<^sub>m m7" "m5 \<subseteq>\<^sub>m m7" "m4 \<subseteq>\<^sub>m m7" "m3 \<subseteq>\<^sub>m m7" "m2 \<subseteq>\<^sub>m m7" "m1 \<subseteq>\<^sub>m m7"
      using goes_mono [OF s7(2)] goes_mono [OF s6(2)] goes_mono [OF s5(2)] goes_mono [OF s4(2)]
        goes_mono [OF s3(2)] goes_mono [OF s2(2)] by (blast intro: map_le_trans)+
    have len: "length f5 = length (symbols ?vm)" "length f6 = length (timer_requests ?vm)"
      using s5(3) s6(3) by (auto dest: list_all2_lengthD)
    obtain h7 c7 where e7: "sv_vm st7 = (sv_vm st6)\<lparr>vm_heap := h7, vm_counters := c7\<rparr>"
      using s7(3) by (auto simp: heap_only_def)
    show ?thesis
      using fwds_mono [OF mm(6) s1(3)] fwds_mono [OF mm(5) s2(3)] fwds_mono [OF mm(4) s3(3)]
        fwds_mono [OF mm(3) s4(3)] fwds_mono [OF mm(2) s5(3)] fwds_mono [OF mm(1) s6(3)] s7(4) len
      by (simp add: roots_fwd_def e7 s1(4) s2(4) s3(4) s4(4) s5(4) s6(4))
  qed
  ultimately show ?thesis by blast
qed

subsection \<open>The stack of the running process\<close>

definition running_stack :: "vm \<Rightarrow> nat set" where
  "running_stack vm = (let ap = active_process vm; s = vslot vm (as_ptr ap) PROCESS_STACK
     in if is_ptr ap \<and> ap \<noteq> nil vm \<and> is_ptr s \<and> s \<noteq> nil vm then {as_ptr s} else {})"

definition live_value :: "heap \<Rightarrow> value \<Rightarrow> bool" where
  "live_value h v \<longleftrightarrow> (is_ptr v \<longrightarrow> as_ptr v \<in> live h)"

text \<open>The running process, if there is one, is an object with a slot for its stack.\<close>

definition process_ready :: "vm \<Rightarrow> bool" where
  "process_ready vm \<longleftrightarrow> (let h = vm_heap vm; ap = active_process vm in
     specials vm \<noteq> [] \<and> live_value h (nil vm) \<and> live_value h ap
     \<and> (is_ptr ap \<and> ap \<noteq> nil vm \<longrightarrow> \<not> is_bytes (header h (as_ptr ap))
          \<and> PROCESS_STACK < unat (num_slots h (as_ptr ap))
          \<and> live_value h (slot h (as_ptr ap) PROCESS_STACK)))"

lemma live_young: "heap_ok h \<Longrightarrow> a \<in> live h \<Longrightarrow> is_young h a \<longleftrightarrow> a \<in> young_objs h"
  using old_object_in_space(2) [of h a] young_object(3) [of h a] by (auto simp: live_def)

lemma fwd_place:
  assumes ok: "heap_ok h0" and i: "sinv h0 m st" and f: "fwd h0 m v w" and l: "live_value h0 v"
  shows "is_ptr w \<longleftrightarrow> is_ptr v" and "is_ptr v \<Longrightarrow> place h0 m (as_ptr v) = Some (as_ptr w)"
proof -
  have c: "copies h0 m (sv_tenured st) (flip_spaces (vm_heap (sv_vm st)))" using i by (simp add: sinv_def Let_def)
  have "(is_ptr w \<longleftrightarrow> is_ptr v) \<and> (is_ptr v \<longrightarrow> place h0 m (as_ptr v) = Some (as_ptr w))"
  proof (cases "is_ptr v \<and> is_young h0 (as_ptr v)")
    case True
    then obtain n where n: "m (as_ptr v) = Some n" "w = from_ptr n" using f by (auto simp: fwd_def)
    have y: "as_ptr v \<in> young_objs h0" "as_ptr v \<notin> old_objs h0"
      using True l live_young [OF ok] old_object_in_space(2) [OF ok] by (auto simp: live_value_def)
    have "n \<in> live (flip_spaces (vm_heap (sv_vm st)))" "heap_ok (flip_spaces (vm_heap (sv_vm st)))"
      using n c by (auto simp: copies_def intro: ranI)
    then have "aligned n" "n < 2 ^ 64" using live_aligned live_bound by blast+
    with n y True show ?thesis by (simp add: place_def is_ptr_aligned)
  next
    case False
    then have w: "w = v" using f by (auto simp: fwd_def)
    have "is_ptr v \<Longrightarrow> as_ptr v \<in> old_objs h0"
      using False l live_young [OF ok] by (auto simp: live_value_def live_def)
    with w show ?thesis by (auto simp: place_def)
  qed
  then show "is_ptr w \<longleftrightarrow> is_ptr v" and "is_ptr v \<Longrightarrow> place h0 m (as_ptr v) = Some (as_ptr w)" by auto
qed

lemma place_inj:
  assumes "sinv h0 m st" and "place h0 m a = Some n" and "place h0 m b = Some n"
  shows "a = b"
proof -
  have "inj_on m (dom m)" and "ran m \<inter> old_objs h0 = {}"
    using assms(1) by (auto simp: sinv_def copies_def Let_def)
  moreover from this(1) have "m a = Some n \<Longrightarrow> m b = Some n \<Longrightarrow> a = b" by (metis inj_onD domI)
  ultimately show ?thesis
    using assms(2,3) unfolding place_def by (auto split: if_splits intro: ranI)
qed

lemma fwd_inject:
  assumes ok: "heap_ok h0" and i: "sinv h0 m st" and v: "fwd h0 m v w" "live_value h0 v"
    and u: "fwd h0 m u w" "live_value h0 u"
  shows "v = u"
proof (cases "is_ptr w")
  case True
  then have "is_ptr v" "is_ptr u" using fwd_place(1) [OF ok i] v u by blast+
  then have "as_ptr v = as_ptr u"
    using fwd_place(2) [OF ok i] v u place_inj [OF i] by blast
  then show ?thesis by simp
next
  case False
  then have "\<not> is_ptr v" "\<not> is_ptr u" using fwd_place(1) [OF ok i] v u by blast+
  then show ?thesis using v u by (simp add: fwd_def)
qed

lemma fwd_unique: "fwd h0 m v w \<Longrightarrow> fwd h0 m v w' \<Longrightarrow> w = w'"
  by (auto simp: fwd_def split: if_splits)

lemma scan_active_stack_goes:
  assumes g: "gc_heap (vm_heap vm0)" and i: "sinv (vm_heap vm0) m st" and r: "process_ready vm0"
    and ap: "fwd (vm_heap vm0) m (active_process vm0) (active_process (sv_vm st))"
    and nl: "fwd (vm_heap vm0) m (nil vm0) (nil (sv_vm st))"
  shows "\<exists>act st' m'. scan_active_stack st = Ok (act, st') \<and> goes (vm_heap vm0) m st m' st' \<and> heap_only st st'
    \<and> (\<forall>a. act = Some a \<longrightarrow> a \<in> live (flip_spaces (vm_heap (sv_vm st'))) \<and> in_old_space (vm_heap (sv_vm st')) a)
    \<and> (\<forall>a \<in> running_stack vm0 \<inter> old_objs (vm_heap vm0). act = Some a \<and> scanned (vm_heap vm0) m' st' a a)"
proof -
  let ?h = "vm_heap vm0" and ?oap = "active_process vm0" and ?ap = "active_process (sv_vm st)"
  have ok: "heap_ok ?h" using g by (simp add: gc_heap_def)
  have lv: "live_value ?h (nil vm0)" "live_value ?h ?oap" using r by (simp_all add: process_ready_def Let_def)
  have eqs: "(is_ptr ?ap \<and> ?ap \<noteq> nil (sv_vm st)) \<longleftrightarrow> (is_ptr ?oap \<and> ?oap \<noteq> nil vm0)"
    using fwd_place(1) [OF ok i ap lv(2)] fwd_inject [OF ok i ap lv(2) _ lv(1)] fwd_unique [OF nl] ap nl by metis
  show ?thesis
  proof (cases "is_ptr ?ap \<and> ?ap \<noteq> nil (sv_vm st)")
    case False
    then have "scan_active_stack st = Ok (None, st)" by (auto simp: scan_active_stack_def Let_def)
    moreover have "running_stack vm0 = {}" using False eqs by (auto simp: running_stack_def Let_def)
    ultimately show ?thesis using goes_refl [OF i] heap_only_refl by auto
  next
    case True
    let ?a = "as_ptr ?oap" and ?p = "as_ptr ?ap" and ?N = PROCESS_STACK
    have pr: "\<not> is_bytes (header ?h ?a)" "?N < unat (num_slots ?h ?a)" "live_value ?h (slot ?h ?a ?N)"
      using r True eqs by (auto simp: process_ready_def Let_def)
    have p: "place ?h m ?a = Some ?p" using fwd_place(2) [OF ok i ap lv(2)] True eqs by blast
    let ?os = "slot ?h ?a ?N" and ?s = "vslot (sv_vm st) ?p ?N"
    have sl: "?s = ?os \<or> fwd ?h m ?os ?s"
      using placed_slot [OF i p pr(2)] pr(1) by (auto simp: slot_ok_def)
    have ns: "?s \<noteq> nil (sv_vm st) \<and> is_ptr ?s" if "?os \<noteq> nil vm0" "is_ptr ?os"
    proof
      show "?s \<noteq> nil (sv_vm st)"
      proof
        assume e: "?s = nil (sv_vm st)"
        show False
        proof (cases "fwd ?h m ?os ?s")
          case True
          then show False using fwd_inject [OF ok i _ pr(3) _ lv(1)] nl that(1) e by metis
        next
          case False
          then have s: "?s = ?os" using sl by simp
          then have "is_young ?h (as_ptr ?os)" using False that(2) by (auto simp: fwd_def split: if_splits)
          moreover have "\<not> is_young ?h (as_ptr (nil (sv_vm st)))"
            using fwd_not_young [OF i nl] that(2) s e by simp
          ultimately show False using s e by simp
        qed
      qed
      show "is_ptr ?s" using sl that fwd_place(1) [OF ok i _ pr(3)] by auto
    qed
    have rs: "running_stack vm0 = (if is_ptr ?os \<and> ?os \<noteq> nil vm0 then {as_ptr ?os} else {})"
      using True eqs by (auto simp: running_stack_def vslot_def Let_def)
    show ?thesis
    proof (cases "is_ptr ?s \<and> ?s \<noteq> nil (sv_vm st)")
      case False
      then have "scan_active_stack st = Ok (None, st)" using True by (auto simp: scan_active_stack_def Let_def)
      moreover have "running_stack vm0 = {}" using False ns rs by auto
      ultimately show ?thesis using goes_refl [OF i] heap_only_refl by auto
    next
      case stack: True
      from forward_slot [OF g i p pr(1,2)] obtain f st1 m1 where
        F: "forward ?s st = Ok (f, st1)" "fwd ?h m1 ?os f" and
        G: "let st2 = (if f \<noteq> ?s then st1\<lparr>sv_vm := vset_slot_raw (sv_vm st1) ?p ?N f\<rparr> else st1)
           in goes ?h m st m1 st2 \<and> heap_only st st2
              \<and> fwd ?h m1 ?os (slot (flip_spaces (vm_heap (sv_vm st2))) ?p ?N)" by blast
      define st2 where "st2 = (if f \<noteq> ?s then st1\<lparr>sv_vm := vset_slot_raw (sv_vm st1) ?p ?N f\<rparr> else st1)"
      have S2: "goes ?h m st m1 st2" "heap_only st st2" using G by (simp_all add: st2_def Let_def)
      note i2 = goes_sinv [OF S2(1)]
      have "is_ptr ?os" using sl stack fwd_place(1) [OF ok i _ pr(3)] by auto
      then have pf: "place ?h m1 (as_ptr ?os) = Some (as_ptr f)" using fwd_place(2) [OF ok i2 F(2) pr(3)] by blast
      from scan_object_goes [OF g i2 pf] obtain st3 m3 where
        S3: "scan_object (as_ptr f) st2 = Ok st3" "goes ?h m1 st2 m3 st3" "heap_only st2 st3"
          "scanned ?h m3 st3 (as_ptr ?os) (as_ptr f)" by blast
      let ?act = "if in_old_space (vm_heap (sv_vm st3)) (as_ptr f) then Some (as_ptr f) else None"
      note i3 = goes_sinv [OF S3(2)] and p3 = place_mono [OF goes_mono [OF S3(2)] pf]
      have "scan_active_stack st = Ok (?act, st3)"
        unfolding scan_active_stack_def Let_def
        using True stack F(1) S3(1) by (simp add: st2_def)
      moreover have "goes ?h m st m3 st3" "heap_only st st3"
        using goes_trans [OF S2(1) S3(2)] heap_only_trans [OF S2(2) S3(3)] by auto
      moreover have "\<forall>a. ?act = Some a \<longrightarrow> a \<in> live (flip_spaces (vm_heap (sv_vm st3))) \<and> in_old_space (vm_heap (sv_vm st3)) a"
        using place_live(1) [OF i3 p3] by simp
      moreover have "?act = Some a \<and> scanned ?h m3 st3 a a" if "a \<in> running_stack vm0 \<inter> old_objs ?h" for a
      proof -
        have a: "a = as_ptr ?os" "a \<in> old_objs ?h" using that rs by (auto split: if_splits)
        then have af: "as_ptr f = a" using pf by (simp add: place_def)
        have "a \<in> live (flip_spaces (vm_heap (sv_vm st3)))" using place_live(1) [OF i3 p3] af by simp
        have "in_old_space ?h a" using old_object_in_space(1) [OF ok a(2)] .
        moreover have "same_extent (old ?h) (old (vm_heap (sv_vm st3)))"
          using i3 by (simp add: sinv_def volume_def Let_def)
        ultimately have "in_old_space (vm_heap (sv_vm st3)) a"
          by (simp add: in_old_space_def space_contains_def space_limit_def same_extent_def)
        with af S3(4) a(1) show ?thesis by simp
      qed
      ultimately show ?thesis by blast
    qed
  qed
qed

end
