(* ===== verification/Scavenge_Correct.thy ===== *)
theory Scavenge_Correct
  imports Scavenge_Roots Sample_Heap
begin

section \<open>A scavenge preserves the object graph\<close>

text \<open>
  The theorems about collect_young: it never fails, it moves the objects reachable from the roots
  without changing what they are or how they point to each other, it leaves a complete remembered
  set, and the machine can be collected again afterwards.
\<close>

subsection \<open>The start\<close>

definition gc_ready :: "vm \<Rightarrow> bool" where
  "gc_ready vm \<longleftrightarrow> gc_heap (vm_heap vm) \<and> process_ready vm
     \<and> (\<forall>v \<in> set (root_values vm). valid_value (vm_heap vm) v)
     \<and> remembered_set_ok (vm_heap vm) (running_stack vm)"

lemma space_ok_reset: "space_ok s \<Longrightarrow> space_ok (s\<lparr>sp_alloc := 0\<rparr>)"
  by (simp add: space_ok_def space_limit_def)

lemma old_reads:
  assumes ok: "heap_ok h" and x: "x \<in> old_objs h" and a: "storage_start h x \<le> a" "a < obj_end h x"
  shows "\<not> is_young h a"
proof -
  have r: "region h (sp_base (old h)) (objects h (old h)) (space_top (old h))"
    and t: "space_top (old h) \<le> space_limit (old h)" and ap: "apart (young_from h) (old h)"
    using ok by (auto simp: heap_ok_def parsable_def space_top_le_limit)
  from region_bounds(1,4) [OF r x] t ap a show ?thesis
    by (auto simp: is_young_def space_contains_def apart_def)
qed

lemma flip_start:
  assumes ok: "heap_ok h"
  shows "heap_ok (flip_spaces h)" and "objects (flip_spaces h) (old h) = objects h (old h)"
    and "live (flip_spaces h) = old_objs h"
    and "x \<in> old_objs h \<Longrightarrow> header (flip_spaces h) x = header h x \<and> num_slots (flip_spaces h) x = num_slots h x
      \<and> (\<forall>i < unat (num_slots h x). slot (flip_spaces h) x i = slot h x i)"
proof -
  let ?g = "flip_spaces h"
  have h: "space_ok (young_from h)" "space_ok (young_to h)" "space_ok (old h)" "apart (young_from h) (young_to h)"
    "apart (young_from h) (old h)" "apart (young_to h) (old h)" "zero_free (mem h) (young_to h)"
    "zero_free (mem h) (old h)" "sp_alloc (young_to h) = 0" "parsable h (old h)"
    using ok by (simp_all add: heap_ok_def)
  have same: "mem ?g x = mem h x" if "space_contains s x" "s = young_to h \<or> s = old h" for x s
    using that h(4,5) apart_not_contains [of "young_from h" s x] by auto
  have t: "space_top (old h) \<le> space_limit (old h)" using h by (simp add: space_top_le_limit)
  have m: "mem ?g a = mem h a" if "sp_base (old h) \<le> a" "a < space_top (old h)" for a
    using that t by (intro same [of "old h"]) (auto simp: space_contains_def)
  show o: "objects ?g (old h) = objects h (old h)" by (rule parsable_mem_cong(2) [OF h(10) m])
  have po: "parsable ?g (old h)" by (rule parsable_mem_cong(1) [OF h(10) m])
  have z: "zero_free (mem ?g) (young_to h)" "zero_free (mem ?g) (old h)"
    using h(7,8) same base_le_top by (auto simp: zero_free_def space_contains_def)
  have zf: "zero_free (mem ?g) ((young_from h)\<lparr>sp_alloc := 0\<rparr>)"
    by (auto simp: zero_free_def space_contains_def space_top_def space_limit_def)
  have ap: "apart (young_to h) ((young_from h)\<lparr>sp_alloc := 0\<rparr>)" "apart ((young_from h)\<lparr>sp_alloc := 0\<rparr>) (old h)"
    using h(4,5) by (auto simp: apart_def space_limit_def)
  show "heap_ok ?g"
    using h z zf po ap parsable_empty [OF h(9), of ?g] space_ok_reset [OF h(1)] by (simp add: heap_ok_def)
  show "live ?g = old_objs h" using o objects_empty [OF h(9)] by (simp add: live_def)
  assume x: "x \<in> old_objs h"
  have l: "x \<in> live h" using x by (simp add: live_def)
  note st = storage_of_live(1,2) [OF ok l]
  have w: "heap_word ?g a = heap_word h a" if "storage_start h x \<le> a" "a < obj_end h x" for a
    using old_reads [OF ok x that] by (simp add: heap_word_def is_young_def)
  have hd: "header ?g x = header h x" using st by (simp add: header_def w)
  have "has_overflow_word h x \<Longrightarrow> heap_word ?g (x - 8) = heap_word h (x - 8)"
    using live_shape(2) [OF ok l] st by (intro w) auto
  then have "num_slots ?g x = num_slots h x" using hd by (auto simp: num_slots_def has_overflow_word_def Let_def)
  moreover have "slot ?g x i = slot h x i" if "i < unat (num_slots h x)" for i using st that by (simp add: slot_def w)
  ultimately show "header ?g x = header h x \<and> num_slots ?g x = num_slots h x
      \<and> (\<forall>i < unat (num_slots h x). slot ?g x i = slot h x i)" using hd by blast
qed

lemma sinv_start:
  assumes "heap_ok (vm_heap vm)"
  shows "sinv (vm_heap vm) Map.empty \<lparr>sv_vm = vm, sv_work = [], sv_tenured = []\<rparr>"
  using flip_start [OF assms] assms
  by (auto simp: sinv_def from_words_def volume_def same_extent_def copies_def place_def same_object_def
      same_header_def slot_ok_def heap_ok_def split: if_splits)

subsection \<open>Rebuilding the remembered set\<close>

lemma object_points_young_eq: "object_points_young h x = holds_young h x"
  by (auto simp: object_points_young_def holds_young_def list_ex_iff)

definition rechecked :: "heap \<Rightarrow> nat set \<Rightarrow> heap \<Rightarrow> bool" where
  "rechecked g X g' \<longleftrightarrow> heap_ok g' \<and> young_from g' = young_from g \<and> young_to g' = young_to g \<and> old g' = old g
     \<and> live g' = live g \<and> objects g' (old g) = objects g (old g) \<and> objects g' (young_from g) = objects g (young_from g)
     \<and> (\<forall>x. same_header (header g x) (header g' x)
          \<and> gc_bits (header g' x) AND GC_BIT_MARK = gc_bits (header g x) AND GC_BIT_MARK
          \<and> remembered g' x = (if x \<in> X then holds_young g x else remembered g x))
     \<and> (\<forall>x \<in> live g. num_slots g' x = num_slots g x \<and> (\<forall>i < unat (num_slots g x). slot g' x i = slot g x i))"

lemma same_header_refl: "same_header w w"
  by (simp add: same_header_def)

lemma same_header_trans: "same_header u v \<Longrightarrow> same_header v w \<Longrightarrow> same_header u w"
  by (simp add: same_header_def)

lemma rechecked_holds_young:
  assumes "rechecked g X g'" and "x \<in> live g"
  shows "holds_young g' x = holds_young g x"
  using assms by (auto simp: rechecked_def holds_young_def is_young_def is_bytes_def same_header_def)

lemma remembered_bit:
  "((g :: u64) OR GC_BIT_REMEMBERED) AND GC_BIT_REMEMBERED \<noteq> 0"
  "(g AND NOT GC_BIT_REMEMBERED) AND GC_BIT_REMEMBERED = 0"
  "(g OR GC_BIT_REMEMBERED) AND GC_BIT_MARK = g AND GC_BIT_MARK"
  "(g AND NOT GC_BIT_REMEMBERED) AND GC_BIT_MARK = g AND GC_BIT_MARK"
  "(g OR GC_BIT_REMEMBERED) AND GC_BIT_IMMUTABLE = g AND GC_BIT_IMMUTABLE"
  "(g AND NOT GC_BIT_REMEMBERED) AND GC_BIT_IMMUTABLE = g AND GC_BIT_IMMUTABLE"
proof -
  show "(g OR GC_BIT_REMEMBERED) AND GC_BIT_REMEMBERED \<noteq> 0"
    using word_ao_absorbs(2) [of 2 g] by (simp add: ac_simps)
  have b: "bit (2 :: u64) i \<longleftrightarrow> i = 1" "bit (128 :: u64) i \<longleftrightarrow> i = 7" "bit (1 :: u64) i \<longleftrightarrow> i = 0" for i
    using bit_exp_iff [where 'a = u64, of 1 i] bit_exp_iff [where 'a = u64, of 7 i] bit_1_iff [where 'a = u64, of i] by auto
  show "(g AND NOT GC_BIT_REMEMBERED) AND GC_BIT_REMEMBERED = 0"
    "(g OR GC_BIT_REMEMBERED) AND GC_BIT_MARK = g AND GC_BIT_MARK"
    "(g AND NOT GC_BIT_REMEMBERED) AND GC_BIT_MARK = g AND GC_BIT_MARK"
    "(g OR GC_BIT_REMEMBERED) AND GC_BIT_IMMUTABLE = g AND GC_BIT_IMMUTABLE"
    "(g AND NOT GC_BIT_REMEMBERED) AND GC_BIT_IMMUTABLE = g AND GC_BIT_IMMUTABLE"
    by (rule bit_word_eqI; simp only: field_bits b; auto)+
qed

lemma rechecked_header:
  assumes ok: "heap_ok g" and x: "x \<in> live g" and f: "gc_fits w"
    and w: "w AND GC_BIT_MARK = gc_bits (header g x) AND GC_BIT_MARK"
      "w AND GC_BIT_IMMUTABLE = gc_bits (header g x) AND GC_BIT_IMMUTABLE"
      "(w AND GC_BIT_REMEMBERED \<noteq> 0) = holds_young g x"
  shows "rechecked g {x} (set_header g x (with_gc_bits (header g x) w))"
proof -
  let ?w = "with_gc_bits (header g x) w"
  have sh: "shape_bits (header g x) ?w" by (rule shape_bits_with_gc_bits [OF f])
  note a = header_write_ok [OF ok x sh]
  have "num_slots (set_header g x ?w) y = num_slots g y" if "y \<in> live g" for y
    using same_shape_accessors(2) [OF header_write_shape [OF ok x sh that]] .
  moreover have "slot (set_header g x ?w) y i = slot g y i" if "y \<in> live g" "i < unat (num_slots g y)" for y i
    using slot_set_header [OF ok x that] .
  moreover have "same_header (header g x) ?w" by (rule same_header_gc_bits [OF f w(2)])
  ultimately show ?thesis
    using a w gc_field.get_put [OF f, of "header g x"]
    by (auto simp: rechecked_def header_set_header remembered_def same_header_refl)
qed

lemma rechecked_ssb: "rechecked g X h \<Longrightarrow> rechecked g X (h\<lparr>ssb := l\<rparr>)"
proof -
  assume a: "rechecked g X h"
  have e: "mem (h\<lparr>ssb := l\<rparr>) = mem h" by simp
  from a show ?thesis
    using heap_ok_mem_cong [of h "h\<lparr>ssb := l\<rparr>"]
    by (simp add: rechecked_def mem_only [OF e] mem_only_objects [OF e] live_def remembered_def)
qed

lemma recheck_object_rechecked:
  assumes ok: "heap_ok g" and x: "x \<in> live g"
  shows "rechecked g {x} (recheck_object g x)"
    and "ssb (recheck_object g x) = ssb g @ (if holds_young g x then [x] else [])"
proof -
  have same: "rechecked g {x} g" if "remembered g x = holds_young g x"
    using ok that by (simp add: rechecked_def same_header_refl)
  define b where "b = gc_bits (header g x)"
  define on off where "on = b OR GC_BIT_REMEMBERED" and "off = b AND NOT GC_BIT_REMEMBERED"
  have f: "gc_fits on" "gc_fits off"
    using remember_fits [of "header g x"] gc_fits_and [OF gc_field.fits_get, of "header g x"] by (simp_all add: on_def off_def b_def)
  have "rechecked g {x} (set_header g x (with_gc_bits (header g x) on))" if "holds_young g x"
    using remembered_bit(1,3,5) [of b] that by (intro rechecked_header [OF ok x f(1)]) (simp_all only: on_def b_def, simp)
  moreover have "rechecked g {x} (set_header g x (with_gc_bits (header g x) off))" if "\<not> holds_young g x"
    using remembered_bit(2,4,6) [of b] that by (intro rechecked_header [OF ok x f(2)]) (simp_all only: off_def b_def, simp)
  ultimately show "rechecked g {x} (recheck_object g x)"
    using same rechecked_ssb unfolding recheck_object_def Let_def object_points_young_eq remembered_def
      b_def [symmetric] on_def [symmetric] off_def [symmetric] by simp
  show "ssb (recheck_object g x) = ssb g @ (if holds_young g x then [x] else [])"
    by (simp add: recheck_object_def Let_def object_points_young_eq)
qed

lemma rechecked_trans:
  assumes a: "rechecked g X g1" and b: "rechecked g1 Y g2" and y: "Y \<subseteq> live g"
  shows "rechecked g (X \<union> Y) g2"
proof -
  have "holds_young g1 x = holds_young g x" if "x \<in> Y" for x using rechecked_holds_young [OF a] y that by blast
  moreover have "same_header (header g x) (header g2 x)" for x
    using a b same_header_trans unfolding rechecked_def by blast
  ultimately show ?thesis using a b unfolding rechecked_def by auto
qed

lemma recheck_all:
  assumes "heap_ok g" and "set xs \<subseteq> live g"
  shows "rechecked g (set xs) (foldl recheck_object g xs)"
    and "ssb (foldl recheck_object g xs) = ssb g @ filter (holds_young g) xs"
proof -
  have "rechecked g (set xs) (foldl recheck_object g xs)
    \<and> ssb (foldl recheck_object g xs) = ssb g @ filter (holds_young g) xs"
    using assms(2)
  proof (induction xs rule: rev_induct)
    case Nil
    then show ?case using assms(1) by (simp add: rechecked_def same_header_refl)
  next
    case (snoc x xs)
    let ?g = "foldl recheck_object g xs"
    have r: "rechecked g (set xs) ?g" and s: "ssb ?g = ssb g @ filter (holds_young g) xs" and x: "x \<in> live g"
      using snoc by auto
    have ok: "heap_ok ?g" "x \<in> live ?g" using r x by (simp_all add: rechecked_def)
    show ?case
      using rechecked_trans [OF r recheck_object_rechecked(1) [OF ok]] x recheck_object_rechecked(2) [OF ok] s
        rechecked_holds_young [OF r x] by simp
  qed
  then show "rechecked g (set xs) (foldl recheck_object g xs)"
    and "ssb (foldl recheck_object g xs) = ssb g @ filter (holds_young g) xs" by auto
qed

subsection \<open>The whole scavenge\<close>

text \<open>
  The object at n in the heap h is the object at a in h0: same class, format, hash, immutable bit and
  size; the slots of a byte object are the same words, other slots hold the forwarded values.
\<close>

definition relocated :: "heap \<Rightarrow> (nat \<rightharpoonup> nat) \<Rightarrow> heap \<Rightarrow> nat \<Rightarrow> nat \<Rightarrow> bool" where
  "relocated h0 m h a n \<longleftrightarrow> same_header (header h0 a) (header h n) \<and> num_slots h n = num_slots h0 a
     \<and> (\<forall>i < unat (num_slots h0 a). if is_bytes (header h0 a) then slot h n i = slot h0 a i
          else fwd h0 m (slot h0 a i) (slot h n i))"

text \<open>
  The objects of h are the old objects of h0, where they were, and the copies of some of its young
  objects; nothing is merged and nothing else is there.
\<close>

definition same_graph :: "heap \<Rightarrow> (nat \<rightharpoonup> nat) \<Rightarrow> heap \<Rightarrow> bool" where
  "same_graph h0 m h \<longleftrightarrow> dom m \<subseteq> young_objs h0 \<and> inj_on m (dom m)
     \<and> live h = ran m \<union> old_objs h0 \<and> ran m \<inter> old_objs h0 = {}
     \<and> (\<forall>a n. place h0 m a = Some n \<longrightarrow> relocated h0 m h a n)"

lemma copies_ssb: "copies h0 m t (g\<lparr>ssb := l\<rparr>) = copies h0 m t g"
proof -
  have e: "mem (g\<lparr>ssb := l\<rparr>) = mem g" by simp
  show ?thesis
    by (simp add: copies_def same_object_def slot_ok_def live_def heap_ok_def mem_only [OF e] mem_only_objects [OF e])
qed

definition drained_scav :: "scav \<Rightarrow> scav" where
  "drained_scav st = st\<lparr>sv_vm := count_drained ((sv_vm st)\<lparr>vm_heap := (vm_heap (sv_vm st))\<lparr>ssb := []\<rparr>\<rparr>)
     (length (ssb (vm_heap (sv_vm st))))\<rparr>"

lemma drained_keeps:
  assumes "sinv h0 m st"
  shows "sinv h0 m (drained_scav st)" and "heap_only st (drained_scav st)" and "ssb (vm_heap (sv_vm (drained_scav st))) = []"
    and "scanned h0 m (drained_scav st) a n = scanned h0 m st a n"
    and "vm_heap (sv_vm (drained_scav st)) = (vm_heap (sv_vm st))\<lparr>ssb := []\<rparr>"
    and "sv_work (drained_scav st) = sv_work st"
proof -
  let ?h = "vm_heap (sv_vm st)"
  show h: "vm_heap (sv_vm (drained_scav st)) = ?h\<lparr>ssb := []\<rparr>"
    and "sv_work (drained_scav st) = sv_work st" by (simp_all add: drained_scav_def count_drained_def)
  have fl: "flip_spaces (?h\<lparr>ssb := []\<rparr>) = (flip_spaces ?h)\<lparr>ssb := []\<rparr>"
    by (simp add: flip_spaces_def space_reset_def)
  have e: "mem ((flip_spaces ?h)\<lparr>ssb := []\<rparr>) = mem (flip_spaces ?h)" by simp
  show "sinv h0 m (drained_scav st)"
    using assms unfolding sinv_def Let_def h fl copies_ssb
    by (simp add: from_words_def volume_def drained_scav_def)
  show "ssb (vm_heap (sv_vm (drained_scav st))) = []" by (simp add: h)
  show "scanned h0 m (drained_scav st) a n = scanned h0 m st a n"
    unfolding scanned_def h fl mem_only(3) [OF e] by (rule refl)
  show "heap_only st (drained_scav st)"
    unfolding heap_only_def drained_scav_def count_drained_def
    by (intro exI [of _ "?h\<lparr>ssb := []\<rparr>"] exI) simp
qed

lemma heap_only_sel:
  assumes "heap_only st st'"
  shows "specials (sv_vm st') = specials (sv_vm st)" and "class_table (sv_vm st') = class_table (sv_vm st)"
    and "temp_roots (sv_vm st') = temp_roots (sv_vm st)" and "site_registry (sv_vm st') = site_registry (sv_vm st)"
    and "symbols (sv_vm st') = symbols (sv_vm st)" and "timer_requests (sv_vm st') = timer_requests (sv_vm st)"
    and "active_process (sv_vm st') = active_process (sv_vm st)" and "nil (sv_vm st') = nil (sv_vm st)"
  using assms by (auto simp: heap_only_def nil_def)

lemma roots_fwd_heap_only: "roots_fwd h0 m vm (sv_vm st) \<Longrightarrow> heap_only st st' \<Longrightarrow> roots_fwd h0 m vm (sv_vm st')"
  by (simp add: roots_fwd_def heap_only_sel)

text \<open>The state a scavenge is in when its work queue is empty.\<close>

definition closed_scav :: "vm \<Rightarrow> (nat \<rightharpoonup> nat) \<Rightarrow> nat option \<Rightarrow> scav \<Rightarrow> bool" where
  "closed_scav vm m act st \<longleftrightarrow> sinv (vm_heap vm) m st \<and> roots_fwd (vm_heap vm) m vm (sv_vm st)
     \<and> ssb (vm_heap (sv_vm st)) = []
     \<and> (\<forall>a n. m a = Some n \<longrightarrow> scanned (vm_heap vm) m st a n)
     \<and> (\<forall>a \<in> set (ssb (vm_heap vm)). scanned (vm_heap vm) m st a a)
     \<and> (\<forall>a \<in> running_stack vm \<inter> old_objs (vm_heap vm). act = Some a \<and> scanned (vm_heap vm) m st a a)
     \<and> (\<forall>a. act = Some a \<longrightarrow> a \<in> live (flip_spaces (vm_heap (sv_vm st))) \<and> in_old_space (vm_heap (sv_vm st)) a)"

lemma in_old_extent: "same_extent (old h) (old h') \<Longrightarrow> in_old_space h' a = in_old_space h a"
  by (simp add: same_extent_def in_old_space_def space_contains_def space_limit_def)

lemma sinv_extent: "sinv h0 m st \<Longrightarrow> in_old_space (vm_heap (sv_vm st)) a = in_old_space h0 a"
  by (rule in_old_extent) (simp add: sinv_def volume_def Let_def)

lemma keeps_live:
  assumes "sinv h0 m st" and "sinv h0 m' st'" and "m \<subseteq>\<^sub>m m'"
  shows "live (flip_spaces (vm_heap (sv_vm st))) \<subseteq> live (flip_spaces (vm_heap (sv_vm st')))"
proof -
  have "ran m \<subseteq> ran m'" using assms(3) by (auto simp: ran_def map_le_def dom_def) metis
  with assms(1,2) show ?thesis by (auto simp: sinv_def copies_def Let_def)
qed

lemma scavenge_closes:
  assumes r: "gc_ready vm"
  defines "vm0 \<equiv> (begin_collection vm)\<lparr>scavenge_count := scavenge_count vm + 1\<rparr>"
  shows "\<exists>m act st1 st2 st4 st5. scavenge_roots \<lparr>sv_vm = vm0, sv_work = [], sv_tenured = []\<rparr> = Ok st1
    \<and> scan_active_stack st1 = Ok (act, st2) \<and> ssb (vm_heap (sv_vm st2)) = ssb (vm_heap vm)
    \<and> scan_objects (ssb (vm_heap vm)) (drained_scav st2) = Ok st4 \<and> scav_close st4 = Ok st5
    \<and> closed_scav vm m act st5"
proof -
  let ?h = "vm_heap vm"
  have h: "vm_heap vm0 = ?h" by (simp add: vm0_def begin_collection_def)
  have g: "gc_heap ?h" and pr: "process_ready vm0" and rv: "\<forall>v \<in> set (root_values vm0). valid_value ?h v"
    and rs: "remembered_set_ok ?h (running_stack vm)"
    and same: "running_stack vm0 = running_stack vm" "nil vm0 = nil vm" "roots_fwd ?h m vm0 v = roots_fwd ?h m vm v" for m v
    using r by (simp_all add: gc_ready_def process_ready_def root_values_def running_stack_def vslot_def roots_fwd_def
        nil_def vm0_def begin_collection_def)
  have ok: "heap_ok ?h" using g by (simp add: gc_heap_def)
  let ?st0 = "\<lparr>sv_vm = vm0, sv_work = [], sv_tenured = []\<rparr>"
  have i0: "sinv ?h Map.empty ?st0" using sinv_start [of vm0] ok by (simp add: h)
  from scavenge_roots_goes [OF g i0] rv obtain st1 m1 where
    s1: "scavenge_roots ?st0 = Ok st1" "goes ?h Map.empty ?st0 m1 st1" "roots_fwd ?h m1 vm0 (sv_vm st1)" by auto
  have sp: "specials vm0 \<noteq> []" using pr by (simp add: process_ready_def Let_def)
  have nl: "fwd ?h m1 (nil vm0) (nil (sv_vm st1))" "fwd ?h m1 (active_process vm0) (active_process (sv_vm st1))"
    using s1(3) sp list_all2_nthD [of "fwd ?h m1" "specials vm0" "specials (sv_vm st1)" SPECIAL_NIL]
    by (simp_all add: roots_fwd_def nil_def)
  note i1 = goes_sinv [OF s1(2)]
  from scan_active_stack_goes [of vm0, unfolded h, OF g i1 pr nl(2,1)] obtain act st2 m2 where
    s2: "scan_active_stack st1 = Ok (act, st2)" "goes ?h m1 st1 m2 st2" "heap_only st1 st2"
    "\<forall>a. act = Some a \<longrightarrow> a \<in> live (flip_spaces (vm_heap (sv_vm st2))) \<and> in_old_space (vm_heap (sv_vm st2)) a"
    "\<forall>a \<in> running_stack vm0 \<inter> old_objs ?h. act = Some a \<and> scanned ?h m2 st2 a a" by blast
  note i2 = goes_sinv [OF s2(2)]
  note d = drained_keeps [OF i2]
  let ?dr = "ssb ?h"
  have ssb2: "ssb (vm_heap (sv_vm st2)) = ?dr" using s1(2) s2(2) by (simp add: goes_def h)
  have "set ?dr \<subseteq> old_objs ?h" using rs by (simp add: remembered_set_ok_def ssb_ok_def)
  from scan_objects_keeps [OF g d(1) this] obtain st4 m4 where
    s4: "scan_objects ?dr (drained_scav st2) = Ok st4" "goes ?h m2 (drained_scav st2) m4 st4"
    "heap_only (drained_scav st2) st4" "\<forall>a \<in> set ?dr. scanned ?h m4 st4 a a" by blast
  note i4 = goes_sinv [OF s4(2)]
  obtain n1 n2 n4 where w: "sv_work st1 = n1" "ran m1 = set n1" "sv_work st2 = n2 @ sv_work st1" "ran m2 = ran m1 \<union> set n2"
    "sv_work st4 = n4 @ sv_work (drained_scav st2)" "ran m4 = ran m2 \<union> set n4"
    using s1(2) s2(2) s4(2) by (auto simp: goes_def)
  then have "ran m4 = set (sv_work st4)" using d(6) by auto
  then have "\<forall>a n. m4 a = Some n \<longrightarrow> n \<notin> set (sv_work st4) \<longrightarrow> scanned ?h m4 st4 a n" by (auto intro: ranI)
  from scav_close_keeps [OF g i4 this] obtain st5 m5 where
    s5: "scav_close st4 = Ok st5" "keeps ?h m4 st4 m5 st5" "\<forall>a n. m5 a = Some n \<longrightarrow> scanned ?h m5 st5 a n" by blast
  have i5: "sinv ?h m5 st5" using s5(2) by (simp add: keeps_def)
  have po: "place ?h m a = Some a" if "a \<in> old_objs ?h" for m a using that by (simp add: place_def)
  have k45: "scanned ?h m5 st5 a a" if "a \<in> old_objs ?h" "scanned ?h m4 st4 a a" for a
    using s5(2) po [OF that(1)] that(2) by (simp add: keeps_def)
  have m12: "m1 \<subseteq>\<^sub>m m5" "m2 \<subseteq>\<^sub>m m5" "m4 \<subseteq>\<^sub>m m5"
    using goes_mono [OF s2(2)] goes_mono [OF s4(2)] s5(2) by (auto simp: keeps_def intro: map_le_trans)
  have ho: "heap_only st1 st5"
    using s2(3) d(2) s4(3) s5(2) by (auto simp: keeps_def intro: heap_only_trans)
  have "closed_scav vm m5 act st5"
    unfolding closed_scav_def
  proof (intro conjI)
    show "roots_fwd ?h m5 vm (sv_vm st5)"
      using roots_fwd_heap_only [OF roots_fwd_mono [OF m12(1) s1(3)] ho] by (simp add: same)
    show "ssb (vm_heap (sv_vm st5)) = []" using s5(2) s4(2) d(3) by (simp add: keeps_def goes_def)
    show "\<forall>a \<in> set ?dr. scanned ?h m5 st5 a a" using s4(4) k45 \<open>set ?dr \<subseteq> old_objs ?h\<close> by blast
    show "\<forall>a \<in> running_stack vm \<inter> old_objs ?h. act = Some a \<and> scanned ?h m5 st5 a a"
    proof
      fix a assume a: "a \<in> running_stack vm \<inter> old_objs ?h"
      then have "act = Some a" "scanned ?h m2 (drained_scav st2) a a" using s2(5) d(4) by (auto simp: same)
      with goes_scanned [OF s4(2) po] a k45 show "act = Some a \<and> scanned ?h m5 st5 a a" by blast
    qed
    show "\<forall>a. act = Some a \<longrightarrow> a \<in> live (flip_spaces (vm_heap (sv_vm st5))) \<and> in_old_space (vm_heap (sv_vm st5)) a"
      using s2(4) keeps_live [OF i2 i5 m12(2)] sinv_extent [OF i2] sinv_extent [OF i5] by blast
  qed (use i5 s5(3) in auto)
  with s1(1) s2(1) ssb2 s4(1) s5(1) show ?thesis by blast
qed

text \<open>All objects of the heap built have been scanned; the old ones that were not had nothing to scan.\<close>

lemma closed_relocated:
  assumes r: "gc_ready vm" and c: "closed_scav vm m act st"
  shows "place (vm_heap vm) m a = Some n \<Longrightarrow> relocated (vm_heap vm) m (flip_spaces (vm_heap (sv_vm st))) a n"
    and "same_graph (vm_heap vm) m (flip_spaces (vm_heap (sv_vm st)))"
proof -
  let ?h = "vm_heap vm" and ?g = "flip_spaces (vm_heap (sv_vm st))"
  have i: "sinv ?h m st" and ok: "heap_ok ?h" and rs: "remembered_set_ok ?h (running_stack vm)"
    using r c by (simp_all add: closed_scav_def gc_ready_def gc_heap_def)
  have rel: "relocated ?h m ?g a n" if p: "place ?h m a = Some n" for a n
  proof -
    have so: "same_object ?h m ?g a n" using place_live(2) [OF i p] .
    have "fwd ?h m (slot ?h a j) (slot ?g n j)"
      if b: "\<not> is_bytes (header ?h a)" and j: "j < unat (num_slots ?h a)" for j
    proof (cases "scanned ?h m st a n")
      case True
      with b j show ?thesis by (simp add: scanned_def)
    next
      case False
      then have o: "a \<in> old_objs ?h" "n = a"
        using p c by (auto simp: place_def closed_scav_def split: if_splits)
      then have "\<not> holds_young ?h a"
        using False c rs by (auto simp: closed_scav_def remembered_set_ok_def)
      then have "\<not> (is_ptr (slot ?h a j) \<and> is_young ?h (as_ptr (slot ?h a j)))"
        using b j by (auto simp: holds_young_def)
      then show ?thesis using so j by (auto simp: same_object_def slot_ok_def fwd_def)
    qed
    then show ?thesis using so by (auto simp: relocated_def same_object_def slot_ok_def)
  qed
  then show "place ?h m a = Some n \<Longrightarrow> relocated ?h m ?g a n" by blast
  show "same_graph ?h m ?g"
    using rel i by (simp add: same_graph_def sinv_def copies_def Let_def)
qed

lemma closed_no_young:
  assumes r: "gc_ready vm" and c: "closed_scav vm m act st"
    and x: "x \<in> old_objs (vm_heap vm)" "\<not> holds_young (vm_heap vm) x"
  shows "\<not> holds_young (flip_spaces (vm_heap (sv_vm st))) x"
proof
  let ?h = "vm_heap vm" and ?g = "flip_spaces (vm_heap (sv_vm st))"
  assume y: "holds_young ?g x"
  have i: "sinv ?h m st" and g: "gc_heap ?h" using r c by (simp_all add: closed_scav_def gc_ready_def)
  have p: "place ?h m x = Some x" using x(1) by (simp add: place_def)
  have rel: "relocated ?h m ?g x x" using closed_relocated(1) [OF r c p] .
  have b: "is_bytes (header ?g x) = is_bytes (header ?h x)" using rel by (simp add: relocated_def same_header_def is_bytes_def)
  from y obtain j where j: "j < unat (num_slots ?h x)" "is_ptr (slot ?g x j)" "is_young ?g (as_ptr (slot ?g x j))" "\<not> is_bytes (header ?h x)"
    using rel b by (auto simp: holds_young_def relocated_def)
  have "\<not> (is_ptr (slot ?h x j) \<and> is_young ?h (as_ptr (slot ?h x j)))" using x(2) j by (auto simp: holds_young_def)
  moreover have "fwd ?h m (slot ?h x j) (slot ?g x j)" using rel j by (simp add: relocated_def)
  ultimately have "slot ?g x j = slot ?h x j" "\<not> is_young ?h (as_ptr (slot ?h x j))" using j(2) by (auto simp: fwd_def split: if_splits)
  moreover have "space_contains (young_to ?h) (as_ptr (slot ?g x j))"
    using j(3) i by (simp add: is_young_def sinv_def volume_def same_extent_def space_contains_def space_limit_def Let_def)
  ultimately show False
    using valid_slot [OF g i p j(4,1)] j(2) young_object(3) [of ?h "as_ptr (slot ?h x j)"] g by (auto simp: valid_value_def gc_heap_def)
qed

lemma distinct_remdups_adj: "sorted xs \<Longrightarrow> distinct (remdups_adj (xs :: nat list))"
proof (induction xs rule: remdups_adj.induct)
  case (3 x y xs)
  then show ?case
  proof (cases "x = y")
    case False
    then have "x < y" "\<forall>z \<in> set xs. y \<le> z" using 3(3) by auto
    then have "x \<notin> set (remdups_adj (y # xs))" by auto
    then show ?thesis using False 3 by simp
  qed simp
qed simp_all

lemma distinct_remdups_sort: "distinct (remdups_adj (sort (xs :: nat list)))"
  by (simp add: distinct_remdups_adj)

text \<open>What the rebuilding of the remembered set finds, and the whole run put together.\<close>

lemma collect_young_result:
  assumes r: "gc_ready vm"
  shows "\<exists>vm' m act st. collect_young vm = Ok vm' \<and> closed_scav vm m act st
    \<and> roots_fwd (vm_heap vm) m vm vm'
    \<and> (\<exists>xs. distinct xs \<and> set xs = set (ssb (vm_heap vm)) \<union> set (sv_tenured st) \<union> set_option act
         \<and> set xs \<subseteq> old_objs (flip_spaces (vm_heap (sv_vm st)))
         \<and> rechecked (flip_spaces (vm_heap (sv_vm st))) (set xs) (vm_heap vm')
         \<and> ssb (vm_heap vm') = filter (holds_young (flip_spaces (vm_heap (sv_vm st)))) xs)"
proof -
  let ?h = "vm_heap vm"
  define vm0 where "vm0 = (begin_collection vm)\<lparr>scavenge_count := scavenge_count vm + 1\<rparr>"
  from scavenge_closes [OF r, folded vm0_def] obtain m act st1 st2 st4 st5 where
    s: "scavenge_roots \<lparr>sv_vm = vm0, sv_work = [], sv_tenured = []\<rparr> = Ok st1" "scan_active_stack st1 = Ok (act, st2)"
    "ssb (vm_heap (sv_vm st2)) = ssb ?h" "scan_objects (ssb ?h) (drained_scav st2) = Ok st4" "scav_close st4 = Ok st5"
    and c: "closed_scav vm m act st5" by blast
  let ?g = "flip_spaces (vm_heap (sv_vm st5))"
  have i: "sinv ?h m st5" and rs: "remembered_set_ok ?h (running_stack vm)" using r c by (simp_all add: closed_scav_def gc_ready_def)
  have gok: "heap_ok ?g" and og: "objects ?g (old ?g) = objects ?h (old ?h) @ sv_tenured st5"
    using i by (simp_all add: sinv_def copies_def Let_def)
  define xs where "xs = remdups_adj (sort (ssb ?h @ sv_tenured st5 @ (case act of None \<Rightarrow> [] | Some a \<Rightarrow> [a])))"
  have set_xs: "set xs = set (ssb ?h) \<union> set (sv_tenured st5) \<union> set_option act"
    by (auto simp: xs_def split: option.splits)
  have "set_option act \<subseteq> old_objs ?g"
    using c live_in_old_space [OF gok] by (auto simp: closed_scav_def in_old_space_def)
  then have sub: "set xs \<subseteq> old_objs ?g"
    using rs og set_xs by (auto simp: remembered_set_ok_def ssb_ok_def)
  then have "set xs \<subseteq> live ?g" by (auto simp: live_def)
  note ra = recheck_all [OF gok this]
  let ?h6 = "foldl recheck_object ?g xs" and ?vm5 = "sv_vm st5"
  let ?vm' = "?vm5\<lparr>vm_heap := ?h6, vm_counters := (vm_counters ?vm5)
      \<lparr>gc_remembered_rebuilt := gc_remembered_rebuilt (vm_counters ?vm5) + length (ssb ?h6)\<rparr>\<rparr>"
  have "collect_young vm = Ok ?vm'"
    using s unfolding collect_young_def vm0_def [symmetric] Let_def
    by (simp add: drained_scav_def xs_def Let_def)
  moreover have "roots_fwd ?h m vm ?vm'" using c by (simp add: closed_scav_def roots_fwd_def)
  moreover have "ssb ?h6 = filter (holds_young ?g) xs" using ra(2) c by (simp add: closed_scav_def)
  moreover have "distinct xs" by (simp add: xs_def distinct_remdups_sort)
  ultimately show ?thesis using c ra(1) set_xs sub by (intro exI conjI) auto
qed

lemma rechecked_same_graph:
  assumes a: "rechecked g X h" and b: "same_graph h0 m g"
  shows "same_graph h0 m h"
proof -
  have "relocated h0 m h x n" if p: "place h0 m x = Some n" for x n
  proof -
    have "n \<in> live g" using p b by (auto simp: same_graph_def place_def ran_def split: if_splits)
    moreover have "relocated h0 m g x n" using p b by (simp add: same_graph_def)
    ultimately show ?thesis using a same_header_trans by (auto simp: relocated_def rechecked_def)
  qed
  with a b show ?thesis by (simp add: same_graph_def rechecked_def)
qed

lemma fwd_live:
  assumes "heap_ok h0" and "sinv h0 m st" and "same_graph h0 m h" and "fwd h0 m v w" and "live_value h0 v"
  shows "live_value h w"
  unfolding live_value_def
proof
  assume "is_ptr w"
  then have "place h0 m (as_ptr v) = Some (as_ptr w)" using fwd_place [OF assms(1,2,4,5)] by blast
  then show "as_ptr w \<in> live h" using assms(3) by (auto simp: same_graph_def place_def intro: ranI split: if_splits)
qed

lemma fwd_valid:
  assumes ok: "heap_ok h0" and ok': "heap_ok h" and i: "sinv h0 m st" and g: "same_graph h0 m h"
    and sp: "young_from h = young_to (vm_heap (sv_vm st))" "young_to h = (young_from (vm_heap (sv_vm st)))\<lparr>sp_alloc := 0\<rparr>"
    and v: "valid_value h0 v" and f: "fwd h0 m v w"
  shows "valid_value h w"
proof -
  have con: "is_young h a = space_contains (young_to h0) a" "space_contains (young_to h) a = is_young h0 a" for a
    using i sp by (simp_all add: is_young_def sinv_def volume_def from_words_def same_extent_def space_contains_def
        space_limit_def Let_def)
  show ?thesis
  proof (cases "is_ptr v \<and> is_young h0 (as_ptr v)")
    case True
    then have l: "live_value h0 v" using v by (simp add: valid_value_def live_value_def live_def)
    have "as_ptr w \<in> live h" if "is_ptr w" using fwd_live [OF ok i g f l] that by (simp add: live_value_def)
    moreover have "\<not> space_contains (young_to h) (as_ptr w)" if "is_ptr w"
      using con(2) fwd_not_young [OF i f that] by simp
    ultimately show ?thesis using live_young [OF ok'] by (auto simp: valid_value_def)
  next
    case False
    then have "w = v" using f by (auto simp: fwd_def)
    with False v con young_object(3) [OF ok, of "as_ptr v"] show ?thesis by (auto simp: valid_value_def)
  qed
qed

lemma fwds_all:
  assumes "list_all2 (fwd h0 m) xs ys" and "\<forall>v \<in> set xs. P v" and "\<And>v w. P v \<Longrightarrow> fwd h0 m v w \<Longrightarrow> Q w"
  shows "\<forall>w \<in> set ys. Q w"
  using assms by (induction rule: list_all2_induct) auto

lemma remembered_set_rebuilt:
  assumes r: "gc_ready vm" and c: "closed_scav vm m act st" and d: "distinct xs"
    and X: "set xs = set (ssb (vm_heap vm)) \<union> set (sv_tenured st) \<union> set_option act"
    and sub: "set xs \<subseteq> old_objs (flip_spaces (vm_heap (sv_vm st)))"
    and re: "rechecked (flip_spaces (vm_heap (sv_vm st))) (set xs) h"
    and ss: "ssb h = filter (holds_young (flip_spaces (vm_heap (sv_vm st)))) xs"
  shows "remembered_set_ok h {}"
proof -
  let ?h = "vm_heap vm" and ?g = "flip_spaces (vm_heap (sv_vm st))"
  have i: "sinv ?h m st" and rs: "remembered_set_ok ?h (running_stack vm)" using r c by (simp_all add: closed_scav_def gc_ready_def)
  have o: "objects h (old h) = objects ?h (old ?h) @ sv_tenured st" and hd: "\<forall>x \<in> old_objs ?h. header ?g x = header ?h x"
    using i re by (simp_all add: sinv_def copies_def rechecked_def Let_def)
  have og: "old_objs h = old_objs ?g" using re by (simp add: rechecked_def)
  have rem: "remembered h x = (if x \<in> set xs then holds_young ?g x else remembered ?g x)" for x
    using re by (simp add: rechecked_def)
  have out: "x \<in> old_objs ?h \<and> \<not> remembered ?g x \<and> \<not> holds_young ?g x" if "x \<in> old_objs h" "x \<notin> set xs" for x
  proof -
    have x: "x \<in> old_objs ?h" "x \<notin> set (ssb ?h)" using that o X by auto
    have "x \<notin> running_stack vm" using c x(1) that(2) X by (auto simp: closed_scav_def)
    then have "\<not> holds_young ?h x" using rs x by (auto simp: remembered_set_ok_def)
    moreover have "\<not> remembered ?h x" using rs x by (auto simp: remembered_set_ok_def ssb_ok_def)
    ultimately show ?thesis using closed_no_young [OF r c x(1)] hd x(1) by (simp add: remembered_def)
  qed
  have hy: "holds_young h x = holds_young ?g x" if "x \<in> old_objs h" for x
    using rechecked_holds_young [OF re] that og by (simp add: live_def)
  show ?thesis
    unfolding remembered_set_ok_def ssb_ok_def
  proof (intro conjI ballI impI)
    show "distinct (ssb h)" "set (ssb h) \<subseteq> old_objs h" using d sub og by (auto simp: ss)
    show "remembered h x \<longleftrightarrow> x \<in> set (ssb h)" if "x \<in> old_objs h" for x
      using rem [of x] out [OF that] by (auto simp: ss)
    show "x \<in> set (ssb h)" if "x \<in> old_objs h" "holds_young h x" for x
      using hy [OF that(1)] that out [OF that(1)] by (auto simp: ss)
  qed
qed

text \<open>
  C1. Scavenging preserves the object graph. A machine whose heap is well formed, whose pointers lead
  to objects and whose remembered set is complete is always collected: collect_young neither panics
  nor fails. Afterwards the heap is well formed and holds the old objects where they were and one copy
  each of some young objects, no two merged; every object has the class, format, hash, immutable bit
  and size it had, and its slots and all roots hold what they held, each pointer to a young object
  replaced by the pointer to its copy. So whatever a root reaches has survived.
\<close>

theorem scavenge_preserves_graph:
  assumes "gc_ready vm"
  shows "\<exists>vm' m. collect_young vm = Ok vm' \<and> heap_ok (vm_heap vm') \<and> same_graph (vm_heap vm) m (vm_heap vm')
    \<and> list_all2 (fwd (vm_heap vm) m) (root_values vm) (root_values vm')"
proof -
  from collect_young_result [OF assms] obtain vm' m act st xs where
    c: "collect_young vm = Ok vm'" "closed_scav vm m act st" "roots_fwd (vm_heap vm) m vm vm'"
    "rechecked (flip_spaces (vm_heap (sv_vm st))) (set xs) (vm_heap vm')" by blast
  have "same_graph (vm_heap vm) m (vm_heap vm')"
    using rechecked_same_graph [OF c(4) closed_relocated(2) [OF assms c(2)]] .
  moreover have "heap_ok (vm_heap vm')" using c(4) by (simp add: rechecked_def)
  ultimately show ?thesis using c(1) roots_fwd_values [OF c(3)] by blast
qed

lemma process_ready_again:
  assumes r: "gc_ready vm" and i: "sinv (vm_heap vm) m st" and g: "same_graph (vm_heap vm) m (vm_heap vm')"
    and rf: "roots_fwd (vm_heap vm) m vm vm'"
  shows "process_ready vm'"
proof -
  let ?h = "vm_heap vm" and ?h' = "vm_heap vm'" and ?ap = "active_process vm" and ?bp = "active_process vm'"
  have ok: "heap_ok ?h" and pr: "process_ready vm" using r by (simp_all add: gc_ready_def gc_heap_def)
  have lv: "live_value ?h (nil vm)" "live_value ?h ?ap" "specials vm \<noteq> []" using pr by (simp_all add: process_ready_def Let_def)
  have sp: "specials vm' \<noteq> []" using rf lv(3) by (auto simp: roots_fwd_def)
  have f: "fwd ?h m (nil vm) (nil vm')" "fwd ?h m ?ap ?bp"
    using rf lv(3) list_all2_nthD [of "fwd ?h m" "specials vm" "specials vm'" SPECIAL_NIL]
    by (simp_all add: roots_fwd_def nil_def)
  note lv' = fwd_live [OF ok i g f(1) lv(1)] fwd_live [OF ok i g f(2) lv(2)]
  have rest: "\<not> is_bytes (header ?h' (as_ptr ?bp)) \<and> PROCESS_STACK < unat (num_slots ?h' (as_ptr ?bp))
      \<and> live_value ?h' (slot ?h' (as_ptr ?bp) PROCESS_STACK)" if "is_ptr ?bp" "?bp \<noteq> nil vm'"
  proof -
    have p: "is_ptr ?ap" "place ?h m (as_ptr ?ap) = Some (as_ptr ?bp)" using fwd_place [OF ok i f(2) lv(2)] that(1) by auto
    have "?ap \<noteq> nil vm" using f that(2) fwd_unique by metis
    then have a: "\<not> is_bytes (header ?h (as_ptr ?ap))" "PROCESS_STACK < unat (num_slots ?h (as_ptr ?ap))"
      "live_value ?h (slot ?h (as_ptr ?ap) PROCESS_STACK)"
      using pr p(1) by (simp_all add: process_ready_def Let_def)
    have rl: "relocated ?h m ?h' (as_ptr ?ap) (as_ptr ?bp)" using g p(2) by (simp add: same_graph_def)
    then have "fwd ?h m (slot ?h (as_ptr ?ap) PROCESS_STACK) (slot ?h' (as_ptr ?bp) PROCESS_STACK)"
      using a by (simp add: relocated_def)
    from fwd_live [OF ok i g this a(3)] rl a(1,2) show ?thesis
      by (simp add: relocated_def same_header_def is_bytes_def)
  qed
  show ?thesis using sp lv' rest by (simp add: process_ready_def Let_def)
qed


subsection \<open>A concrete machine\<close>

text \<open>One young object whose two slots point to itself, which is also the only root.\<close>

definition cyclic_vm :: vm where
  "cyclic_vm = (bare_literal (snd (the (alloc_fixed small_heap 17 2 (from_ptr 4096)))) 0)
     \<lparr>specials := [from_ptr 4096], active_process := from_ptr 4096\<rparr>"

lemma cyclic_vm_ready:
  "gc_ready cyclic_vm" "4096 \<in> young_objs (vm_heap cyclic_vm)" "is_young (vm_heap cyclic_vm) 4096"
  "unat (num_slots (vm_heap cyclic_vm) 4096) = 2" "\<not> is_bytes (header (vm_heap cyclic_vm) 4096)"
  "\<forall>i < 2. slot (vm_heap cyclic_vm) 4096 i = from_ptr 4096" "old_objs (vm_heap cyclic_vm) = {}"
proof -
  have "\<exists>h. alloc_fixed small_heap 17 2 (from_ptr 4096) = Some (4096, h) \<and> ssb h = [] \<and> old h = old small_heap
      \<and> young_to h = young_to small_heap \<and> young_from h = (young_from small_heap)\<lparr>sp_alloc := 3\<rparr>"
    by (auto simp: alloc_fixed_def alloc_body_def alloc_in_young_def small_heap_room alloc_in_small
        fill_slots_eq count_young_def) (simp_all add: small_heap_def new_heap_def space_top_def)
  then obtain h where h: "alloc_fixed small_heap 17 2 (from_ptr 4096) = Some (4096, h)" "ssb h = []" "old h = old small_heap"
    "young_to h = young_to small_heap" "young_from h = (young_from small_heap)\<lparr>sp_alloc := 3\<rparr>" by blast
  note c = fixed_alloc.contract [OF small_heap_ok class_ok_17 h(1)]
  have v: "vm_heap cyclic_vm = h" by (simp add: cyclic_vm_def bare_literal_def h(1))
  have e: "objects small_heap (young_from small_heap) = []" "objects small_heap (old small_heap) = []"
    by (simp_all add: small_heap_def new_heap_def objects_empty)
  note defs = small_heap_def new_heap_def is_young_def in_old_space_def space_contains_def space_limit_def
  have y: "is_young h 4096" "\<not> in_old_space h 4096" by (simp_all add: h defs)
  have o: "objects h (young_from h) = [4096]" "objects h (old h) = []"
    using c(2) y(2) e by (auto simp: allocated_def)
  have l: "live h = {4096}" by (simp add: live_def o)
  have hd: "gc_bits (header h 4096) = 0" "\<not> is_bytes (header h 4096)" "unat (num_slots h 4096) = 2"
    "\<forall>i < 2. slot h 4096 i = from_ptr 4096"
    using c(2) by (simp_all add: allocated_def is_bytes_def)
  have sel: "specials cyclic_vm = [from_ptr 4096]" "active_process cyclic_vm = from_ptr 4096" "class_table cyclic_vm = []"
    "temp_roots cyclic_vm = []" "site_registry cyclic_vm = []" "symbols cyclic_vm = []" "timer_requests cyclic_vm = []"
    by (simp_all add: cyclic_vm_def bare_literal_def)
  have p: "as_ptr (from_ptr 4096) = 4096" by simp
  have val: "valid_value h (from_ptr 4096)" "live_value h (from_ptr 4096)"
    using o l by (simp_all add: valid_value_def live_value_def)
  have "gc_heap h"
    using c(1) h o l hd val by (simp add: gc_heap_def) (simp add: small_heap_def new_heap_def)
  moreover have "remembered_set_ok h (running_stack cyclic_vm)" by (rule remembered_set_no_old [OF o(2) h(2)])
  ultimately show "gc_ready cyclic_vm"
    using val by (simp add: gc_ready_def v process_ready_def root_values_def sel nil_def)
  show "4096 \<in> young_objs (vm_heap cyclic_vm)" "is_young (vm_heap cyclic_vm) 4096"
    "unat (num_slots (vm_heap cyclic_vm) 4096) = 2" "\<not> is_bytes (header (vm_heap cyclic_vm) 4096)"
    "\<forall>i < 2. slot (vm_heap cyclic_vm) 4096 i = from_ptr 4096" "old_objs (vm_heap cyclic_vm) = {}"
    using o y hd by (simp_all add: v)
qed

lemma scavenge_preserves_graph_witness:
  "\<exists>vm' n. collect_young cyclic_vm = Ok vm' \<and> from_ptr n \<in> set (root_values vm')
     \<and> slot (vm_heap vm') n 0 = from_ptr n \<and> slot (vm_heap vm') n 1 = from_ptr n"
proof -
  let ?h = "vm_heap cyclic_vm"
  obtain vm' m where s: "collect_young cyclic_vm = Ok vm'" "same_graph ?h m (vm_heap vm')"
    "list_all2 (fwd ?h m) (root_values cyclic_vm) (root_values vm')"
    using scavenge_preserves_graph [OF cyclic_vm_ready(1)] by blast
  note f = cyclic_vm_ready(2-7)
  have p: "as_ptr (from_ptr 4096) = 4096" "is_ptr (from_ptr 4096)" by (simp_all add: is_ptr_from_ptr aligned_def)
  have sel: "root_values cyclic_vm = [from_ptr 4096, from_ptr 4096]"
    by (simp add: root_values_def cyclic_vm_def bare_literal_def)
  then obtain w where w: "fwd ?h m (from_ptr 4096) w" "length (root_values vm') = 2" "hd (root_values vm') = w"
    using s(3) by (auto simp: list_all2_Cons1)
  then obtain n where n: "m 4096 = Some n" "w = from_ptr n" using p f by (auto simp: fwd_def)
  have "place ?h m 4096 = Some n" using n f by (simp add: place_def)
  then have r: "relocated ?h m (vm_heap vm') 4096 n" using s(2) by (simp add: same_graph_def)
  have "slot (vm_heap vm') n i = from_ptr n" if "i < 2" for i
  proof -
    have "fwd ?h m (from_ptr 4096) (slot (vm_heap vm') n i)" using r that f by (simp add: relocated_def)
    with w(1) n(2) fwd_unique show ?thesis by blast
  qed
  moreover have "from_ptr n \<in> set (root_values vm')" using w(2,3) n(2) by (cases "root_values vm'") auto
  ultimately show ?thesis using s(1) by auto
qed


end
