(* ===== verification/Old_Objects.thy ===== *)
theory Old_Objects
  imports Scavenge_Correct
begin

section \<open>Building objects in old space\<close>

text \<open>
  The builders of the machine and of methods allocate in old space and fill what they have
  allocated. The relation kept says that a step leaves every object outside a set as it was; an
  allocation keeps all objects, and filling an object keeps all others. Room in old space is
  counted in words.
\<close>

definition same_content :: "heap \<Rightarrow> heap \<Rightarrow> nat \<Rightarrow> bool" where
  "same_content h h' y \<longleftrightarrow> header h' y = header h y \<and> num_slots h' y = num_slots h y
     \<and> (\<forall>j < unat (num_slots h y). slot h' y j = slot h y j)"

definition same_young :: "heap \<Rightarrow> heap \<Rightarrow> bool" where
  "same_young h h' \<longleftrightarrow> young_from h' = young_from h \<and> young_to h' = young_to h
     \<and> objects h' (young_from h') = objects h (young_from h)"

definition kept :: "nat set \<Rightarrow> heap \<Rightarrow> heap \<Rightarrow> bool" where
  "kept A h h' \<longleftrightarrow> heap_ok h' \<and> live h \<subseteq> live h' \<and> (\<forall>y \<in> live h - A. same_content h h' y)
     \<and> same_young h h' \<and> same_extent (old h) (old h')"

lemma same_content_refl: "same_content h h y"
  by (simp add: same_content_def)

lemma same_content_trans: "same_content h h1 y \<Longrightarrow> same_content h1 h2 y \<Longrightarrow> same_content h h2 y"
  by (simp add: same_content_def)

lemma same_extent_refl: "same_extent s s"
  by (simp add: same_extent_def)

lemma kept_refl: "heap_ok h \<Longrightarrow> kept A h h"
  by (simp add: kept_def same_content_refl same_young_def same_extent_refl)

lemma kept_trans:
  assumes "kept A h h1" and "kept B h1 h2" and "B \<inter> live h \<subseteq> A"
  shows "kept A h h2"
proof -
  have "same_content h h2 y" if "y \<in> live h - A" for y
  proof -
    from that assms have "y \<in> live h1 - B" "same_content h h1 y" by (auto simp: kept_def)
    then show ?thesis using assms(2) same_content_trans [of h h1 y h2] by (simp add: kept_def)
  qed
  then show ?thesis using assms by (auto simp: kept_def same_young_def same_extent_def)
qed

lemma kept_mono: "kept A h h' \<Longrightarrow> A \<inter> live h \<subseteq> B \<Longrightarrow> kept B h h'"
  by (auto simp: kept_def)

lemma kept_content: "kept A h h' \<Longrightarrow> y \<in> live h \<Longrightarrow> y \<notin> A \<Longrightarrow> same_content h h' y"
  by (simp add: kept_def)

lemma kept_live: "kept A h h' \<Longrightarrow> y \<in> live h \<Longrightarrow> y \<in> live h'"
  by (auto simp: kept_def)

subsection \<open>Allocation\<close>

text \<open>The words left in old space, and those an object of n slots takes.\<close>

definition old_room :: "heap \<Rightarrow> nat" where
  "old_room h = sp_words (old h) - sp_alloc (old h)"

definition obj_words :: "nat \<Rightarrow> nat" where
  "obj_words n = (if n < 255 then 1 + n else 2 + n)"

lemma alloc_in_old_room:
  assumes "heap_ok h"
  shows "alloc_in_old h c f n = None \<longleftrightarrow> old_room h < obj_words n"
    and "alloc_in_old h c f n = Some (obj, h') \<Longrightarrow> same_extent (old h) (old h')
      \<and> young_from h' = young_from h \<and> young_to h' = young_to h \<and> ssb h' = ssb h
      \<and> old_room h' = old_room h - obj_words n"
proof -
  have "sp_alloc (old h) \<le> sp_words (old h)" using assms by (simp add: heap_ok_def space_ok_def)
  then show "alloc_in_old h c f n = None \<longleftrightarrow> old_room h < obj_words n"
    and "alloc_in_old h c f n = Some (obj, h') \<Longrightarrow> same_extent (old h) (old h')
      \<and> young_from h' = young_from h \<and> young_to h' = young_to h \<and> ssb h' = ssb h
      \<and> old_room h' = old_room h - obj_words n"
    by (auto simp: alloc_in_old_def alloc_in_def alloc_words_def old_room_def obj_words_def same_extent_def
        Let_def split: if_splits)
qed

text \<open>What an allocation in old space gives its caller.\<close>

definition new_old :: "heap \<Rightarrow> nat \<Rightarrow> heap \<Rightarrow> u32 \<Rightarrow> u64 \<Rightarrow> nat \<Rightarrow> value \<Rightarrow> bool" where
  "new_old h obj h' c f n v \<longleftrightarrow> kept {} h h' \<and> obj \<notin> live h \<and> live h' = insert obj (live h)
     \<and> hdr_class_index (header h' obj) = c \<and> hdr_format (header h' obj) = f \<and> gc_bits (header h' obj) = 0
     \<and> unat (num_slots h' obj) = n \<and> (\<forall>i < n. slot h' obj i = v) \<and> aligned obj
     \<and> obj \<in> old_objs h' \<and> ssb h' = ssb h \<and> old_room h' = old_room h - obj_words n"

lemma new_old_allocated:
  assumes "heap_ok h'" and "allocated h h' obj c f n v" and "obj \<notin> live h" and "live h' = insert obj (live h)"
    and "\<And>y. y \<in> live h \<Longrightarrow> same_content h h' y"
    and "young_from h' = young_from h" "young_to h' = young_to h" "same_extent (old h) (old h')"
    and "ssb h' = ssb h" "old_room h' = old_room h - obj_words n" and "\<not> is_young h' obj"
  shows "new_old h obj h' c f n v"
proof -
  have "objects h' (young_from h') = objects h (young_from h)" "obj \<in> old_objs h'"
    using assms(2,11) by (auto simp: allocated_def)
  moreover have "aligned obj" by (rule live_aligned [OF assms(1)]) (simp add: assms(4))
  ultimately show ?thesis
    using assms by (auto simp: new_old_def kept_def same_young_def allocated_def)
qed

lemma in_old_not_young:
  assumes "heap_ok h" and "in_old_space h x"
  shows "\<not> is_young h x"
proof -
  have "apart (young_from h) (old h)" using assms(1) by (simp add: heap_ok_def)
  then show ?thesis using assms(2) by (auto simp: is_young_def in_old_space_def space_contains_def apart_def)
qed

lemma alloc_in_old_place:
  assumes ok: "heap_ok h" and a: "alloc_in_old h c f n = Some (obj, h')"
  shows "\<not> is_young h' obj"
proof -
  have s: "space_ok (old h)" "apart (young_from h) (old h)" using ok by (auto simp: heap_ok_def)
  from a have "in_old_space h obj"
    using s(1) by (auto simp: alloc_in_old_def alloc_in_def alloc_words_def in_old_space_def space_contains_def
        space_limit_def Let_def split: if_splits)
  then have "\<not> is_young h obj" by (rule in_old_not_young [OF ok])
  moreover have "young_from h' = young_from h" using alloc_in_old_room(2) [OF ok a] by simp
  ultimately show ?thesis by (simp add: is_young_def)
qed

lemma fill_slots_sel [simp]:
  "young_from (fill_slots h x n v) = young_from h" "young_to (fill_slots h x n v) = young_to h"
  "old (fill_slots h x n v) = old h" "ssb (fill_slots h x n v) = ssb h"
  "young_from (count_old h n b) = young_from h" "young_to (count_old h n b) = young_to h"
  "old (count_old h n b) = old h" "ssb (count_old h n b) = ssb h"
  by (simp_all add: fill_slots_eq count_old_def)

lemma filled_old_new:
  assumes ok: "heap_ok h" and a: "alloc_in_old h c f n = Some (obj, h0)"
    and h': "h' = fill_slots (count_old h0 n b) obj n v" and ct: "heap_ok h'" "allocated h h' obj c f n v"
    "obj \<notin> live h" "live h' = insert obj (live h)" and o: "\<And>y. y \<in> live h \<Longrightarrow> same_content h h' y"
  shows "new_old h obj h' c f n v"
proof (rule new_old_allocated [OF ct o])
  note r = alloc_in_old_room(2) [OF ok a]
  show "young_from h' = young_from h" "young_to h' = young_to h" "same_extent (old h) (old h')"
    "ssb h' = ssb h" "old_room h' = old_room h - obj_words n"
    using r by (simp_all add: h' old_room_def)
  show "\<not> is_young h' obj" using alloc_in_old_place [OF ok a] by (simp add: h' is_young_def)
qed

lemma alloc_fixed_old_new:
  assumes ok: "heap_ok h" and c: "class_ok c" and r: "obj_words n \<le> old_room h"
  obtains obj h' where "alloc_fixed_old h c n v = Some (obj, h')" and "new_old h obj h' c FMT_FIXED n v"
proof -
  have "alloc_in_old h c FMT_FIXED n \<noteq> None" using alloc_in_old_room(1) [OF ok] r by (simp add: not_less)
  then obtain obj h0 where a: "alloc_in_old h c FMT_FIXED n = Some (obj, h0)" by auto
  let ?h' = "fill_slots (count_old h0 n False) obj n v"
  have e: "alloc_fixed_old h c n v = Some (obj, ?h')" by (simp add: alloc_fixed_old_def a)
  have "new_old h obj ?h' c FMT_FIXED n v"
    using filled_old_new [OF ok a refl fixed_old_alloc.contract [OF ok c e]]
      fixed_old_alloc.others_unchanged [OF ok c e] by (simp add: same_content_def)
  with e show ?thesis by (rule that)
qed

lemma alloc_ptrs_old_new:
  assumes ok: "heap_ok h" and c: "class_ok c" and r: "obj_words n \<le> old_room h"
  obtains obj h' where "alloc_ptrs_old h c n v = Some (obj, h')" and "new_old h obj h' c FMT_PTRS n v"
proof -
  have "alloc_in_old h c FMT_PTRS n \<noteq> None" using alloc_in_old_room(1) [OF ok] r by (simp add: not_less)
  then obtain obj h0 where a: "alloc_in_old h c FMT_PTRS n = Some (obj, h0)" by auto
  let ?h' = "fill_slots (count_old h0 n False) obj n v"
  have e: "alloc_ptrs_old h c n v = Some (obj, ?h')" by (simp add: alloc_ptrs_old_def a)
  have "new_old h obj ?h' c FMT_PTRS n v"
    using filled_old_new [OF ok a refl ptrs_old_alloc.contract [OF ok c e]]
      ptrs_old_alloc.others_unchanged [OF ok c e] by (simp add: same_content_def)
  with e show ?thesis by (rule that)
qed

lemma alloc_bytes_old_new:
  assumes ok: "heap_ok h" and c: "class_ok c" and r: "obj_words ((k + 7) div 8) \<le> old_room h"
  obtains obj h' where "alloc_bytes_old h c k = Some (obj, h')"
    and "new_old h obj h' c (bytes_fmt k) ((k + 7) div 8) 0"
proof -
  let ?n = "(k + 7) div 8"
  have "alloc_in_old h c (bytes_fmt k) ?n \<noteq> None" using alloc_in_old_room(1) [OF ok] r by (simp add: not_less)
  then obtain obj h0 where a: "alloc_in_old h c (bytes_fmt k) ?n = Some (obj, h0)" by auto
  let ?h' = "count_old h0 ?n False"
  have e: "alloc_bytes_old h c k = Some (obj, ?h')" by (simp add: alloc_bytes_unfold a)
  note ct = bytes_old_alloc.contract [OF ok c e] and o = bytes_old_alloc.others_unchanged [OF ok c e]
    and r' = alloc_in_old_room(2) [OF ok a]
  have "new_old h obj ?h' c (bytes_fmt k) ?n 0"
  proof (rule new_old_allocated [OF ct])
    show "same_content h ?h' y" if "y \<in> live h" for y using o that by (simp add: same_content_def)
    show "young_from ?h' = young_from h" "young_to ?h' = young_to h" "same_extent (old h) (old ?h')"
      "ssb ?h' = ssb h" "old_room ?h' = old_room h - obj_words ?n"
      using r' by (simp_all add: old_room_def)
    show "\<not> is_young ?h' obj" using alloc_in_old_place [OF ok a] by (simp add: is_young_def)
  qed
  with e show ?thesis by (rule that)
qed

subsection \<open>Filling an object\<close>

text \<open>A step that writes into the object x only, and leaves its size and its header.\<close>

definition fills :: "nat \<Rightarrow> heap \<Rightarrow> heap \<Rightarrow> bool" where
  "fills x h h' \<longleftrightarrow> kept {x} h h' \<and> live h' = live h \<and> old h' = old h
     \<and> objects h' (old h') = objects h (old h)
     \<and> same_header (header h x) (header h' x) \<and> num_slots h' x = num_slots h x"

lemma fills_refl: "heap_ok h \<Longrightarrow> fills x h h"
  by (simp add: fills_def kept_refl same_header_refl)

lemma fills_trans: "fills x h h1 \<Longrightarrow> fills x h1 h2 \<Longrightarrow> fills x h h2"
  by (auto simp: fills_def intro: kept_trans same_header_trans)

lemma fills_ok: "fills x h h' \<Longrightarrow> heap_ok h'"
  by (simp add: fills_def kept_def)

lemma fills_kept: "fills x h h' \<Longrightarrow> kept {x} h h'"
  by (simp add: fills_def)

lemma fills_room: "fills x h h' \<Longrightarrow> old_room h' = old_room h"
  by (simp add: fills_def old_room_def)

lemma fills_set_slot:
  assumes "heap_ok h" and "x \<in> live h" and "i < unat (num_slots h x)"
  shows "fills x h (set_slot_raw h x i v)"
  using set_slot_ok [OF assms] slot_set_slot [OF assms] assms(2)
  by (auto simp: fills_def kept_def same_content_def same_young_def same_extent_def same_header_refl)

lemma remember_same_header: "same_header (header h x) (header (remember h x) x)"
proof (cases "remembered h x")
  case True
  then show ?thesis by (simp add: header_def heap_word_def remember_mem same_header_refl)
next
  case False
  have b: "((g OR GC_BIT_REMEMBERED) AND GC_BIT_IMMUTABLE) = g AND GC_BIT_IMMUTABLE" for g :: u64
    by (simp add: bit.conj_disj_distrib2)
  have "header (remember h x) x = with_gc_bits (header h x) (gc_bits (header h x) OR GC_BIT_REMEMBERED)"
    using False by (simp add: header_def heap_word_def remember_mem set_header_def)
  then show ?thesis
    using gc_field.outside_put [OF remember_fits, of "header h x"]
    by (simp add: same_header_def gc_field.get_put [OF remember_fits] b)
qed

lemma fills_store:
  assumes "heap_ok (vm_heap vm)" and "x \<in> live (vm_heap vm)" and "i < unat (num_slots (vm_heap vm) x)"
  shows "fills x (vm_heap vm) (vm_heap (store_slot vm x i v))"
proof -
  note s = fills_set_slot [OF assms, where v = v]
  let ?h = "set_slot_raw (vm_heap vm) x i v"
  have x: "x \<in> live ?h" using s assms(2) by (simp add: fills_def)
  have "header (remember ?h x) y = header ?h y" if "y \<noteq> x" for y
    using that by (simp add: header_def heap_word_def remember_mem set_header_def set_word_def)
  then have "fills x ?h (remember ?h x)"
    using remember_frame [OF fills_ok [OF s] x] remember_same_header x
    by (auto simp: fills_def kept_def same_content_def same_young_def same_extent_def)
  with s show ?thesis by (auto simp: store_slot_heap Let_def intro: fills_trans)
qed

lemma kept_set_immutable:
  assumes "heap_ok h" and "x \<in> live h"
  shows "kept {x} h (set_immutable h x)" and "old (set_immutable h x) = old h"
    and "live (set_immutable h x) = live h" and "\<And>y. same_header (header h y) (header (set_immutable h x) y) \<or> y = x"
proof -
  let ?w = "with_gc_bits (header h x) (gc_bits (header h x) OR GC_BIT_IMMUTABLE)"
  have fits: "gc_fits (gc_bits (header h x) OR GC_BIT_IMMUTABLE)"
    by (rule gc_fits_or) (simp_all add: gc_field.fits_get, simp add: gc_fits_def hmask_def)
  have eq: "set_immutable h x = set_header h x ?w" by (simp add: set_immutable_def Let_def)
  note w = header_write_ok [OF assms shape_bits_with_gc_bits [OF fits, of "header h x"]]
    and o = set_immutable_other [OF assms]
  show "old (set_immutable h x) = old h" by (simp add: eq)
  show "live (set_immutable h x) = live h" using w by (simp add: eq)
  show "kept {x} h (set_immutable h x)"
    using w o by (auto simp: kept_def same_content_def same_young_def same_extent_def eq)
  show "\<And>y. same_header (header h y) (header (set_immutable h x) y) \<or> y = x"
    by (simp add: eq header_set_header same_header_refl)
qed

lemma write_bytes_from_sel [simp]:
  "young_from (write_bytes_from h x i bs) = young_from h" "young_to (write_bytes_from h x i bs) = young_to h"
  "old (write_bytes_from h x i bs) = old h" "ssb (write_bytes_from h x i bs) = ssb h"
  by (induction bs arbitrary: h i) (simp_all add: set_byte_def Let_def)

lemma set_byte_as_slot:
  "set_byte h x i b = set_slot_raw h x (i div 8)
     ((heap_word h (x + 8 + 8 * (i div 8)) AND NOT (push_bit (8 * (i mod 8)) 255))
       OR push_bit (8 * (i mod 8)) (ucast b))"
  by (simp only: set_byte_def set_slot_raw_def Let_def mult.commute)

lemma fills_write_bytes:
  assumes "heap_ok h" and "x \<in> live h" and "i + length bs \<le> byte_size h x"
  shows "fills x h (write_bytes_from h x i bs)"
  using assms
proof (induction bs arbitrary: h i)
  case (Cons b bs)
  have i: "i < byte_size h x" using Cons.prems by simp
  note s = set_byte_ok [OF Cons.prems(1,2) i, where b = b]
  have d: "i div 8 < unat (num_slots h x)"
    using i unfolding byte_size_def Let_def by (intro less_mult_imp_div_less) linarith
  have f: "fills x h (set_byte h x i b)"
    unfolding set_byte_as_slot by (rule fills_set_slot [OF Cons.prems(1,2) d])
  have "fills x (set_byte h x i b) (write_bytes_from (set_byte h x i b) x (i + 1) bs)"
    using Cons.prems s by (intro Cons.IH) simp_all
  with f show ?case by (auto intro: fills_trans)
qed (simp add: fills_refl)

text \<open>A run of slots, filled one after the other with or without the barrier.\<close>

fun store_run :: "vm \<Rightarrow> nat \<Rightarrow> nat \<Rightarrow> value list \<Rightarrow> vm" where
  "store_run vm x i [] = vm"
| "store_run vm x i (v # vs) = store_run (store_slot vm x i v) x (i + 1) vs"

fun set_run :: "vm \<Rightarrow> nat \<Rightarrow> nat \<Rightarrow> value list \<Rightarrow> vm" where
  "set_run vm x i [] = vm"
| "set_run vm x i (v # vs) = set_run (vset_slot_raw vm x i v) x (i + 1) vs"

definition run_written :: "nat \<Rightarrow> nat \<Rightarrow> value list \<Rightarrow> heap \<Rightarrow> heap \<Rightarrow> bool" where
  "run_written x i vs h h' \<longleftrightarrow> fills x h h'
     \<and> (\<forall>j < unat (num_slots h x). slot h' x j = (if i \<le> j \<and> j < i + length vs then vs ! (j - i) else slot h x j))"

lemma run_written_Cons:
  assumes f: "fills x h h1" and i: "i < unat (num_slots h x)"
    and s: "\<And>j. j < unat (num_slots h x) \<Longrightarrow> slot h1 x j = (if j = i then v else slot h x j)"
    and r: "run_written x (i + 1) vs h1 h2"
  shows "run_written x i (v # vs) h h2"
proof -
  have n: "num_slots h1 x = num_slots h x" using f by (simp add: fills_def)
  have "slot h2 x j = (if i \<le> j \<and> j < i + length (v # vs) then (v # vs) ! (j - i) else slot h x j)"
    if j: "j < unat (num_slots h x)" for j
    using r s [OF j] j i by (cases "j = i") (auto simp: run_written_def n nth_Cons')
  then show ?thesis using f r fills_trans by (auto simp: run_written_def)
qed

lemma store_run_written:
  assumes "heap_ok (vm_heap vm)" and "x \<in> live (vm_heap vm)" and "i + length vs \<le> unat (num_slots (vm_heap vm) x)"
  shows "run_written x i vs (vm_heap vm) (vm_heap (store_run vm x i vs))"
  using assms
proof (induction vs arbitrary: vm i)
  case (Cons v vs)
  have i: "i < unat (num_slots (vm_heap vm) x)" using Cons.prems by simp
  note s = store_slot_ok [OF Cons.prems(1,2) i, where v = v]
  note f = fills_store [OF Cons.prems(1,2) i, where v = v]
  have "run_written x (i + 1) vs (vm_heap (store_slot vm x i v)) (vm_heap (store_run (store_slot vm x i v) x (i + 1) vs))"
    using Cons.prems s by (intro Cons.IH) simp_all
  from run_written_Cons [OF f i _ this] s(4) [OF Cons.prems(2)] show ?case by simp
qed (auto simp: run_written_def fills_refl)

lemma set_run_written:
  assumes "heap_ok (vm_heap vm)" and "x \<in> live (vm_heap vm)" and "i + length vs \<le> unat (num_slots (vm_heap vm) x)"
  shows "run_written x i vs (vm_heap vm) (vm_heap (set_run vm x i vs))"
  using assms
proof (induction vs arbitrary: vm i)
  case (Cons v vs)
  have i: "i < unat (num_slots (vm_heap vm) x)" using Cons.prems by simp
  let ?vm = "vset_slot_raw vm x i v"
  have h: "vm_heap ?vm = set_slot_raw (vm_heap vm) x i v" by (simp add: vset_slot_raw_def)
  note s = set_slot_ok [OF Cons.prems(1,2) i, where v = v]
    and g = slot_set_slot [OF Cons.prems(1,2) i Cons.prems(2), where v = v]
  have "run_written x (i + 1) vs (vm_heap ?vm) (vm_heap (set_run ?vm x (i + 1) vs))"
    using Cons.prems s by (intro Cons.IH) (simp_all add: h)
  moreover have "fills x (vm_heap vm) (vm_heap ?vm)" unfolding h by (rule fills_set_slot [OF Cons.prems(1,2) i])
  ultimately show ?case using run_written_Cons [of x "vm_heap vm" "vm_heap ?vm" i v vs] i g by (simp add: h)
qed (auto simp: run_written_def fills_refl)

lemma set_run_append: "set_run vm x i (vs @ ws) = set_run (set_run vm x i vs) x (i + length vs) ws"
  by (induction vs arbitrary: vm i) simp_all

definition heap_differs :: "vm \<Rightarrow> vm \<Rightarrow> bool" where
  "heap_differs vm vm' \<longleftrightarrow> (\<exists>h. vm' = vm\<lparr>vm_heap := h\<rparr>)"

lemma store_slot_heap_only: "heap_differs vm (store_slot vm x i v)"
  by (cases vm) (auto simp: heap_differs_def store_slot_def write_barrier_def vset_slot_raw_def Let_def)

lemma heap_differs_trans: "heap_differs vm vm1 \<Longrightarrow> heap_differs vm1 vm2 \<Longrightarrow> heap_differs vm vm2"
  by (auto simp: heap_differs_def)

lemma run_heap_only: "heap_differs vm (store_run vm x i vs)" "heap_differs vm (set_run vm x i vs)"
proof -
  have r: "heap_differs vm vm" for vm by (cases vm) (auto simp: heap_differs_def)
  have s: "heap_differs vm (vset_slot_raw vm x i v)" for vm i v by (auto simp: heap_differs_def vset_slot_raw_def)
  show "heap_differs vm (store_run vm x i vs)"
  proof (induction vs arbitrary: vm i)
    case (Cons v vs)
    show ?case using heap_differs_trans [OF store_slot_heap_only Cons.IH] by simp
  qed (simp add: r)
  show "heap_differs vm (set_run vm x i vs)"
  proof (induction vs arbitrary: vm i)
    case (Cons v vs)
    show ?case using heap_differs_trans [OF s Cons.IH] by simp
  qed (simp add: r)
qed

end
