(* ===== verification/Registers.thy ===== *)
theory Registers
  imports Gc Method_Header
begin

section \<open>The cached registers and the frame slots\<close>

text \<open>
  The registers of src/interp.rs: the interpreter keeps the address of the running stack, the offset
  of the current frame in it, the program counter and the addresses of the current method's parts,
  and derives them again from the active process whenever a collection has run. A handler takes the
  machine and the registers and returns both.
\<close>

record regs =
  r_stack :: nat
  r_frame :: nat
  r_pc :: nat
  r_method :: "value"
  r_code :: nat
  r_lits :: nat
  r_sites :: nat
  r_epoch :: nat
  r_closure :: "u8 option"
  r_halted :: "value option"

datatype prim_outcome = Value "value" | Fail int | Control

definition bslot :: "regs \<Rightarrow> u8 \<Rightarrow> nat" where
  "bslot rg k = r_frame rg + FRAME_RECEIVER + unat k"

definition reload_code :: "vm \<Rightarrow> regs \<Rightarrow> regs" where
  "reload_code vm rg =
     (let meth = vslot vm (r_stack rg) (r_frame rg + FRAME_METHOD);
          m = as_ptr meth;
          lits = vslot vm m METHOD_LITERALS;
          sites = vslot vm m METHOD_SEND_SITES
      in rg\<lparr>r_method := meth,
            r_code := as_ptr (vslot vm m METHOD_BYTECODES),
            r_lits := (if lits \<noteq> nil vm then as_ptr lits else 0),
            r_sites := (if sites \<noteq> nil vm then as_ptr sites else 0)\<rparr>)"

definition load_regs :: "vm \<Rightarrow> regs" where
  "load_regs vm =
     (let p = as_ptr (active_process vm)
      in reload_code vm
           \<lparr>r_stack = as_ptr (vslot vm p PROCESS_STACK),
            r_frame = as_usize (as_int (vslot vm p PROCESS_FRAME_OFFSET)),
            r_pc = as_usize (as_int (vslot vm p PROCESS_PC)),
            r_method = nil vm, r_code = 0, r_lits = 0, r_sites = 0,
            r_epoch = gc_epoch vm, r_closure = None, r_halted = None\<rparr>)"

definition save_regs :: "vm \<Rightarrow> regs \<Rightarrow> vm" where
  "save_regs vm rg =
     (let p = as_ptr (active_process vm)
      in vset_slot_raw (vset_slot_raw vm p PROCESS_FRAME_OFFSET (from_int (int (r_frame rg))))
           p PROCESS_PC (from_int (int (r_pc rg))))"

definition refresh_regs :: "vm \<Rightarrow> regs \<Rightarrow> regs" where
  "refresh_regs vm rg =
     (if r_epoch rg \<noteq> gc_epoch vm
      then let p = as_ptr (active_process vm);
               rg1 = reload_code vm (rg\<lparr>r_stack := as_ptr (vslot vm p PROCESS_STACK)\<rparr>)
           in rg1\<lparr>r_epoch := gc_epoch vm\<rparr>
      else rg)"

definition get_slot :: "vm \<Rightarrow> regs \<Rightarrow> u8 \<Rightarrow> value" where
  "get_slot vm rg k = vslot vm (r_stack rg) (bslot rg k)"

definition put_slot :: "vm \<Rightarrow> regs \<Rightarrow> u8 \<Rightarrow> value \<Rightarrow> vm" where
  "put_slot vm rg k v = vset_slot_raw vm (r_stack rg) (bslot rg k) v"

subsection \<open>Allocation that collects and tries again\<close>

definition attempt_alloc :: "value \<Rightarrow> u32 \<Rightarrow> u64 \<Rightarrow> nat \<Rightarrow> heap \<Rightarrow> (nat \<times> heap) option" where
  "attempt_alloc nilv cls format n h =
     (if format = FMT_FIXED then alloc_fixed h cls n nilv
      else if format = FMT_PTRS then alloc_ptrs h cls n nilv
      else alloc_bytes h cls n)"

text \<open>The value nil is read once, before any collection.\<close>

definition alloc_gc :: "vm \<Rightarrow> regs \<Rightarrow> u32 \<Rightarrow> u64 \<Rightarrow> nat \<Rightarrow> (value \<times> vm \<times> regs) outcome" where
  "alloc_gc vm rg cls format n =
     (let nilv = nil vm;
          done = (\<lambda>vm rg a h. rbind (from_ptr_checked a) (\<lambda>v. Ok (v, vm\<lparr>vm_heap := h\<rparr>, rg)))
      in case attempt_alloc nilv cls format n (vm_heap vm) of
           Some (a, h) \<Rightarrow> done vm rg a h
         | None \<Rightarrow>
             rbind (collect_young (save_regs vm rg)) (\<lambda>vm1.
             let rg1 = refresh_regs vm1 rg
             in case attempt_alloc nilv cls format n (vm_heap vm1) of
                  Some (a, h) \<Rightarrow> done vm1 rg1 a h
                | None \<Rightarrow>
                    rbind (collect_old (save_regs vm1 rg1)) (\<lambda>vm2.
                    let rg2 = refresh_regs vm2 rg1
                    in case attempt_alloc nilv cls format n (vm_heap vm2) of
                         Some (a, h) \<Rightarrow> done vm2 rg2 a h
                       | None \<Rightarrow> Err OutOfMemory)))"

subsection \<open>The context switch\<close>

definition transfer_to :: "vm \<Rightarrow> regs \<Rightarrow> value \<Rightarrow> vm \<times> regs" where
  "transfer_to vm0 rg target =
     (let c = vm_counters vm0;
          vm = vm0\<lparr>vm_counters := c\<lparr>process_switches := process_switches c + 1\<rparr>\<rparr>;
          nilv = nil vm;
          cur = active_process vm;
          vm1 = (if is_ptr cur \<and> cur \<noteq> nilv
                 then let stack = vslot vm (as_ptr cur) PROCESS_STACK
                      in if stack \<noteq> nilv
                         then let vms = save_regs vm rg; sa = as_ptr stack
                              in if in_old_space (vm_heap vms) sa
                                 then vms\<lparr>vm_heap := remember (vm_heap vms) sa\<rparr> else vms
                         else vm
                 else vm);
          sched = specials vm1 ! SPECIAL_PROCESSOR;
          vm2 = store_slot vm1 (as_ptr sched) SCHEDULER_ACTIVE_PROCESS target;
          vm3 = vm2\<lparr>active_process := target\<rparr>
      in (vm3, load_regs vm3))"

subsection \<open>Stack growth\<close>

text \<open>Doubling a size of zero never reaches the size needed.\<close>

function double_until :: "nat \<Rightarrow> nat \<Rightarrow> nat option" where
  "double_until needed n =
     (if needed \<le> n then Some n else if n = 0 then None else double_until needed (n * 2))"
  by pat_completeness auto
termination by (relation "measure (\<lambda>(needed, n). needed - n)") auto

declare double_until.simps [simp del]

definition copy_slots :: "vm \<Rightarrow> nat \<Rightarrow> nat \<Rightarrow> nat \<Rightarrow> vm" where
  "copy_slots vm src dst n = fold (\<lambda>i vm. vset_slot_raw vm dst i (vslot vm src i)) [0..<n] vm"

definition grow_stack :: "vm \<Rightarrow> regs \<Rightarrow> nat \<Rightarrow> (vm \<times> regs) outcome" where
  "grow_stack vm rg needed_slots =
     (let cur_slots = unat (num_slots (vm_heap vm) (r_stack rg))
      in of_opt Diverge (double_until needed_slots (cur_slots * 2)) (\<lambda>new_slots.
         if max_stack_bytes vm < new_slots * 8 then Err StackOverflow
         else
           let nilv = nil vm;
               first = (case alloc_ptrs (vm_heap vm) CLASS_STACK new_slots nilv of
                          Some r \<Rightarrow> Some r
                        | None \<Rightarrow> alloc_ptrs_old (vm_heap vm) CLASS_STACK new_slots nilv)
           in rbind (case first of
                       Some (a, h) \<Rightarrow> Ok (a, vm\<lparr>vm_heap := h\<rparr>, rg)
                     | None \<Rightarrow>
                         rbind (collect_old (save_regs vm rg)) (\<lambda>vm1.
                         let rg1 = refresh_regs vm1 rg
                         in case alloc_ptrs_old (vm_heap vm1) CLASS_STACK new_slots nilv of
                              None \<Rightarrow> Err OutOfMemory
                            | Some (a, h) \<Rightarrow> Ok (a, vm1\<lparr>vm_heap := h\<rparr>, rg1)))
                (\<lambda>(new_addr, vm2, rg2).
                let vm3 = copy_slots vm2 (r_stack rg2) new_addr cur_slots
                in rbind (from_ptr_checked new_addr) (\<lambda>new_stack.
                   let vm4 = store_slot vm3 (as_ptr (active_process vm3)) PROCESS_STACK new_stack
                   in Ok (vm4\<lparr>stack_grow_count := stack_grow_count vm4 + 1\<rparr>,
                          rg2\<lparr>r_stack := new_addr\<rparr>)))))"

text \<open>The callers grow the stack only when the slots they need are past its end.\<close>

definition ensure_stack :: "vm \<Rightarrow> regs \<Rightarrow> nat \<Rightarrow> (vm \<times> regs) outcome" where
  "ensure_stack vm rg needed =
     (if unat (num_slots (vm_heap vm) (r_stack rg)) < needed then grow_stack vm rg needed
      else Ok (vm, rg))"

subsection \<open>Frames\<close>

definition bump_serial :: "vm \<Rightarrow> u32 \<times> vm" where
  "bump_serial vm =
     (let p = as_ptr (active_process vm);
          cur = word_of_int (as_int (vslot vm p PROCESS_SERIAL_COUNTER)) :: u32;
          next = (if 2 ^ 30 - 1 \<le> cur then 1 else cur + 1)
      in (next, vset_slot_raw vm p PROCESS_SERIAL_COUNTER (from_int (uint next))))"

definition frame_flags :: "vm \<Rightarrow> value \<Rightarrow> u64 \<Rightarrow> u64" where
  "frame_flags vm m extra =
     (let mh = word_of_int (drop_bit MH_FLAGS_SHIFT (method_header_bits vm m)) :: u64;
          f1 = (if mh AND MH_FLAG_IS_HANDLER \<noteq> 0 then extra OR FLAG_HANDLER else extra)
      in if mh AND MH_FLAG_IS_ENSURE \<noteq> 0 then f1 OR FLAG_ENSURE else f1)"

text \<open>Setting the slots from a to b - 1 of an object to one value.\<close>

definition set_range :: "vm \<Rightarrow> nat \<Rightarrow> nat \<Rightarrow> nat \<Rightarrow> value \<Rightarrow> vm" where
  "set_range vm obj a b v = fold (\<lambda>k vm. vset_slot_raw vm obj k v) [a..<b] vm"

definition push_frame ::
  "vm \<Rightarrow> regs \<Rightarrow> value \<Rightarrow> u8 \<Rightarrow> u8 \<Rightarrow> nat \<Rightarrow> int option \<Rightarrow> u64 \<Rightarrow> (vm \<times> regs) outcome" where
  "push_frame vm rg meth r dest argc prim_fail extra_flags =
     (let fs = method_frame_slots vm meth;
          new_off = r_frame rg + unat r
      in rbind (ensure_stack vm rg (new_off + FRAME_RECEIVER + fs)) (\<lambda>(vm1, rg1).
         let (serial, vm2) = bump_serial vm1;
             fflags = frame_flags vm2 meth extra_flags;
             st = r_stack rg1;
             vm3 = vset_slot_raw vm2 st (new_off + FRAME_CALLER) (from_int (int (r_frame rg1)));
             vm4 = vset_slot_raw vm3 st (new_off + FRAME_RETINFO)
                     (from_int (uint dest OR push_bit RETINFO_PC_SHIFT (int (r_pc rg1))));
             vm5 = vset_slot_raw vm4 st (new_off + FRAME_METHOD) meth;
             vm6 = vset_slot_raw vm5 st (new_off + FRAME_FLAGS)
                     (from_int (sint fflags OR push_bit SERIAL_SHIFT (uint serial)));
             vm7 = set_range vm6 st (new_off + FRAME_RECEIVER + (1 + argc)) (new_off + FRAME_RECEIVER + fs)
                     (nil vm6);
             rg2 = reload_code vm7 (rg1\<lparr>r_frame := new_off\<rparr>)
         in case prim_fail of
              Some code \<Rightarrow>
                let vm8 = put_slot vm7 rg2 (of_nat (1 + argc)) (from_int code);
                    first = insn_at (vm_heap vm8) (r_code rg2) 0
                in Ok (vm8, rg2\<lparr>r_pc := (if (ucast (first AND 255) :: u8) = OP_PRIM then 1 else 0)\<rparr>)
            | None \<Rightarrow> Ok (vm7, rg2\<lparr>r_pc := 0\<rparr>)))"

definition nil_frame :: "vm \<Rightarrow> regs \<Rightarrow> vm" where
  "nil_frame vm rg =
     set_range vm (r_stack rg) (r_frame rg) (r_frame rg + (FRAME_RECEIVER + method_frame_slots vm (r_method rg)))
       (nil vm)"

end
