(* ===== verification/Sends.thy ===== *)
theory Sends
  imports Registers Lookup_Cache
begin

section \<open>Sends\<close>

text \<open>
  The send path of src/interp.rs: the inline cache of the send site, the cached lookup, activation,
  doesNotUnderstand: and the staging of a send whose operands are not contiguous. A primitive may
  itself send, so the dispatcher of primitives is an argument P of these definitions; the theory of
  the primitives passes the dispatcher to them. The fatal messages leave out the values the code
  formats into them.
\<close>

type_synonym prim_fn =
  "u16 \<Rightarrow> vm \<Rightarrow> regs \<Rightarrow> u8 \<Rightarrow> nat \<Rightarrow> u8 \<Rightarrow> (prim_outcome \<times> vm \<times> regs) outcome"

definition activate ::
  "prim_fn \<Rightarrow> vm \<Rightarrow> regs \<Rightarrow> value \<Rightarrow> u8 \<Rightarrow> u8 \<Rightarrow> nat \<Rightarrow> (vm \<times> regs) outcome" where
  "activate P vm rg meth r dest argc =
     (case method_primitive vm meth of
        Some n \<Rightarrow>
          rbind (P n vm rg r argc dest) (\<lambda>(res, vm1, rg1).
            case res of
              Value v \<Rightarrow> Ok (put_slot vm1 rg1 dest v, rg1)
            | Control \<Rightarrow> Ok (vm1, rg1)
            | Fail code \<Rightarrow> push_frame vm1 rg1 meth r dest argc (Some code) 0)
      | None \<Rightarrow> push_frame vm rg meth r dest argc None 0)"

text \<open>The temporary roots are a stack; pop answers its last value.\<close>

definition push_root :: "vm \<Rightarrow> value \<Rightarrow> vm" where
  "push_root vm v = vm\<lparr>temp_roots := temp_roots vm @ [v]\<rparr>"

definition pop_root :: "vm \<Rightarrow> (value \<times> vm) outcome" where
  "pop_root vm =
     (if temp_roots vm = [] then Panic
      else Ok (last (temp_roots vm), vm\<lparr>temp_roots := butlast (temp_roots vm)\<rparr>))"

definition copy_args :: "vm \<Rightarrow> regs \<Rightarrow> nat \<Rightarrow> u8 \<Rightarrow> nat \<Rightarrow> vm" where
  "copy_args vm rg arr r argc =
     fold (\<lambda>i vm. vset_slot_raw vm arr i (get_slot vm rg (r + 1 + of_nat i))) [0..<argc] vm"

definition does_not_understand ::
  "prim_fn \<Rightarrow> vm \<Rightarrow> regs \<Rightarrow> u8 \<Rightarrow> u8 \<Rightarrow> value \<Rightarrow> nat \<Rightarrow> (vm \<times> regs) outcome" where
  "does_not_understand P vm0 rg0 dest r selector argc =
     (let c = vm_counters vm0;
          vm = vm0\<lparr>vm_counters := c\<lparr>dnu := dnu c + 1\<rparr>\<rparr>
      in rbind (alloc_gc vm rg0 CLASS_ARRAY FMT_PTRS argc) (\<lambda>(args_arr, vm1, rg1).
         let vm2 = push_root (copy_args vm1 rg1 (as_ptr args_arr) r argc) args_arr
         in rbind (alloc_gc vm2 rg1 CLASS_MESSAGE FMT_FIXED 2) (\<lambda>(msg, vm3, rg2).
            rbind (pop_root vm3) (\<lambda>(args, vm4).
            let vm5 = vset_slot_raw (vset_slot_raw vm4 (as_ptr msg) 0 selector) (as_ptr msg) 1 args;
                class_index = class_index_of vm5 (get_slot vm5 rg2 r);
                dnu_sel = specials vm5 ! SPECIAL_SEL_DOES_NOT_UNDERSTAND
            in rbind (lookup_cached vm5 class_index dnu_sel) (\<lambda>(found, vm6).
               case found of
                 None \<Rightarrow> fatal ''doesNotUnderstand: (and no doesNotUnderstand: handler)''
               | Some meth \<Rightarrow> activate P (put_slot vm6 rg2 (r + 1) msg) rg2 meth r dest 1)))))"

text \<open>
  An inline cache hit is decided by the class index alone; a miss looks the method up, through the
  global cache or, for a super send, above the static class, and refills the cache.
\<close>

definition do_send ::
  "prim_fn \<Rightarrow> vm \<Rightarrow> regs \<Rightarrow> u8 \<Rightarrow> u8 \<Rightarrow> value \<Rightarrow> nat \<Rightarrow> nat option \<Rightarrow> value option
     \<Rightarrow> (vm \<times> regs) outcome" where
  "do_send P vm0 rg dest r selector argc site_base super_static =
     (let receiver = get_slot vm0 rg r;
          class_index = class_index_of vm0 receiver;
          c = vm_counters vm0;
          vm = (if gate c then vm0\<lparr>vm_counters := c\<lparr>sends := sends c + 1\<rparr>\<rparr> else vm0);
          hit = (case site_base of
                   None \<Rightarrow> False
                 | Some base \<Rightarrow> as_int (vslot vm (r_sites rg) (base + SITE_CACHE_CLASS)) = uint class_index)
      in if hit
         then activate P vm rg (vslot vm (r_sites rg) (the site_base + SITE_CACHE_METHOD)) r dest argc
         else
           let c1 = vm_counters vm;
               vm1 = (if site_base \<noteq> None
                      then vm\<lparr>vm_counters := c1\<lparr>inline_cache_miss := inline_cache_miss c1 + 1\<rparr>\<rparr>
                      else vm)
           in rbind (case super_static of
                       Some cls \<Rightarrow> rbind (lookup_method_above vm1 cls selector) (\<lambda>m. Ok (m, vm1))
                     | None \<Rightarrow> lookup_cached vm1 class_index selector) (\<lambda>(looked_up, vm2).
              case looked_up of
                Some meth \<Rightarrow>
                  let vm3 = (case site_base of
                               None \<Rightarrow> vm2
                             | Some base \<Rightarrow>
                                 store_slot
                                   (vset_slot_raw vm2 (r_sites rg) (base + SITE_CACHE_CLASS)
                                      (from_int (uint class_index)))
                                   (r_sites rg) (base + SITE_CACHE_METHOD) meth)
                  in activate P vm3 rg meth r dest argc
              | None \<Rightarrow> does_not_understand P vm2 rg dest r selector argc))"

definition stage_values :: "vm \<Rightarrow> regs \<Rightarrow> nat \<Rightarrow> value list \<Rightarrow> vm" where
  "stage_values vm rg r vs =
     fold (\<lambda>(i, v) vm. put_slot vm rg (of_nat (r + i)) v) (enumerate 0 vs) vm"

definition send_staged ::
  "prim_fn \<Rightarrow> vm \<Rightarrow> regs \<Rightarrow> u8 \<Rightarrow> value \<Rightarrow> value list \<Rightarrow> (vm \<times> regs) outcome" where
  "send_staged P vm0 rg dest selector recv_and_args =
     (let c = vm_counters vm0;
          vm = vm0\<lparr>vm_counters := c\<lparr>sends_staged := sends_staged c + 1\<rparr>\<rparr>;
          fs = method_frame_slots vm (r_method rg);
          r = fs + FRAME_RECEIVER
      in if 250 < r + length recv_and_args then fatal ''staging area exceeds frame-slot limit''
         else rbind (ensure_stack vm rg (r_frame rg + FRAME_RECEIVER + r + length recv_and_args))
           (\<lambda>(vm1, rg1).
              do_send P (stage_values vm1 rg1 r recv_and_args) rg1 dest (of_nat r) selector
                (length recv_and_args - 1) None None))"

definition spec_slow ::
  "prim_fn \<Rightarrow> vm \<Rightarrow> regs \<Rightarrow> nat \<Rightarrow> u8 \<Rightarrow> u8 list \<Rightarrow> (vm \<times> regs) outcome" where
  "spec_slow P vm0 rg specsel dest operand_slots =
     (let c = vm_counters vm0
      in if length (spec_fallthrough c) \<le> specsel then Panic
         else
           let vm = vm0\<lparr>vm_counters := c\<lparr>spec_fallthrough :=
                       (spec_fallthrough c)[specsel := spec_fallthrough c ! specsel + 1]\<rparr>\<rparr>;
               sels = specials vm ! SPECIAL_SPECIALIZED_SELECTORS;
               selector = vslot vm (as_ptr sels) specsel
           in send_staged P vm rg dest selector (map (get_slot vm rg) operand_slots))"

end
