(* ===== verification/Unwind.thy ===== *)
theory Unwind
  imports Sends
begin

section \<open>Returns, non-local returns and unwinding\<close>

text \<open>
  The return paths of src/interp.rs. Returning from an activation started by the unwinder resumes
  the unwinding, and the unwinder ends in a return, so the two are mutually recursive; on a stack
  whose caller links go in a circle they do not end, hence the fuel. Each step of the unwinder uses
  one unit of it.
\<close>

definition frame_slot :: "vm \<Rightarrow> regs \<Rightarrow> nat \<Rightarrow> value" where
  "frame_slot vm rg i = vslot vm (r_stack rg) (r_frame rg + i)"

definition retinfo_dest :: "int \<Rightarrow> u8" where
  "retinfo_dest ri = word_of_int (ri AND (push_bit RETINFO_DEST_BITS 1 - 1))"

definition retinfo_pc :: "int \<Rightarrow> nat" where
  "retinfo_pc ri = as_usize (drop_bit RETINFO_PC_SHIFT ri)"

text \<open>The part of do_return that leaves the frame: the base frame halts the process.\<close>

definition leave_frame :: "vm \<Rightarrow> regs \<Rightarrow> value \<Rightarrow> vm \<times> regs" where
  "leave_frame vm rg v =
     (let caller = as_int (frame_slot vm rg FRAME_CALLER)
      in if caller = 0 then (vm, rg\<lparr>r_halted := Some v\<rparr>)
         else
           let ri = as_int (frame_slot vm rg FRAME_RETINFO);
               vm1 = nil_frame vm rg;
               rg1 = reload_code vm1 (rg\<lparr>r_pc := retinfo_pc ri, r_frame := as_usize caller\<rparr>)
           in (put_slot vm1 rg1 (retinfo_dest ri) v, rg1))"

definition pop_frame :: "vm \<Rightarrow> regs \<Rightarrow> int \<Rightarrow> vm \<times> regs" where
  "pop_frame vm rg caller =
     (let vm1 = nil_frame vm rg in (vm1, reload_code vm1 (rg\<lparr>r_frame := as_usize caller\<rparr>)))"

definition is_closure :: "vm \<Rightarrow> value \<Rightarrow> bool" where
  "is_closure vm v \<longleftrightarrow> is_ptr v \<and> hdr_class_index (header (vm_heap vm) (as_ptr v)) = CLASS_BLOCKCLOSURE"

definition run_ensure_block_then_continue ::
  "vm \<Rightarrow> regs \<Rightarrow> nat \<Rightarrow> value \<Rightarrow> nat \<Rightarrow> value \<Rightarrow> (vm \<times> regs) outcome" where
  "run_ensure_block_then_continue vm0 rg target v hsb blockv =
     (let c = vm_counters vm0;
          vm = vm0\<lparr>vm_counters := c\<lparr>ensure_interceptions := ensure_interceptions c + 1\<rparr>\<rparr>;
          target_serial = drop_bit SERIAL_SHIFT (as_int (vslot vm (r_stack rg) (target + FRAME_FLAGS)));
          vm1 = put_slot vm rg (of_nat (hsb + ENSURE_SLOT_BLOCK)) (nil vm);
          vm2 = put_slot vm1 rg (of_nat (hsb + ENSURE_SLOT_PENDING_TARGET)) (from_int (int target));
          vm3 = put_slot vm2 rg (of_nat (hsb + ENSURE_SLOT_PENDING_SERIAL)) (from_int target_serial);
          vm4 = put_slot vm3 rg (of_nat (hsb + ENSURE_SLOT_PENDING_VALUE)) v;
          block = vslot vm4 (as_ptr blockv) CLOSURE_COMPILED_BLOCK
      in if method_argc vm4 block \<noteq> 0 then fatal ''ensure block must take no arguments''
         else
           let r = method_frame_slots vm4 (r_method rg) + FRAME_RECEIVER
           in rbind (ensure_stack vm4 rg (r_frame rg + FRAME_RECEIVER + r + 1)) (\<lambda>(vm5, rg1).
              push_frame (put_slot vm5 rg1 (of_nat r) blockv) rg1 block (of_nat r) 0 0 None
                (FLAG_BLOCKCTX OR FLAG_UNWINDCONT)))"

text \<open>What the ensure frame holds when its block has returned: the pending target and value.\<close>

definition resume_pending :: "vm \<Rightarrow> regs \<Rightarrow> (nat \<times> value \<times> vm \<times> regs) outcome" where
  "resume_pending vm rg =
     (let e_off = as_int (frame_slot vm rg FRAME_CALLER);
          (vm1, rg1) = pop_frame vm rg e_off;
          hsb = method_handler_slot_base vm1 (r_method rg1);
          target = get_slot vm1 rg1 (of_nat (hsb + ENSURE_SLOT_PENDING_TARGET));
          serial = get_slot vm1 rg1 (of_nat (hsb + ENSURE_SLOT_PENDING_SERIAL));
          v = get_slot vm1 rg1 (of_nat (hsb + ENSURE_SLOT_PENDING_VALUE))
      in if \<not> is_int target then fatal ''corrupt pending unwind in ensure frame''
         else
           let t = as_usize (as_int target);
               flags = vslot vm1 (r_stack rg1) (t + FRAME_FLAGS)
           in if t \<le> r_frame rg1 \<and> is_int flags \<and> drop_bit SERIAL_SHIFT (as_int flags) = as_int serial
              then Ok (t, v, vm1, rg1)
              else fatal ''unwind target died while ensure block ran'')"

definition count_unwind :: "vm \<Rightarrow> vm" where
  "count_unwind vm =
     vm\<lparr>vm_counters := (vm_counters vm)\<lparr>unwind_runs := unwind_runs (vm_counters vm) + 1\<rparr>\<rparr>"

fun do_return :: "nat \<Rightarrow> vm \<Rightarrow> regs \<Rightarrow> value \<Rightarrow> (vm \<times> regs) outcome"
and unwind_loop :: "nat \<Rightarrow> vm \<Rightarrow> regs \<Rightarrow> nat \<Rightarrow> value \<Rightarrow> (vm \<times> regs) outcome" where
  "do_return 0 vm rg v = Diverge"
| "do_return (Suc fuel) vm rg v =
     (if as_int (frame_slot vm rg FRAME_FLAGS) AND uint FLAG_UNWINDCONT \<noteq> 0
      then rbind (resume_pending vm rg) (\<lambda>(t, pending, vm1, rg1).
           unwind_loop fuel (count_unwind vm1) rg1 t pending)
      else Ok (leave_frame vm rg v))"
| "unwind_loop 0 vm rg target v = Diverge"
| "unwind_loop (Suc fuel) vm rg target v =
     (if r_frame rg = target then do_return fuel vm rg v
      else if r_frame rg < target then fatal ''unwind target not on the frame chain''
      else
        let flags = as_int (frame_slot vm rg FRAME_FLAGS);
            hsb = method_handler_slot_base vm (r_method rg);
            blockv = get_slot vm rg (of_nat (hsb + ENSURE_SLOT_BLOCK));
            caller = as_int (frame_slot vm rg FRAME_CALLER)
        in if flags AND uint FLAG_ENSURE \<noteq> 0 \<and> is_closure vm blockv
           then run_ensure_block_then_continue vm rg target v hsb blockv
           else if caller = 0 then fatal ''unwind past base frame''
           else case pop_frame vm rg caller of (vm1, rg1) \<Rightarrow> unwind_loop fuel vm1 rg1 target v)"

definition unwind_and_return_from :: "nat \<Rightarrow> vm \<Rightarrow> regs \<Rightarrow> nat \<Rightarrow> value \<Rightarrow> (vm \<times> regs) outcome" where
  "unwind_and_return_from fuel vm rg target v = unwind_loop fuel (count_unwind vm) rg target v"

subsection \<open>Non-local return\<close>

definition home_alive :: "vm \<Rightarrow> regs \<Rightarrow> value \<Rightarrow> value \<Rightarrow> value \<Rightarrow> bool" where
  "home_alive vm rg hproc hoff hser \<longleftrightarrow>
     hproc = active_process vm \<and> hproc \<noteq> nil vm
     \<and> vslot vm (as_ptr hproc) PROCESS_STACK \<noteq> nil vm
     \<and> is_int hoff \<and> as_usize (as_int hoff) \<le> r_frame rg
     \<and> (let flags = vslot vm (r_stack rg) (as_usize (as_int hoff) + FRAME_FLAGS)
        in is_int flags \<and> drop_bit SERIAL_SHIFT (as_int flags) = as_int hser)"

definition do_nlr :: "prim_fn \<Rightarrow> nat \<Rightarrow> vm \<Rightarrow> regs \<Rightarrow> u8 \<Rightarrow> (vm \<times> regs) outcome" where
  "do_nlr P fuel vm0 rg a =
     (let c = vm_counters vm0;
          vm = vm0\<lparr>vm_counters := c\<lparr>nlrs := nlrs c + 1\<rparr>\<rparr>;
          v = get_slot vm rg a;
          closure = get_slot vm rg 0;
          ca = as_ptr closure;
          hproc = vslot vm ca CLOSURE_HOME_PROCESS;
          hoff = vslot vm ca CLOSURE_HOME_OFFSET;
          hser = vslot vm ca CLOSURE_HOME_SERIAL
      in if home_alive vm rg hproc hoff hser
         then unwind_and_return_from fuel vm rg (as_usize (as_int hoff)) v
         else rbind (intern vm ''cannotReturn:'') (\<lambda>(sel, vm1).
           let caller = as_int (frame_slot vm1 rg FRAME_CALLER)
           in if caller = 0 then fatal ''NLR with dead home from a base frame''
              else
                let ri = as_int (frame_slot vm1 rg FRAME_RETINFO);
                    vm2 = nil_frame vm1 rg;
                    rg1 = reload_code vm2 (rg\<lparr>r_frame := as_usize caller, r_pc := retinfo_pc ri\<rparr>)
                in send_staged P vm2 rg1 (retinfo_dest ri) sel [closure, v]))"

subsection \<open>Closures\<close>

definition do_mkclosure :: "vm \<Rightarrow> regs \<Rightarrow> u8 \<Rightarrow> u16 \<Rightarrow> (vm \<times> regs) outcome" where
  "do_mkclosure vm rg d b =
     (let info = as_int (vslot vm (as_ptr (vslot vm (r_lits rg) (unat b))) BLOCK_INFO);
          ncap = nat (info AND (push_bit BI_NUM_CAPTURED_BITS 1 - 1));
          has_nlr = (drop_bit BI_HAS_NLR_SHIFT info AND 1 \<noteq> 0)
      in rbind (alloc_gc vm rg CLASS_BLOCKCLOSURE FMT_FIXED (CLOSURE_CAPTURED_BASE + ncap))
           (\<lambda>(closure, vm1, rg1).
           let block = vslot vm1 (r_lits rg1) (unat b);
               ca = as_ptr closure;
               vm2 = vset_slot_raw vm1 ca CLOSURE_COMPILED_BLOCK block;
               flags = as_int (frame_slot vm2 rg1 FRAME_FLAGS);
               encl = as_ptr (get_slot vm2 rg1 0);
               set3 = (\<lambda>vm p off ser.
                  vset_slot_raw (vset_slot_raw (vset_slot_raw vm ca CLOSURE_HOME_PROCESS p)
                    ca CLOSURE_HOME_OFFSET off) ca CLOSURE_HOME_SERIAL ser);
               vm3 = (if \<not> has_nlr then set3 vm2 (nil vm2) (from_int 0) (from_int 0)
                      else if flags AND uint FLAG_BLOCKCTX \<noteq> 0
                      then fold (\<lambda>i vm. vset_slot_raw vm ca i (vslot vm encl i))
                             [CLOSURE_HOME_PROCESS, CLOSURE_HOME_OFFSET, CLOSURE_HOME_SERIAL] vm2
                      else set3 vm2 (active_process vm2) (from_int (int (r_frame rg1)))
                             (from_int (drop_bit SERIAL_SHIFT flags)))
           in Ok (put_slot vm3 rg1 d closure, rg1\<lparr>r_closure := Some d\<rparr>)))"

end
