(* ===== verification/Scheduler.thy ===== *)
theory Scheduler
  imports Run_Queues
begin

section \<open>The scheduler, semaphores and timers\<close>

text \<open>
  The scheduling operations of src/prims.rs that run no bytecode: choosing the next process,
  signalling a semaphore, firing timers and waiting for one. The wall clock is a parameter: clock k
  is what the k-th reading of it answers, in milliseconds since the machine started. The sleep
  between two readings is the passing of time between them.
\<close>

definition semaphore_signal_internal :: "vm \<Rightarrow> value \<Rightarrow> vm" where
  "semaphore_signal_internal vm sem =
     (case dequeue_process vm sem SEMAPHORE_QUEUE_HEAD SEMAPHORE_QUEUE_TAIL of
        Some (p, vm1) \<Rightarrow> make_runnable vm1 p
      | None \<Rightarrow>
          let n = as_int (vslot vm (as_ptr sem) SEMAPHORE_EXCESS_SIGNALS)
          in vset_slot_raw vm (as_ptr sem) SEMAPHORE_EXCESS_SIGNALS (from_int (n + 1)))"

definition service_timers :: "vm \<Rightarrow> int \<Rightarrow> bool \<times> vm" where
  "service_timers vm now =
     (let (fire, keep) = partition (\<lambda>(t, _). t \<le> now) (timer_requests vm);
          vm1 = vm\<lparr>timer_requests := keep\<rparr>;
          due = map snd fire
      in (due \<noteq> [], foldl semaphore_signal_internal vm1 due))"

text \<open>
  The loop reads the clock in service_timers and, when nothing fired, once more before it sleeps.
\<close>

fun pick_next_or_wait :: "(nat \<Rightarrow> int) \<Rightarrow> nat \<Rightarrow> nat \<Rightarrow> vm \<Rightarrow> (value \<times> vm) outcome" where
  "pick_next_or_wait clock 0 k vm = Diverge"
| "pick_next_or_wait clock (Suc fuel) k vm =
     (case take_next_runnable vm of
        Some r \<Rightarrow> Ok r
      | None \<Rightarrow>
          if timer_requests vm = []
          then fatal ''deadlock: no runnable process and no pending timers''
          else let (fired, vm1) = service_timers vm (clock k)
               in pick_next_or_wait clock fuel (if fired then k + 1 else k + 2) vm1)"

subsection \<open>The queues of the machine\<close>

text \<open>
  All the queues at once: the eight run queues and the waiting lists of a set of semaphores, with
  what each holds. They share no object with each other or with the scheduler.
\<close>

datatype queue_id = Run nat | Waiting "value"

fun queue_obj :: "vm \<Rightarrow> queue_id \<Rightarrow> value" where
  "queue_obj vm (Run i) = vslot vm (as_ptr (scheduler_queues vm)) i"
| "queue_obj vm (Waiting s) = s"

fun head_of :: "queue_id \<Rightarrow> nat" where
  "head_of (Run i) = LIST_HEAD"
| "head_of (Waiting s) = SEMAPHORE_QUEUE_HEAD"

fun tail_of :: "queue_id \<Rightarrow> nat" where
  "tail_of (Run i) = LIST_TAIL"
| "tail_of (Waiting s) = SEMAPHORE_QUEUE_TAIL"

definition queue_ids :: "value set \<Rightarrow> queue_id set" where
  "queue_ids S = Run ` {..<NUM_PRIORITIES} \<union> Waiting ` S"

definition anchors :: "vm \<Rightarrow> nat set" where
  "anchors vm = {as_ptr (specials vm ! SPECIAL_PROCESSOR), as_ptr (scheduler_queues vm)}"

definition scheduler_ok :: "vm \<Rightarrow> bool" where
  "scheduler_ok vm \<longleftrightarrow> anchors vm \<subseteq> live (vm_heap vm)
     \<and> SCHEDULER_QUEUES < unat (num_slots (vm_heap vm) (as_ptr (specials vm ! SPECIAL_PROCESSOR)))
     \<and> NUM_PRIORITIES \<le> unat (num_slots (vm_heap vm) (as_ptr (scheduler_queues vm)))"

definition members :: "vm \<Rightarrow> (queue_id \<Rightarrow> value list) \<Rightarrow> queue_id \<Rightarrow> nat set" where
  "members vm c q = parts (queue_obj vm q) (c q)"

definition queues :: "vm \<Rightarrow> value set \<Rightarrow> (queue_id \<Rightarrow> value list) \<Rightarrow> bool" where
  "queues vm S c \<longleftrightarrow> scheduler_ok vm
     \<and> (\<forall>q \<in> queue_ids S. holds (queue_obj vm q) (head_of q) (tail_of q) vm (c q)
          \<and> queue_obj vm q \<noteq> nil vm \<and> members vm c q \<inter> anchors vm = {}
          \<and> (\<forall>r \<in> queue_ids S. q \<noteq> r \<longrightarrow> members vm c q \<inter> members vm c r = {}))"

text \<open>A process that is in no queue and is none of the objects the queues are made of.\<close>

definition loose :: "vm \<Rightarrow> value set \<Rightarrow> value \<Rightarrow> bool" where
  "loose vm S p \<longleftrightarrow> idle vm p \<and> as_ptr p \<notin> anchors vm \<and> (\<forall>q \<in> queue_ids S. p \<noteq> queue_obj vm q)"

lemma queuesD:
  assumes "queues vm S c" and "q \<in> queue_ids S"
  shows "holds (queue_obj vm q) (head_of q) (tail_of q) vm (c q)" and "queue_obj vm q \<noteq> nil vm"
    and "members vm c q \<inter> anchors vm = {}"
    and "r \<in> queue_ids S \<Longrightarrow> q \<noteq> r \<Longrightarrow> members vm c q \<inter> members vm c r = {}"
  using assms unfolding queues_def by blast+

lemma anchors_touches:
  assumes s: "scheduler_ok vm" and t: "touches A vm vm'" and a: "anchors vm \<inter> A = {}"
  shows "anchors vm' = anchors vm" and "scheduler_ok vm'" and "q \<in> queue_ids S \<Longrightarrow> queue_obj vm' q = queue_obj vm q"
proof -
  have sp: "specials vm' = specials vm" using t by (simp add: touches_def)
  have sq: "scheduler_queues vm' = scheduler_queues vm"
    using touches_slot [OF t, of "as_ptr (specials vm ! SPECIAL_PROCESSOR)" SCHEDULER_QUEUES] s a
    by (simp add: scheduler_queues_def sp scheduler_ok_def anchors_def)
  show an: "anchors vm' = anchors vm" by (simp add: anchors_def sp sq)
  show "scheduler_ok vm'" using s t unfolding scheduler_ok_def an sp sq
    by (auto simp: touches_def anchors_def)
  show "queue_obj vm' q = queue_obj vm q" if "q \<in> queue_ids S"
    using touches_slot [OF t, of "as_ptr (scheduler_queues vm)"] s a that sq
    by (cases q) (auto simp: queue_ids_def scheduler_ok_def anchors_def)
qed

lemma queues_step:
  assumes q: "queues vm S c" "q \<in> queue_ids S" and t: "touches A vm vm'" and a: "anchors vm \<inter> A = {}"
    and o: "\<And>r. r \<in> queue_ids S \<Longrightarrow> r \<noteq> q \<Longrightarrow> members vm c r \<inter> A = {}"
    and h: "holds (queue_obj vm q) (head_of q) (tail_of q) vm' ps" and p: "parts (queue_obj vm q) ps \<subseteq> A"
  shows "queues vm' S (c(q := ps))"
proof -
  note an = anchors_touches [OF _ t a]
  have s: "scheduler_ok vm" using q by (simp add: queues_def)
  have m: "members vm' (c(q := ps)) r = (if r = q then parts (queue_obj vm q) ps else members vm c r)"
    if "r \<in> queue_ids S" for r
    using an(3) [OF s that] by (simp add: members_def)
  have nv: "nil vm' = nil vm" by (rule touches_nil [OF t])
  have "holds (queue_obj vm' r) (head_of r) (tail_of r) vm' ((c(q := ps)) r)
      \<and> queue_obj vm' r \<noteq> nil vm' \<and> members vm' (c(q := ps)) r \<inter> anchors vm' = {}"
    if r: "r \<in> queue_ids S" for r
  proof (cases "r = q")
    case True
    then show ?thesis using h p a an(1,3) [OF s] m [OF r] q(2) queuesD(2) [OF q] nv by auto
  next
    case False
    have "holds (queue_obj vm r) (head_of r) (tail_of r) vm' (c r)"
      using o [OF r False] by (intro holds_touches [OF t queuesD(1) [OF q(1) r]]) (simp add: members_def)
    then show ?thesis using False an(1,3) [OF s] m [OF r] r queuesD(2,3) [OF q(1) r] nv by simp
  qed
  moreover have "members vm' (c(q := ps)) r1 \<inter> members vm' (c(q := ps)) r2 = {}"
    if r: "r1 \<in> queue_ids S" "r2 \<in> queue_ids S" "r1 \<noteq> r2" for r1 r2
    using o [OF r(1)] o [OF r(2)] p queuesD(4) [OF q(1) r] r(3) unfolding m [OF r(1)] m [OF r(2)]
    by (cases "r1 = q"; cases "r2 = q") auto
  ultimately show ?thesis using an(2) [OF s] unfolding queues_def by blast
qed

lemma loose_touches:
  assumes s: "queues vm S c" and t: "touches A vm vm'" and a: "anchors vm \<inter> A = {}"
    and p: "loose vm S p" "as_ptr p \<notin> A"
  shows "loose vm' S p"
proof -
  have "scheduler_ok vm" using s by (simp add: queues_def)
  from anchors_touches [OF this t a] idle_touches [OF t _ p(2)] p(1) show ?thesis
    by (auto simp: loose_def)
qed

lemma loose_not_queued:
  assumes "queues vm S c" and "loose vm S p" and "q \<in> queue_ids S"
  shows "p \<notin> set (c q)" and "p \<noteq> queue_obj vm q" and "as_ptr p \<notin> members vm c q"
  using idle_not_queued [OF queuesD(1) [OF assms(1,3)]] queuesD(2) [OF assms(1,3)] assms(2,3)
  by (auto simp: loose_def members_def parts_def)

lemma enqueue_step:
  assumes q: "queues vm S c" "q \<in> queue_ids S" and p: "loose vm S p"
  shows "queues (enqueue_process vm (queue_obj vm q) (head_of q) (tail_of q) p) S (c(q := c q @ [p]))"
    and "loose vm S r \<Longrightarrow> r \<noteq> p \<Longrightarrow>
      loose (enqueue_process vm (queue_obj vm q) (head_of q) (tail_of q) p) S r"
proof -
  let ?l = "queue_obj vm q"
  let ?A = "parts ?l (p # c q)"
  note n = loose_not_queued [OF q(1) p]
  have e: "holds ?l (head_of q) (tail_of q) vm (c q)" "process_ok vm p" "p \<notin> set (c q)" "p \<noteq> ?l"
    using queuesD(1) [OF q] p n [OF q(2)] by (auto simp: loose_def idle_def)
  note t = enqueue_touches [OF e]
  have A: "?A = insert (as_ptr p) (members vm c q)" by (auto simp: members_def parts_def)
  have a: "anchors vm \<inter> ?A = {}" using queuesD(3) [OF q] p unfolding A loose_def by auto
  have o: "members vm c r \<inter> ?A = {}" if "r \<in> queue_ids S" "r \<noteq> q" for r
    using n(3) [OF that(1)] queuesD(4) [OF q(1) that(1) q(2) that(2)] unfolding A by auto
  show "queues (enqueue_process vm ?l (head_of q) (tail_of q) p) S (c(q := c q @ [p]))"
    by (rule queues_step [OF q t a o enqueue_holds [OF e]]) (auto simp: parts_def)
  show "loose (enqueue_process vm ?l (head_of q) (tail_of q) p) S r" if "loose vm S r" "r \<noteq> p"
    using loose_touches [OF q(1) t a that(1)] loose_not_queued(3) [OF q(1) that(1) q(2)] that(2)
    unfolding A by auto
qed

lemma dequeue_step:
  assumes q: "queues vm S c" "q \<in> queue_ids S" and c: "c q = p # ps"
  shows "\<exists>vm'. dequeue_process vm (queue_obj vm q) (head_of q) (tail_of q) = Some (p, vm')
    \<and> queues vm' S (c(q := ps)) \<and> loose vm' S p \<and> (\<forall>r. loose vm S r \<longrightarrow> loose vm' S r)"
proof -
  let ?l = "queue_obj vm q"
  have h: "holds ?l (head_of q) (tail_of q) vm (p # ps)" using queuesD(1) [OF q] c by simp
  obtain vm' where d: "dequeue_process vm ?l (head_of q) (tail_of q) = Some (p, vm')"
    "holds ?l (head_of q) (tail_of q) vm' ps" "idle vm' p"
    using dequeue_holds [OF h] by blast
  let ?A = "parts ?l (p # ps)"
  have t: "touches ?A vm vm'" using dequeue_touches [OF h] d(1) by simp
  have A: "?A = members vm c q" by (simp add: members_def c)
  have a: "anchors vm \<inter> ?A = {}" using queuesD(3) [OF q] unfolding A by auto
  have o: "members vm c r \<inter> ?A = {}" if "r \<in> queue_ids S" "r \<noteq> q" for r
    using queuesD(4) [OF q(1) that(1) q(2) that(2)] unfolding A by auto
  have s: "scheduler_ok vm" using q by (simp add: queues_def)
  note an = anchors_touches [OF s t a]
  have k: "queues vm' S (c(q := ps))"
    by (rule queues_step [OF q t a o d(2)]) (auto simp: parts_def)
  have pm: "as_ptr p \<in> members vm c q" by (simp add: members_def parts_def c)
  have "p \<noteq> queue_obj vm r" if r: "r \<in> queue_ids S" for r
  proof (cases "r = q")
    case True
    then show ?thesis using h by (auto simp: holds_def)
  next
    case False
    have "as_ptr (queue_obj vm r) \<in> members vm c r" by (simp add: members_def parts_def)
    then show ?thesis using o [OF r False] pm unfolding A by auto
  qed
  then have "loose vm' S p"
    using d(3) a pm an(1,3) unfolding A loose_def by auto
  moreover have "loose vm' S r" if "loose vm S r" for r
    using loose_touches [OF q(1) t a that] loose_not_queued(3) [OF q(1) that q(2)] unfolding A by blast
  ultimately show ?thesis using d(1) k by blast
qed

subsection \<open>What the queue operations do not write\<close>

lemma enqueue_other:
  assumes e: "holds l hs ts vm ps" "process_ok vm p" "p \<notin> set ps" "p \<noteq> l"
    and y: "y \<in> live (vm_heap vm)" "j < unat (num_slots (vm_heap vm) y)"
    and l: "y = as_ptr l \<Longrightarrow> j \<noteq> hs \<and> j \<noteq> ts"
    and m: "y \<in> as_ptr ` set (p # ps) \<Longrightarrow> j \<noteq> PROCESS_NEXT_LINK \<and> j \<noteq> PROCESS_MY_LIST"
  shows "vslot (enqueue_process vm l hs ts p) y j = vslot vm y j"
  using vslot_view [OF enqueue_view [OF e] y] l m by (auto dest: last_in_set)

lemma dequeue_other:
  assumes e: "holds l hs ts vm (p # ps)"
    and y: "y \<in> live (vm_heap vm)" "j < unat (num_slots (vm_heap vm) y)"
    and l: "y = as_ptr l \<Longrightarrow> j \<noteq> hs \<and> j \<noteq> ts"
    and m: "y = as_ptr p \<Longrightarrow> j \<noteq> PROCESS_NEXT_LINK \<and> j \<noteq> PROCESS_MY_LIST"
  shows "vslot (snd (the (dequeue_process vm l hs ts))) y j = vslot vm y j"
proof -
  from dequeue_view [OF e] obtain vm' where "dequeue_process vm l hs ts = Some (p, vm')"
    and v: "view (vm_heap vm) (vm_heap vm')
    (\<lambda>y j. if y = as_ptr p \<and> j = PROCESS_MY_LIST then Some (nil vm)
           else if y = as_ptr p \<and> j = PROCESS_NEXT_LINK then Some (nil vm)
           else if ps = [] \<and> y = as_ptr l \<and> j = ts then Some (nil vm)
           else if y = as_ptr l \<and> j = hs then Some (vslot vm (as_ptr p) PROCESS_NEXT_LINK) else None)"
    by blast
  with vslot_view [OF v y] l m show ?thesis by auto
qed

subsection \<open>Run queues by priority\<close>

definition level :: "vm \<Rightarrow> value \<Rightarrow> nat" where
  "level vm p = nat (min (max (process_priority vm p) 1) (int NUM_PRIORITIES)) - 1"

lemma level_less: "level vm p < NUM_PRIORITIES"
  by (simp add: level_def)

lemma run_id [simp]: "Run i \<in> queue_ids S \<longleftrightarrow> i < NUM_PRIORITIES"
  by (auto simp: queue_ids_def)

lemma waiting_id [simp]: "Waiting s \<in> queue_ids S \<longleftrightarrow> s \<in> S"
  by (auto simp: queue_ids_def)

lemma make_runnable_eq:
  "make_runnable vm p = enqueue_process vm (queue_obj vm (Run (level vm p)))
     (head_of (Run (level vm p))) (tail_of (Run (level vm p))) p"
  by (simp add: make_runnable_def level_def Let_def)

lemma make_runnable_step:
  assumes "queues vm S c" and "loose vm S p"
  shows "queues (make_runnable vm p) S (c(Run (level vm p) := c (Run (level vm p)) @ [p]))"
    and "loose vm S r \<Longrightarrow> r \<noteq> p \<Longrightarrow> loose (make_runnable vm p) S r"
  using enqueue_step [OF assms(1) _ assms(2), of "Run (level vm p)"] level_less [of vm p]
  by (simp_all add: make_runnable_eq)

definition highest :: "(queue_id \<Rightarrow> value list) \<Rightarrow> nat \<Rightarrow> nat \<Rightarrow> bool" where
  "highest c n k \<longleftrightarrow> k < n \<and> c (Run k) \<noteq> [] \<and> (\<forall>j. k < j \<longrightarrow> j < n \<longrightarrow> c (Run j) = [])"

lemma run_queue_empty:
  assumes "queues vm S c" and "k < NUM_PRIORITIES"
  shows "dequeue_process vm (queue_obj vm (Run k)) LIST_HEAD LIST_TAIL = None \<longleftrightarrow> c (Run k) = []"
    and "vslot vm (as_ptr (queue_obj vm (Run k))) LIST_HEAD = nil vm \<longleftrightarrow> c (Run k) = []"
proof -
  have h: "holds (queue_obj vm (Run k)) LIST_HEAD LIST_TAIL vm (c (Run k))"
    using queuesD(1) [OF assms(1), of "Run k"] assms(2) by simp
  show "vslot vm (as_ptr (queue_obj vm (Run k))) LIST_HEAD = nil vm \<longleftrightarrow> c (Run k) = []"
    using h by (cases "c (Run k)") (auto simp: holds_def process_ok_def)
  then show "dequeue_process vm (queue_obj vm (Run k)) LIST_HEAD LIST_TAIL = None \<longleftrightarrow> c (Run k) = []"
    by (simp add: dequeue_process_def Let_def)
qed

lemma take_below_step:
  assumes q: "queues vm S c" and n: "n \<le> NUM_PRIORITIES"
  shows "case take_below vm (as_ptr (scheduler_queues vm)) n of
      None \<Rightarrow> \<forall>i < n. c (Run i) = []
    | Some (p, vm') \<Rightarrow> \<exists>k. highest c n k \<and> hd (c (Run k)) = p
         \<and> dequeue_process vm (queue_obj vm (Run k)) LIST_HEAD LIST_TAIL = Some (p, vm')"
  using n
proof (induction n)
  case (Suc n)
  let ?d = "dequeue_process vm (queue_obj vm (Run n)) LIST_HEAD LIST_TAIL"
  show ?case
  proof (cases "c (Run n)")
    case Nil
    then have "?d = None" using run_queue_empty(1) [OF q, of n] Suc.prems by simp
    with Suc Nil show ?thesis by (auto simp: highest_def less_Suc_eq split: option.splits)
  next
    case (Cons p ps)
    then obtain vm' where "?d = Some (p, vm')"
      using dequeue_step [OF q, of "Run n" p ps] Suc.prems by auto
    with Cons show ?thesis by (auto simp: highest_def)
  qed
qed simp

text \<open>
  C10. The scheduler takes the process that has waited longest on the highest priority that has one:
  with the queues of the machine holding c, take_next_runnable answers None exactly when every run
  queue is empty; otherwise it answers the first process of the highest non-empty queue, which is
  removed from that queue and then belongs to none, and every other queue holds what it held.
\<close>

theorem take_next_runnable_highest:
  assumes "queues vm S c"
  shows "case take_next_runnable vm of
      None \<Rightarrow> \<forall>i < NUM_PRIORITIES. c (Run i) = []
    | Some (p, vm') \<Rightarrow> \<exists>k ps. highest c NUM_PRIORITIES k \<and> c (Run k) = p # ps
         \<and> queues vm' S (c(Run k := ps)) \<and> loose vm' S p"
proof (cases "take_next_runnable vm")
  case None
  then show ?thesis using take_below_step [OF assms, of NUM_PRIORITIES] by (simp add: take_next_runnable_def)
next
  case (Some r)
  obtain p vm' where r: "r = (p, vm')" by (cases r)
  with Some obtain k where k: "highest c NUM_PRIORITIES k" "hd (c (Run k)) = p"
    "dequeue_process vm (queue_obj vm (Run k)) LIST_HEAD LIST_TAIL = Some (p, vm')"
    using take_below_step [OF assms, of NUM_PRIORITIES] by (auto simp: take_next_runnable_def)
  obtain ps where "c (Run k) = p # ps" using k by (cases "c (Run k)") (auto simp: highest_def)
  with dequeue_step [OF assms, of "Run k" p ps] k show ?thesis by (auto simp: Some r highest_def)
qed

lemma ceiling_below:
  assumes "queues vm S c" and "n \<le> NUM_PRIORITIES"
  shows "ceiling_below vm (as_ptr (scheduler_queues vm)) n = Some m \<longleftrightarrow> (\<exists>k. highest c n k \<and> m = int k + 1)"
  using assms(2)
proof (induction n)
  case (Suc n)
  then show ?case using run_queue_empty(2) [OF assms(1), of n]
    by (auto simp: highest_def less_Suc_eq)
qed (simp add: highest_def)

lemma highest_unique: "highest c n k \<Longrightarrow> highest c n j \<Longrightarrow> j = k"
  unfolding highest_def by (metis linorder_neqE_nat)

text \<open>
  The preemption check and the scheduler agree: runnable_priority_ceiling answers the priority
  of the queue take_next_runnable would take from, and None exactly when nothing is runnable.
\<close>

theorem ceiling_is_next_priority:
  assumes "queues vm S c"
  shows "(take_next_runnable vm = None \<and> runnable_priority_ceiling vm = None)
    \<or> (\<exists>p vm' k. take_next_runnable vm = Some (p, vm') \<and> runnable_priority_ceiling vm = Some (int k + 1)
          \<and> highest c NUM_PRIORITIES k \<and> hd (c (Run k)) = p)"
proof (cases "take_next_runnable vm")
  case None
  then have "\<forall>k. \<not> highest c NUM_PRIORITIES k"
    using take_next_runnable_highest [OF assms] by (simp add: highest_def)
  then have "runnable_priority_ceiling vm = None"
    using ceiling_below [OF assms, of NUM_PRIORITIES] by (cases "runnable_priority_ceiling vm")
      (auto simp: runnable_priority_ceiling_def)
  with None show ?thesis by simp
next
  case (Some r)
  obtain p vm' where r: "r = (p, vm')" by (cases r)
  then obtain k ps where "highest c NUM_PRIORITIES k" "c (Run k) = p # ps"
    using take_next_runnable_highest [OF assms] Some by auto
  then show ?thesis
    using ceiling_below [OF assms, of NUM_PRIORITIES] Some r
    by (auto simp: runnable_priority_ceiling_def)
qed

subsection \<open>Semaphores\<close>

definition excess :: "vm \<Rightarrow> value \<Rightarrow> int" where
  "excess vm s = as_int (vslot vm (as_ptr s) SEMAPHORE_EXCESS_SIGNALS)"

text \<open>
  The abstract machine: what each queue holds and how many signals each semaphore has in store.
  A process keeps its level while it is queued.
\<close>

type_synonym sched = "(queue_id \<Rightarrow> value list) \<times> (value \<Rightarrow> int)"

fun signal_abs :: "(value \<Rightarrow> nat) \<Rightarrow> sched \<Rightarrow> value \<Rightarrow> sched" where
  "signal_abs lev (c, e) s =
     (case c (Waiting s) of
        [] \<Rightarrow> (c, e(s := e s + 1))
      | p # ps \<Rightarrow> (let c1 = c(Waiting s := ps)
                   in (c1(Run (lev p) := c1 (Run (lev p)) @ [p]), e)))"

definition represents :: "vm \<Rightarrow> value set \<Rightarrow> (value \<Rightarrow> nat) \<Rightarrow> sched \<Rightarrow> bool" where
  "represents vm S lev st \<longleftrightarrow> queues vm S (fst st)
     \<and> (\<forall>s \<in> S. SEMAPHORE_NUM_VM_SLOTS \<le> unat (num_slots (vm_heap vm) (as_ptr s))
          \<and> snd st s = excess vm s \<and> (\<forall>p \<in> set (fst st (Waiting s)). lev p = level vm p))"

text \<open>No process waits on a semaphore that has signals in store.\<close>

definition sems_ok :: "value set \<Rightarrow> sched \<Rightarrow> bool" where
  "sems_ok S st \<longleftrightarrow> (\<forall>s \<in> S. 0 \<le> snd st s \<and> (fst st (Waiting s) \<noteq> [] \<longrightarrow> snd st s = 0))"

lemma signal_abs_sems_ok: "sems_ok S st \<Longrightarrow> sems_ok S (signal_abs lev st s)"
  by (cases st; cases "fst st (Waiting s)") (auto simp: sems_ok_def Let_def)

lemma queue_slots_small: "head_of q \<le> 1 \<and> tail_of q \<le> 2 \<and> head_of q \<noteq> tail_of q"
  by (cases q) simp_all

lemma semaphore_live:
  assumes "queues vm S c" and "s \<in> S"
  shows "as_ptr s \<in> live (vm_heap vm)" and "\<And>i. i < NUM_PRIORITIES \<Longrightarrow> s \<noteq> queue_obj vm (Run i)"
proof -
  show "as_ptr s \<in> live (vm_heap vm)"
    using queuesD(1) [OF assms(1), of "Waiting s"] assms(2) by (simp add: holds_def list_ok_def)
  fix i assume "i < NUM_PRIORITIES"
  then have "members vm c (Waiting s) \<inter> members vm c (Run i) = {}"
    using queuesD(4) [OF assms(1), of "Waiting s" "Run i"] assms(2) by simp
  then show "s \<noteq> queue_obj vm (Run i)" by (auto simp: members_def parts_def)
qed

lemma excess_slot:
  assumes q: "queues vm S c" "q \<in> queue_ids S" and s: "s \<in> S"
    and "as_ptr s = as_ptr (queue_obj vm q)"
  shows "SEMAPHORE_EXCESS_SIGNALS \<noteq> head_of q \<and> SEMAPHORE_EXCESS_SIGNALS \<noteq> tail_of q"
  using assms semaphore_live(2) [OF q(1) s] by (cases q) auto

lemma enqueue_keeps:
  assumes q: "queues vm S c" "q \<in> queue_ids S" and p: "loose vm S p"
  shows "s \<in> S \<Longrightarrow> 0 < unat (num_slots (vm_heap vm) (as_ptr s)) \<Longrightarrow>
      excess (enqueue_process vm (queue_obj vm q) (head_of q) (tail_of q) p) s = excess vm s"
    and "process_ok vm r \<Longrightarrow>
      level (enqueue_process vm (queue_obj vm q) (head_of q) (tail_of q) p) r = level vm r"
proof -
  have e: "holds (queue_obj vm q) (head_of q) (tail_of q) vm (c q)" "process_ok vm p"
    "p \<notin> set (c q)" "p \<noteq> queue_obj vm q"
    using queuesD(1) [OF q] p loose_not_queued [OF q(1) p q(2)] by (auto simp: loose_def idle_def)
  note o = enqueue_other [OF e]
  show "excess (enqueue_process vm (queue_obj vm q) (head_of q) (tail_of q) p) s = excess vm s"
    if "s \<in> S" "0 < unat (num_slots (vm_heap vm) (as_ptr s))"
    using o [of "as_ptr s" SEMAPHORE_EXCESS_SIGNALS] semaphore_live(1) [OF q(1) that(1)] that(2)
      excess_slot [OF q that(1)] by (simp add: excess_def)
  show "level (enqueue_process vm (queue_obj vm q) (head_of q) (tail_of q) p) r = level vm r"
    if "process_ok vm r"
    using o [of "as_ptr r" PROCESS_PRIORITY] process_ok_slot [OF that] queue_slots_small [of q]
    by (simp add: level_def process_priority_def)
qed

lemma dequeue_keeps:
  assumes q: "queues vm S c" "q \<in> queue_ids S" and c: "c q = p # ps"
    and d: "dequeue_process vm (queue_obj vm q) (head_of q) (tail_of q) = Some (p, vm')"
  shows "s \<in> S \<Longrightarrow> 0 < unat (num_slots (vm_heap vm) (as_ptr s)) \<Longrightarrow> excess vm' s = excess vm s"
    and "process_ok vm r \<Longrightarrow> level vm' r = level vm r"
proof -
  have e: "holds (queue_obj vm q) (head_of q) (tail_of q) vm (p # ps)" using queuesD(1) [OF q] c by simp
  note o = dequeue_other [OF e, unfolded d option.sel snd_conv]
  show "excess vm' s = excess vm s" if "s \<in> S" "0 < unat (num_slots (vm_heap vm) (as_ptr s))"
    using o [of "as_ptr s" SEMAPHORE_EXCESS_SIGNALS] semaphore_live(1) [OF q(1) that(1)] that(2)
      excess_slot [OF q that(1)] by (simp add: excess_def)
  show "level vm' r = level vm r" if "process_ok vm r"
    using o [of "as_ptr r" PROCESS_PRIORITY] process_ok_slot [OF that] queue_slots_small [of q]
    by (simp add: level_def process_priority_def)
qed

lemma queues_touches:
  assumes "queues vm S c" and "q \<in> queue_ids S"
  shows "loose vm S p \<Longrightarrow>
      touches (insert (as_ptr p) (members vm c q)) vm (enqueue_process vm (queue_obj vm q) (head_of q) (tail_of q) p)"
    and "c q = p # ps \<Longrightarrow> dequeue_process vm (queue_obj vm q) (head_of q) (tail_of q) = Some (p, vm') \<Longrightarrow>
      touches (members vm c q) vm vm'"
proof -
  show "touches (insert (as_ptr p) (members vm c q)) vm (enqueue_process vm (queue_obj vm q) (head_of q) (tail_of q) p)"
    if "loose vm S p"
    using enqueue_touches [OF queuesD(1) [OF assms]] loose_not_queued [OF assms(1) that assms(2)] that
    by (simp add: loose_def idle_def members_def parts_def insert_commute)
  show "touches (members vm c q) vm vm'"
    if "c q = p # ps" "dequeue_process vm (queue_obj vm q) (head_of q) (tail_of q) = Some (p, vm')"
    using dequeue_touches [of "queue_obj vm q" "head_of q" "tail_of q" vm p ps] queuesD(1) [OF assms] that
    by (simp add: members_def)
qed

lemma queued_process_ok: "queues vm S c \<Longrightarrow> q \<in> queue_ids S \<Longrightarrow> p \<in> set (c q) \<Longrightarrow> process_ok vm p"
  using queuesD(1) by (fastforce simp: holds_def)

lemma signal_wakes:
  assumes r: "represents vm S lev (c, e)" and s: "s \<in> S" and c: "c (Waiting s) = p # ps"
  shows "represents (semaphore_signal_internal vm s) S lev (signal_abs lev (c, e) s)"
proof -
  have q: "queues vm S c" and w: "Waiting s \<in> queue_ids S" and n: "\<And>t. t \<in> S \<Longrightarrow> 3 \<le> unat (num_slots (vm_heap vm) (as_ptr t))"
    and ex: "\<And>t. t \<in> S \<Longrightarrow> e t = excess vm t" and lv: "\<And>t p. t \<in> S \<Longrightarrow> p \<in> set (c (Waiting t)) \<Longrightarrow> lev p = level vm p"
    using r s by (auto simp: represents_def)
  let ?c1 = "c(Waiting s := ps)"
  obtain vm1 where d: "dequeue_process vm (queue_obj vm (Waiting s)) (head_of (Waiting s)) (tail_of (Waiting s)) = Some (p, vm1)"
    and q1: "queues vm1 S ?c1" and l1: "loose vm1 S p"
    using dequeue_step [OF q w c] by blast
  note k1 = dequeue_keeps [OF q w c d] and t1 = queues_touches(2) [OF q w c d]
  let ?k = "level vm1 p"
  let ?vm2 = "make_runnable vm1 p"
  have run: "Run ?k \<in> queue_ids S" using level_less by simp
  note q2 = make_runnable_step(1) [OF q1 l1]
    and k2 = enqueue_keeps [OF q1 run l1, folded make_runnable_eq]
    and t2 = queues_touches(1) [OF q1 run l1, folded make_runnable_eq]
  have vm': "semaphore_signal_internal vm s = ?vm2"
    using d by (simp add: semaphore_signal_internal_def)
  have lp: "level vm1 p = lev p"
    using k1(2) [OF queued_process_ok [OF q w]] lv [OF s] by (simp add: c)
  have ns: "num_slots (vm_heap ?vm2) (as_ptr t) = num_slots (vm_heap vm) (as_ptr t)"
    "num_slots (vm_heap vm1) (as_ptr t) = num_slots (vm_heap vm) (as_ptr t)" if "t \<in> S" for t
    using t1 t2 semaphore_live(1) [OF q that] semaphore_live(1) [OF q1 that] by (auto simp: touches_def)
  have "excess ?vm2 t = e t" if "t \<in> S" for t
    using k1(1) [OF that] k2(1) [OF that] ns [OF that] n [OF that] ex [OF that] by simp
  moreover have "lev r = level ?vm2 r" if t: "t \<in> S" and r: "r \<in> set (?c1 (Waiting t))" for t r
  proof -
    have "r \<in> set (c (Waiting t))" using r c by (cases "t = s") auto
    then have "lev r = level vm r" "process_ok vm r"
      using lv [OF t] queued_process_ok [OF q, of "Waiting t"] t by auto
    then show ?thesis using k1(2) k2(2) process_ok_touches [OF t1] by simp
  qed
  ultimately show ?thesis
    using q2 ns n unfolding vm' represents_def lp by (simp add: c Let_def)
qed

lemma holds_view:
  assumes v: "view (vm_heap vm) (vm_heap vm') upd" and sp: "specials vm' = specials vm"
    and q: "holds l hs ts vm ps" and l: "upd (as_ptr l) hs = None" "upd (as_ptr l) ts = None"
    and p: "\<And>p j. p \<in> set ps \<Longrightarrow> upd (as_ptr p) j = None"
  shows "holds l hs ts vm' ps"
proof -
  have nv: "nil vm' = nil vm" using sp by (simp add: nil_def)
  have lo: "list_ok vm l hs ts" and m: "\<And>p. p \<in> set ps \<Longrightarrow> process_ok vm p"
    using q by (auto simp: holds_def)
  have s: "vslot vm' (as_ptr p) j = vslot vm (as_ptr p) j" if "p \<in> set ps" "j < PROCESS_NUM_VM_SLOTS" for p j
    using view_process [OF v m that(2), OF that(1)] p [OF that(1)] by simp
  have "seg vm' v ps w = seg vm v ps w" for v w by (rule seg_cong) (simp add: s)
  then show ?thesis
    using q list_ok_view [OF v lo] view_list [OF v lo] l s process_ok_view [OF v nv m] nv
    unfolding holds_def by simp
qed

lemma signal_stores:
  assumes r: "represents vm S lev (c, e)" and s: "s \<in> S" and c: "c (Waiting s) = []"
    and b: "in_smallint (e s + 1)"
  shows "represents (semaphore_signal_internal vm s) S lev (signal_abs lev (c, e) s)"
proof -
  have q: "queues vm S c" and w: "Waiting s \<in> queue_ids S" and n: "\<And>t. t \<in> S \<Longrightarrow> 3 \<le> unat (num_slots (vm_heap vm) (as_ptr t))"
    and ex: "\<And>t. t \<in> S \<Longrightarrow> e t = excess vm t" and lv: "\<And>t p. t \<in> S \<Longrightarrow> p \<in> set (c (Waiting t)) \<Longrightarrow> lev p = level vm p"
    using r s by (auto simp: represents_def)
  let ?vm' = "vset_slot_raw vm (as_ptr s) SEMAPHORE_EXCESS_SIGNALS (from_int (e s + 1))"
  have h: "holds s SEMAPHORE_QUEUE_HEAD SEMAPHORE_QUEUE_TAIL vm []" using queuesD(1) [OF q w] c by simp
  then have vm': "semaphore_signal_internal vm s = ?vm'"
    using dequeue_empty [OF h] ex [OF s] by (simp add: semaphore_signal_internal_def excess_def)
  have ok: "heap_ok (vm_heap vm)" using h by (simp add: holds_def list_ok_def)
  have v: "view (vm_heap vm) (vm_heap ?vm')
    (\<lambda>y j. if y = as_ptr s \<and> j = SEMAPHORE_EXCESS_SIGNALS then Some (from_int (e s + 1)) else None)"
    by (rule view_vset [OF view_refl [OF ok] semaphore_live(1) [OF q s]]) (use n [OF s] in simp)
  have t: "touches (members vm c (Waiting s)) vm ?vm'"
    by (rule touches_view [OF v]) (auto simp: members_def parts_def)
  have h': "holds (queue_obj vm (Waiting s)) (head_of (Waiting s)) (tail_of (Waiting s)) ?vm' []"
    using holds_view [OF v _ h] by simp
  have cs: "c(Waiting s := []) = c" using c by auto
  have q': "queues ?vm' S c"
    using queues_step [OF q w t _ _ h'] queuesD(3) [OF q w] queuesD(4) [OF q _ w] c unfolding cs
    by (auto simp: members_def)
  have "excess ?vm' t = (e(s := e s + 1)) t \<and> SEMAPHORE_NUM_VM_SLOTS \<le> unat (num_slots (vm_heap ?vm') (as_ptr t))"
    if "t \<in> S" for t
    using vslot_view [OF v semaphore_live(1) [OF q that], of SEMAPHORE_EXCESS_SIGNALS] n [OF that] ex [OF that] b
      t semaphore_live(1) [OF q that] by (simp add: excess_def touches_def)
  moreover have "lev p = level ?vm' p" if "u \<in> S" "p \<in> set (c (Waiting u))" for u p
    using lv [OF that] view_process [OF v queued_process_ok [OF q _ that(2)], of PROCESS_PRIORITY] that(1)
    by (simp add: level_def process_priority_def)
  ultimately show ?thesis using q' unfolding vm' represents_def by (simp add: c)
qed

lemma semaphore_signal_step:
  assumes "represents vm S lev (c, e)" and "s \<in> S" and "in_smallint (e s + 1)"
  shows "represents (semaphore_signal_internal vm s) S lev (signal_abs lev (c, e) s)"
  using signal_wakes [OF assms(1,2)] signal_stores [OF assms(1,2) _ assms(3)]
  by (cases "c (Waiting s)") auto

text \<open>
  C5. Signalling a semaphore does what it promises: if a process waits, the first one leaves the
  waiting list and goes to the end of the run queue of its priority, and the stored signals stay;
  if none waits, the semaphore stores one more signal. Nothing else in any queue changes.
\<close>

theorem semaphore_signal_refines:
  assumes "represents vm S lev (c, e)" and "s \<in> S" and "in_smallint (e s + 1)"
  shows "represents (semaphore_signal_internal vm s) S lev (signal_abs lev (c, e) s)"
  by (rule semaphore_signal_step [OF assms])

subsection \<open>Timers\<close>

lemma queue_timers [simp]:
  "timer_requests (enqueue_process vm l hs ts p) = timer_requests vm"
  "dequeue_process vm l hs ts = Some (p, vm') \<Longrightarrow> timer_requests vm' = timer_requests vm"
  by (auto simp: enqueue_process_def dequeue_process_def Let_def split: if_splits)

lemma signal_timers [simp]: "timer_requests (semaphore_signal_internal vm s) = timer_requests vm"
  by (auto simp: semaphore_signal_internal_def make_runnable_eq Let_def split: option.splits)

lemma signals_timers [simp]: "timer_requests (foldl semaphore_signal_internal vm ss) = timer_requests vm"
  by (induction ss arbitrary: vm) simp_all

lemma represents_timers:
  assumes r: "represents vm S lev st"
  shows "represents (vm\<lparr>timer_requests := ts\<rparr>) S lev st"
proof -
  let ?vm = "vm\<lparr>timer_requests := ts\<rparr>"
  have sl: "vslot ?vm = vslot vm" "nil ?vm = nil vm" by (simp_all add: vslot_def nil_def fun_eq_iff)
  have t: "touches {} vm ?vm" by (simp add: touches_def sl)
  have q: "queues vm S (fst st)" using r by (simp add: represents_def)
  have an: "anchors ?vm = anchors vm" "scheduler_queues ?vm = scheduler_queues vm"
    by (simp_all add: anchors_def scheduler_queues_def sl)
  have o: "queue_obj ?vm q = queue_obj vm q" for q by (cases q) (simp_all add: an sl)
  have m: "members ?vm c q = members vm c q" for c q by (simp add: members_def o)
  have "scheduler_ok ?vm" using q by (simp add: queues_def scheduler_ok_def an)
  moreover have "holds (queue_obj vm r) (head_of r) (tail_of r) ?vm (fst st r)" if "r \<in> queue_ids S" for r
    using holds_touches [OF t queuesD(1) [OF q that]] by simp
  ultimately have "queues ?vm S (fst st)" using q unfolding queues_def o m an sl by simp
  then show ?thesis
    using r by (simp add: represents_def excess_def level_def process_priority_def sl)
qed

text \<open>Every semaphore of the machine can store that many more signals.\<close>

definition room :: "value set \<Rightarrow> sched \<Rightarrow> nat \<Rightarrow> bool" where
  "room S st n \<longleftrightarrow> (\<forall>s \<in> S. 0 \<le> snd st s \<and> snd st s + int n \<le> SMALLINT_MAX)"

lemma room_step:
  assumes "room S st (Suc n)"
  shows "room S (signal_abs lev st s) n"
proof -
  obtain c e where st: "st = (c, e)" by (cases st)
  show ?thesis
    using assms by (cases "c (Waiting s)") (auto simp: room_def st Let_def)
qed

lemma signals_refine:
  "represents vm S lev st \<Longrightarrow> set ss \<subseteq> S \<Longrightarrow> room S st (length ss + n) \<Longrightarrow>
     represents (foldl semaphore_signal_internal vm ss) S lev (foldl (signal_abs lev) st ss)
     \<and> room S (foldl (signal_abs lev) st ss) n"
proof (induction ss arbitrary: vm st)
  case (Cons s ss)
  obtain c e where st: "st = (c, e)" by (cases st)
  have "in_smallint (e s + 1)"
    using Cons.prems(2,3) by (auto simp: room_def st in_smallint_def SMALLINT_MAX_def SMALLINT_MIN_def)
  then have r: "represents (semaphore_signal_internal vm s) S lev (signal_abs lev st s)"
    using semaphore_signal_step [of vm S lev c e s] Cons.prems(1,2) by (simp add: st)
  have "room S (signal_abs lev st s) (length ss + n)" using room_step Cons.prems(3) by simp
  with Cons.IH [OF r] Cons.prems(2) show ?case by simp
qed simp

definition due :: "vm \<Rightarrow> int \<Rightarrow> value list" where
  "due vm now = map snd (filter (\<lambda>(t, _). t \<le> now) (timer_requests vm))"

lemma service_timers_eq:
  "service_timers vm now = (due vm now \<noteq> [], foldl semaphore_signal_internal
     (vm\<lparr>timer_requests := filter (\<lambda>(t, _). now < t) (timer_requests vm)\<rparr>) (due vm now))"
proof -
  have "filter (Not \<circ> (\<lambda>(t, _). t \<le> now)) ts = filter (\<lambda>(t, _). now < t) ts" for ts :: "(int \<times> value) list"
    by (rule filter_cong) auto
  then show ?thesis by (simp add: service_timers_def due_def Let_def)
qed

lemma service_refines:
  assumes "represents vm S lev st" and "snd ` set (timer_requests vm) \<subseteq> S"
    and "room S st (length (timer_requests vm))" and "service_timers vm now = (fired, vm')"
  shows "represents vm' S lev (foldl (signal_abs lev) st (due vm now))
    \<and> timer_requests vm' = filter (\<lambda>(t, _). now < t) (timer_requests vm)
    \<and> fired = (\<exists>(t, s) \<in> set (timer_requests vm). t \<le> now)
    \<and> room S (foldl (signal_abs lev) st (due vm now)) (length (timer_requests vm'))"
proof -
  let ?vm1 = "vm\<lparr>timer_requests := filter (\<lambda>(t, _). now < t) (timer_requests vm)\<rparr>"
  have vm': "vm' = foldl semaphore_signal_internal ?vm1 (due vm now)" and f: "fired = (due vm now \<noteq> [])"
    using assms(4) by (simp_all add: service_timers_eq)
  have t: "timer_requests vm' = filter (\<lambda>(t, _). now < t) (timer_requests vm)" by (simp add: vm')
  have "length (filter (\<lambda>(t, _). t \<le> now) ts) + length (filter (\<lambda>(t, _). now < t) ts) = length ts"
    for ts :: "(int \<times> value) list" by (induction ts) auto
  then have n: "length (due vm now) + length (timer_requests vm') = length (timer_requests vm)"
    by (simp add: due_def t)
  have "set (due vm now) \<subseteq> S" using assms(2) by (auto simp: due_def)
  moreover have "room S st (length (due vm now) + length (timer_requests vm'))" using assms(3) n by simp
  ultimately have "represents vm' S lev (foldl (signal_abs lev) st (due vm now))
    \<and> room S (foldl (signal_abs lev) st (due vm now)) (length (timer_requests vm'))"
    unfolding vm' by (rule signals_refine [OF represents_timers [OF assms(1)]])
  moreover have "fired = (\<exists>(t, s) \<in> set (timer_requests vm). t \<le> now)"
    by (auto simp: f due_def filter_empty_conv)
  ultimately show ?thesis using t by blast
qed

text \<open>
  C20. Firing the timers signals exactly the semaphores whose deadline has come, in the order of the
  requests, keeps exactly the requests still to come, and reports whether any was due.
\<close>

theorem service_timers_fires_due:
  assumes "represents vm S lev st" and "snd ` set (timer_requests vm) \<subseteq> S"
    and "room S st (length (timer_requests vm))"
  shows "case service_timers vm now of (fired, vm') \<Rightarrow>
      represents vm' S lev (foldl (signal_abs lev) st
        (map snd (filter (\<lambda>(t, _). t \<le> now) (timer_requests vm))))
      \<and> timer_requests vm' = filter (\<lambda>(t, _). now < t) (timer_requests vm)
      \<and> fired = (\<exists>(t, s) \<in> set (timer_requests vm). t \<le> now)"
proof -
  obtain fired vm' where "service_timers vm now = (fired, vm')" by (cases "service_timers vm now")
  with service_refines [OF assms this] show ?thesis unfolding due_def by simp
qed

subsection \<open>Waiting for a process to run\<close>

text \<open>The clock passes every deadline, and stays past it.\<close>

definition clock_reaches :: "(nat \<Rightarrow> int) \<Rightarrow> nat \<Rightarrow> vm \<Rightarrow> bool" where
  "clock_reaches clock K vm \<longleftrightarrow> (\<forall>k \<ge> K. \<forall>(t, s) \<in> set (timer_requests vm). t \<le> clock k)"

lemma filter_past:
  fixes n :: int
  shows "\<forall>(t, s) \<in> set ts. t \<le> n \<Longrightarrow> filter (\<lambda>(t, _). n < t) ts = []"
  by (induction ts) auto

lemma pick_returns:
  "clock_reaches clock K vm \<Longrightarrow> K - k + 2 \<le> fuel \<Longrightarrow> pick_next_or_wait clock fuel k vm \<noteq> Diverge"
proof (induction fuel arbitrary: k vm)
  case (Suc fuel)
  obtain fired vm1 where s: "service_timers vm (clock k) = (fired, vm1)" by (cases "service_timers vm (clock k)")
  then have t: "timer_requests vm1 = filter (\<lambda>(t, _). clock k < t) (timer_requests vm)"
    by (auto simp: service_timers_eq)
  let ?k = "if fired then k + 1 else k + 2"
  have "pick_next_or_wait clock fuel ?k vm1 \<noteq> Diverge"
  proof (cases "K \<le> k")
    case True
    then have "\<forall>(t, s) \<in> set (timer_requests vm). t \<le> clock k"
      using Suc.prems(1) by (simp add: clock_reaches_def)
    then have e: "timer_requests vm1 = []" unfolding t by (rule filter_past)
    obtain f where f: "fuel = Suc f" using Suc.prems(2) by (cases fuel) auto
    show ?thesis unfolding f pick_next_or_wait.simps e by (simp add: fatal_def split: option.split)
  next
    case False
    have "clock_reaches clock K vm1" using Suc.prems(1) by (auto simp: clock_reaches_def t)
    moreover have "K - ?k + 2 \<le> fuel" using Suc.prems(2) False by auto
    ultimately show ?thesis by (rule Suc.IH)
  qed
  then show ?case by (cases "take_next_runnable vm") (simp_all add: s fatal_def)
qed simp

text \<open>
  Something is runnable, or a timer is pending for a semaphore somebody waits on.
\<close>

definition promising :: "sched \<Rightarrow> value list \<Rightarrow> bool" where
  "promising st ss \<longleftrightarrow> (\<exists>i < NUM_PRIORITIES. fst st (Run i) \<noteq> []) \<or> (\<exists>s \<in> set ss. fst st (Waiting s) \<noteq> [])"

lemma promising_step:
  assumes "promising st (s # ss)" and "\<forall>p. lev p < NUM_PRIORITIES"
  shows "promising (signal_abs lev st s) ss"
proof -
  obtain c e where st: "st = (c, e)" by (cases st)
  show ?thesis
  proof (cases "c (Waiting s)")
    case Nil
    with assms(1) show ?thesis by (auto simp: promising_def st)
  next
    case (Cons p ps)
    with assms(2) show ?thesis by (auto simp: promising_def st Let_def)
  qed
qed

lemma promising_steps:
  assumes "promising st (ss @ ts)" and "\<forall>p. lev p < NUM_PRIORITIES"
  shows "promising (foldl (signal_abs lev) st ss) ts"
  using assms(1)
proof (induction ss arbitrary: st)
  case (Cons s ss)
  then show ?case using promising_step [OF _ assms(2), of st s "ss @ ts"] by simp
qed simp

lemma pick_succeeds:
  assumes "clock_reaches clock K vm" and "K - k + 2 \<le> fuel"
    and "represents vm S lev st" and "\<forall>p. lev p < NUM_PRIORITIES"
    and "snd ` set (timer_requests vm) \<subseteq> S" and "room S st (length (timer_requests vm))"
    and "promising st (map snd (timer_requests vm))"
  shows "\<exists>r. pick_next_or_wait clock fuel k vm = Ok r"
  using assms
proof (induction fuel arbitrary: k vm st)
  case (Suc fuel)
  note r = Suc.prems(3)
  have q: "queues vm S (fst st)" using r by (simp add: represents_def)
  show ?case
  proof (cases "take_next_runnable vm")
    case None
    have e: "\<forall>i < NUM_PRIORITIES. fst st (Run i) = []"
      using take_below_step [OF q, of NUM_PRIORITIES] None by (simp add: take_next_runnable_def)
    then have n: "timer_requests vm \<noteq> []" using Suc.prems(7) by (auto simp: promising_def)
    obtain fired vm1 where s: "service_timers vm (clock k) = (fired, vm1)"
      by (cases "service_timers vm (clock k)")
    let ?k = "if fired then k + 1 else k + 2" and ?st = "foldl (signal_abs lev) st (due vm (clock k))"
    note f = service_refines [OF r Suc.prems(5,6) s]
    have cr: "clock_reaches clock K vm1" using Suc.prems(1) f by (auto simp: clock_reaches_def)
    have "set (map snd (timer_requests vm)) \<subseteq> set (due vm (clock k) @ map snd (timer_requests vm1))"
      using f by (force simp: due_def)
    then have "promising st (due vm (clock k) @ map snd (timer_requests vm1))"
      using Suc.prems(7) unfolding promising_def by blast
    then have pr: "promising ?st (map snd (timer_requests vm1))" by (rule promising_steps [OF _ Suc.prems(4)])
    have "\<exists>r. pick_next_or_wait clock fuel ?k vm1 = Ok r"
    proof (cases "K \<le> k")
      case True
      then have "\<forall>(t, s) \<in> set (timer_requests vm). t \<le> clock k"
        using Suc.prems(1) by (simp add: clock_reaches_def)
      then have z: "timer_requests vm1 = []"
        using f filter_past by metis
      have q1: "queues vm1 S (fst ?st)" using f by (simp add: represents_def)
      have "\<exists>i < NUM_PRIORITIES. fst ?st (Run i) \<noteq> []" using pr z by (simp add: promising_def)
      then have "take_next_runnable vm1 \<noteq> None"
        using take_below_step [OF q1, of NUM_PRIORITIES] unfolding take_next_runnable_def
        by (cases "take_below vm1 (as_ptr (scheduler_queues vm1)) NUM_PRIORITIES") auto
      moreover obtain g where g: "fuel = Suc g" using Suc.prems(2) by (cases fuel) auto
      ultimately show ?thesis unfolding g by auto
    next
      case False
      have "K - ?k + 2 \<le> fuel" using Suc.prems(2) False by auto
      then show ?thesis using f Suc.prems(5) by (intro Suc.IH [OF cr _ _ Suc.prems(4) _ _ pr]) auto
    qed
    then show ?thesis using None n by (simp add: s)
  qed simp
qed simp

text \<open>
  C24. Waiting for a runnable process ends as soon as the clock has passed every pending deadline,
  with a number of rounds bounded by the readings that takes.
\<close>

theorem pick_next_or_wait_ends:
  assumes "clock_reaches clock K vm"
  shows "pick_next_or_wait clock (K - k + 2) k vm \<noteq> Diverge"
  by (rule pick_returns [OF assms]) simp

text \<open>
  C11. There is no false deadlock: if a process is runnable, or a timer is pending for a semaphore on
  which a process waits, the machine finds a process to run.
\<close>

theorem pick_next_or_wait_finds_process:
  assumes "clock_reaches clock K vm" and "represents vm S lev st" and "\<forall>p. lev p < NUM_PRIORITIES"
    and "snd ` set (timer_requests vm) \<subseteq> S" and "room S st (length (timer_requests vm))"
    and "promising st (map snd (timer_requests vm))"
  shows "\<exists>r. pick_next_or_wait clock (K - k + 2) k vm = Ok r"
  by (rule pick_succeeds [OF assms(1) _ assms(2-6)]) simp

subsection \<open>A machine with two processes\<close>

text \<open>
  Objects of the sample pool: nil is 0, the scheduler 1, its array 2, the run queues 3 to 10, a
  semaphore 11. Process 12 is runnable with priority 4, process 13 waits on the semaphore with
  priority 5, and process 14 is in no queue.
\<close>

definition sched_writes :: "(nat \<times> nat \<times> value) list" where
  "sched_writes =
     (1, 0, pool_ref 2) # map (\<lambda>i. (2, i, pool_ref (3 + i))) [0..<8]
     @ map (\<lambda>i. (3 + i, 0, pool_ref 0)) [0..<8] @ map (\<lambda>i. (3 + i, 1, pool_ref 0)) [0..<8]
     @ [(6, 0, pool_ref 12), (6, 1, pool_ref 12), (11, 0, from_int 0), (11, 1, pool_ref 13), (11, 2, pool_ref 13),
        (12, 3, from_int 4), (12, 4, pool_ref 0), (12, 5, pool_ref 6),
        (13, 3, from_int 5), (13, 4, pool_ref 0), (13, 5, pool_ref 11),
        (14, 3, from_int 4), (14, 4, pool_ref 0), (14, 5, pool_ref 0)]"

definition sched_vm :: vm where
  "sched_vm = (bare_literal (set_slots (pool 15) sched_writes) 0)
     \<lparr>specials := (replicate SPECIAL_OBJECTS_COUNT (pool_ref 0))[SPECIAL_PROCESSOR := pool_ref 1]\<rparr>"

definition sched_queues :: "queue_id \<Rightarrow> value list" where
  "sched_queues = (\<lambda>_. [])(Run 3 := [pool_ref 12], Waiting (pool_ref 11) := [pool_ref 13])"

lemma sched_writes_bounds: "\<forall>(i, j, v) \<in> set sched_writes. i < 15 \<and> j < 8"
  by (auto simp: sched_writes_def)

lemma sched_vm_heap:
  "heap_ok (vm_heap sched_vm)" "live (vm_heap sched_vm) = pool_obj ` {..<15}"
  "i < 15 \<Longrightarrow> unat (num_slots (vm_heap sched_vm) (pool_obj i)) = 8"
  "i < 15 \<Longrightarrow> j < 8 \<Longrightarrow> vslot sched_vm (pool_obj i) j = last_write sched_writes i j 1"
proof -
  have p: "pool_ok 15 (pool 15)" by (rule pool_ok) simp
  have all: "heap_ok (pool 15)" "live (pool 15) = pool_obj ` {..<15}"
    "\<forall>i < 15. unat (num_slots (pool 15) (pool_obj i)) = 8"
    "\<And>i j. i < 15 \<Longrightarrow> j < 8 \<Longrightarrow> slot (pool 15) (pool_obj i) j = 1"
    using p unfolding pool_ok_def by blast+
  note s = set_slots_ok [OF all(1-3) sched_writes_bounds]
  have h: "vm_heap sched_vm = set_slots (pool 15) sched_writes"
    by (simp add: sched_vm_def bare_literal_def)
  show "heap_ok (vm_heap sched_vm)" "live (vm_heap sched_vm) = pool_obj ` {..<15}"
    "i < 15 \<Longrightarrow> unat (num_slots (vm_heap sched_vm) (pool_obj i)) = 8"
    using s all(2) unfolding h by simp_all
  show "vslot sched_vm (pool_obj i) j = last_write sched_writes i j 1" if "i < 15" "j < 8"
    using s all(4) [OF that] that unfolding h vslot_def by simp
qed

lemma all_less_8: "(\<forall>i < (8::nat). P i) \<longleftrightarrow> P 0 \<and> P 1 \<and> P 2 \<and> P 3 \<and> P 4 \<and> P 5 \<and> P 6 \<and> P 7"
proof -
  have "i < 8 \<longleftrightarrow> i = 0 \<or> i = 1 \<or> i = 2 \<or> i = 3 \<or> i = 4 \<or> i = 5 \<or> i = 6 \<or> i = 7" for i :: nat
    by presburger
  then show ?thesis by metis
qed

lemma sched_vm_specials: "nil sched_vm = pool_ref 0" "specials sched_vm ! SPECIAL_PROCESSOR = pool_ref 1"
  by (simp_all add: sched_vm_def nil_def bare_literal_def)

lemma sched_vm_slots:
  "i < 8 \<Longrightarrow> queue_obj sched_vm (Run i) = pool_ref (3 + i)" "as_ptr (scheduler_queues sched_vm) = pool_obj 2"
proof -
  have q: "scheduler_queues sched_vm = pool_ref 2"
    by (simp add: scheduler_queues_def sched_vm_specials pool_obj_ptr sched_vm_heap)
       (simp add: sched_writes_def upt_rec)
  then show "as_ptr (scheduler_queues sched_vm) = pool_obj 2" by (simp add: pool_obj_ptr)
  have "\<forall>i < 8. last_write sched_writes 2 i 1 = pool_ref (3 + i)"
    unfolding all_less_8 by (simp add: sched_writes_def upt_rec)
  then show "queue_obj sched_vm (Run i) = pool_ref (3 + i)" if "i < 8"
    using that by (simp add: q pool_obj_ptr sched_vm_heap)
qed

lemma sched_vm_list_ok: "3 \<le> i \<Longrightarrow> i < 15 \<Longrightarrow> h < 8 \<Longrightarrow> t < 8 \<Longrightarrow> h \<noteq> t \<Longrightarrow> list_ok sched_vm (pool_ref i) h t"
  by (simp add: list_ok_def sched_vm_heap pool_obj_ptr)

lemma sched_vm_process_ok: "12 \<le> i \<Longrightarrow> i < 15 \<Longrightarrow> process_ok sched_vm (pool_ref i)"
  by (simp add: process_ok_def sched_vm_heap pool_obj_ptr sched_vm_specials)

lemma sched_vm_run_queue:
  assumes "k < 8"
  shows "holds (pool_ref (3 + k)) LIST_HEAD LIST_TAIL sched_vm (sched_queues (Run k))"
proof (cases "k = 3")
  case True
  have "last_write sched_writes 6 0 1 = pool_ref 12" "last_write sched_writes 6 1 1 = pool_ref 12"
    "last_write sched_writes 12 4 1 = pool_ref 0" "last_write sched_writes 12 5 1 = pool_ref 6"
    by (simp_all add: sched_writes_def upt_rec)
  then show ?thesis
    using sched_vm_list_ok [of 6 0 1] sched_vm_process_ok [of 12] True
    by (simp add: holds_def sched_queues_def sched_vm_heap pool_obj_ptr sched_vm_specials)
next
  case False
  have "\<forall>k < 8. k \<noteq> 3 \<longrightarrow> last_write sched_writes (3 + k) 0 1 = pool_ref 0 \<and> last_write sched_writes (3 + k) 1 1 = pool_ref 0"
    unfolding all_less_8 by (simp add: sched_writes_def upt_rec)
  then show ?thesis
    using sched_vm_list_ok [of "3 + k" 0 1] False assms
    by (simp add: holds_def sched_queues_def sched_vm_heap pool_obj_ptr sched_vm_specials)
qed

lemma sched_vm_waiting: "holds (pool_ref 11) SEMAPHORE_QUEUE_HEAD SEMAPHORE_QUEUE_TAIL sched_vm [pool_ref 13]"
proof -
  have "last_write sched_writes 11 1 1 = pool_ref 13" "last_write sched_writes 11 2 1 = pool_ref 13"
    "last_write sched_writes 13 4 1 = pool_ref 0" "last_write sched_writes 13 5 1 = pool_ref 11"
    by (simp_all add: sched_writes_def upt_rec)
  then show ?thesis
    using sched_vm_list_ok [of 11 1 2] sched_vm_process_ok [of 13]
    by (simp add: holds_def sched_vm_heap pool_obj_ptr sched_vm_specials)
qed

definition index_set :: "queue_id \<Rightarrow> nat set" where
  "index_set q = (case q of Run k \<Rightarrow> (if k = 3 then {6, 12} else {3 + k}) | Waiting s \<Rightarrow> {11, 13})"

lemma sched_vm_members:
  "q \<in> queue_ids {pool_ref 11} \<Longrightarrow> members sched_vm sched_queues q = pool_obj ` index_set q"
  by (auto simp: queue_ids_def members_def parts_def sched_vm_slots(1) index_set_def sched_queues_def
      pool_obj_ptr simp del: queue_obj.simps(1) split: if_splits)

lemma sched_vm_anchors: "anchors sched_vm = pool_obj ` {1, 2}"
  by (simp add: anchors_def sched_vm_specials sched_vm_slots pool_obj_ptr)

lemma sched_vm_queues: "queues sched_vm {pool_ref 11} sched_queues"
proof -
  have im: "inj_on pool_obj A" for A by (rule inj_onI) simp
  have d: "pool_obj ` A \<inter> pool_obj ` B = {} \<longleftrightarrow> A \<inter> B = {}" for A B
    by (simp add: image_Int [OF im, symmetric])
  have s: "scheduler_ok sched_vm"
    by (simp add: scheduler_ok_def sched_vm_anchors sched_vm_heap sched_vm_specials sched_vm_slots
        pool_obj_ptr image_mono del: image_insert)
  have h: "holds (queue_obj sched_vm q) (head_of q) (tail_of q) sched_vm (sched_queues q)
      \<and> queue_obj sched_vm q \<noteq> nil sched_vm" if "q \<in> queue_ids {pool_ref 11}" for q
    using that sched_vm_run_queue sched_vm_waiting
    by (cases q) (auto simp: sched_vm_slots(1) sched_vm_specials pool_obj_ptr sched_queues_def
        simp del: queue_obj.simps(1))
  have a: "index_set q \<inter> {1, 2} = {}" if "q \<in> queue_ids {pool_ref 11}" for q
    using that by (auto simp: queue_ids_def index_set_def split: if_splits)
  have e: "index_set q \<inter> index_set r = {}" if "q \<in> queue_ids {pool_ref 11}" "r \<in> queue_ids {pool_ref 11}" "q \<noteq> r" for q r
    using that by (auto simp: queue_ids_def index_set_def split: if_splits)
  show ?thesis
    unfolding queues_def sched_vm_anchors using s h a e
    by (simp add: sched_vm_members d del: image_insert)
qed

lemma sched_vm_loose: "loose sched_vm {pool_ref 11} (pool_ref 14)"
proof -
  have "last_write sched_writes 14 4 1 = pool_ref 0" "last_write sched_writes 14 5 1 = pool_ref 0"
    by (simp_all add: sched_writes_def upt_rec)
  moreover have "pool_ref 14 \<noteq> queue_obj sched_vm q" if "q \<in> queue_ids {pool_ref 11}" for q
    using that by (cases q) (auto simp: sched_vm_slots(1) pool_obj_ptr simp del: queue_obj.simps(1))
  ultimately show ?thesis
    using sched_vm_process_ok [of 14]
    by (simp add: loose_def idle_def sched_vm_heap sched_vm_anchors sched_vm_specials pool_obj_ptr
        del: image_insert) simp
qed

definition sched_lev :: "value \<Rightarrow> nat" where
  "sched_lev p = (if p = pool_ref 13 then 4 else 0)"

lemma sched_vm_represents: "represents sched_vm {pool_ref 11} sched_lev (sched_queues, \<lambda>_. 0)"
proof -
  have "last_write sched_writes 11 0 1 = from_int 0" "last_write sched_writes 13 3 1 = from_int 5"
    by (simp_all add: sched_writes_def upt_rec)
  moreover have "in_smallint 0" "in_smallint 5" by (simp_all add: in_smallint_def SMALLINT_MAX_def SMALLINT_MIN_def)
  ultimately show ?thesis
    using sched_vm_queues
    by (simp add: represents_def excess_def level_def process_priority_def sched_vm_heap pool_obj_ptr
        sched_queues_def sched_lev_def)
qed

definition timer_vm :: vm where
  "timer_vm = sched_vm\<lparr>timer_requests := [(5, pool_ref 11)]\<rparr>"

lemma timer_vm_represents: "represents timer_vm {pool_ref 11} sched_lev (sched_queues, \<lambda>_. 0)"
  unfolding timer_vm_def by (rule represents_timers [OF sched_vm_represents])

text \<open>
  C23. Every process queue is first-in first-out: processes entered at the end of a queue are taken
  out after those already in it and in the order they were entered.
\<close>

theorem process_queues_are_fifo:
  assumes "holds l hs ts vm ps" and "l \<noteq> nil vm" and "distinct qs" and "\<forall>q \<in> set qs. idle vm q \<and> q \<noteq> l"
  shows "fst (drain (\<lambda>vm. dequeue_process vm l hs ts) (length ps + length qs)
      (foldl (\<lambda>vm p. enqueue_process vm l hs ts p) vm qs)) = ps @ qs"
  using assms by (intro process_queue.in_order) auto

theorem process_queues_are_fifo_witness:
  "fst (drain (\<lambda>vm. dequeue_process vm (pool_ref 6) LIST_HEAD LIST_TAIL) 2
      (enqueue_process sched_vm (pool_ref 6) LIST_HEAD LIST_TAIL (pool_ref 14))) = [pool_ref 12, pool_ref 14]"
  using process_queues_are_fifo [of "pool_ref 6" LIST_HEAD LIST_TAIL sched_vm "[pool_ref 12]" "[pool_ref 14]"]
    sched_vm_run_queue [of 3] sched_vm_loose
  by (simp add: sched_queues_def sched_vm_specials pool_obj_ptr loose_def numeral_2_eq_2)

text \<open>
  C29. A process can be taken out of the middle of the queue that holds it: the search finds it, the
  queue then holds the others in their order, the process is in no queue, and no object outside the
  queue is written.
\<close>

theorem remove_process_unlinks:
  assumes "holds l hs ts vm (ps @ p # qs)" and "queue_slots_of vm l = (hs, ts)" and "l \<noteq> nil vm"
  shows "\<exists>vm'. remove_process_from_its_list vm p = Some vm' \<and> holds l hs ts vm' (ps @ qs) \<and> idle vm' p
    \<and> touches (parts l (ps @ p # qs)) vm vm'"
  by (rule remove_holds [OF assms])

lemma sched_vm_class: "i < 15 \<Longrightarrow> hdr_class_index (header (vm_heap sched_vm) (pool_obj i)) = 17"
proof -
  have p: "pool_ok 15 (pool 15)" by (rule pool_ok) simp
  have all: "heap_ok (pool 15)" "live (pool 15) = pool_obj ` {..<15}"
    "\<forall>i < 15. unat (num_slots (pool 15) (pool_obj i)) = 8"
    "\<And>i. i < 15 \<Longrightarrow> hdr_class_index (header (pool 15) (pool_obj i)) = 17"
    using p unfolding pool_ok_def by blast+
  note s = set_slots_ok [OF all(1-3) sched_writes_bounds]
  have h: "vm_heap sched_vm = set_slots (pool 15) sched_writes"
    by (simp add: sched_vm_def bare_literal_def)
  show ?thesis if "i < 15" using s all(4) [OF that] that unfolding h by simp
qed

theorem remove_process_unlinks_witness:
  "\<exists>vm'. remove_process_from_its_list sched_vm (pool_ref 12) = Some vm'
     \<and> holds (pool_ref 6) LIST_HEAD LIST_TAIL vm' [] \<and> idle vm' (pool_ref 12)"
  using remove_process_unlinks [of "pool_ref 6" LIST_HEAD LIST_TAIL sched_vm "[]" "pool_ref 12" "[]"]
    sched_vm_run_queue [of 3]
  by (auto simp: sched_queues_def sched_vm_specials pool_obj_ptr queue_slots_of_def sched_vm_class)

lemma sched_highest: "highest sched_queues NUM_PRIORITIES k \<longleftrightarrow> k = 3"
  by (auto simp: highest_def sched_queues_def split: if_splits)

theorem take_next_runnable_highest_witness:
  "\<exists>vm'. take_next_runnable sched_vm = Some (pool_ref 12, vm')"
proof -
  have "\<not> (\<forall>i < NUM_PRIORITIES. sched_queues (Run i) = [])"
    by (auto simp: sched_queues_def intro: exI [of _ 3])
  then show ?thesis
    using take_next_runnable_highest [OF sched_vm_queues] sched_highest
    by (cases "take_next_runnable sched_vm") (auto simp: sched_queues_def)
qed

theorem ceiling_is_next_priority_witness: "runnable_priority_ceiling sched_vm = Some 4"
proof -
  have "\<not> (\<forall>i < NUM_PRIORITIES. sched_queues (Run i) = [])"
    by (auto simp: sched_queues_def intro: exI [of _ 3])
  then have "take_next_runnable sched_vm \<noteq> None"
    using take_below_step [OF sched_vm_queues, of NUM_PRIORITIES] unfolding take_next_runnable_def
    by (cases "take_below sched_vm (as_ptr (scheduler_queues sched_vm)) NUM_PRIORITIES") auto
  then show ?thesis using ceiling_is_next_priority [OF sched_vm_queues] sched_highest by auto
qed

theorem semaphore_signal_refines_witness:
  "represents (semaphore_signal_internal sched_vm (pool_ref 11)) {pool_ref 11} sched_lev
     (sched_queues(Waiting (pool_ref 11) := [], Run 4 := [pool_ref 13]), \<lambda>_. 0)"
  using semaphore_signal_refines [OF sched_vm_represents, of "pool_ref 11"]
  by (simp add: in_smallint_def SMALLINT_MAX_def SMALLINT_MIN_def sched_queues_def sched_lev_def Let_def)

theorem service_timers_fires_due_witness:
  "fst (service_timers timer_vm 5)"
  using service_timers_fires_due [OF timer_vm_represents, of 5]
  by (auto simp: timer_vm_def room_def SMALLINT_MAX_def split: prod.splits)

theorem pick_next_or_wait_ends_witness:
  "pick_next_or_wait int 7 0 timer_vm \<noteq> Diverge"
  using pick_next_or_wait_ends [of int 5 timer_vm 0]
  by (simp add: clock_reaches_def timer_vm_def numeral_eq_Suc)

theorem pick_next_or_wait_finds_process_witness:
  "\<exists>r. pick_next_or_wait int 7 0 timer_vm = Ok r"
  using pick_next_or_wait_finds_process [OF _ timer_vm_represents, of int 5 0]
  by (simp add: clock_reaches_def timer_vm_def sched_lev_def room_def SMALLINT_MAX_def promising_def
      sched_queues_def numeral_eq_Suc)

end
