(* ===== verification/Image.thy ===== *)
theory Image
  imports Heap_View
begin

section \<open>Image files\<close>

text \<open>
  src/image.rs: the snapshot writer and the loader. An image is a header of little-endian fields and
  a dump of old space. Writing the bytes to a file and reading them back is left to the host, so the
  writer answers the bytes and whether the host accepted them is an argument; the loader takes the
  bytes and the addresses the host allocator gives the three new regions.
\<close>

definition le_bytes :: "nat \<Rightarrow> u64 \<Rightarrow> u8 list" where
  "le_bytes n w = map (\<lambda>i. ucast (drop_bit (8 * i) w)) [0..<n]"

definition put_u32 :: "u8 list \<Rightarrow> u32 \<Rightarrow> u8 list" where
  "put_u32 out v = out @ le_bytes 4 (ucast v)"

definition put_u64 :: "u8 list \<Rightarrow> u64 \<Rightarrow> u8 list" where
  "put_u64 out v = out @ le_bytes 8 v"

fun from_le :: "u8 list \<Rightarrow> u64" where
  "from_le [] = 0"
| "from_le (b # bs) = ucast b OR push_bit 8 (from_le bs)"

definition get_u32 :: "u8 list \<Rightarrow> nat \<Rightarrow> u32" where
  "get_u32 data off = ucast (from_le (take 4 (drop off data)))"

definition get_u64 :: "u8 list \<Rightarrow> nat \<Rightarrow> u64" where
  "get_u64 data off = from_le (take 8 (drop off data))"

subsection \<open>Writing\<close>

definition store_values :: "heap \<Rightarrow> nat \<Rightarrow> value list \<Rightarrow> heap" where
  "store_values h obj vs = fold (\<lambda>(i, v) h. set_slot_raw h obj i v) (enumerate 0 vs) h"

definition space_bytes :: "heap \<Rightarrow> nat \<Rightarrow> nat \<Rightarrow> u8 list" where
  "space_bytes h base nbytes = concat (map (\<lambda>i. le_bytes 8 (heap_word h (base + 8 * i))) [0..<nbytes div 8])"

definition image_header :: "nat \<Rightarrow> nat \<Rightarrow> nat \<Rightarrow> nat \<Rightarrow> nat \<Rightarrow> u8 list" where
  "image_header base nbytes sp cl active =
     (let out = put_u32 [] IMG_MAGIC;
          out = put_u32 out 1;
          out = put_u64 out 0;
          out = put_u64 out (word_of_nat base);
          out = put_u64 out (word_of_nat nbytes);
          out = put_u64 out (word_of_nat (sp - base));
          out = put_u64 out (word_of_nat (cl - base));
          out = put_u64 out (word_of_nat (active - base))
      in put_u64 out 0)"

text \<open>
  The two arrays are allocated in old space before the dump, so the machine that goes on running has
  them too.
\<close>

definition image_bytes :: "vm \<Rightarrow> ((vm_error + u8 list) \<times> vm) outcome" where
  "image_bytes vm =
     (let nilv = nil vm; n = length (class_table vm)
      in of_opt (Ok (Inl OutOfMemory, vm)) (alloc_ptrs_old (vm_heap vm) CLASS_ARRAY n nilv) (\<lambda>(cl, h1).
         let h2 = store_values h1 cl (class_table vm)
         in rbind (from_ptr_checked cl) (\<lambda>clv.
            rbind (set_special (vm\<lparr>vm_heap := h2\<rparr>) SPECIAL_CLASS_LIST clv) (\<lambda>vm1.
            of_opt (Ok (Inl OutOfMemory, vm1))
              (alloc_ptrs_old (vm_heap vm1) CLASS_ARRAY SPECIAL_OBJECTS_COUNT nilv) (\<lambda>(sp, h3).
            let h4 = store_values h3 sp (specials vm1);
                vm2 = vm1\<lparr>vm_heap := h4\<rparr>;
                base = sp_base (old h4);
                nbytes = used_bytes (old h4);
                active = active_process vm2
            in Ok (if \<not> is_ptr active \<or> \<not> in_old_space h4 (as_ptr active)
                   then Inl (Fatal ''active process must live in old space'')
                   else Inr (image_header base nbytes sp cl (as_ptr active) @ space_bytes h4 base nbytes),
                   vm2))))))"

text \<open>The snapshot primitive goes on with the machine when the writer fails.\<close>

definition try_write_image :: "(u8 list \<Rightarrow> bool) \<Rightarrow> vm \<Rightarrow> (vm_error option \<times> vm) outcome" where
  "try_write_image fs_write vm =
     rbind (image_bytes vm) (\<lambda>(res, vm1).
       case res of
         Inl err \<Rightarrow> Ok (Some err, vm1)
       | Inr out \<Rightarrow> Ok (if fs_write out then None else Some (Fatal ''image write failed''), vm1))"

definition write_image :: "(u8 list \<Rightarrow> bool) \<Rightarrow> vm \<Rightarrow> vm outcome" where
  "write_image fs_write vm =
     rbind (try_write_image fs_write vm) (\<lambda>(err, vm1).
       case err of None \<Rightarrow> Ok vm1 | Some e \<Rightarrow> Err e)"

subsection \<open>Loading\<close>

definition load_words :: "heap \<Rightarrow> nat \<Rightarrow> u8 list \<Rightarrow> nat \<Rightarrow> heap" where
  "load_words h base data n =
     h\<lparr>mem := (\<lambda>a. if base \<le> a \<and> a < base + 8 * n
                  then get_u64 data (IMG_HEADER_SIZE + (a - base)) else mem h a)\<rparr>"

definition relocate :: "u64 \<Rightarrow> value \<Rightarrow> value" where
  "relocate delta w = (if is_ptr w then w + delta else w)"

definition relocate_slot :: "u64 \<Rightarrow> nat \<Rightarrow> nat \<Rightarrow> heap \<Rightarrow> heap" where
  "relocate_slot delta obj i h =
     (let w = slot h obj i in if is_ptr w then set_slot_raw h obj i (w + delta) else h)"

record load_state =
  ld_heap :: heap
  ld_sites :: "value list"
  ld_symbols :: "(u8 list \<times> value) list"

text \<open>One object of the linear pass: clear the collector's bits, relocate, collect.\<close>

definition load_object :: "u64 \<Rightarrow> nat \<Rightarrow> load_state \<Rightarrow> load_state outcome" where
  "load_object delta obj st =
     (let h = ld_heap st;
          w = header h obj;
          bits = gc_bits w AND NOT (GC_BIT_MARK OR GC_BIT_REMEMBERED);
          h1 = (if bits \<noteq> gc_bits w then set_header h obj (with_gc_bits w bits) else h);
          h2 = (if \<not> is_bytes w
                then fold (relocate_slot delta obj) [0..<unat (num_slots h1 obj)] h1 else h1);
          st1 = st\<lparr>ld_heap := h2\<rparr>;
          cls = hdr_class_index w
      in if cls = CLASS_COMPILEDMETHOD \<or> cls = CLASS_COMPILEDBLOCK
         then let sites = slot h2 obj METHOD_SEND_SITES
              in Ok (if is_ptr sites \<and> hdr_format (header h2 (as_ptr sites)) = FMT_PTRS
                     then st1\<lparr>ld_sites := ld_sites st1 @ [sites]\<rparr> else st1)
         else if cls = CLASS_SYMBOL
         then rbind (from_ptr_checked obj) (\<lambda>v.
                Ok (st1\<lparr>ld_symbols := ld_symbols st1 @ [(obj_bytes h2 obj, v)]\<rparr>))
         else Ok st1)"

fun load_objects :: "u64 \<Rightarrow> nat list \<Rightarrow> load_state \<Rightarrow> load_state outcome" where
  "load_objects delta [] st = Ok st"
| "load_objects delta (obj # objs) st = rbind (load_object delta obj st) (load_objects delta objs)"

definition load_image :: "nat \<Rightarrow> nat \<Rightarrow> nat \<Rightarrow> vm_config \<Rightarrow> u8 list \<Rightarrow> vm outcome" where
  "load_image from_base to_base base cfg data =
     (if length data < IMG_HEADER_SIZE \<or> get_u32 data IMG_MAGIC_OFFSET \<noteq> IMG_MAGIC
      then fatal ''not a STIM image''
      else if get_u32 data IMG_VERSION_OFFSET \<noteq> 1 then fatal ''unsupported image version''
      else
        let saved_base = get_u64 data IMG_SAVED_BASE_OFFSET;
            nbytes = unat (get_u64 data IMG_OLD_SPACE_SIZE_OFFSET);
            sp_off = unat (get_u64 data IMG_SPECIAL_OBJECTS_OFFSET);
            cl_off = unat (get_u64 data IMG_CLASS_LIST_OFFSET);
            active_off = unat (get_u64 data IMG_ACTIVE_PROCESS_OFFSET)
        in if length data < (IMG_HEADER_SIZE + nbytes) mod 2 ^ 64 then fatal ''truncated image''
           else
             let heap_cfg = (vc_heap cfg)\<lparr>old_bytes := max (old_bytes (vc_heap cfg)) (nbytes * 2 mod 2 ^ 64)\<rparr>
             in if \<not> heap_fits heap_cfg then Panic
                else
                  let h0 = new_heap from_base to_base base heap_cfg;
                      h1 = load_words h0 base data (nbytes div 8);
                      h2 = h1\<lparr>old := (old h1)\<lparr>sp_alloc := nbytes div 8\<rparr>\<rparr>;
                      delta = word_of_nat base - saved_base;
                      objs = walk_region h2 base (base + nbytes)
                  in rbind (load_objects delta objs \<lparr>ld_heap = h2, ld_sites = [], ld_symbols = []\<rparr>) (\<lambda>st.
                     let h = ld_heap st;
                         sp = (base + sp_off) mod 2 ^ 64;
                         cl = (base + cl_off) mod 2 ^ 64;
                         specs = map (slot h sp) [0..<min SPECIAL_OBJECTS_COUNT (unat (num_slots h sp))];
                         classes = map (slot h cl) [0..<unat (num_slots h cl)]
                     in rbind (from_ptr_checked ((base + active_off) mod 2 ^ 64)) (\<lambda>active.
                        Ok ((bare_literal h (vc_max_stack_bytes cfg))
                              \<lparr>class_table := classes, specials := specs, symbols := ld_symbols st,
                               active_process := active, site_registry := ld_sites st\<rparr>))))"

text \<open>
  A size field within 64 of 2 to the 64 makes the sum of the truncation test wrap: the damaged file
  passes it, and the vector asked for old space is then a panic instead of an error value.
\<close>

lemma wrapped_sizes:
  assumes "n < 18446744073709551616" and "18446744073709551552 \<le> (n :: nat)"
  shows "(64 + n) mod 18446744073709551616 \<le> 64" and "9223372036854775815 \<le> n * 2 mod 18446744073709551616"
proof -
  have "64 + n = n - 18446744073709551552 + 18446744073709551616"
    and "n * 2 = n * 2 - 18446744073709551616 + 18446744073709551616" using assms by simp_all
  then have "(64 + n) mod 18446744073709551616 = (n - 18446744073709551552) mod 18446744073709551616"
    and "n * 2 mod 18446744073709551616 = (n * 2 - 18446744073709551616) mod 18446744073709551616"
    by (metis mod_add_self2)+
  then show "(64 + n) mod 18446744073709551616 \<le> 64" and "9223372036854775815 \<le> n * 2 mod 18446744073709551616"
    using assms by simp_all
qed

lemma too_large: "9223372036854775815 \<le> (n :: nat) \<Longrightarrow> \<not> n div 8 * 8 < 9223372036854775808"
  using div_mult_mod_eq [of n 8] mod_less_divisor [of 8 n] by linarith

lemma too_large_heap: "9223372036854775815 \<le> n \<Longrightarrow> heap_fits (c\<lparr>old_bytes := n\<rparr>) = False"
  using too_large [of n] by (simp add: heap_fits_def)

lemma huge_size_field_panics:
  assumes "get_u32 data IMG_MAGIC_OFFSET = IMG_MAGIC" and "get_u32 data IMG_VERSION_OFFSET = 1"
    and "IMG_HEADER_SIZE \<le> length data" and "2 ^ 64 - 64 \<le> unat (get_u64 data IMG_OLD_SPACE_SIZE_OFFSET)"
  shows "load_image f t base cfg data = Panic"
proof -
  define n where "n = unat (get_u64 data IMG_OLD_SPACE_SIZE_OFFSET)"
  have n: "n < 18446744073709551616" "18446744073709551552 \<le> n"
    using unsigned_less [of "get_u64 data IMG_OLD_SPACE_SIZE_OFFSET"] assms(4) by (simp_all add: n_def)
  have t: "(length data < (64 + n) mod 18446744073709551616) = False"
    using order_trans [OF wrapped_sizes(1) [OF n] assms(3)] by (simp only: not_less simp_thms)
  have "9223372036854775815 \<le> max k (n * 2 mod 18446744073709551616)" for k
    unfolding le_max_iff_disj by (rule disjI2 [OF wrapped_sizes(2) [OF n]])
  note f = too_large_heap [OF this]
  show ?thesis using assms(1-3) unfolding load_image_def Let_def n_def [symmetric] by (simp add: t f)
qed

end
