(* ===== verification/Safepoints.thy ===== *)
theory Safepoints
  imports Unwind Scheduler Image
begin

section \<open>Safepoints and snapshots\<close>

text \<open>
  The poll of src/interp.rs at backward jumps and sends, and the snapshot it may take. What the host
  answers while one instruction runs is an environment: the clock reading at the poll, the readings
  while the machine waits for a process, the monotonic and the wall clock, and what the operations on
  files and on the standard streams answer, None being an error. The samples a profiler
  takes at a poll only read the machine and are left out.
\<close>

record env =
  env_now :: int
  env_clock :: "nat \<Rightarrow> int"
  env_write :: "string \<Rightarrow> u8 list \<Rightarrow> bool"
  env_wait :: nat
  env_mono_ns :: u64
  env_wall_ms :: int
  env_open :: "string \<Rightarrow> int \<Rightarrow> bool"
  env_remove :: "string \<Rightarrow> bool"
  env_file_read :: "nat \<Rightarrow> nat \<Rightarrow> u8 list option"
  env_file_write :: "nat \<Rightarrow> u8 list \<Rightarrow> bool"
  env_file_position :: "nat \<Rightarrow> int option"
  env_file_seek :: "nat \<Rightarrow> int \<Rightarrow> int option"
  env_file_size :: "nat \<Rightarrow> int option"
  env_stdin :: "nat \<Rightarrow> u8 list"
  env_stdout :: "int \<Rightarrow> u8 list \<Rightarrow> bool"

text \<open>The rounds of waiting the model allows are those of the environment.\<close>

definition wait_next :: "env \<Rightarrow> vm \<Rightarrow> (value \<times> vm) outcome" where
  "wait_next e vm = pick_next_or_wait (env_clock e) (env_wait e) 0 vm"

definition service_safepoint :: "env \<Rightarrow> vm \<Rightarrow> regs \<Rightarrow> vm \<times> regs" where
  "service_safepoint e vm rg =
     (let vm1 = snd (service_timers vm (env_now e));
          vm2 = vm1\<lparr>safepoint_armed := (timer_requests vm1 \<noteq> [])\<rparr>;
          cur = active_process vm2;
          cur_prio = as_int (vslot vm2 (as_ptr cur) PROCESS_PRIORITY)
      in case runnable_priority_ceiling vm2 of
           None \<Rightarrow> (vm2, rg)
         | Some hp \<Rightarrow>
             if cur_prio < hp
             then (case take_next_runnable (make_runnable vm2 cur) of
                     Some (next, vm3) \<Rightarrow> transfer_to vm3 rg next
                   | None \<Rightarrow> (make_runnable vm2 cur, rg))
             else (vm2, rg))"

definition poll_safepoint :: "env \<Rightarrow> vm \<Rightarrow> regs \<Rightarrow> vm \<times> regs" where
  "poll_safepoint e vm0 rg =
     (let vm = (if gate (vm_counters vm0) then vm0\<lparr>vm_counters := record_gap (vm_counters vm0)\<rparr> else vm0)
      in if safepoint_armed vm
         then (case service_safepoint e (save_regs vm rg) rg of
                 (vm1, rg1) \<Rightarrow> (vm1, refresh_regs vm1 rg1))
         else (vm, rg))"

text \<open>Two scavenges with the threshold at zero empty the young generation into the old one.\<close>

definition tenure_all :: "vm \<Rightarrow> vm outcome" where
  "tenure_all vm =
     (let saved = tenure_threshold vm
      in rbind (collect_young (vm\<lparr>tenure_threshold := 0\<rparr>)) (\<lambda>vm1.
         rbind (collect_young vm1) (\<lambda>vm2. Ok (vm2\<lparr>tenure_threshold := saved\<rparr>))))"

definition snapshot_now :: "env \<Rightarrow> vm \<Rightarrow> regs \<Rightarrow> string \<Rightarrow> (vm \<times> regs) outcome" where
  "snapshot_now e vm rg path =
     rbind (tenure_all (save_regs vm rg)) (\<lambda>vm1.
     let rg1 = refresh_regs vm1 rg
     in rbind (write_image (env_write e path) vm1) (\<lambda>vm2.
        Ok (vm2\<lparr>snapshot_fired_at_capture_len := Some (length (stdout_capture vm2))\<rparr>, rg1)))"

end
