(* ===== verification/Element_Access.thy ===== *)
theory Element_Access
  imports Registers
begin

section \<open>Integer arithmetic and element access\<close>

text \<open>
  The operations on values that the bytecodes and the primitives share: floored division, checked
  SmallInteger arithmetic, and the one-based at:, at:put: and size of indexable objects, which
  src/interp.rs has as at_fast, atput_fast and size_fast and src/prims.rs as at_value, at_put_value
  and size_value. The i64 results are ints within the range of i64.
\<close>

definition floored_divmod :: "int \<Rightarrow> int \<Rightarrow> int \<times> int" where
  "floored_divmod x y =
     (let q = i64_div x y; r = i64_rem x y
      in if r \<noteq> 0 \<and> ((r < 0) \<noteq> (y < 0)) then (q - 1, r + y) else (q, r))"

definition at_fast :: "vm \<Rightarrow> value \<Rightarrow> value \<Rightarrow> value option" where
  "at_fast vm recv idx =
     (if \<not> is_ptr recv \<or> \<not> is_int idx then None
      else
        let h = vm_heap vm; addr = as_ptr recv; w = header h addr; i = as_int idx
        in if hdr_format w = FMT_PTRS
           then (if 1 \<le> i \<and> i \<le> sint (num_slots h addr) then Some (slot h addr (nat (i - 1))) else None)
           else if is_bytes w
           then (if 1 \<le> i \<and> i \<le> int (byte_size h addr)
                 then Some (from_int (uint (byte h addr (nat (i - 1))))) else None)
           else None)"

definition atput_fast :: "vm \<Rightarrow> value \<Rightarrow> value \<Rightarrow> value \<Rightarrow> (value \<times> vm) option" where
  "atput_fast vm recv idx val =
     (if \<not> is_ptr recv \<or> \<not> is_int idx then None
      else
        let h = vm_heap vm; addr = as_ptr recv
        in if is_immutable h addr then None
           else
             let w = header h addr; i = as_int idx
             in if hdr_format w = FMT_PTRS
                then (if 1 \<le> i \<and> i \<le> sint (num_slots h addr)
                      then Some (val, store_slot vm addr (nat (i - 1)) val) else None)
                else if is_bytes w
                then (if 1 \<le> i \<and> i \<le> int (byte_size h addr) \<and> is_int val \<and> 0 \<le> as_int val \<and> as_int val \<le> 255
                      then Some (val, vm\<lparr>vm_heap := set_byte h addr (nat (i - 1)) (word_of_int (as_int val))\<rparr>)
                      else None)
                else None)"

definition size_fast :: "vm \<Rightarrow> value \<Rightarrow> value option" where
  "size_fast vm recv =
     (if \<not> is_ptr recv then None
      else
        let h = vm_heap vm; addr = as_ptr recv; w = header h addr
        in if hdr_format w = FMT_PTRS then Some (from_int (sint (num_slots h addr)))
           else if is_bytes w then Some (from_int (int (byte_size h addr)))
           else None)"

text \<open>
  The primitives spell the same three out again, with the bounds check before the closure that
  reads.
\<close>

definition at_value :: "vm \<Rightarrow> value \<Rightarrow> value \<Rightarrow> value option" where
  "at_value vm recv idx =
     (if \<not> is_ptr recv \<or> \<not> is_int idx then None
      else
        let h = vm_heap vm; addr = as_ptr recv; w = header h addr; i = as_int idx;
            checked = (\<lambda>n (read :: nat \<Rightarrow> value). if 1 \<le> i \<and> i \<le> n then Some (read (nat (i - 1))) else None)
        in if hdr_format w = FMT_PTRS then checked (sint (num_slots h addr)) (slot h addr)
           else if is_bytes w
           then checked (int (byte_size h addr)) (\<lambda>j. from_int (uint (byte h addr j)))
           else None)"

definition at_put_value :: "vm \<Rightarrow> value \<Rightarrow> value \<Rightarrow> value \<Rightarrow> (value \<times> vm) option" where
  "at_put_value vm recv idx val =
     (let h = vm_heap vm; addr = as_ptr recv; w = header h addr; i = as_int idx
      in if \<not> is_ptr recv \<or> \<not> is_int idx then None
         else if is_immutable h addr then None
         else if hdr_format w = FMT_PTRS
         then (if 1 \<le> i \<and> i \<le> sint (num_slots h addr)
               then Some (val, store_slot vm addr (nat (i - 1)) val) else None)
         else if is_bytes w \<and> 1 \<le> i \<and> i \<le> int (byte_size h addr) \<and> is_int val
                 \<and> as_int val \<in> {0..255}
         then Some (val, vm\<lparr>vm_heap := set_byte h addr (nat (i - 1)) (word_of_int (as_int val))\<rparr>)
         else None)"

definition size_value :: "vm \<Rightarrow> value \<Rightarrow> value option" where
  "size_value vm recv =
     (let h = vm_heap vm; addr = as_ptr recv; w = header h addr
      in if \<not> is_ptr recv then None
         else if hdr_format w = FMT_PTRS then Some (from_int (sint (num_slots h addr)))
         else if is_bytes w then Some (from_int (int (byte_size h addr))) else None)"

end
