(* ===== verification/Interp.thy ===== *)
theory Interp
  imports Safepoints Element_Access
begin

section \<open>The instruction loop\<close>

text \<open>
  The run loop of src/interp.rs: fetch, decode with shifts and masks, and one case per opcode. The
  groups of opcodes the code handles in one match arm are one definition each. P is the dispatcher
  of the primitives and fuel bounds the unwinding an instruction may do.
\<close>

type_synonym exec = "(vm \<times> regs) outcome"

definition jump_pc :: "regs \<Rightarrow> u16 \<Rightarrow> regs" where
  "jump_pc rg d16 = rg\<lparr>r_pc := as_usize (int (r_pc rg) + sint d16)\<rparr>"

definition exec_jump :: "env \<Rightarrow> vm \<Rightarrow> regs \<Rightarrow> u16 \<Rightarrow> vm \<times> regs" where
  "exec_jump e vm rg d16 =
     (let rg1 = jump_pc rg d16
      in if sint d16 < 0 then poll_safepoint e vm rg1 else (vm, rg1))"

definition exec_jump_if :: "prim_fn \<Rightarrow> env \<Rightarrow> vm \<Rightarrow> regs \<Rightarrow> bool \<Rightarrow> u8 \<Rightarrow> u16 \<Rightarrow> exec" where
  "exec_jump_if P e vm rg on_true a d16 =
     (let v = get_slot vm rg a;
          want = (if on_true then true_v vm else false_v vm);
          other = (if on_true then false_v vm else true_v vm)
      in if v = want then Ok (exec_jump e vm rg d16)
         else if v \<noteq> other
         then let c = vm_counters vm;
                  vm1 = vm\<lparr>vm_counters := c\<lparr>must_be_boolean := must_be_boolean c + 1\<rparr>\<rparr>;
                  rg1 = rg\<lparr>r_pc := r_pc rg - 1\<rparr>
              in send_staged P vm1 rg1 a (specials vm1 ! SPECIAL_SEL_MUST_BE_BOOLEAN) [v]
         else Ok (vm, rg))"

definition exec_prim :: "prim_fn \<Rightarrow> nat \<Rightarrow> vm \<Rightarrow> regs \<Rightarrow> u16 \<Rightarrow> exec" where
  "exec_prim P fuel vm rg d16 =
     (let argc = method_argc vm (r_method rg)
      in rbind (P d16 vm rg 0 argc 0) (\<lambda>(res, vm1, rg1).
           case res of
             Value v \<Rightarrow> do_return fuel vm1 rg1 v
           | Fail code \<Rightarrow> Ok (put_slot vm1 rg1 (of_nat (1 + argc)) (from_int code), rg1)
           | Control \<Rightarrow> Ok (vm1, rg1)))"

text \<open>The snapshot a send may take has the program counter at the send itself.\<close>

definition count_send :: "env \<Rightarrow> vm \<Rightarrow> regs \<Rightarrow> exec" where
  "count_send e vm rg =
     (case snapshot_after_sends vm of
        None \<Rightarrow> Ok (vm, rg)
      | Some (n, path) \<Rightarrow>
          let vm1 = vm\<lparr>sends_seen := sends_seen vm + 1\<rparr>
          in if sends_seen vm1 = n
             then rbind (snapshot_now e vm1 (rg\<lparr>r_pc := r_pc rg - 1\<rparr>) path) (\<lambda>(vm2, rg2).
                  Ok (vm2, rg2\<lparr>r_pc := r_pc rg2 + 1\<rparr>))
             else Ok (vm1, rg))"

definition exec_send :: "prim_fn \<Rightarrow> env \<Rightarrow> vm \<Rightarrow> regs \<Rightarrow> bool \<Rightarrow> u8 \<Rightarrow> u8 \<Rightarrow> u8 \<Rightarrow> exec" where
  "exec_send P e vm0 rg0 is_super a b c =
     (let (vm1, rg1) = poll_safepoint e vm0 rg0
      in rbind (count_send e vm1 rg1) (\<lambda>(vm, rg).
         if r_sites rg = 0 then fatal ''SEND without send-site table''
         else
           let base = unat c * SITE_STRIDE;
               selector = vslot vm (r_sites rg) (base + SITE_SELECTOR);
               argc = as_usize (as_int (vslot vm (r_sites rg) (base + SITE_ARGC)));
               super_static = (if is_super then Some (vslot vm (r_sites rg) (base + SITE_STATIC_CLASS))
                               else None)
           in do_send P vm rg a b selector argc (Some base) super_static))"

datatype arith = Add | Sub | Mul

definition arith_result :: "arith \<Rightarrow> int \<Rightarrow> int \<Rightarrow> value option" where
  "arith_result op x y =
     Option.bind
       (case op of Add \<Rightarrow> checked_i64 (x + y) | Sub \<Rightarrow> checked_i64 (x - y) | Mul \<Rightarrow> checked_i64 (x * y))
       try_from_int"

definition exec_arith :: "prim_fn \<Rightarrow> vm \<Rightarrow> regs \<Rightarrow> arith \<Rightarrow> u8 \<Rightarrow> u8 \<Rightarrow> u8 \<Rightarrow> exec" where
  "exec_arith P vm rg op a b c =
     (let x = get_slot vm rg b; y = get_slot vm rg c;
          r = (if is_int x \<and> is_int y then arith_result op (as_int x) (as_int y) else None);
          sel = (case op of Add \<Rightarrow> SPECSEL_PLUS | Sub \<Rightarrow> SPECSEL_MINUS | Mul \<Rightarrow> SPECSEL_TIMES)
      in case r of
           Some v \<Rightarrow> Ok (put_slot vm rg a v, rg)
         | None \<Rightarrow> spec_slow P vm rg sel a [b, c])"

definition exec_divmod :: "prim_fn \<Rightarrow> vm \<Rightarrow> regs \<Rightarrow> bool \<Rightarrow> u8 \<Rightarrow> u8 \<Rightarrow> u8 \<Rightarrow> exec" where
  "exec_divmod P vm rg is_div a b c =
     (let x = get_slot vm rg b; y = get_slot vm rg c;
          r = (if is_int x \<and> is_int y \<and> as_int y \<noteq> 0
               then let (q, m) = floored_divmod (as_int x) (as_int y)
                    in try_from_int (if is_div then q else m)
               else None)
      in case r of
           Some v \<Rightarrow> Ok (put_slot vm rg a v, rg)
         | None \<Rightarrow> spec_slow P vm rg (if is_div then SPECSEL_INT_DIV else SPECSEL_MOD) a [b, c])"

definition compare_op :: "u8 \<Rightarrow> int \<Rightarrow> int \<Rightarrow> bool" where
  "compare_op op x y =
     (if op = OP_LT then x < y else if op = OP_GT then y < x else if op = OP_LE then x \<le> y
      else if op = OP_GE then y \<le> x else x = y)"

definition exec_compare :: "prim_fn \<Rightarrow> vm \<Rightarrow> regs \<Rightarrow> u8 \<Rightarrow> u8 \<Rightarrow> u8 \<Rightarrow> u8 \<Rightarrow> exec" where
  "exec_compare P vm rg op a b c =
     (let x = get_slot vm rg b; y = get_slot vm rg c;
          sel = (if op = OP_LT then SPECSEL_LT else if op = OP_GT then SPECSEL_GT
                 else if op = OP_LE then SPECSEL_LE else if op = OP_GE then SPECSEL_GE else SPECSEL_EQ)
      in if is_int x \<and> is_int y
         then Ok (put_slot vm rg a (bool_v vm (compare_op op (as_int x) (as_int y))), rg)
         else spec_slow P vm rg sel a [b, c])"

text \<open>The instance variable and box opcodes fail on an immediate.\<close>

definition exec_data :: "vm \<Rightarrow> regs \<Rightarrow> u8 \<Rightarrow> u8 \<Rightarrow> u8 \<Rightarrow> u16 \<Rightarrow> exec option" where
  "exec_data vm rg op a b d16 =
     (let put = (\<lambda>v. Some (Ok (put_slot vm rg a v, rg))); recv = get_slot vm rg 0
      in if op = OP_NOP then Some (Ok (vm, rg))
         else if op = OP_BREAK then Some (fatal ''BREAK executed'')
         else if op = OP_MOVE then put (get_slot vm rg b)
         else if op = OP_LOADK then put (vslot vm (r_lits rg) (unat d16))
         else if op = OP_LOADINT then put (from_int (sint d16))
         else if op = OP_LOADNIL then put (nil vm)
         else if op = OP_LOADTRUE then put (true_v vm)
         else if op = OP_LOADFALSE then put (false_v vm)
         else if op = OP_LOADSELF then put recv
         else if op = OP_GETIVAR
         then (if \<not> is_ptr recv then Some (fatal ''GETIVAR on immediate receiver'')
               else put (vslot vm (as_ptr recv) (unat b)))
         else if op = OP_SETIVAR
         then (if \<not> is_ptr recv then Some (fatal ''SETIVAR on immediate receiver'')
               else Some (Ok (store_slot vm (as_ptr recv) (unat a) (get_slot vm rg b), rg)))
         else if op = OP_GETBOX
         then (let boxv = get_slot vm rg b
               in if \<not> is_ptr boxv then Some (fatal ''GETBOX on non-box'')
                  else put (vslot vm (as_ptr boxv) 0))
         else if op = OP_SETBOX
         then (let boxv = get_slot vm rg a
               in if \<not> is_ptr boxv then Some (fatal ''SETBOX on non-box'')
                  else Some (Ok (store_slot vm (as_ptr boxv) 0 (get_slot vm rg b), rg)))
         else if op = OP_MKBOX
         then Some (rbind (alloc_gc vm rg CLASS_BOX FMT_FIXED 1) (\<lambda>(boxv, vm1, rg1).
                let vm2 = vset_slot_raw vm1 (as_ptr boxv) 0 (get_slot vm1 rg1 b)
                in Ok (put_slot vm2 rg1 a boxv, rg1)))
         else None)"

definition exec_capture :: "vm \<Rightarrow> regs \<Rightarrow> u8 \<Rightarrow> u8 \<Rightarrow> exec" where
  "exec_capture vm rg a b =
     (case r_closure rg of
        None \<Rightarrow> fatal ''CAPTURE without preceding MKCLOSURE''
      | Some cl_slot \<Rightarrow>
          Ok (store_slot vm (as_ptr (get_slot vm rg cl_slot)) (CLOSURE_CAPTURED_BASE + unat a)
                (get_slot vm rg b), rg))"

definition exec_special :: "prim_fn \<Rightarrow> vm \<Rightarrow> regs \<Rightarrow> u8 \<Rightarrow> u8 \<Rightarrow> u8 \<Rightarrow> u8 \<Rightarrow> exec option" where
  "exec_special P vm rg op a b c =
     (let put = (\<lambda>vm v. Ok (put_slot vm rg a v, rg)); recv = get_slot vm rg b
      in if op = OP_ADD then Some (exec_arith P vm rg Add a b c)
         else if op = OP_SUB then Some (exec_arith P vm rg Sub a b c)
         else if op = OP_MUL then Some (exec_arith P vm rg Mul a b c)
         else if op = OP_DIV then Some (exec_divmod P vm rg True a b c)
         else if op = OP_MOD then Some (exec_divmod P vm rg False a b c)
         else if op = OP_LT \<or> op = OP_GT \<or> op = OP_LE \<or> op = OP_GE \<or> op = OP_EQNUM
         then Some (exec_compare P vm rg op a b c)
         else if op = OP_IDEQ then Some (put vm (bool_v vm (recv = get_slot vm rg c)))
         else if op = OP_AT
         then Some (case at_fast vm recv (get_slot vm rg c) of
                      Some v \<Rightarrow> put vm v
                    | None \<Rightarrow> spec_slow P vm rg SPECSEL_AT a [b, c])
         else if op = OP_ATPUT
         then Some (case atput_fast vm recv (get_slot vm rg c) (get_slot vm rg (c + 1)) of
                      Some (v, vm1) \<Rightarrow> put vm1 v
                    | None \<Rightarrow> spec_slow P vm rg SPECSEL_AT_PUT a [b, c, c + 1])
         else if op = OP_SIZE
         then Some (case size_fast vm recv of
                      Some v \<Rightarrow> put vm v
                    | None \<Rightarrow> spec_slow P vm rg SPECSEL_SIZE a [b])
         else if op = OP_CLASSOF then Some (rbind (class_of vm recv) (put vm))
         else if op = OP_NOT
         then Some (if recv = true_v vm then put vm (false_v vm)
                    else if recv = false_v vm then put vm (true_v vm)
                    else spec_slow P vm rg SPECSEL_NOT a [b])
         else None)"

definition exec_control :: "prim_fn \<Rightarrow> env \<Rightarrow> nat \<Rightarrow> vm \<Rightarrow> regs \<Rightarrow> u8 \<Rightarrow> u8 \<Rightarrow> u8 \<Rightarrow> u8 \<Rightarrow> u16 \<Rightarrow> exec" where
  "exec_control P e fuel vm rg op a b c d16 =
     (if op = OP_JUMP then Ok (exec_jump e vm rg d16)
      else if op = OP_JUMPTRUE then exec_jump_if P e vm rg True a d16
      else if op = OP_JUMPFALSE then exec_jump_if P e vm rg False a d16
      else if op = OP_RET then do_return fuel vm rg (get_slot vm rg a)
      else if op = OP_RETSELF then do_return fuel vm rg (get_slot vm rg 0)
      else if op = OP_NLR then do_nlr P fuel vm rg a
      else if op = OP_PRIM then exec_prim P fuel vm rg d16
      else if op = OP_SEND then exec_send P e vm rg False a b c
      else if op = OP_SENDSUPER then exec_send P e vm rg True a b c
      else if op = OP_MKCLOSURE then do_mkclosure vm rg a d16
      else if op = OP_CAPTURE then exec_capture vm rg a b
      else fatal ''illegal opcode'')"

definition exec_insn :: "prim_fn \<Rightarrow> env \<Rightarrow> nat \<Rightarrow> vm \<Rightarrow> regs \<Rightarrow> u8 \<Rightarrow> u8 \<Rightarrow> u8 \<Rightarrow> u8 \<Rightarrow> u16 \<Rightarrow> exec" where
  "exec_insn P e fuel vm rg op a b c d16 =
     (case exec_data vm rg op a b d16 of
        Some r \<Rightarrow> r
      | None \<Rightarrow>
          (case exec_special P vm rg op a b c of
             Some r \<Rightarrow> r
           | None \<Rightarrow> exec_control P e fuel vm rg op a b c d16))"

definition count_insn :: "vm \<Rightarrow> u8 \<Rightarrow> vm" where
  "count_insn vm op =
     (let c = vm_counters vm
      in if gate c
         then vm\<lparr>vm_counters := c\<lparr>insns := insns c + 1,
                opcode_hist := (opcode_hist c)[unat op := opcode_hist c ! unat op + 1],
                gap_current := gap_current c + 1\<rparr>\<rparr>
         else vm)"

definition step :: "prim_fn \<Rightarrow> env \<Rightarrow> nat \<Rightarrow> vm \<Rightarrow> regs \<Rightarrow> exec" where
  "step P e fuel vm rg =
     (let word = insn_at (vm_heap vm) (r_code rg) (r_pc rg);
          op = ucast (word AND 255) :: u8;
          a = ucast (drop_bit 8 word AND 255) :: u8;
          b = ucast (drop_bit 16 word AND 255) :: u8;
          c = ucast (drop_bit 24 word) :: u8;
          d16 = ucast (drop_bit 16 word) :: u16
      in rbind (exec_insn P e fuel (count_insn vm op) (rg\<lparr>r_pc := r_pc rg + 1\<rparr>) op a b c d16) (\<lambda>(vm1, rg1).
         Ok (vm1, if op = OP_MKCLOSURE \<or> op = OP_CAPTURE then rg1 else rg1\<lparr>r_closure := None\<rparr>)))"

subsection \<open>Running a process\<close>

text \<open>
  What the loop does when the base frame of the active process has returned: the process has no
  stack any more; if it is the one the run is for, the run answers its value, otherwise the next
  process runs.
\<close>

definition finish_process :: "env \<Rightarrow> nat \<Rightarrow> vm \<Rightarrow> regs \<Rightarrow> value \<Rightarrow> (value option \<times> vm \<times> regs) outcome" where
  "finish_process e target_slot vm rg v =
     (let cur = active_process vm;
          vm1 = store_slot vm (as_ptr cur) PROCESS_STACK (nil vm);
          vm2 = vset_slot_raw vm1 (as_ptr cur) PROCESS_MY_LIST (nil vm)
      in if length (temp_roots vm2) \<le> target_slot then Panic
         else if cur = temp_roots vm2 ! target_slot then Ok (Some v, vm2, rg)
         else rbind (wait_next e vm2) (\<lambda>(next, vm3).
              case transfer_to vm3 rg next of (vm4, rg1) \<Rightarrow> Ok (None, vm4, rg1\<lparr>r_halted := None\<rparr>)))"

fun run_loop :: "(nat \<Rightarrow> prim_fn) \<Rightarrow> (nat \<Rightarrow> env) \<Rightarrow> nat \<Rightarrow> nat \<Rightarrow> vm \<Rightarrow> regs \<Rightarrow> (value \<times> vm) outcome" where
  "run_loop P envs target_slot 0 vm rg = Diverge"
| "run_loop P envs target_slot (Suc fuel) vm rg =
     rbind (step (P fuel) (envs fuel) fuel vm rg) (\<lambda>(vm1, rg1).
       case r_halted rg1 of
         None \<Rightarrow> run_loop P envs target_slot fuel vm1 rg1
       | Some v \<Rightarrow>
           rbind (finish_process (envs fuel) target_slot vm1 rg1 v) (\<lambda>(res, vm2, rg2).
             case res of
               Some w \<Rightarrow> Ok (w, vm2)
             | None \<Rightarrow> run_loop P envs target_slot fuel vm2 rg2))"

definition run_rooted :: "(nat \<Rightarrow> prim_fn) \<Rightarrow> (nat \<Rightarrow> env) \<Rightarrow> nat \<Rightarrow> vm \<Rightarrow> value \<Rightarrow> nat \<Rightarrow> (value \<times> vm) outcome" where
  "run_rooted P envs fuel vm process target_slot =
     (let vm1 = vm\<lparr>active_process := process\<rparr>;
          sched = specials vm1 ! SPECIAL_PROCESSOR;
          vm2 = store_slot vm1 (as_ptr sched) SCHEDULER_ACTIVE_PROCESS process
      in run_loop P envs target_slot fuel vm2 (load_regs vm2))"

definition run :: "(nat \<Rightarrow> prim_fn) \<Rightarrow> (nat \<Rightarrow> env) \<Rightarrow> nat \<Rightarrow> vm \<Rightarrow> value \<Rightarrow> (value \<times> vm) outcome" where
  "run P envs fuel vm process =
     (let vm1 = push_root vm process;
          target_slot = length (temp_roots vm1) - 1
      in rbind (run_rooted P envs fuel vm1 process target_slot) (\<lambda>(v, vm2).
           Ok (v, vm2\<lparr>temp_roots := take target_slot (temp_roots vm2)\<rparr>)))"

end
