(* ===== verification/Bootstrap.thy ===== *)
theory Bootstrap
  imports Interp
begin

section \<open>A bare machine, instances and processes\<close>

text \<open>
  The part of src/vm.rs that makes a machine: the bootstrap of the well-known objects, the class
  objects of the treaty and the scheduler; classes and instances for callers outside the
  interpreter; and the creation of a process with its stack and first frame. An allocation in old
  space that fails while the machine is made is the expect of the code, Panic.
\<close>

definition expect_old ::
  "vm \<Rightarrow> (heap \<Rightarrow> (nat \<times> heap) option) \<Rightarrow> (nat \<times> vm) outcome" where
  "expect_old vm alloc =
     (case alloc (vm_heap vm) of
        None \<Rightarrow> Panic
      | Some (a, h) \<Rightarrow> Ok (a, vm\<lparr>vm_heap := h\<rparr>))"

definition make_mdict_old :: "vm \<Rightarrow> value \<Rightarrow> (value \<times> vm) outcome" where
  "make_mdict_old vm nilv =
     rbind (expect_old vm (\<lambda>h. alloc_ptrs_old h CLASS_ARRAY 0 nilv)) (\<lambda>(keys, vm1).
     rbind (expect_old vm1 (\<lambda>h. alloc_ptrs_old h CLASS_ARRAY 0 nilv)) (\<lambda>(vals, vm2).
     rbind (expect_old vm2 (\<lambda>h. alloc_fixed_old h CLASS_METHODDICTIONARY MDICT_NUM_VM_SLOTS nilv))
       (\<lambda>(md, vm3).
     rbind (from_ptr_checked keys) (\<lambda>kv.
     rbind (from_ptr_checked vals) (\<lambda>vv.
     rbind (from_ptr_checked md) (\<lambda>mv.
       Ok (mv, vset_slot_raw (vset_slot_raw vm3 md MDICT_KEYS kv) md MDICT_VALUES vv)))))))"

definition make_semaphore_old :: "vm \<Rightarrow> (value \<times> vm) outcome" where
  "make_semaphore_old vm =
     rbind (expect_old vm (\<lambda>h. alloc_fixed_old h CLASS_SEMAPHORE SEMAPHORE_NUM_VM_SLOTS (nil vm)))
       (\<lambda>(sem, vm1). rbind (from_ptr_checked sem) (\<lambda>v.
          Ok (v, vset_slot_raw vm1 sem SEMAPHORE_EXCESS_SIGNALS (from_int 0))))"

definition format_and_slots :: "u64 \<Rightarrow> nat \<Rightarrow> int" where
  "format_and_slots format nslots = push_bit FORMAT_AND_SLOTS_FORMAT_SHIFT (sint format) OR int nslots"

definition make_class_object :: "vm \<Rightarrow> u32 \<Rightarrow> u64 \<Rightarrow> nat \<Rightarrow> value \<Rightarrow> (value \<times> vm) outcome" where
  "make_class_object vm idx format nslots nilv =
     rbind (make_mdict_old vm nilv) (\<lambda>(mdict, vm1).
     rbind (expect_old vm1 (\<lambda>h. alloc_fixed_old h CLASS_CLASS BEHAVIOR_NUM_VM_SLOTS nilv)) (\<lambda>(c, vm2).
     let vm3 = vset_slot_raw vm2 c BEHAVIOR_SUPERCLASS nilv;
         vm4 = vset_slot_raw vm3 c BEHAVIOR_METHOD_DICTIONARY mdict;
         vm5 = vset_slot_raw vm4 c BEHAVIOR_FORMAT_AND_SLOTS (from_int (format_and_slots format nslots));
         vm6 = vset_slot_raw vm5 c BEHAVIOR_CLASS_INDEX (from_int (uint idx))
     in rbind (from_ptr_checked c) (\<lambda>v. Ok (v, vm6))))"

subsection \<open>Bootstrap\<close>

definition bootstrap_classes :: "(u32 \<times> u64 \<times> nat) list" where
  "bootstrap_classes =
     [(CLASS_OBJECT, FMT_FIXED, 0),
      (CLASS_BEHAVIOR, FMT_FIXED, BEHAVIOR_NUM_VM_SLOTS),
      (CLASS_CLASS, FMT_FIXED, BEHAVIOR_NUM_VM_SLOTS),
      (CLASS_METACLASS, FMT_FIXED, BEHAVIOR_NUM_VM_SLOTS),
      (CLASS_UNDEFINED_OBJECT, FMT_FIXED, 0),
      (CLASS_TRUE, FMT_FIXED, 0),
      (CLASS_FALSE, FMT_FIXED, 0),
      (CLASS_SMALLINTEGER, FMT_FIXED, 0),
      (CLASS_FLOAT, FMT_BYTES_BASE, 0),
      (CLASS_CHARACTER, FMT_FIXED, 1),
      (CLASS_STRING, FMT_BYTES_BASE, 0),
      (CLASS_BYTESTRING, FMT_BYTES_BASE, 0),
      (CLASS_SYMBOL, FMT_BYTES_BASE, 0),
      (CLASS_LARGE_POSITIVE_INTEGER, FMT_BYTES_BASE, 0),
      (CLASS_LARGE_NEGATIVE_INTEGER, FMT_BYTES_BASE, 0),
      (CLASS_ARRAY, FMT_PTRS, 0),
      (CLASS_BYTEARRAY, FMT_BYTES_BASE, 0),
      (CLASS_ORDERED_COLLECTION, FMT_FIXED, 2),
      (CLASS_ASSOCIATION, FMT_FIXED, 2),
      (CLASS_BOX, FMT_FIXED, 1),
      (CLASS_BLOCKCLOSURE, FMT_FIXED, CLOSURE_CAPTURED_BASE),
      (CLASS_COMPILEDMETHOD, FMT_FIXED, METHOD_NUM_SLOTS),
      (CLASS_COMPILEDBLOCK, FMT_FIXED, BLOCK_NUM_SLOTS),
      (CLASS_PROCESS, FMT_FIXED, PROCESS_NUM_VM_SLOTS),
      (CLASS_SEMAPHORE, FMT_FIXED, SEMAPHORE_NUM_VM_SLOTS),
      (CLASS_METHODDICTIONARY, FMT_FIXED, MDICT_NUM_VM_SLOTS),
      (CLASS_PROCESSOR_SCHEDULER, FMT_FIXED, SCHEDULER_NUM_VM_SLOTS),
      (CLASS_MESSAGE, FMT_FIXED, 2),
      (CLASS_SYSTEM_DICTIONARY, FMT_FIXED, 0),
      (CLASS_STACK, FMT_PTRS, 0),
      (CLASS_LINKED_LIST, FMT_FIXED, LIST_NUM_VM_SLOTS)]"

fun make_classes :: "value \<Rightarrow> (u32 \<times> u64 \<times> nat) list \<Rightarrow> vm \<Rightarrow> vm outcome" where
  "make_classes nilv [] vm = Ok vm"
| "make_classes nilv ((idx, format, nslots) # cs) vm =
     rbind (make_class_object vm idx format nslots nilv) (\<lambda>(c, vm1).
       if length (class_table vm1) \<le> unat idx then Panic
       else make_classes nilv cs (vm1\<lparr>class_table := (class_table vm1)[unat idx := c]\<rparr>))"

definition class_entry :: "vm \<Rightarrow> u32 \<Rightarrow> value" where
  "class_entry vm idx = class_table vm ! unat idx"

definition set_superclass :: "u32 \<Rightarrow> value \<Rightarrow> vm \<Rightarrow> vm" where
  "set_superclass idx super vm = vset_slot_raw vm (as_ptr (class_entry vm idx)) BEHAVIOR_SUPERCLASS super"

definition wire_superclasses :: "vm \<Rightarrow> vm" where
  "wire_superclasses vm =
     (let obj = class_entry vm CLASS_OBJECT;
          vm1 = fold (\<lambda>(idx, _, _) vm. if idx \<noteq> CLASS_OBJECT then set_superclass idx obj vm else vm)
                  bootstrap_classes vm;
          vm2 = set_superclass CLASS_BYTESTRING (class_entry vm CLASS_STRING) vm1
      in set_superclass CLASS_SYMBOL (class_entry vm CLASS_BYTESTRING) vm2)"

fun intern_into :: "nat \<Rightarrow> nat \<Rightarrow> string list \<Rightarrow> vm \<Rightarrow> vm outcome" where
  "intern_into arr i [] vm = Ok vm"
| "intern_into arr i (s # ss) vm =
     rbind (intern vm s) (\<lambda>(sym, vm1). intern_into arr (i + 1) ss (vset_slot_raw vm1 arr i sym))"

fun make_run_queues :: "nat \<Rightarrow> nat list \<Rightarrow> vm \<Rightarrow> vm outcome" where
  "make_run_queues arr [] vm = Ok vm"
| "make_run_queues arr (i # is) vm =
     rbind (expect_old vm (\<lambda>h. alloc_fixed_old h CLASS_LINKED_LIST LIST_NUM_VM_SLOTS (nil vm)))
       (\<lambda>(q, vm1). rbind (from_ptr_checked q) (\<lambda>v. make_run_queues arr is (vset_slot_raw vm1 arr i v)))"

definition make_well_known :: "vm \<Rightarrow> vm outcome" where
  "make_well_known vm =
     rbind (expect_old vm (\<lambda>h. alloc_fixed_old h CLASS_UNDEFINED_OBJECT 0 0)) (\<lambda>(na, vm1).
     rbind (from_ptr_checked na) (\<lambda>nilv.
     rbind (expect_old vm1 (\<lambda>h. alloc_fixed_old h CLASS_TRUE 0 nilv)) (\<lambda>(ta, vm2).
     rbind (expect_old vm2 (\<lambda>h. alloc_fixed_old h CLASS_FALSE 0 nilv)) (\<lambda>(fa, vm3).
     rbind (from_ptr_checked ta) (\<lambda>tv. rbind (from_ptr_checked fa) (\<lambda>fv.
       Ok (vm3\<lparr>specials := (replicate SPECIAL_OBJECTS_COUNT nilv)[SPECIAL_TRUE := tv, SPECIAL_FALSE := fv],
               class_table := replicate (unat FIRST_UNRESERVED_CLASS_INDEX) nilv\<rparr>)))))))"

definition make_selectors :: "vm \<Rightarrow> vm outcome" where
  "make_selectors vm =
     rbind (intern vm ''doesNotUnderstand:'') (\<lambda>(dnu_sel, vm1).
     rbind (intern (vm1\<lparr>specials := (specials vm1)[SPECIAL_SEL_DOES_NOT_UNDERSTAND := dnu_sel]\<rparr>)
              ''mustBeBoolean'') (\<lambda>(mbb, vm2).
     let vm3 = vm2\<lparr>specials := (specials vm2)[SPECIAL_SEL_MUST_BE_BOOLEAN := mbb]\<rparr>
     in rbind (expect_old vm3 (\<lambda>h. alloc_ptrs_old h CLASS_ARRAY SPECSEL_COUNT (nil vm3))) (\<lambda>(sels, vm4).
        rbind (intern_into sels 0 SPECSEL_NAMES vm4) (\<lambda>vm5.
        rbind (from_ptr_checked sels) (\<lambda>v.
          Ok (vm5\<lparr>specials := (specials vm5)[SPECIAL_SPECIALIZED_SELECTORS := v]\<rparr>))))))"

definition make_scheduler :: "vm \<Rightarrow> vm outcome" where
  "make_scheduler vm =
     rbind (expect_old vm (\<lambda>h. alloc_ptrs_old h CLASS_ARRAY NUM_PRIORITIES (nil vm))) (\<lambda>(queues, vm1).
     rbind (make_run_queues queues [0..<NUM_PRIORITIES] vm1) (\<lambda>vm2.
     rbind (expect_old vm2 (\<lambda>h. alloc_fixed_old h CLASS_PROCESSOR_SCHEDULER SCHEDULER_NUM_VM_SLOTS (nil vm2)))
       (\<lambda>(sched, vm3).
     rbind (from_ptr_checked queues) (\<lambda>qv. rbind (from_ptr_checked sched) (\<lambda>sv.
       let vm4 = vset_slot_raw vm3 sched SCHEDULER_QUEUES qv
       in Ok (vm4\<lparr>specials := (specials vm4)[SPECIAL_PROCESSOR := sv]\<rparr>))))))"

definition bootstrap :: "vm \<Rightarrow> vm outcome" where
  "bootstrap vm =
     rbind (make_well_known vm) (\<lambda>vm1.
     rbind (make_classes (nil vm1) bootstrap_classes vm1) (\<lambda>vm2.
     rbind (make_selectors (wire_superclasses vm2)) (\<lambda>vm3.
     rbind (make_scheduler vm3) (\<lambda>vm4.
     rbind (make_semaphore_old vm4) (\<lambda>(low, vm5).
     rbind (make_semaphore_old (vm5\<lparr>specials := (specials vm5)[SPECIAL_LOW_SPACE_SEMAPHORE := low]\<rparr>))
       (\<lambda>(tim, vm6).
       let vm7 = vm6\<lparr>specials := (specials vm6)[SPECIAL_TIMER_SEMAPHORE := tim]\<rparr>
       in Ok (vm7\<lparr>active_process := nil vm7\<rparr>)))))))"

text \<open>The bases of the three spaces are what the allocator of the host answers.\<close>

definition bare :: "nat \<Rightarrow> nat \<Rightarrow> nat \<Rightarrow> vm_config \<Rightarrow> vm outcome" where
  "bare from_base to_base old_base cfg =
     (if \<not> heap_fits (vc_heap cfg) then Panic
      else bootstrap (bare_literal (new_heap from_base to_base old_base (vc_heap cfg)) (vc_max_stack_bytes cfg)))"

definition test_config :: vm_config where
  "test_config =
     \<lparr>vc_heap = default_heap_config\<lparr>young_bytes := 2 * 1024 * 1024, old_bytes := 8 * 1024 * 1024\<rparr>,
      vc_max_stack_bytes = DEFAULT_MAX_STACK_BYTES\<rparr>"

definition bare_test :: "nat \<Rightarrow> nat \<Rightarrow> nat \<Rightarrow> vm outcome" where
  "bare_test from_base to_base old_base = bare from_base to_base old_base test_config"

subsection \<open>Classes and instances\<close>

definition new_test_subclass :: "vm \<Rightarrow> value \<Rightarrow> u64 \<Rightarrow> nat \<Rightarrow> (value \<times> vm) outcome" where
  "new_test_subclass vm superclass format nslots =
     rbind (make_class_object vm 0 format nslots (nil vm)) (\<lambda>(c, vm1).
     rbind (register_class (vset_slot_raw vm1 (as_ptr c) BEHAVIOR_SUPERCLASS superclass) c) (\<lambda>(idx, vm2).
       Ok (c, vm2)))"

definition new_test_class :: "vm \<Rightarrow> u64 \<Rightarrow> nat \<Rightarrow> (value \<times> vm) outcome" where
  "new_test_class vm format nslots =
     rbind (class_table_at vm CLASS_OBJECT) (\<lambda>super. new_test_subclass vm super format nslots)"

definition allocated_value :: "vm \<Rightarrow> (nat \<times> heap) option \<Rightarrow> (value \<times> vm) outcome" where
  "allocated_value vm res =
     (case res of
        None \<Rightarrow> Err OutOfMemory
      | Some (a, h) \<Rightarrow> rbind (from_ptr_checked a) (\<lambda>v. Ok (v, vm\<lparr>vm_heap := h\<rparr>)))"

definition instance_class_index :: "vm \<Rightarrow> value \<Rightarrow> u32" where
  "instance_class_index vm cls = word_of_int (as_int (vslot vm (as_ptr cls) BEHAVIOR_CLASS_INDEX))"

definition make_instance :: "vm \<Rightarrow> value \<Rightarrow> (value \<times> vm) outcome" where
  "make_instance vm cls =
     (let (format, nslots) = class_format_and_slots vm cls
      in if format = FMT_FIXED
         then allocated_value vm (alloc_fixed (vm_heap vm) (instance_class_index vm cls) nslots (nil vm))
         else fatal ''make_instance on non-fixed class; use make_instance_sized'')"

definition make_instance_sized :: "vm \<Rightarrow> value \<Rightarrow> nat \<Rightarrow> (value \<times> vm) outcome" where
  "make_instance_sized vm cls n =
     (let format = fst (class_format_and_slots vm cls); idx = instance_class_index vm cls
      in if format = FMT_PTRS then allocated_value vm (alloc_ptrs (vm_heap vm) idx n (nil vm))
         else if FMT_BYTES_BASE \<le> format then allocated_value vm (alloc_bytes (vm_heap vm) idx n)
         else fatal ''make_instance_sized on fixed-format class'')"

definition make_array :: "vm \<Rightarrow> value list \<Rightarrow> (value \<times> vm) outcome" where
  "make_array vm items =
     rbind (allocated_value vm (alloc_ptrs (vm_heap vm) CLASS_ARRAY (length items) (nil vm))) (\<lambda>(v, vm1).
       Ok (v, fold (\<lambda>(i, x) vm. vset_slot_raw vm (as_ptr v) i x) (enumerate 0 items) vm1))"

definition make_string :: "vm \<Rightarrow> u8 list \<Rightarrow> (value \<times> vm) outcome" where
  "make_string vm bs =
     rbind (allocated_value vm (alloc_bytes (vm_heap vm) CLASS_BYTESTRING (length bs))) (\<lambda>(v, vm1).
       Ok (v, vm1\<lparr>vm_heap := write_bytes (vm_heap vm1) (as_ptr v) bs\<rparr>))"

subsection \<open>Processes\<close>

definition alloc_api :: "vm \<Rightarrow> u32 \<Rightarrow> u64 \<Rightarrow> nat \<Rightarrow> (nat \<times> vm) outcome" where
  "alloc_api vm cls format n =
     (let attempt = attempt_alloc (nil vm) cls format n
      in case attempt (vm_heap vm) of
           Some (a, h) \<Rightarrow> Ok (a, vm\<lparr>vm_heap := h\<rparr>)
         | None \<Rightarrow>
             rbind (collect_young vm) (\<lambda>vm1.
             case attempt (vm_heap vm1) of
               Some (a, h) \<Rightarrow> Ok (a, vm1\<lparr>vm_heap := h\<rparr>)
             | None \<Rightarrow>
                 rbind (collect_old vm1) (\<lambda>vm2.
                 case attempt (vm_heap vm2) of
                   Some (a, h) \<Rightarrow> Ok (a, vm2\<lparr>vm_heap := h\<rparr>)
                 | None \<Rightarrow> Err OutOfMemory)))"

text \<open>The process and its stack are linked, and the first frame is poised to run the method.\<close>

definition fill_process :: "vm \<Rightarrow> nat \<Rightarrow> nat \<Rightarrow> value \<Rightarrow> value \<Rightarrow> value list \<Rightarrow> vm outcome" where
  "fill_process vm pa sa meth receiver args =
     rbind (from_ptr_checked pa) (\<lambda>process.
     rbind (from_ptr_checked sa) (\<lambda>stack.
     let f = STACK_FRAMES_BASE;
         vm1 = store_slot vm sa STACK_OWNER process;
         vm2 = store_slot vm1 pa PROCESS_STACK stack;
         vm3 = vset_slot_raw vm2 pa PROCESS_FRAME_OFFSET (from_int (int STACK_FRAMES_BASE));
         vm4 = vset_slot_raw vm3 pa PROCESS_PC (from_int 0);
         vm5 = vset_slot_raw vm4 pa PROCESS_PRIORITY (from_int 4);
         vm6 = vset_slot_raw vm5 pa PROCESS_SERIAL_COUNTER (from_int 1);
         vm7 = vset_slot_raw vm6 sa (f + FRAME_CALLER) (from_int 0);
         vm8 = vset_slot_raw vm7 sa (f + FRAME_RETINFO) (from_int 0);
         vm9 = store_slot vm8 sa (f + FRAME_METHOD) meth;
         vm10 = vset_slot_raw vm9 sa (f + FRAME_FLAGS) (from_int (push_bit SERIAL_SHIFT 1));
         vm11 = store_slot vm10 sa (f + FRAME_RECEIVER) receiver
     in Ok (fold (\<lambda>(i, a) vm. store_slot vm sa (f + FRAME_RECEIVER + 1 + i) a) (enumerate 0 args) vm11)))"

definition spawn_process :: "vm \<Rightarrow> value \<Rightarrow> value \<Rightarrow> value list \<Rightarrow> (value \<times> vm) outcome" where
  "spawn_process vm meth receiver args =
     (let fs = method_frame_slots vm meth;
          stack_slots = INITIAL_STACK_BYTES div 8;
          base = length (temp_roots vm)
      in if method_argc vm meth \<noteq> length args \<or> stack_slots < STACK_FRAMES_BASE + FRAME_RECEIVER + fs
         then Panic
         else
           let vm0 = vm\<lparr>temp_roots := temp_roots vm @ [meth, receiver] @ args\<rparr>
           in rbind (alloc_api vm0 CLASS_PROCESS FMT_FIXED PROCESS_NUM_VM_SLOTS) (\<lambda>(pa0, vm1).
              rbind (from_ptr_checked pa0) (\<lambda>pv.
              rbind (alloc_api (push_root vm1 pv) CLASS_STACK FMT_PTRS stack_slots) (\<lambda>(sa, vm2).
              rbind (pop_root vm2) (\<lambda>(process, vm3).
              let rooted = drop base (temp_roots vm3);
                  vm4 = vm3\<lparr>temp_roots := take base (temp_roots vm3)\<rparr>
              in if length rooted < 2 then Panic
                 else rbind (fill_process vm4 (as_ptr process) sa (rooted ! 0) (rooted ! 1) (drop 2 rooted))
                        (\<lambda>vm5. Ok (process, vm5)))))))"

definition call ::
  "(nat \<Rightarrow> prim_fn) \<Rightarrow> (nat \<Rightarrow> env) \<Rightarrow> nat \<Rightarrow> vm \<Rightarrow> value \<Rightarrow> value \<Rightarrow> value list \<Rightarrow> (value \<times> vm) outcome" where
  "call P envs fuel vm meth receiver args =
     rbind (spawn_process vm meth receiver args) (\<lambda>(p, vm1). run P envs fuel vm1 p)"

end
