(* ===== verification/Method_Builder.thy ===== *)
theory Method_Builder
  imports Old_Objects Bootstrap Bytecode
begin

section \<open>Methods built by hand\<close>

text \<open>
  src/fixture.rs: a builder collects instructions, literals and send sites and lays them out in old
  space as a CompiledMethod or a CompiledBlock. The theorem is that what the interpreter then fetches
  and decodes is what was given to the builder.
\<close>

record site_spec =
  ss_selector :: "value"
  ss_argc :: u8
  ss_static_class :: "value"

record method_builder =
  mb_argc :: u8
  mb_frame_slots :: u8
  mb_insns :: "insn list"
  mb_literals :: "value list"
  mb_sites :: "site_spec list"
  mb_primitive :: "u16 option"
  mb_handler_slot_base :: u8
  mb_mh_flags :: u64

definition new_builder :: "u8 \<Rightarrow> u8 \<Rightarrow> method_builder outcome" where
  "new_builder argc frame_slots =
     (if 1 + unat argc \<le> unat frame_slots
      then Ok \<lparr>mb_argc = argc, mb_frame_slots = frame_slots, mb_insns = [], mb_literals = [], mb_sites = [],
               mb_primitive = None, mb_handler_slot_base = 0, mb_mh_flags = 0\<rparr>
      else Panic)"

definition with_insns :: "insn list \<Rightarrow> method_builder \<Rightarrow> method_builder" where
  "with_insns is b = b\<lparr>mb_insns := is\<rparr>"

definition with_literals :: "value list \<Rightarrow> method_builder \<Rightarrow> method_builder" where
  "with_literals lits b = b\<lparr>mb_literals := lits\<rparr>"

definition add_lit :: "value \<Rightarrow> method_builder \<Rightarrow> method_builder" where
  "add_lit v b = b\<lparr>mb_literals := mb_literals b @ [v]\<rparr>"

definition super_site :: "value \<Rightarrow> u8 \<Rightarrow> value \<Rightarrow> method_builder \<Rightarrow> method_builder" where
  "super_site sel argc cls b =
     b\<lparr>mb_sites := mb_sites b @ [\<lparr>ss_selector = sel, ss_argc = argc, ss_static_class = cls\<rparr>]\<rparr>"

definition add_site :: "value \<Rightarrow> u8 \<Rightarrow> method_builder \<Rightarrow> method_builder" where
  "add_site sel argc b =
     b\<lparr>mb_sites := mb_sites b @ [\<lparr>ss_selector = sel, ss_argc = argc, ss_static_class = 0\<rparr>]\<rparr>"

definition site_named :: "vm \<Rightarrow> string \<Rightarrow> u8 \<Rightarrow> method_builder \<Rightarrow> (method_builder \<times> vm) outcome" where
  "site_named vm name argc b = rbind (intern vm name) (\<lambda>(sel, vm1). Ok (add_site sel argc b, vm1))"

definition super_site_named ::
  "vm \<Rightarrow> string \<Rightarrow> u8 \<Rightarrow> value \<Rightarrow> method_builder \<Rightarrow> (method_builder \<times> vm) outcome" where
  "super_site_named vm name argc cls b =
     rbind (intern vm name) (\<lambda>(sel, vm1). Ok (super_site sel argc cls b, vm1))"

definition with_primitive :: "u16 \<Rightarrow> method_builder \<Rightarrow> method_builder" where
  "with_primitive n b = b\<lparr>mb_primitive := Some n\<rparr>"

definition with_handler_slot_base :: "u8 \<Rightarrow> method_builder \<Rightarrow> method_builder" where
  "with_handler_slot_base base b = b\<lparr>mb_handler_slot_base := base\<rparr>"

definition with_mh_flags :: "u64 \<Rightarrow> method_builder \<Rightarrow> method_builder" where
  "with_mh_flags flags b = b\<lparr>mb_mh_flags := flags\<rparr>"

subsection \<open>Laying the parts out\<close>

definition body_insns :: "method_builder \<Rightarrow> insn list" where
  "body_insns b = (case mb_primitive b of None \<Rightarrow> mb_insns b | Some n \<Rightarrow> Prim n # mb_insns b)"

definition insn_bytes :: "insn \<Rightarrow> u8 list" where
  "insn_bytes x = map (\<lambda>j. ucast (drop_bit (8 * j) (encode x))) [0..<4]"

fun write_code :: "heap \<Rightarrow> nat \<Rightarrow> nat \<Rightarrow> insn list \<Rightarrow> heap" where
  "write_code h code i [] = h"
| "write_code h code i (x # xs) =
     write_code (write_bytes_from h code (i * 4) (insn_bytes x)) code (i + 1) xs"

definition site_static_class :: "value \<Rightarrow> site_spec \<Rightarrow> value" where
  "site_static_class nilv s = (if ss_static_class s = 0 then nilv else ss_static_class s)"

definition write_site :: "vm \<Rightarrow> nat \<Rightarrow> nat \<Rightarrow> value \<Rightarrow> site_spec \<Rightarrow> vm" where
  "write_site vm sites i nilv s =
     (let base = i * SITE_STRIDE;
          vm1 = vset_slot_raw vm sites (base + SITE_SELECTOR) (ss_selector s);
          vm2 = vset_slot_raw vm1 sites (base + SITE_ARGC) (from_int (uint (ss_argc s)));
          vm3 = vset_slot_raw vm2 sites (base + SITE_CACHE_CLASS) (from_int 0);
          vm4 = vset_slot_raw vm3 sites (base + SITE_CACHE_METHOD) nilv
      in vset_slot_raw vm4 sites (base + SITE_STATIC_CLASS) (site_static_class nilv s))"

fun write_sites :: "vm \<Rightarrow> nat \<Rightarrow> nat \<Rightarrow> value \<Rightarrow> site_spec list \<Rightarrow> vm" where
  "write_sites vm sites i nilv [] = vm"
| "write_sites vm sites i nilv (s # ss) = write_sites (write_site vm sites i nilv s) sites (i + 1) nilv ss"

definition vset_immutable :: "vm \<Rightarrow> nat \<Rightarrow> vm" where
  "vset_immutable vm x = vm\<lparr>vm_heap := set_immutable (vm_heap vm) x\<rparr>"

definition build_parts :: "method_builder \<Rightarrow> vm \<Rightarrow> ((nat \<times> nat \<times> nat) \<times> vm) outcome" where
  "build_parts b vm =
     (let nilv = nil vm; is = body_insns b
      in if \<not> (length is \<le> MAX_METHOD_INSTRUCTIONS \<and> length (mb_literals b) \<le> MAX_LITERALS
               \<and> length (mb_sites b) \<le> MAX_SEND_SITES) then Panic
         else
           rbind (expect_old vm (\<lambda>h. alloc_bytes_old h CLASS_BYTEARRAY (length is * 4))) (\<lambda>(code, vm1).
           let vm2 = vset_immutable (vm1\<lparr>vm_heap := write_code (vm_heap vm1) code 0 is\<rparr>) code
           in rbind (expect_old vm2 (\<lambda>h. alloc_ptrs_old h CLASS_ARRAY (length (mb_literals b)) nilv)) (\<lambda>(lits, vm3).
              let vm4 = vset_immutable (store_run vm3 lits 0 (mb_literals b)) lits
              in rbind (expect_old vm4 (\<lambda>h. alloc_ptrs_old h CLASS_ARRAY (length (mb_sites b) * SITE_STRIDE) nilv))
                   (\<lambda>(sites, vm5).
                 let vm6 = write_sites vm5 sites 0 nilv (mb_sites b)
                 in rbind (from_ptr_checked sites) (\<lambda>sv.
                    Ok ((code, lits, sites), vm6\<lparr>site_registry := site_registry vm6 @ [sv]\<rparr>))))))"

definition builder_header :: "method_builder \<Rightarrow> int outcome" where
  "builder_header b =
     pack_method_header (unat (mb_frame_slots b)) (unat (mb_argc b)) (mb_primitive b)
       (unat (mb_handler_slot_base b)) (mb_mh_flags b)"

definition build :: "method_builder \<Rightarrow> vm \<Rightarrow> (value \<times> vm) outcome" where
  "build b vm =
     rbind (build_parts b vm) (\<lambda>((code, lits, sites), vm1).
     rbind (builder_header b) (\<lambda>hdr.
     rbind (expect_old vm1 (\<lambda>h. alloc_fixed_old h CLASS_COMPILEDMETHOD METHOD_NUM_SLOTS (nil vm))) (\<lambda>(m, vm2).
     let vm3 = vset_slot_raw vm2 m METHOD_HEADER (from_int hdr)
     in rbind (from_ptr_checked code) (\<lambda>cv. rbind (from_ptr_checked lits) (\<lambda>lv.
        rbind (from_ptr_checked sites) (\<lambda>sv. rbind (from_ptr_checked m) (\<lambda>mv.
        let vm4 = vset_slot_raw vm3 m METHOD_BYTECODES cv;
            vm5 = vset_slot_raw vm4 m METHOD_LITERALS lv
        in Ok (mv, vset_slot_raw vm5 m METHOD_SEND_SITES sv))))))))"

definition block_info :: "u8 \<Rightarrow> bool \<Rightarrow> int" where
  "block_info num_captured has_nlr = uint num_captured OR push_bit BI_HAS_NLR_SHIFT (of_bool has_nlr)"

definition build_block ::
  "method_builder \<Rightarrow> vm \<Rightarrow> value \<Rightarrow> u8 \<Rightarrow> bool \<Rightarrow> (value \<times> vm) outcome" where
  "build_block b vm outer num_captured has_nlr =
     rbind (build_parts b vm) (\<lambda>((code, lits, sites), vm1).
     rbind (builder_header b) (\<lambda>hdr.
     rbind (expect_old vm1 (\<lambda>h. alloc_fixed_old h CLASS_COMPILEDBLOCK BLOCK_NUM_SLOTS (nil vm))) (\<lambda>(m, vm2).
     let vm3 = vset_slot_raw vm2 m BLOCK_HEADER (from_int hdr)
     in rbind (from_ptr_checked code) (\<lambda>cv. rbind (from_ptr_checked lits) (\<lambda>lv.
        rbind (from_ptr_checked sites) (\<lambda>sv. rbind (from_ptr_checked m) (\<lambda>mv.
        let vm4 = vset_slot_raw vm3 m BLOCK_BYTECODES cv;
            vm5 = vset_slot_raw vm4 m BLOCK_LITERALS lv;
            vm6 = vset_slot_raw vm5 m BLOCK_SEND_SITES sv;
            vm7 = vset_slot_raw vm6 m BLOCK_OUTER_METHOD outer
        in Ok (mv, vset_slot_raw vm7 m BLOCK_INFO (from_int (block_info num_captured has_nlr))))))))))"

subsection \<open>Code is read back as it was written\<close>

lemma code_index: "j < (4 :: nat) \<Longrightarrow> (i * 4 + j) div 8 = i div 2" "j < 4 \<Longrightarrow> (i * 4 + j) mod 8 = 4 * (i mod 2) + j"
proof -
  have i: "i * 4 + j = (4 * (i mod 2) + j) + (i div 2) * 8" using div_mult_mod_eq [of i 2] by linarith
  assume "j < 4"
  then have "4 * (i mod 2) + j < 8" by linarith
  then show "(i * 4 + j) div 8 = i div 2" and "(i * 4 + j) mod 8 = 4 * (i mod 2) + j"
    by (simp_all only: i div_mult_self1 mod_mult_self1 div_less mod_less)
qed

lemma insn_at_of_bytes:
  assumes "\<And>j. j < 4 \<Longrightarrow> byte h x (i * 4 + j) = ucast (drop_bit (8 * j) w)"
  shows "insn_at h x i = w"
proof (rule bit_word_eqI)
  fix n assume n: "n < LENGTH(32)"
  let ?j = "n div 8" and ?k = "n mod 8"
  have j: "?j < 4" and k: "?k < 8" and e: "8 * ?j + ?k = n" using n by auto
  have d: "(i * 4 + ?j) div 8 = i div 2" "(i * 4 + ?j) mod 8 = 4 * (i mod 2) + ?j" using code_index [OF j] by simp_all
  have "bit (insn_at h x i) n \<longleftrightarrow> bit (heap_word h (x + 8 + 8 * (i div 2))) (32 * (i mod 2) + n)"
    using n by (simp add: insn_at_def bit_ucast_iff bit_drop_bit_eq)
  also have "\<dots> \<longleftrightarrow> bit (byte h x (i * 4 + ?j)) ?k"
    unfolding byte_def d bit_byte_of [OF k] using e by (simp add: algebra_simps)
  also have "\<dots> \<longleftrightarrow> bit w n"
    using k e n by (simp add: assms [OF j] bit_ucast_iff bit_drop_bit_eq)
  finally show "bit (insn_at h x i) n \<longleftrightarrow> bit w n" .
qed

lemma length_insn_bytes [simp]: "length (insn_bytes x) = 4"
  by (simp add: insn_bytes_def)

lemma write_code_bytes:
  "write_code h x i is = write_bytes_from h x (i * 4) (concat (map insn_bytes is))"
proof -
  have a: "write_bytes_from h x k (bs @ cs) = write_bytes_from (write_bytes_from h x k bs) x (k + length bs) cs"
    for h k bs cs by (induction bs arbitrary: h k) simp_all
  show ?thesis by (induction "is" arbitrary: h i) (simp_all add: a add.commute)
qed

lemma length_code: "length (concat (map insn_bytes is)) = length is * 4"
  by (induction "is") simp_all

lemma code_nth:
  "i < length is \<Longrightarrow> j < 4 \<Longrightarrow> concat (map insn_bytes is) ! (i * 4 + j) = ucast (drop_bit (8 * j) (encode (is ! i)))"
proof (induction "is" arbitrary: i)
  case (Cons x xs)
  show ?case
  proof (cases i)
    case 0
    then show ?thesis using Cons.prems by (simp add: nth_append) (simp add: insn_bytes_def)
  next
    case (Suc k)
    then show ?thesis using Cons by (simp add: nth_append)
  qed
qed simp

definition holds_code :: "insn list \<Rightarrow> heap \<Rightarrow> nat \<Rightarrow> bool" where
  "holds_code is h x \<longleftrightarrow> (\<forall>i < length is. decode (insn_at h x i) = Some (is ! i))"

lemma holds_code_bytes:
  assumes "\<forall>j < length is * 4. byte h x j = concat (map insn_bytes is) ! j"
  shows "holds_code is h x"
proof -
  have "insn_at h x i = encode (is ! i)" if "i < length is" for i
    using assms code_nth [OF that] that by (intro insn_at_of_bytes) (simp add: )
  then show ?thesis by (simp add: holds_code_def decode_encode_eq)
qed

subsection \<open>Where the parts are\<close>

definition contents :: "heap \<Rightarrow> nat \<Rightarrow> value list \<Rightarrow> bool" where
  "contents h x vs \<longleftrightarrow> x \<in> live h \<and> unat (num_slots h x) = length vs \<and> (\<forall>i < length vs. slot h x i = vs ! i)"

definition code_object :: "heap \<Rightarrow> nat \<Rightarrow> insn list \<Rightarrow> bool" where
  "code_object h x is \<longleftrightarrow> x \<in> live h \<and> unat (num_slots h x) = (length is * 4 + 7) div 8
     \<and> is_immutable h x \<and> holds_code is h x"

lemma contents_kept: "contents h x vs \<Longrightarrow> kept A h h' \<Longrightarrow> x \<notin> A \<Longrightarrow> contents h' x vs"
  using kept_content [of A h h' x] kept_live [of A h h' x] by (auto simp: contents_def same_content_def)

lemma code_object_kept:
  assumes "code_object h x is" and "kept A h h'" and "x \<notin> A"
  shows "code_object h' x is"
proof -
  have s: "same_content h h' x" using assms kept_content by (simp add: code_object_def)
  have "insn_at h' x i = insn_at h x i" if "i < length is" for i
  proof -
    have "i div 2 < unat (num_slots h x)" using assms(1) that unfolding code_object_def by linarith
    then have "slot h' x (i div 2) = slot h x (i div 2)" using s by (simp add: same_content_def)
    then show ?thesis by (simp add: insn_at_def slot_def mult.commute)
  qed
  then show ?thesis
    using assms(1) s kept_live [OF assms(2)] by (simp add: code_object_def holds_code_def same_content_def is_immutable_def)
qed

lemma immutable_kept: "is_immutable h x \<Longrightarrow> x \<in> live h \<Longrightarrow> kept A h h' \<Longrightarrow> x \<notin> A \<Longrightarrow> is_immutable h' x"
  using kept_content [of A h h' x] by (simp add: same_content_def is_immutable_def)

lemma contents_run:
  assumes n: "new_old h x h1 c f (length vs) v" and r: "run_written x 0 vs h1 h2"
  shows "contents h2 x vs" and "kept {} h h2" and "live h2 = insert x (live h)" and "aligned x"
    and "x \<notin> live h" and "old_room h2 = old_room h - obj_words (length vs)"
proof -
  have f: "fills x h1 h2" using r by (simp add: run_written_def)
  show "contents h2 x vs" using n f r by (auto simp: contents_def new_old_def fills_def run_written_def)
  show "kept {} h h2"
    by (rule kept_trans [of _ _ h1 "{x}"]) (use n f in \<open>auto simp: new_old_def fills_def\<close>)
  show "live h2 = insert x (live h)" "aligned x" "x \<notin> live h" "old_room h2 = old_room h - obj_words (length vs)"
    using n f by (auto simp: new_old_def fills_def old_room_def)
qed

lemma contents_immutable:
  assumes "contents h x vs" and "heap_ok h"
  shows "contents (set_immutable h x) x vs"
  using set_immutable_other [OF assms(2), of x x] assms(1) by (simp add: contents_def)

lemma insn_at_slots:
  assumes "\<And>i. i < n \<Longrightarrow> slot h' x i = slot h x i" and "i div 2 < n"
  shows "insn_at h' x i = insn_at h x i"
  using assms(1) [OF assms(2)] by (simp add: insn_at_def slot_def mult.commute)

lemma new_code:
  assumes ok: "heap_ok h" and r: "obj_words ((length is * 4 + 7) div 8) \<le> old_room h"
  obtains x h1 where "alloc_bytes_old h CLASS_BYTEARRAY (length is * 4) = Some (x, h1)"
    and "code_object (set_immutable (write_code h1 x 0 is) x) x is"
    and "kept {} h (set_immutable (write_code h1 x 0 is) x)"
    and "live (set_immutable (write_code h1 x 0 is) x) = insert x (live h)" and "x \<notin> live h" and "aligned x"
    and "old_room (set_immutable (write_code h1 x 0 is) x) = old_room h - obj_words ((length is * 4 + 7) div 8)"
proof -
  have c: "class_ok CLASS_BYTEARRAY" by (simp add: class_ok_def hmask_def)
  obtain x h1 where a: "alloc_bytes_old h CLASS_BYTEARRAY (length is * 4) = Some (x, h1)"
    and n: "new_old h x h1 CLASS_BYTEARRAY (bytes_fmt (length is * 4)) ((length is * 4 + 7) div 8) 0"
    by (rule alloc_bytes_old_new [OF ok c r])
  note fb = allocated_bytes [OF bytes_old_alloc.contract(2) [OF ok c a]]
  let ?bs = "concat (map insn_bytes is)"
  let ?h2 = "write_bytes_from h1 x 0 ?bs"
  have x1: "x \<in> live h1" and ok1: "heap_ok h1" using n by (auto simp: new_old_def kept_def)
  have len: "0 + length ?bs \<le> byte_size h1 x" using fb(2) by (simp add: length_code)
  note w = write_bytes_from_ok [OF ok1 x1 len] and f = fills_write_bytes [OF ok1 x1 len]
  have hc: "holds_code is ?h2 x" by (rule holds_code_bytes) (use w length_code in simp)
  have ok2: "heap_ok ?h2" and x2: "x \<in> live ?h2" using w x1 by auto
  note im = set_immutable_other [OF ok2 x2 x2] and k = kept_set_immutable [OF ok2 x2]
  have ns: "unat (num_slots ?h2 x) = (length is * 4 + 7) div 8" using f n by (simp add: fills_def new_old_def)
  have "holds_code is (set_immutable ?h2 x) x"
    unfolding holds_code_def
  proof (intro allI impI)
    fix i assume i: "i < length is"
    then have "i div 2 < (length is * 4 + 7) div 8" by linarith
    from insn_at_slots [OF im(2) this [folded ns]] hc i
    show "decode (insn_at (set_immutable ?h2 x) x i) = Some (is ! i)" by (simp add: holds_code_def)
  qed
  then have co: "code_object (set_immutable ?h2 x) x is"
    using im(1) ns k(3) x2 set_immutable_self(1) [OF ok2 x2] by (simp add: code_object_def)
  have "kept {x} h1 (set_immutable ?h2 x)"
    by (rule kept_trans [OF fills_kept [OF f] k(1)]) simp
  then have "kept {} h (set_immutable ?h2 x)"
    by (rule kept_trans [rotated]) (use n in \<open>auto simp: new_old_def\<close>)
  moreover have "live (set_immutable ?h2 x) = insert x (live h)" "x \<notin> live h" "aligned x"
    "old_room (set_immutable ?h2 x) = old_room h - obj_words ((length is * 4 + 7) div 8)"
    using n k f by (auto simp: new_old_def fills_def old_room_def)
  ultimately show ?thesis using that [OF a] co by (simp add: write_code_bytes)
qed

subsection \<open>The parts of a built method\<close>

definition site_words :: "value \<Rightarrow> site_spec \<Rightarrow> value list" where
  "site_words nilv s =
     [ss_selector s, from_int (uint (ss_argc s)), from_int 0, nilv, site_static_class nilv s]"

lemma write_sites_run: "write_sites vm x i nilv ss = set_run vm x (i * 5) (concat (map (site_words nilv) ss))"
proof (induction ss arbitrary: vm i)
  case (Cons s ss)
  have "write_site vm x i nilv s = set_run vm x (i * 5) (site_words nilv s)"
    by (simp add: write_site_def site_words_def Let_def add.commute numeral_eq_Suc)
  moreover have "length (site_words nilv s) = 5" by (simp add: site_words_def)
  ultimately show ?case using Cons.IH [of "write_site vm x i nilv s" "i + 1"]
    by (simp add: set_run_append add.commute)
qed simp

lemma length_sites: "length (concat (map (site_words nilv) ss)) = length ss * 5"
  by (induction ss) (simp_all add: site_words_def)

lemma site_nth:
  "i < length ss \<Longrightarrow> k < 5 \<Longrightarrow> concat (map (site_words nilv) ss) ! (i * 5 + k) = site_words nilv (ss ! i) ! k"
proof (induction ss arbitrary: i)
  case (Cons s ss)
  then show ?case by (cases i) (simp_all add: nth_append, simp_all add: site_words_def)
qed simp

text \<open>What the asserts of the builder ask for, and the words it takes.\<close>

definition builder_ok :: "method_builder \<Rightarrow> bool" where
  "builder_ok b \<longleftrightarrow> length (body_insns b) \<le> MAX_METHOD_INSTRUCTIONS \<and> length (mb_literals b) \<le> MAX_LITERALS
     \<and> length (mb_sites b) \<le> MAX_SEND_SITES \<and> unat (mb_argc b) \<le> 15 \<and> mb_mh_flags b < 2 ^ 28
     \<and> (\<forall>n. mb_primitive b = Some n \<longrightarrow> unat n < PRIM_TABLE_SIZE)"

definition parts_words :: "method_builder \<Rightarrow> nat" where
  "parts_words b = obj_words ((length (body_insns b) * 4 + 7) div 8) + obj_words (length (mb_literals b))
     + obj_words (length (mb_sites b) * SITE_STRIDE)"

definition parts_hold :: "method_builder \<Rightarrow> value \<Rightarrow> heap \<Rightarrow> nat \<Rightarrow> nat \<Rightarrow> nat \<Rightarrow> bool" where
  "parts_hold b nilv h code lits sites \<longleftrightarrow> code_object h code (body_insns b)
     \<and> contents h lits (mb_literals b) \<and> is_immutable h lits \<and> contents h sites (concat (map (site_words nilv) (mb_sites b)))"

lemma expect_old_Some: "alloc (vm_heap vm) = Some (x, h) \<Longrightarrow> expect_old vm alloc = Ok (x, vm\<lparr>vm_heap := h\<rparr>)"
  by (simp add: expect_old_def)

lemma heap_differs_vm: "heap_differs vm vm' \<Longrightarrow> vm' = vm\<lparr>vm_heap := vm_heap vm'\<rparr>"
  by (auto simp: heap_differs_def)

lemma build_parts_ok:
  assumes ok: "heap_ok (vm_heap vm)" and b: "builder_ok b" and r: "parts_words b \<le> old_room (vm_heap vm)"
  obtains code lits sites h where
    "build_parts b vm = Ok ((code, lits, sites), vm\<lparr>vm_heap := h, site_registry := site_registry vm @ [from_ptr sites]\<rparr>)"
    and "kept {} (vm_heap vm) h" and "live h = live (vm_heap vm) \<union> {code, lits, sites}"
    and "parts_hold b (nil vm) h code lits sites" and "aligned code" "aligned lits" "aligned sites"
    and "old_room h = old_room (vm_heap vm) - parts_words b"
proof -
  let ?h = "vm_heap vm" and ?is = "body_insns b" and ?sw = "concat (map (site_words (nil vm)) (mb_sites b))"
  have c: "class_ok CLASS_ARRAY" by (simp add: class_ok_def hmask_def)
  obtain code h1 where a1: "alloc_bytes_old ?h CLASS_BYTEARRAY (length ?is * 4) = Some (code, h1)"
    and p1: "code_object (set_immutable (write_code h1 code 0 ?is) code) code ?is"
      "kept {} ?h (set_immutable (write_code h1 code 0 ?is) code)"
      "live (set_immutable (write_code h1 code 0 ?is) code) = insert code (live ?h)" "code \<notin> live ?h" "aligned code"
      "old_room (set_immutable (write_code h1 code 0 ?is) code) = old_room ?h - obj_words ((length ?is * 4 + 7) div 8)"
    by (rule new_code [OF ok, of ?is]) (use r in \<open>simp_all add: parts_words_def\<close>)
  let ?h2 = "set_immutable (write_code h1 code 0 ?is) code"
  have ok2: "heap_ok ?h2" using p1(2) by (simp add: kept_def)
  have rooms: "obj_words (length (mb_literals b)) \<le> old_room ?h2"
    "obj_words (length (mb_sites b) * 5) \<le> old_room ?h2 - obj_words (length (mb_literals b))"
    using r p1(6) by (simp_all add: parts_words_def)
  obtain lits h3 where a2: "alloc_ptrs_old ?h2 CLASS_ARRAY (length (mb_literals b)) (nil vm) = Some (lits, h3)"
    and n2: "new_old ?h2 lits h3 CLASS_ARRAY FMT_PTRS (length (mb_literals b)) (nil vm)"
    by (rule alloc_ptrs_old_new [OF ok2 c]) (rule rooms(1))
  obtain g4 where vm4: "store_run (vm\<lparr>vm_heap := h3\<rparr>) lits 0 (mb_literals b) = vm\<lparr>vm_heap := g4\<rparr>"
    using run_heap_only(1) [of "vm\<lparr>vm_heap := h3\<rparr>" lits 0 "mb_literals b"] by (auto simp: heap_differs_def)
  have r2: "run_written lits 0 (mb_literals b) h3 g4"
    using store_run_written [of "vm\<lparr>vm_heap := h3\<rparr>" lits 0 "mb_literals b"] n2
    by (simp add: vm4) (auto simp: new_old_def kept_def)
  note p2 = contents_run [OF n2 r2]
  have ok4: "heap_ok g4" and l4: "lits \<in> live g4" using p2 by (auto simp: kept_def)
  let ?h5 = "set_immutable g4 lits"
  note i5 = kept_set_immutable [OF ok4 l4]
  have k5: "kept {} ?h2 ?h5" by (rule kept_trans [OF p2(2) i5(1)]) (use p2(5) in simp)
  have ok5: "heap_ok ?h5" using k5 by (simp add: kept_def)
  have room5: "old_room ?h5 = old_room ?h2 - obj_words (length (mb_literals b))"
    using i5(2) p2(6) by (simp add: old_room_def)
  obtain sites h6 where
    a3: "alloc_ptrs_old ?h5 CLASS_ARRAY (length (mb_sites b) * 5) (nil vm) = Some (sites, h6)"
    and n3: "new_old ?h5 sites h6 CLASS_ARRAY FMT_PTRS (length ?sw) (nil vm)"
    by (rule alloc_ptrs_old_new [OF ok5 c, of "length (mb_sites b) * 5" "nil vm"])
       (use rooms(2) room5 length_sites [of "nil vm" "mb_sites b"] in simp_all)
  obtain g7 where vm7: "write_sites (vm\<lparr>vm_heap := h6\<rparr>) sites 0 (nil vm) (mb_sites b) = vm\<lparr>vm_heap := g7\<rparr>"
    using run_heap_only(2) [of "vm\<lparr>vm_heap := h6\<rparr>" sites 0 ?sw]
    by (auto simp: heap_differs_def write_sites_run)
  have r3: "run_written sites 0 ?sw h6 g7"
    using set_run_written [of "vm\<lparr>vm_heap := h6\<rparr>" sites 0 ?sw] n3 vm7
    by (simp add: write_sites_run) (auto simp: new_old_def kept_def)
  note p3 = contents_run [OF n3 r3]
  have k2: "kept {} ?h2 g7" by (rule kept_trans [OF k5 p3(2)]) simp
  have k: "kept {} ?h g7" by (rule kept_trans [OF p1(2) k2]) simp
  have lits5: "contents ?h5 lits (mb_literals b)" by (rule contents_immutable [OF p2(1) ok4])
  have hold: "parts_hold b (nil vm) g7 code lits sites"
    using code_object_kept [OF p1(1) k2] contents_kept [OF lits5 p3(2)] p3(1) lits5
      immutable_kept [OF set_immutable_self(1) [OF ok4 l4] _ p3(2)] by (simp add: parts_hold_def contents_def)
  have lv: "live g7 = live ?h \<union> {code, lits, sites}" using p3(3) i5(3) p2(3) p1(3) by auto
  have room: "old_room g7 = old_room ?h - parts_words b"
    using p3(6) room5 p1(6) by (simp add: parts_words_def length_sites)
  have "build_parts b vm = Ok ((code, lits, sites), vm\<lparr>vm_heap := g7, site_registry := site_registry vm @ [from_ptr sites]\<rparr>)"
    using b a1 a2 a3 p3(4)
    by (simp add: build_parts_def builder_ok_def expect_old_def Let_def vm4 vm7 vset_immutable_def from_ptr_checked_def)
  then show ?thesis using that k lv hold p1(5) p2(4) p3(4) room by blast
qed

subsection \<open>The built method\<close>

definition method_parts :: "vm \<Rightarrow> value \<Rightarrow> nat \<times> nat \<times> nat" where
  "method_parts vm m =
     (as_ptr (vslot vm (as_ptr m) METHOD_BYTECODES), as_ptr (vslot vm (as_ptr m) METHOD_LITERALS),
      as_ptr (vslot vm (as_ptr m) METHOD_SEND_SITES))"

lemma builder_header_Ok:
  assumes "builder_ok b"
  obtains hdr where "builder_header b = Ok hdr"
proof -
  have "unat w < 256" for w :: u8 using unsigned_less [of w] by simp
  from this [of "mb_frame_slots b"] this [of "mb_handler_slot_base b"]
  have "unat (mb_frame_slots b) \<le> 255" "unat (mb_handler_slot_base b) \<le> 255" by simp_all
  then show thesis
    using assms that by (cases "mb_primitive b") (auto simp: builder_header_def builder_ok_def pack_method_header_def)
qed

lemma live_from_ptr:
  assumes "heap_ok h" and "x \<in> live h"
  shows "as_ptr (from_ptr x) = x" and "is_ptr (from_ptr x)"
  using live_bounds [OF assms] live_aligned [OF assms] by (simp_all add: as_ptr_from_ptr is_ptr_from_ptr)

lemma site_slots:
  assumes "contents h x (concat (map (site_words nilv) ss))" and "i < length ss"
  shows "slot h x (i * SITE_STRIDE + SITE_SELECTOR) = ss_selector (ss ! i)"
    and "slot h x (i * SITE_STRIDE + SITE_ARGC) = from_int (uint (ss_argc (ss ! i)))"
    and "slot h x (i * SITE_STRIDE + SITE_CACHE_CLASS) = from_int 0"
    and "slot h x (i * SITE_STRIDE + SITE_CACHE_METHOD) = nilv"
    and "slot h x (i * SITE_STRIDE + SITE_STATIC_CLASS) = site_static_class nilv (ss ! i)"
proof -
  have "slot h x (i * 5 + k) = site_words nilv (ss ! i) ! k" if k: "k < 5" for k
  proof -
    have "i * 5 + k < length ss * 5" using assms(2) k by linarith
    then show ?thesis using assms site_nth [OF assms(2) k] by (simp add: contents_def length_sites)
  qed
  from this [of 0] this [of 1] this [of 2] this [of 3] this [of 4]
  show "slot h x (i * SITE_STRIDE + SITE_SELECTOR) = ss_selector (ss ! i)"
    and "slot h x (i * SITE_STRIDE + SITE_ARGC) = from_int (uint (ss_argc (ss ! i)))"
    and "slot h x (i * SITE_STRIDE + SITE_CACHE_CLASS) = from_int 0"
    and "slot h x (i * SITE_STRIDE + SITE_CACHE_METHOD) = nilv"
    and "slot h x (i * SITE_STRIDE + SITE_STATIC_CLASS) = site_static_class nilv (ss ! i)"
    by (simp_all add: site_words_def)
qed

lemma build_ok:
  assumes ok: "heap_ok (vm_heap vm)" and b: "builder_ok b"
    and r: "parts_words b + obj_words METHOD_NUM_SLOTS \<le> old_room (vm_heap vm)"
  obtains m vm' code lits sites hdr where "build b vm = Ok (m, vm')" and "is_ptr m" and "as_ptr m \<notin> live (vm_heap vm)"
    and "kept {} (vm_heap vm) (vm_heap vm')" and "parts_hold b (nil vm) (vm_heap vm') code lits sites"
    and "method_parts vm' m = (code, lits, sites)" and "builder_header b = Ok hdr"
    and "method_header_bits vm' m = as_int (from_int hdr)" and "site_registry vm' = site_registry vm @ [from_ptr sites]"
    and "hdr_class_index (header (vm_heap vm') (as_ptr m)) = CLASS_COMPILEDMETHOD"
    and "unat (num_slots (vm_heap vm') (as_ptr m)) = METHOD_NUM_SLOTS"
    and "\<forall>j. METHOD_SELECTOR \<le> j \<and> j < METHOD_NUM_SLOTS \<longrightarrow> slot (vm_heap vm') (as_ptr m) j = nil vm"
proof -
  let ?h = "vm_heap vm"
  obtain code lits sites h where p:
    "build_parts b vm = Ok ((code, lits, sites), vm\<lparr>vm_heap := h, site_registry := site_registry vm @ [from_ptr sites]\<rparr>)"
    "kept {} ?h h" "live h = live ?h \<union> {code, lits, sites}" "parts_hold b (nil vm) h code lits sites"
    "aligned code" "aligned lits" "aligned sites" "old_room h = old_room ?h - parts_words b"
    by (rule build_parts_ok [OF ok b]) (use r in simp_all)
  let ?vm1 = "vm\<lparr>vm_heap := h, site_registry := site_registry vm @ [from_ptr sites]\<rparr>"
  obtain hdr where hdr: "builder_header b = Ok hdr" by (rule builder_header_Ok [OF b])
  have ok1: "heap_ok h" using p(2) by (simp add: kept_def)
  have c: "class_ok CLASS_COMPILEDMETHOD" by (simp add: class_ok_def hmask_def)
  have room: "obj_words METHOD_NUM_SLOTS \<le> old_room h" using r p(8) by simp
  obtain x h1 where a: "alloc_fixed_old h CLASS_COMPILEDMETHOD METHOD_NUM_SLOTS (nil vm) = Some (x, h1)"
    and n: "new_old h x h1 CLASS_COMPILEDMETHOD FMT_FIXED METHOD_NUM_SLOTS (nil vm)"
    by (rule alloc_fixed_old_new [OF ok1 c room])
  let ?vs = "[from_int hdr, from_ptr code, from_ptr lits, from_ptr sites]"
  obtain g where vm': "set_run (?vm1\<lparr>vm_heap := h1\<rparr>) x 0 ?vs = ?vm1\<lparr>vm_heap := g\<rparr>"
    using run_heap_only(2) [of "?vm1\<lparr>vm_heap := h1\<rparr>" x 0 ?vs] by (auto simp: heap_differs_def)
  have "run_written x 0 ?vs (vm_heap (?vm1\<lparr>vm_heap := h1\<rparr>)) (vm_heap (set_run (?vm1\<lparr>vm_heap := h1\<rparr>) x 0 ?vs))"
    by (rule set_run_written) (use n in \<open>auto simp: new_old_def kept_def\<close>)
  then have w: "run_written x 0 ?vs h1 g" unfolding vm' by simp
  have f: "fills x h1 g" using w by (simp add: run_written_def)
  have k1: "kept {} h g" by (rule kept_trans [of _ _ h1 "{x}"]) (use n f in \<open>auto simp: new_old_def fills_def\<close>)
  have k: "kept {} ?h g" by (rule kept_trans [OF p(2) k1]) simp
  have okg: "heap_ok g" using k by (simp add: kept_def)
  have xl: "x \<in> live g" "x \<notin> live h" "unat (num_slots h1 x) = 7" using n f by (auto simp: new_old_def fills_def)
  have sl: "slot g x 0 = from_int hdr" "slot g x 1 = from_ptr code" "slot g x 2 = from_ptr lits" "slot g x 3 = from_ptr sites"
    using w xl(3) by (simp_all add: run_written_def numeral_eq_Suc)
  have rest: "slot g x j = nil vm" if "4 \<le> j" "j < 7" for j
    using w n that xl(3) by (simp add: run_written_def new_old_def)
  have cls: "hdr_class_index (header g x) = CLASS_COMPILEDMETHOD" "num_slots g x = num_slots h1 x"
    using f n by (auto simp: fills_def new_old_def same_header_def)
  have lv: "code \<in> live g" "lits \<in> live g" "sites \<in> live g" using p(3) k1 by (auto simp: kept_def)
  note px = live_from_ptr [OF okg xl(1)] and pc = live_from_ptr(1) [OF okg lv(1)]
    live_from_ptr(1) [OF okg lv(2)] live_from_ptr(1) [OF okg lv(3)]
  have ax: "aligned x" using n by (simp add: new_old_def)
  let ?vm' = "?vm1\<lparr>vm_heap := g\<rparr>"
  have e: "build b vm = Ok (from_ptr x, ?vm')"
    using p(1,5-7) a hdr vm' ax by (simp add: build_def expect_old_def from_ptr_checked_def Let_def nil_def numeral_eq_Suc)
  show ?thesis
  proof (rule that [OF e])
    show "is_ptr (from_ptr x)" "as_ptr (from_ptr x) \<notin> live ?h" "kept {} ?h (vm_heap ?vm')" "builder_header b = Ok hdr"
      using px xl(2) p(3) k hdr by simp_all
    show "parts_hold b (nil vm) (vm_heap ?vm') code lits sites"
      using p(4) code_object_kept [OF _ k1] contents_kept [OF _ k1] immutable_kept [OF _ _ k1, of lits]
      by (simp add: parts_hold_def) (simp add: contents_def)
    show "method_parts ?vm' (from_ptr x) = (code, lits, sites)"
      using px(1) pc sl by (simp add: method_parts_def vslot_def)
    show "method_header_bits ?vm' (from_ptr x) = as_int (from_int hdr)"
      using px(1) sl(1) by (simp add: method_header_bits_def vslot_def)
    show "site_registry ?vm' = site_registry vm @ [from_ptr sites]" by simp
    show "hdr_class_index (header (vm_heap ?vm') (as_ptr (from_ptr x))) = CLASS_COMPILEDMETHOD"
      "unat (num_slots (vm_heap ?vm') (as_ptr (from_ptr x))) = METHOD_NUM_SLOTS"
      "\<forall>j. METHOD_SELECTOR \<le> j \<and> j < METHOD_NUM_SLOTS \<longrightarrow> slot (vm_heap ?vm') (as_ptr (from_ptr x)) j = nil vm"
      using px(1) xl(3) cls rest by simp_all
  qed
qed

text \<open>
  C18. A builder within its asserted bounds, in a heap with room for it, builds a method that is the
  program it was given. Decoding the fetched words gives back the instructions, with the PRIM
  instruction first when there is a primitive; the literals are those given, and code and literals are
  immutable. Each of the five words of a send site is what the interpreter expects there: selector,
  argument count, an empty inline cache, and the class given for a super send or nil. All five fields
  of the header are those given. The method has its class and seven slots, the three unused ones nil,
  its sites are registered with the machine, and no object that existed has changed.
\<close>

theorem built_method_is_the_program:
  assumes "heap_ok (vm_heap vm)" and "builder_ok b"
    and "parts_words b + obj_words METHOD_NUM_SLOTS \<le> old_room (vm_heap vm)"
  shows "\<exists>m vm'. build b vm = Ok (m, vm') \<and> as_ptr m \<notin> live (vm_heap vm) \<and> kept {} (vm_heap vm) (vm_heap vm')
    \<and> method_argc vm' m = unat (mb_argc b) \<and> method_frame_slots vm' m = unat (mb_frame_slots b)
    \<and> method_primitive vm' m = mb_primitive b
    \<and> method_handler_slot_base vm' m = unat (mb_handler_slot_base b)
    \<and> mh_flags (method_header_bits vm' m) = mb_mh_flags b
    \<and> hdr_class_index (header (vm_heap vm') (as_ptr m)) = CLASS_COMPILEDMETHOD
    \<and> unat (num_slots (vm_heap vm') (as_ptr m)) = METHOD_NUM_SLOTS
    \<and> vslot vm' (as_ptr m) METHOD_SELECTOR = nil vm \<and> vslot vm' (as_ptr m) METHOD_CLASS = nil vm
    \<and> vslot vm' (as_ptr m) METHOD_SOURCE_INFO = nil vm
    \<and> (case method_parts vm' m of (code, lits, sites) \<Rightarrow>
         site_registry vm' = site_registry vm @ [from_ptr sites]
         \<and> is_immutable (vm_heap vm') code \<and> is_immutable (vm_heap vm') lits
         \<and> (\<forall>i < length (body_insns b). decode (insn_at (vm_heap vm') code i) = Some (body_insns b ! i))
         \<and> unat (num_slots (vm_heap vm') lits) = length (mb_literals b)
         \<and> (\<forall>i < length (mb_literals b). vslot vm' lits i = mb_literals b ! i)
         \<and> unat (num_slots (vm_heap vm') sites) = length (mb_sites b) * SITE_STRIDE
         \<and> (\<forall>i < length (mb_sites b).
              vslot vm' sites (i * SITE_STRIDE + SITE_SELECTOR) = ss_selector (mb_sites b ! i)
              \<and> vslot vm' sites (i * SITE_STRIDE + SITE_ARGC) = from_int (uint (ss_argc (mb_sites b ! i)))
              \<and> vslot vm' sites (i * SITE_STRIDE + SITE_CACHE_CLASS) = from_int 0
              \<and> vslot vm' sites (i * SITE_STRIDE + SITE_CACHE_METHOD) = nil vm
              \<and> vslot vm' sites (i * SITE_STRIDE + SITE_STATIC_CLASS)
                  = (if ss_static_class (mb_sites b ! i) = 0 then nil vm else ss_static_class (mb_sites b ! i))))"
proof -
  obtain m vm' code lits sites hdr where m: "build b vm = Ok (m, vm')" "is_ptr m" "as_ptr m \<notin> live (vm_heap vm)"
    "kept {} (vm_heap vm) (vm_heap vm')" "parts_hold b (nil vm) (vm_heap vm') code lits sites"
    "method_parts vm' m = (code, lits, sites)" "builder_header b = Ok hdr"
    "method_header_bits vm' m = as_int (from_int hdr)" "site_registry vm' = site_registry vm @ [from_ptr sites]"
    "hdr_class_index (header (vm_heap vm') (as_ptr m)) = CLASS_COMPILEDMETHOD"
    "unat (num_slots (vm_heap vm') (as_ptr m)) = METHOD_NUM_SLOTS"
    "\<forall>j. METHOD_SELECTOR \<le> j \<and> j < METHOD_NUM_SLOTS \<longrightarrow> slot (vm_heap vm') (as_ptr m) j = nil vm"
    by (rule build_ok [OF assms])
  have "mb_mh_flags b < 2 ^ 28" using assms(2) by (simp add: builder_ok_def)
  note hd = packed_header_fields [OF m(7) [unfolded builder_header_def] this m(8)]
  have si: "contents (vm_heap vm') sites (concat (map (site_words (nil vm)) (mb_sites b)))"
    using m(5) by (simp add: parts_hold_def)
  have "unat (num_slots (vm_heap vm') sites) = length (mb_sites b) * 5"
    using si by (simp add: contents_def length_sites)
  then show ?thesis
    using m(1,3-6,9-12) hd site_slots [OF si]
    by (intro exI [of _ m] exI [of _ vm'])
       (simp add: parts_hold_def code_object_def holds_code_def contents_def vslot_def site_static_class_def)
qed

text \<open>A method of two instructions and a primitive, in an empty heap.\<close>

definition sample_builder :: method_builder where
  "sample_builder =
     \<lparr>mb_argc = 0, mb_frame_slots = 2, mb_insns = [LoadInt 1 42, Ret 1], mb_literals = [5],
      mb_sites = [\<lparr>ss_selector = 9, ss_argc = 1, ss_static_class = 0\<rparr>], mb_primitive = Some 7,
      mb_handler_slot_base = 0, mb_mh_flags = 0\<rparr>"

theorem built_method_is_the_program_witness:
  "\<exists>m vm' code. build sample_builder (bare_literal small_heap 0) = Ok (m, vm')
     \<and> fst (method_parts vm' m) = code \<and> decode (insn_at (vm_heap vm') code 0) = Some (Prim 7)
     \<and> decode (insn_at (vm_heap vm') code 2) = Some (Ret 1) \<and> method_primitive vm' m = Some 7"
proof -
  let ?vm = "bare_literal small_heap 0"
  have h: "vm_heap ?vm = small_heap" by (simp add: bare_literal_def)
  have i: "body_insns sample_builder = [Prim 7, LoadInt 1 42, Ret 1]"
    by (simp add: body_insns_def sample_builder_def)
  have b: "builder_ok sample_builder"
    by (simp add: builder_ok_def i) (simp add: sample_builder_def word_less_def)
  have "parts_words sample_builder + obj_words METHOD_NUM_SLOTS \<le> old_room (vm_heap ?vm)"
    by (simp add: h parts_words_def i obj_words_def old_room_def small_heap_def new_heap_def)
       (simp add: sample_builder_def bare_literal_def)
  from built_method_is_the_program [OF _ b this] obtain m vm' code lits sites where
    m: "build sample_builder ?vm = Ok (m, vm')" "method_parts vm' m = (code, lits, sites)"
      "\<forall>i < 3. decode (insn_at (vm_heap vm') code i) = Some ([Prim 7, LoadInt 1 42, Ret 1] ! i)"
      "method_primitive vm' m = Some 7"
    using small_heap_ok h i by (auto simp: sample_builder_def)
  have "decode (insn_at (vm_heap vm') code 0) = Some (Prim 7)" "decode (insn_at (vm_heap vm') code 2) = Some (Ret 1)"
    using m(3) by force+
  with m show ?thesis by auto
qed

end
