(* ===== verification/Boot_Facts.thy ===== *)
theory Boot_Facts
  imports Method_Builder Symbol_Table Scheduler
begin

section \<open>What the bootstrap makes\<close>

text \<open>
  The bootstrap of src/vm.rs allocates in old space only and stores only pointers to what it has
  allocated. A heap built this way is tidy: it has no young object, an empty store buffer, and no
  slot that does not lead to an object. The relation grows follows the heap through the allocations
  and the stores, counting the words of old space that are used.
\<close>

text \<open>A header with neither the mark nor the remembered bit, and with its size in the size field.\<close>

definition plain_header :: "header \<Rightarrow> bool" where
  "plain_header w \<longleftrightarrow> gc_bits w AND GC_BIT_REMEMBERED = 0 \<and> gc_bits w AND GC_BIT_MARK = 0
     \<and> num_slots_field w \<noteq> HDR_NSLOTS_OVERFLOW"

definition tidy :: "heap \<Rightarrow> bool" where
  "tidy h \<longleftrightarrow> heap_ok h \<and> objects h (young_from h) = [] \<and> ssb h = []
     \<and> sp_words (young_to h) = sp_words (young_from h)
     \<and> (\<forall>x \<in> live h. plain_header (header h x)
          \<and> (\<not> is_bytes (header h x) \<longrightarrow> (\<forall>i < unat (num_slots h x). live_value h (slot h x i))))"

definition grows :: "nat \<Rightarrow> (nat \<times> nat) set \<Rightarrow> heap \<Rightarrow> heap \<Rightarrow> bool" where
  "grows n W h h' \<longleftrightarrow> tidy h' \<and> live h \<subseteq> live h' \<and> old_room h \<le> old_room h' + n
     \<and> (\<forall>y \<in> live h. header h' y = header h y \<and> num_slots h' y = num_slots h y
          \<and> (\<forall>j < unat (num_slots h y). (y, j) \<notin> W \<longrightarrow> slot h' y j = slot h y j))"

lemma grows_refl: "tidy h \<Longrightarrow> grows n W h h"
  by (simp add: grows_def)

lemma grows_trans:
  assumes a: "grows n W h h1" and b: "grows k W' h1 h2" and w: "\<forall>(y, j) \<in> W'. y \<in> live h \<longrightarrow> (y, j) \<in> W"
  shows "grows (n + k) W h h2"
proof -
  have "header h2 y = header h y \<and> num_slots h2 y = num_slots h y
      \<and> (\<forall>j < unat (num_slots h y). (y, j) \<notin> W \<longrightarrow> slot h2 y j = slot h y j)" if y: "y \<in> live h" for y
  proof -
    have "y \<in> live h1" using a y by (auto simp: grows_def)
    moreover have "(y, j) \<notin> W \<Longrightarrow> (y, j) \<notin> W'" for j using w y by auto
    ultimately show ?thesis using a b y by (simp add: grows_def)
  qed
  then show ?thesis using a b by (auto simp: grows_def)
qed

lemma grows_mono: "grows n W h h' \<Longrightarrow> n \<le> m \<Longrightarrow> W \<subseteq> W' \<Longrightarrow> grows m W' h h'"
  by (fastforce simp: grows_def)

lemma grows_tidy: "grows n W h h' \<Longrightarrow> tidy h'"
  by (simp add: grows_def)

lemma grows_live: "grows n W h h' \<Longrightarrow> x \<in> live h \<Longrightarrow> x \<in> live h'"
  by (auto simp: grows_def)

lemma grows_live_value: "grows n W h h' \<Longrightarrow> live_value h v \<Longrightarrow> live_value h' v"
  by (auto simp: grows_def live_value_def)

lemma tidy_ok: "tidy h \<Longrightarrow> heap_ok h"
  by (simp add: tidy_def)

subsection \<open>One step\<close>

definition fresh_in :: "heap \<Rightarrow> heap \<Rightarrow> nat \<Rightarrow> u32 \<Rightarrow> u64 \<Rightarrow> nat \<Rightarrow> value \<Rightarrow> bool" where
  "fresh_in h h' x c f n v \<longleftrightarrow> x \<notin> live h \<and> x \<in> live h' \<and> aligned x \<and> unat (num_slots h' x) = n
     \<and> hdr_class_index (header h' x) = c \<and> hdr_format (header h' x) = f
     \<and> \<not> is_bytes (header h' x) \<and> (\<forall>i < n. slot h' x i = v)"

lemma small_allocation:
  assumes ok: "heap_ok h'" "x \<in> live h'" and a: "allocated h h' x c f n v" and n: "n < 255"
    and b: "alloc_young_bytes h' + alloc_old_bytes h' = alloc_young_bytes h + alloc_old_bytes h + alloc_footprint n"
  shows "num_slots_field (header h' x) \<noteq> HDR_NSLOTS_OVERFLOW"
proof
  assume o: "num_slots_field (header h' x) = HDR_NSLOTS_OVERFLOW"
  then have "storage_start h' x + 8 = x" using live_shape(2) [OF ok] by (simp add: has_overflow_word_def)
  moreover have "obj_end h' x = x + 8 + unat (num_slots h' x) * 8" by (rule storage_of_live(1) [OF ok])
  moreover have "obj_end h' x - storage_start h' x = alloc_footprint n" "unat (num_slots h' x) = n"
    using a b by (simp_all add: allocated_def)
  ultimately show False using n by (simp add: alloc_footprint_def)
qed

lemma grows_new:
  assumes t: "tidy h" and v: "n = 0 \<or> live_value h v" and n: "new_old h x h' c f n v" and f: "f < FMT_BYTES_BASE"
    and sm: "num_slots_field (header h' x) \<noteq> HDR_NSLOTS_OVERFLOW"
  shows "grows (obj_words n) {} h h'" and "fresh_in h h' x c f n v"
proof -
  have nb: "\<not> is_bytes (header h' x)" using n f by (simp add: new_old_def is_bytes_def)
  have nr: "plain_header (header h' x)" using n sm by (simp add: new_old_def plain_header_def)
  have k: "kept {} h h'" and l: "live h' = insert x (live h)" using n by (auto simp: new_old_def)
  have lv: "live_value h' w" if "live_value h w" for w using that l by (auto simp: live_value_def)
  have old: "header h' y = header h y \<and> num_slots h' y = num_slots h y
      \<and> (\<forall>j < unat (num_slots h y). slot h' y j = slot h y j)" if "y \<in> live h" for y
    using k that by (simp add: kept_def same_content_def)
  have "tidy h'"
    unfolding tidy_def
  proof (intro conjI ballI impI allI)
    show "heap_ok h'" "objects h' (young_from h') = []" "ssb h' = []" "sp_words (young_to h') = sp_words (young_from h')"
      using n t by (auto simp: new_old_def kept_def same_young_def tidy_def)
    show "plain_header (header h' y)" if "y \<in> live h'" for y
      using that nr t old by (cases "y = x") (auto simp: l tidy_def)
    show "live_value h' (slot h' y i)" if y: "y \<in> live h'" "\<not> is_bytes (header h' y)" "i < unat (num_slots h' y)" for y i
    proof (cases "y = x")
      case True
      then have "live_value h v" using v n y by (auto simp: new_old_def)
      then show ?thesis using True n y lv by (simp add: new_old_def)
    next
      case False
      then have "y \<in> live h" using y l by simp
      then show ?thesis using old y t lv by (simp add: tidy_def)
    qed
  qed
  then show "grows (obj_words n) {} h h'"
    using n old by (auto simp: grows_def new_old_def)
  show "fresh_in h h' x c f n v" using n nb by (simp add: fresh_in_def new_old_def)
qed

lemma grows_set_slot:
  assumes t: "tidy h" and x: "x \<in> live h" and i: "i < unat (num_slots h x)" and v: "live_value h v"
  shows "grows 0 {(x, i)} h (set_slot_raw h x i v)"
proof -
  let ?h = "set_slot_raw h x i v"
  note s = set_slot_ok [OF tidy_ok [OF t] x i, where v = v]
    and g = slot_set_slot [OF tidy_ok [OF t] x i, where v = v]
  have lv: "live_value ?h w = live_value h w" for w by (simp add: live_value_def s(2))
  have "tidy ?h"
    unfolding tidy_def
  proof (intro conjI ballI impI allI)
    show "heap_ok ?h" "objects ?h (young_from ?h) = []" "ssb ?h = []" "sp_words (young_to ?h) = sp_words (young_from ?h)"
      using s t by (simp_all add: tidy_def)
    show "plain_header (header ?h y)" if "y \<in> live ?h" for y using that s t by (simp add: tidy_def)
    show "live_value ?h (slot ?h y j)" if "y \<in> live ?h" "\<not> is_bytes (header ?h y)" "j < unat (num_slots ?h y)" for y j
      using that s g [of y j] t v by (simp add: lv tidy_def)
  qed
  then show ?thesis using s g by (auto simp: grows_def old_room_def)
qed

lemma expect_fixed:
  assumes t: "tidy (vm_heap vm)" and v: "n = 0 \<or> live_value (vm_heap vm) v" and c: "class_ok c"
    and r: "obj_words n \<le> old_room (vm_heap vm)" and n: "n < 255"
  obtains x h where "expect_old vm (\<lambda>h. alloc_fixed_old h c n v) = Ok (x, vm\<lparr>vm_heap := h\<rparr>)"
    and "grows (obj_words n) {} (vm_heap vm) h" and "fresh_in (vm_heap vm) h x c FMT_FIXED n v"
    and "from_ptr_checked x = Ok (from_ptr x)"
proof -
  obtain x h where a: "alloc_fixed_old (vm_heap vm) c n v = Some (x, h)" "new_old (vm_heap vm) x h c FMT_FIXED n v"
    by (rule alloc_fixed_old_new [OF tidy_ok [OF t] c r])
  note ct = fixed_old_alloc.contract [OF tidy_ok [OF t] c a(1)]
  have "alloc_young_bytes h + alloc_old_bytes h = alloc_young_bytes (vm_heap vm) + alloc_old_bytes (vm_heap vm) + alloc_footprint n"
    using a(1) by (auto simp: alloc_fixed_old_def count_old_def fill_slots_eq dest: alloc_in_old_counts)
  then have sm: "num_slots_field (header h x) \<noteq> HDR_NSLOTS_OVERFLOW"
    by (intro small_allocation [OF ct(1) _ ct(2) n]) (simp_all add: ct(4))
  have f: "(FMT_FIXED :: u64) < FMT_BYTES_BASE" by (simp add: word_less_def)
  note g = grows_new [OF t v a(2) f sm]
  have "from_ptr_checked x = Ok (from_ptr x)" using g(2) by (simp add: fresh_in_def from_ptr_checked_def)
  then show ?thesis by (intro that [of x h] g) (simp_all add: expect_old_def a(1))
qed

lemma expect_ptrs:
  assumes t: "tidy (vm_heap vm)" and v: "live_value (vm_heap vm) v" and c: "class_ok c"
    and r: "obj_words n \<le> old_room (vm_heap vm)" and n: "n < 255"
  obtains x h where "expect_old vm (\<lambda>h. alloc_ptrs_old h c n v) = Ok (x, vm\<lparr>vm_heap := h\<rparr>)"
    and "grows (obj_words n) {} (vm_heap vm) h" and "fresh_in (vm_heap vm) h x c FMT_PTRS n v"
    and "from_ptr_checked x = Ok (from_ptr x)"
proof -
  obtain x h where a: "alloc_ptrs_old (vm_heap vm) c n v = Some (x, h)" "new_old (vm_heap vm) x h c FMT_PTRS n v"
    by (rule alloc_ptrs_old_new [OF tidy_ok [OF t] c r])
  note ct = ptrs_old_alloc.contract [OF tidy_ok [OF t] c a(1)]
  have "alloc_young_bytes h + alloc_old_bytes h = alloc_young_bytes (vm_heap vm) + alloc_old_bytes (vm_heap vm) + alloc_footprint n"
    using a(1) by (auto simp: alloc_ptrs_old_def count_old_def fill_slots_eq dest: alloc_in_old_counts)
  then have sm: "num_slots_field (header h x) \<noteq> HDR_NSLOTS_OVERFLOW"
    by (intro small_allocation [OF ct(1) _ ct(2) n]) (simp_all add: ct(4))
  have f: "(FMT_PTRS :: u64) < FMT_BYTES_BASE" by (simp add: word_less_def)
  have v': "n = 0 \<or> live_value (vm_heap vm) v" using v by simp
  note g = grows_new [OF t v' a(2) f sm]
  have "from_ptr_checked x = Ok (from_ptr x)" using g(2) by (simp add: fresh_in_def from_ptr_checked_def)
  then show ?thesis by (intro that [of x h] g) (simp_all add: expect_old_def a(1))
qed

lemma vset_heap: "vset_slot_raw (vm\<lparr>vm_heap := h\<rparr>) x i v = vm\<lparr>vm_heap := set_slot_raw h x i v\<rparr>"
  by (simp add: vset_slot_raw_def)

lemma set_slot_same:
  assumes "tidy h" and "x \<in> live h" and "i < unat (num_slots h x)" and "j < unat (num_slots h x)"
  shows "slot (set_slot_raw h x i v) x j = (if j = i then v else slot h x j)"
  using slot_set_slot [OF tidy_ok [OF assms(1)] assms(2,3) assms(2,4), where v = v] by simp

lemma set_slot_shape:
  assumes "tidy h" and "x \<in> live h" and "i < unat (num_slots h x)" and "y \<in> live h"
  shows "num_slots (set_slot_raw h x i v) y = num_slots h y" and "header (set_slot_raw h x i v) y = header h y"
    and "live (set_slot_raw h x i v) = live h"
  using set_slot_ok [OF tidy_ok [OF assms(1)] assms(2,3)] assms(4) by auto

lemma live_value_int [simp]: "live_value h (from_int n)"
  by (simp add: live_value_def)

lemma fresh_ptr:
  assumes "tidy h'" and "fresh_in h h' x c f n v"
  shows "as_ptr (from_ptr x) = x" and "is_ptr (from_ptr x)" and "live_value h' (from_ptr x)"
  using live_from_ptr [OF tidy_ok [OF assms(1)], of x] assms(2) by (auto simp: fresh_in_def live_value_def)

text \<open>A run of raw stores into one object.\<close>

lemma grows_set_run:
  assumes "tidy (vm_heap vm)" and "x \<in> live (vm_heap vm)" and "i + length vs \<le> unat (num_slots (vm_heap vm) x)"
    and "\<forall>v \<in> set vs. live_value (vm_heap vm) v"
  shows "\<exists>h. set_run vm x i vs = vm\<lparr>vm_heap := h\<rparr> \<and> grows 0 ({x} \<times> {i..<i + length vs}) (vm_heap vm) h
    \<and> (\<forall>j < unat (num_slots (vm_heap vm) x).
         slot h x j = (if i \<le> j \<and> j < i + length vs then vs ! (j - i) else slot (vm_heap vm) x j))"
  using assms
proof (induction vs arbitrary: vm i)
  case Nil
  then show ?case by (intro exI [of _ "vm_heap vm"]) (auto simp: grows_refl)
next
  case (Cons v vs)
  let ?h = "vm_heap vm" and ?n = "unat (num_slots (vm_heap vm) x)"
  let ?h1 = "set_slot_raw ?h x i v" and ?vm1 = "vset_slot_raw vm x i v"
  have i: "i < ?n" and lv: "live_value ?h v" using Cons.prems by simp_all
  have e: "vm_heap ?vm1 = ?h1" by (simp add: vset_slot_raw_def)
  note g = grows_set_slot [OF Cons.prems(1,2) i lv]
  have l: "live ?h1 = live ?h" "num_slots ?h1 x = num_slots ?h x"
    using set_slot_shape [OF Cons.prems(1,2) i Cons.prems(2)] by auto
  have t1: "tidy (vm_heap ?vm1)" "x \<in> live (vm_heap ?vm1)" "i + 1 + length vs \<le> unat (num_slots (vm_heap ?vm1) x)"
    "\<forall>v \<in> set vs. live_value (vm_heap ?vm1) v"
    using grows_tidy [OF g] Cons.prems l by (simp_all add: e live_value_def)
  from Cons.IH [OF t1] obtain h where
    h: "set_run ?vm1 x (i + 1) vs = ?vm1\<lparr>vm_heap := h\<rparr>" "grows 0 ({x} \<times> {i + 1..<i + 1 + length vs}) ?h1 h"
      "\<forall>j < ?n. slot h x j = (if i + 1 \<le> j \<and> j < i + 1 + length vs then vs ! (j - (i + 1)) else slot ?h1 x j)"
    by (auto simp: e l)
  have "slot h x j = (if i \<le> j \<and> j < i + length (v # vs) then (v # vs) ! (j - i) else slot ?h x j)" if j: "j < ?n" for j
    using h(3) set_slot_same [OF Cons.prems(1,2) i j, where v = v] j by (cases "j = i") (auto simp: nth_Cons')
  moreover have "grows (0 + 0) ({x} \<times> {i..<i + length (v # vs)}) ?h h"
    by (rule grows_trans [OF grows_mono [OF g] h(2)]) auto
  ultimately show ?case using h(1) by (intro exI [of _ h]) (simp add: vset_slot_raw_def)
qed

text \<open>An object that is allocated and then filled with values that are there already.\<close>

lemma new_and_fill:
  assumes t: "tidy h" and f: "fresh_in h h1 x c f (length vs) v" and g: "grows n {} h h1"
    and lv: "\<forall>v \<in> set vs. live_value h v" and vm: "vm_heap vm = h1"
  obtains h2 where "set_run vm x 0 vs = vm\<lparr>vm_heap := h2\<rparr>" and "grows n {} h h2"
    and "x \<in> live h2" "unat (num_slots h2 x) = length vs" "header h2 x = header h1 x"
    and "\<And>j. j < length vs \<Longrightarrow> slot h2 x j = vs ! j"
proof -
  have x: "x \<in> live h1" "unat (num_slots h1 x) = length vs" "x \<notin> live h" using f by (auto simp: fresh_in_def)
  have t1: "tidy h1" by (rule grows_tidy [OF g])
  have "\<forall>v \<in> set vs. live_value h1 v" using lv grows_live_value [OF g] by blast
  with grows_set_run [of vm x 0 vs] t1 x obtain h2 where
    h2: "set_run vm x 0 vs = vm\<lparr>vm_heap := h2\<rparr>" "grows 0 ({x} \<times> {0..<length vs}) h1 h2"
      "\<forall>j < length vs. slot h2 x j = vs ! j"
    by (auto simp: vm)
  have "grows (n + 0) {} h h2" by (rule grows_trans [OF g h2(2)]) (use x in auto)
  moreover have "x \<in> live h2" "unat (num_slots h2 x) = length vs" "header h2 x = header h1 x"
    using h2(2) x by (auto simp: grows_def)
  ultimately show ?thesis using that h2(1,3) by auto
qed

subsection \<open>Method dictionaries and classes\<close>

definition empty_mdict :: "heap \<Rightarrow> value \<Rightarrow> bool" where
  "empty_mdict h md \<longleftrightarrow> as_ptr md \<in> live h \<and> unat (num_slots h (as_ptr md)) = MDICT_NUM_VM_SLOTS
     \<and> hdr_class_index (header h (as_ptr md)) = CLASS_METHODDICTIONARY
     \<and> as_ptr (slot h (as_ptr md) MDICT_KEYS) \<in> live h \<and> as_ptr (slot h (as_ptr md) MDICT_VALUES) \<in> live h
     \<and> num_slots h (as_ptr (slot h (as_ptr md) MDICT_KEYS)) = 0
     \<and> num_slots h (as_ptr (slot h (as_ptr md) MDICT_VALUES)) = 0"

definition class_object :: "heap \<Rightarrow> value \<Rightarrow> u32 \<times> u64 \<times> nat \<Rightarrow> bool" where
  "class_object h v cls \<longleftrightarrow> (case cls of (idx, format, nslots) \<Rightarrow>
     is_ptr v \<and> as_ptr v \<in> live h \<and> hdr_class_index (header h (as_ptr v)) = CLASS_CLASS
     \<and> unat (num_slots h (as_ptr v)) = BEHAVIOR_NUM_VM_SLOTS \<and> \<not> is_bytes (header h (as_ptr v))
     \<and> empty_mdict h (slot h (as_ptr v) BEHAVIOR_METHOD_DICTIONARY)
     \<and> slot h (as_ptr v) BEHAVIOR_FORMAT_AND_SLOTS = from_int (format_and_slots format nslots)
     \<and> slot h (as_ptr v) BEHAVIOR_CLASS_INDEX = from_int (uint idx))"

text \<open>The superclass slots of the classes.\<close>

definition supers :: "heap \<Rightarrow> (nat \<times> nat) set" where
  "supers h = {(y, BEHAVIOR_SUPERCLASS) | y. hdr_class_index (header h y) = CLASS_CLASS}"

lemma empty_mdict_grows:
  assumes m: "empty_mdict h md" and g: "grows n W h h'" and w: "\<forall>(y, j) \<in> W. y \<in> live h \<longrightarrow> (y, j) \<in> supers h"
  shows "empty_mdict h' md"
proof -
  have l: "as_ptr md \<in> live h" "hdr_class_index (header h (as_ptr md)) = 26"
    "unat (num_slots h (as_ptr md)) = 2" using m by (simp_all add: empty_mdict_def)
  then have "(as_ptr md, j) \<notin> W" for j using w by (auto simp: supers_def)
  then have s: "slot h' (as_ptr md) 0 = slot h (as_ptr md) 0" "slot h' (as_ptr md) 1 = slot h (as_ptr md) 1"
    using g l by (simp_all add: grows_def)
  have "num_slots h' y = num_slots h y \<and> header h' y = header h y \<and> y \<in> live h'" if "y \<in> live h" for y
    using g that by (auto simp: grows_def)
  with m s show ?thesis by (simp add: empty_mdict_def)
qed

lemma class_object_grows:
  assumes m: "class_object h v cls" and g: "grows n W h h'" and w: "\<forall>(y, j) \<in> W. y \<in> live h \<longrightarrow> (y, j) \<in> supers h"
  shows "class_object h' v cls"
proof -
  obtain idx format nslots where cls: "cls = (idx, format, nslots)" by (cases cls)
  have l: "as_ptr v \<in> live h" "unat (num_slots h (as_ptr v)) = 4" using m by (simp_all add: class_object_def cls)
  have "slot h' (as_ptr v) j = slot h (as_ptr v) j" if "0 < j" "j < 4" for j
  proof -
    have "(as_ptr v, j) \<notin> W" using w l that by (auto simp: supers_def)
    then show ?thesis using g l that by (simp add: grows_def)
  qed
  then have s: "slot h' (as_ptr v) 1 = slot h (as_ptr v) 1" "slot h' (as_ptr v) 2 = slot h (as_ptr v) 2"
    "slot h' (as_ptr v) 3 = slot h (as_ptr v) 3" by simp_all
  have "num_slots h' (as_ptr v) = num_slots h (as_ptr v)" "header h' (as_ptr v) = header h (as_ptr v)"
    "as_ptr v \<in> live h'" using g l by (auto simp: grows_def)
  with m s empty_mdict_grows [OF _ g w] show ?thesis by (simp add: class_object_def cls)
qed

lemma make_mdict:
  assumes t: "tidy (vm_heap vm)" and v: "live_value (vm_heap vm) nilv" and r: "5 \<le> old_room (vm_heap vm)"
  obtains md h where "make_mdict_old vm nilv = Ok (md, vm\<lparr>vm_heap := h\<rparr>)" and "grows 5 {} (vm_heap vm) h"
    and "empty_mdict h md" and "live_value h md"
proof -
  let ?h = "vm_heap vm"
  have c: "class_ok CLASS_ARRAY" "class_ok CLASS_METHODDICTIONARY" by (simp_all add: class_ok_def hmask_def)
  have w: "obj_words 0 = 1" "obj_words 2 = 3" by (simp_all add: obj_words_def)
  obtain ks h1 where k: "expect_old vm (\<lambda>h. alloc_ptrs_old h CLASS_ARRAY 0 nilv) = Ok (ks, vm\<lparr>vm_heap := h1\<rparr>)"
    "grows (obj_words 0) {} ?h h1" "fresh_in ?h h1 ks CLASS_ARRAY FMT_PTRS 0 nilv" "from_ptr_checked ks = Ok (from_ptr ks)"
    by (rule expect_ptrs [OF t v c(1), of 0]) (use r in \<open>simp_all add: obj_words_def\<close>)
  let ?vm1 = "vm\<lparr>vm_heap := h1\<rparr>"
  have r1: "4 \<le> old_room h1" using k(2) r by (simp add: grows_def w)
  obtain vs h2 where s: "expect_old ?vm1 (\<lambda>h. alloc_ptrs_old h CLASS_ARRAY 0 nilv) = Ok (vs, ?vm1\<lparr>vm_heap := h2\<rparr>)"
    "grows (obj_words 0) {} (vm_heap ?vm1) h2" "fresh_in (vm_heap ?vm1) h2 vs CLASS_ARRAY FMT_PTRS 0 nilv"
    "from_ptr_checked vs = Ok (from_ptr vs)"
    by (rule expect_ptrs [of ?vm1 nilv CLASS_ARRAY 0])
       (use r1 c grows_tidy [OF k(2)] grows_live_value [OF k(2) v] in \<open>simp_all add: obj_words_def\<close>)
  let ?vm2 = "vm\<lparr>vm_heap := h2\<rparr>"
  have g2: "grows 1 {} h1 h2" "fresh_in h1 h2 vs CLASS_ARRAY FMT_PTRS 0 nilv" using s(2,3) by (simp_all add: w)
  have t2: "tidy h2" by (rule grows_tidy [OF g2(1)])
  have r2: "3 \<le> old_room h2" using g2(1) r1 by (simp add: grows_def)
  obtain md h3 where m: "expect_old ?vm2 (\<lambda>h. alloc_fixed_old h CLASS_METHODDICTIONARY 2 nilv) = Ok (md, ?vm2\<lparr>vm_heap := h3\<rparr>)"
    "grows (obj_words 2) {} (vm_heap ?vm2) h3" "fresh_in (vm_heap ?vm2) h3 md CLASS_METHODDICTIONARY FMT_FIXED 2 nilv"
    "from_ptr_checked md = Ok (from_ptr md)"
    by (rule expect_fixed [of ?vm2 2 nilv CLASS_METHODDICTIONARY])
       (use r2 c t2 grows_live_value [OF g2(1) grows_live_value [OF k(2) v]] in \<open>simp_all add: obj_words_def\<close>)
  have kl: "ks \<in> live h2" "vs \<in> live h2" using k(3) g2 by (auto simp: fresh_in_def grows_def)
  note pk = live_from_ptr [OF tidy_ok [OF t2] kl(1)] and pv = live_from_ptr [OF tidy_ok [OF t2] kl(2)]
  let ?ws = "[from_ptr ks, from_ptr vs]"
  have f3: "fresh_in h2 h3 md CLASS_METHODDICTIONARY FMT_FIXED (length ?ws) nilv" "grows 3 {} h2 h3"
    using m(2,3) by (simp_all add: w flip: numeral_2_eq_2)
  obtain h4 where h4: "set_run (vm\<lparr>vm_heap := h3\<rparr>) md 0 ?ws = (vm\<lparr>vm_heap := h3\<rparr>)\<lparr>vm_heap := h4\<rparr>" "grows 3 {} h2 h4"
    "md \<in> live h4" "unat (num_slots h4 md) = length ?ws" "header h4 md = header h3 md"
    "\<And>j. j < length ?ws \<Longrightarrow> slot h4 md j = ?ws ! j"
    by (rule new_and_fill [OF t2 f3(1) f3(2), of "vm\<lparr>vm_heap := h3\<rparr>"]) (use kl pk pv in \<open>auto simp: live_value_def\<close>)
  have t4: "tidy h4" by (rule grows_tidy [OF h4(2)])
  note pm = live_from_ptr [OF tidy_ok [OF t4] h4(3)]
  have n0: "num_slots h4 ks = 0" "num_slots h4 vs = 0" "ks \<in> live h4" "vs \<in> live h4"
    using k(3) g2 h4(2) kl by (auto simp: fresh_in_def grows_def unat_eq_0)
  have sl: "slot h4 md 0 = from_ptr ks" "slot h4 md (Suc 0) = from_ptr vs" using h4(6) [of 0] h4(6) [of 1] by simp_all
  have "empty_mdict h4 (from_ptr md)"
    using h4(3-5) n0 pk pv pm f3(1) by (simp add: empty_mdict_def sl fresh_in_def)
  moreover have "make_mdict_old vm nilv = Ok (from_ptr md, vm\<lparr>vm_heap := h4\<rparr>)"
    using k(1,4) s(1,4) m(1,4) h4(1) by (simp add: make_mdict_old_def)
  moreover have "grows 5 {} ?h h4"
    using grows_trans [OF k(2) grows_trans [OF g2(1) h4(2)]] by (simp add: w)
  moreover have "live_value h4 (from_ptr md)" using h4(3) pm by (simp add: live_value_def)
  ultimately show ?thesis using that by blast
qed

lemma grows_room: "grows n W h h' \<Longrightarrow> n + k \<le> old_room h \<Longrightarrow> k \<le> old_room h'"
  by (simp add: grows_def)

lemma make_class:
  assumes t: "tidy (vm_heap vm)" and v: "live_value (vm_heap vm) nilv" and r: "10 \<le> old_room (vm_heap vm)"
  obtains c h where "make_class_object vm idx format nslots nilv = Ok (c, vm\<lparr>vm_heap := h\<rparr>)"
    and "grows 10 {} (vm_heap vm) h" and "class_object h c (idx, format, nslots)"
    and "slot h (as_ptr c) BEHAVIOR_SUPERCLASS = nilv" and "as_ptr c \<notin> live (vm_heap vm)"
proof -
  let ?h = "vm_heap vm"
  obtain md h1 where m: "make_mdict_old vm nilv = Ok (md, vm\<lparr>vm_heap := h1\<rparr>)" "grows 5 {} ?h h1"
    "empty_mdict h1 md" "live_value h1 md"
    by (rule make_mdict [OF t v]) (use r in simp)
  have t1: "tidy h1" by (rule grows_tidy [OF m(2)])
  have v1: "live_value h1 nilv" by (rule grows_live_value [OF m(2) v])
  have w: "obj_words 4 = 5" by (simp add: obj_words_def)
  have r1: "5 \<le> old_room h1" using grows_room [OF m(2), of 5] r by simp
  let ?vm1 = "vm\<lparr>vm_heap := h1\<rparr>"
  obtain x h2 where x: "expect_old ?vm1 (\<lambda>h. alloc_fixed_old h CLASS_CLASS 4 nilv) = Ok (x, ?vm1\<lparr>vm_heap := h2\<rparr>)"
    "grows (obj_words 4) {} (vm_heap ?vm1) h2" "fresh_in (vm_heap ?vm1) h2 x CLASS_CLASS FMT_FIXED 4 nilv"
    "from_ptr_checked x = Ok (from_ptr x)"
    by (rule expect_fixed [of ?vm1 4 nilv CLASS_CLASS])
       (use t1 v1 r1 in \<open>simp_all add: w, simp add: class_ok_def hmask_def\<close>)
  let ?ws = "[nilv, md, from_int (format_and_slots format nslots), from_int (uint idx)]"
  have l: "length ?ws = 4" by simp
  have f: "fresh_in h1 h2 x CLASS_CLASS FMT_FIXED (length ?ws) nilv" "grows 5 {} h1 h2"
    using x(2,3) w by (simp_all only: l) simp_all
  obtain h3 where h3: "set_run (vm\<lparr>vm_heap := h2\<rparr>) x 0 ?ws = (vm\<lparr>vm_heap := h2\<rparr>)\<lparr>vm_heap := h3\<rparr>" "grows 5 {} h1 h3"
    "x \<in> live h3" "unat (num_slots h3 x) = length ?ws" "header h3 x = header h2 x"
    "\<And>j. j < length ?ws \<Longrightarrow> slot h3 x j = ?ws ! j"
    by (rule new_and_fill [OF t1 f(1) f(2), of "vm\<lparr>vm_heap := h2\<rparr>"]) (use v1 m(4) in auto)
  have t3: "tidy h3" by (rule grows_tidy [OF h3(2)])
  note px = live_from_ptr [OF tidy_ok [OF t3] h3(3)]
  have sl: "slot h3 x 0 = nilv" "slot h3 x 1 = md" "slot h3 x 2 = ?ws ! 2" "slot h3 x 3 = ?ws ! 3"
    using h3(6) [of 0] h3(6) [of 1] h3(6) [of 2] h3(6) [of 3] by simp_all
  have "empty_mdict h3 md" by (rule empty_mdict_grows [OF m(3) h3(2)]) simp
  then have "class_object h3 (from_ptr x) (idx, format, nslots)"
    using h3(3-5) px sl f(1) unfolding class_object_def prod.case px(1) l by (simp add: fresh_in_def numeral_2_eq_2 numeral_3_eq_3)
  moreover have "make_class_object vm idx format nslots nilv = Ok (from_ptr x, vm\<lparr>vm_heap := h3\<rparr>)"
    using m(1) x(1,4) h3(1) by (simp add: make_class_object_def Let_def numeral_2_eq_2 numeral_3_eq_3)
  moreover have "grows 10 {} ?h h3" using grows_trans [OF m(2) h3(2)] by simp
  moreover have "as_ptr (from_ptr x) \<notin> live ?h" using f(1) px grows_live [OF m(2)] by (auto simp: fresh_in_def)
  ultimately show ?thesis using that sl(1) px(1) by simp
qed

text \<open>The loop over the classes of the treaty.\<close>

lemma make_classes_ok:
  assumes "tidy (vm_heap vm)" and "live_value (vm_heap vm) nilv" and "10 * length cs \<le> old_room (vm_heap vm)"
    and "\<forall>idx \<in> fst ` set cs. unat idx < length (class_table vm)" and "distinct (map fst cs)"
  shows "\<exists>h tab. make_classes nilv cs vm = Ok (vm\<lparr>vm_heap := h, class_table := tab\<rparr>)
    \<and> grows (10 * length cs) {} (vm_heap vm) h \<and> length tab = length (class_table vm)
    \<and> (\<forall>k \<in> set cs. class_object h (tab ! unat (fst k)) k
         \<and> slot h (as_ptr (tab ! unat (fst k))) BEHAVIOR_SUPERCLASS = nilv \<and> as_ptr (tab ! unat (fst k)) \<notin> live (vm_heap vm))
    \<and> (\<forall>i < length tab. word_of_nat i \<notin> fst ` set cs \<or> 2 ^ 32 \<le> i \<longrightarrow> tab ! i = class_table vm ! i)
    \<and> inj_on (\<lambda>idx. tab ! unat idx) (fst ` set cs)"
  using assms
proof (induction cs arbitrary: vm)
  case Nil
  then show ?case by (intro exI [of _ "vm_heap vm"] exI [of _ "class_table vm"]) (simp add: grows_refl)
next
  case (Cons cl cs)
  obtain idx f n where cl: "cl = (idx, f, n)" by (cases cl)
  let ?h = "vm_heap vm"
  obtain c h1 where c: "make_class_object vm idx f n nilv = Ok (c, vm\<lparr>vm_heap := h1\<rparr>)" "grows 10 {} ?h h1"
    "class_object h1 c (idx, f, n)" "slot h1 (as_ptr c) BEHAVIOR_SUPERCLASS = nilv" "as_ptr c \<notin> live ?h"
    by (rule make_class [OF Cons.prems(1,2)]) (use Cons.prems(3) in simp)
  let ?vm1 = "vm\<lparr>vm_heap := h1, class_table := (class_table vm)[unat idx := c]\<rparr>"
  have i: "unat idx < length (class_table vm)" using Cons.prems(4) by (simp add: cl)
  have "tidy (vm_heap ?vm1)" "live_value (vm_heap ?vm1) nilv" "10 * length cs \<le> old_room (vm_heap ?vm1)"
    "\<forall>idx \<in> fst ` set cs. unat idx < length (class_table ?vm1)" "distinct (map fst cs)"
    using grows_tidy [OF c(2)] grows_live_value [OF c(2) Cons.prems(2)] grows_room [OF c(2)] Cons.prems(3-5) by simp_all
  from Cons.IH [OF this] obtain h tab where r:
    "make_classes nilv cs ?vm1 = Ok (?vm1\<lparr>vm_heap := h, class_table := tab\<rparr>)" "grows (10 * length cs) {} h1 h"
    "length tab = length (class_table vm)"
    "\<forall>k \<in> set cs. class_object h (tab ! unat (fst k)) k
         \<and> slot h (as_ptr (tab ! unat (fst k))) BEHAVIOR_SUPERCLASS = nilv \<and> as_ptr (tab ! unat (fst k)) \<notin> live h1"
    "\<forall>i < length tab. word_of_nat i \<notin> fst ` set cs \<or> 2 ^ 32 \<le> i \<longrightarrow> tab ! i = (class_table vm)[unat idx := c] ! i"
    "inj_on (\<lambda>idx. tab ! unat idx) (fst ` set cs)" by auto
  have ni: "idx \<notin> fst ` set cs" using Cons.prems(5) by (simp add: cl)
  then have ti: "tab ! unat idx = c" using r(3) i r(5) [rule_format, of "unat idx"] by simp
  have cl1: "as_ptr c \<in> live h1" "unat (num_slots h1 (as_ptr c)) = 4" using c(3) by (simp_all add: class_object_def)
  have oc: "class_object h c (idx, f, n)" by (rule class_object_grows [OF c(3) r(2)]) simp
  have sc: "slot h (as_ptr c) 0 = nilv" using r(2) cl1 c(4) by (simp add: grows_def)
  have new: "as_ptr (tab ! unat j) \<notin> live h1" if "j \<in> fst ` set cs" for j using r(4) that by force
  have "make_classes nilv (cl # cs) vm = Ok (vm\<lparr>vm_heap := h, class_table := tab\<rparr>)"
    using c(1) r(1) i by (simp add: cl)
  moreover have "grows (10 * length (cl # cs)) {} ?h h" using grows_trans [OF c(2) r(2)] by simp
  moreover have "\<forall>k \<in> set (cl # cs). class_object h (tab ! unat (fst k)) k
         \<and> slot h (as_ptr (tab ! unat (fst k))) BEHAVIOR_SUPERCLASS = nilv \<and> as_ptr (tab ! unat (fst k)) \<notin> live ?h"
    using r(4) oc sc c(5) grows_live [OF c(2)] by (auto simp: cl ti)
  moreover have "tab ! i = class_table vm ! i" if "i < length tab" "word_of_nat i \<notin> fst ` set (cl # cs) \<or> 2 ^ 32 \<le> i" for i
  proof -
    have "unat idx < 2 ^ 32" using unsigned_less [of idx] by simp
    then have "i \<noteq> unat idx" using that(2) by (auto simp: cl)
    then show ?thesis using r(5) that by (auto simp: cl)
  qed
  moreover have "inj_on (\<lambda>idx. tab ! unat idx) (fst ` set (cl # cs))"
  proof -
    have "tab ! unat idx \<notin> (\<lambda>idx. tab ! unat idx) ` fst ` set cs"
    proof
      assume "tab ! unat idx \<in> (\<lambda>idx. tab ! unat idx) ` fst ` set cs"
      then obtain j where "j \<in> fst ` set cs" "c = tab ! unat j" using ti by blast
      with new [of j] cl1(1) show False by simp
    qed
    then show ?thesis using r(6) ni by (simp add: cl)
  qed
  ultimately show ?case using r(3) by blast
qed

subsection \<open>The superclasses\<close>

lemma set_supers:
  assumes "tidy (vm_heap vm)" and "\<forall>(i, v) \<in> set ws. i \<in> I \<and> live_value (vm_heap vm) v"
    and "\<forall>i \<in> I. \<exists>k. class_object (vm_heap vm) (class_entry vm i) k" and "inj_on (class_entry vm) I"
  shows "\<exists>h. fold (\<lambda>(i, v). set_superclass i v) ws vm = vm\<lparr>vm_heap := h\<rparr> \<and> grows 0 ((\<lambda>i. (as_ptr (class_entry vm i), 0)) ` I) (vm_heap vm) h
    \<and> (\<forall>i \<in> I. slot h (as_ptr (class_entry vm i)) BEHAVIOR_SUPERCLASS =
         (case map_of (rev ws) i of None \<Rightarrow> slot (vm_heap vm) (as_ptr (class_entry vm i)) BEHAVIOR_SUPERCLASS | Some v \<Rightarrow> v))"
  using assms
proof (induction ws rule: rev_induct)
  case Nil
  then show ?case by (intro exI [of _ "vm_heap vm"]) (simp add: grows_refl)
next
  case (snoc w ws)
  obtain i v where w: "w = (i, v)" by (cases w)
  let ?h = "vm_heap vm"
  from snoc obtain h where h: "fold (\<lambda>(i, v). set_superclass i v) ws vm = vm\<lparr>vm_heap := h\<rparr>"
    "grows 0 ((\<lambda>i. (as_ptr (class_entry vm i), 0)) ` I) ?h h"
    "\<forall>i \<in> I. slot h (as_ptr (class_entry vm i)) 0 =
         (case map_of (rev ws) i of None \<Rightarrow> slot ?h (as_ptr (class_entry vm i)) 0 | Some v \<Rightarrow> v)"
    by auto
  have i: "i \<in> I" "live_value ?h v" using snoc.prems(2) by (auto simp: w)
  let ?x = "as_ptr (class_entry vm i)"
  have co: "y \<in> live h" "unat (num_slots h y) = 4" "is_ptr (class_entry vm j)" "(y, 0) \<in> (\<lambda>i. (as_ptr (class_entry vm i), 0)) ` I"
    if "j \<in> I" "y = as_ptr (class_entry vm j)" for j y
    using snoc.prems(3) that h(2) by (fastforce simp: class_object_def grows_def)+
  note x = co [OF i(1) refl]
  have t: "tidy h" by (rule grows_tidy [OF h(2)])
  have lv: "live_value h v" by (rule grows_live_value [OF h(2) i(2)])
  let ?h' = "set_slot_raw h ?x 0 v"
  have g: "grows 0 {(?x, 0)} h ?h'" by (rule grows_set_slot [OF t x(1) _ lv]) (simp add: x(2))
  have "grows (0 + 0) ((\<lambda>i. (as_ptr (class_entry vm i), 0)) ` I) ?h ?h'" by (rule grows_trans [OF h(2) g]) (use x(4) in auto)
  moreover have "fold (\<lambda>(i, v). set_superclass i v) (ws @ [w]) vm = vm\<lparr>vm_heap := ?h'\<rparr>"
    by (simp add: h(1) w set_superclass_def class_entry_def vset_slot_raw_def)
  moreover have "slot ?h' (as_ptr (class_entry vm j)) 0 =
      (case map_of (rev (ws @ [w])) j of None \<Rightarrow> slot ?h (as_ptr (class_entry vm j)) 0 | Some v \<Rightarrow> v)" if j: "j \<in> I" for j
  proof (cases "j = i")
    case True
    then show ?thesis by (simp add: w slot_set_slot_same)
  next
    case False
    have "class_entry vm j \<noteq> class_entry vm i" using inj_onD [OF snoc.prems(4) _ j i(1)] False by blast
    then have "as_ptr (class_entry vm j) \<noteq> ?x" unfolding as_ptr_def by (metis word_unat_eq_iff)
    moreover have "i \<noteq> j" using False by simp
    ultimately show ?thesis
      using slot_set_slot [OF tidy_ok [OF t] x(1), of 0 "as_ptr (class_entry vm j)" 0 v] x(2) co [OF j refl] h(3) j
      by (simp add: w)
  qed
  ultimately show ?case by (intro exI [of _ ?h']) simp
qed

subsection \<open>Symbols\<close>

lemma symbols_ok_grows:
  assumes s: "symbols_ok vm" and g: "grows n W (vm_heap vm) h" and y: "symbols vm' = symbols vm" "vm_heap vm' = h"
    and w: "\<forall>(x, j) \<in> W. x \<in> live (vm_heap vm) \<longrightarrow> \<not> is_bytes (header (vm_heap vm) x)"
  shows "symbols_ok vm'"
proof -
  have "symbol_entry_ok h (bs, v)" if e: "(bs, v) \<in> set (symbols vm)" for bs v
  proof -
    have o: "symbol_entry_ok (vm_heap vm) (bs, v)" using s e by (auto simp: symbols_ok_def)
    then have l: "as_ptr v \<in> live (vm_heap vm)" "is_bytes (header (vm_heap vm) (as_ptr v))"
      by (auto simp: symbol_entry_ok_def)
    then have "(as_ptr v, j) \<notin> W" for j using w by auto
    then show ?thesis using g l by (intro symbol_entry_cong [OF o]) (auto simp: grows_def)
  qed
  then show ?thesis using s by (auto simp: symbols_ok_def y)
qed

lemma new_symbol_grows:
  assumes t: "tidy h" and r: "obj_words ((length bs + 7) div 8) \<le> old_room h" and l: "length bs < 255"
  obtains x h0 where "alloc_bytes_old h CLASS_SYMBOL (length bs) = Some (x, h0)" and "aligned x"
    and "grows (obj_words ((length bs + 7) div 8)) {} h (symbol_heap h0 x bs)"
proof -
  have c: "class_ok CLASS_SYMBOL" by (simp add: class_ok_def hmask_def)
  let ?n = "(length bs + 7) div 8"
  obtain x h0 where a: "alloc_bytes_old h CLASS_SYMBOL (length bs) = Some (x, h0)"
    and n: "new_old h x h0 CLASS_SYMBOL (bytes_fmt (length bs)) ?n 0"
    by (rule alloc_bytes_old_new [OF tidy_ok [OF t] c r])
  have al: "aligned x" using n by (simp add: new_old_def)
  note sy = new_symbol [OF tidy_ok [OF t] a al] and fb = allocated_bytes [OF bytes_old_alloc.contract(2) [OF tidy_ok [OF t] c a]]
  let ?h' = "symbol_heap h0 x bs" and ?h1 = "write_bytes_from h0 x 0 bs"
  have ok0: "heap_ok h0" "x \<in> live h0" using n by (auto simp: new_old_def kept_def)
  have len: "0 + length bs \<le> byte_size h0 x" using fb(2) by simp
  note w = write_bytes_from_ok [OF ok0 len] and f = fills_write_bytes [OF ok0 len]
  have h': "?h' = set_immutable ?h1 x" by (simp add: symbol_heap_def write_bytes_def)
  have k: "kept {x} h0 ?h'" unfolding h'
    by (rule kept_trans [OF fills_kept [OF f] kept_set_immutable(1)]) (use w ok0 in auto)
  have k0: "kept {} h ?h'" by (rule kept_trans [OF _ k, of "{}" h]) (use n in \<open>auto simp: new_old_def\<close>)
  have room: "old_room ?h' = old_room h - obj_words ?n"
    using n f kept_set_immutable(2) [of ?h1 x] w ok0 unfolding h' by (auto simp: new_old_def old_room_def fills_def)
  have ssb: "ssb ?h' = ssb h" using n by (simp add: h' set_immutable_def Let_def new_old_def)
  have fits: "gc_fits (0 OR GC_BIT_IMMUTABLE)" by (simp add: gc_fits_def hmask_def)
  have g0: "gc_bits (header h0 x) = 0" using n by (simp add: new_old_def)
  have hx: "header ?h' x = with_gc_bits (header h0 x) (gc_bits (header h0 x) OR GC_BIT_IMMUTABLE)"
    using w by (simp add: h' set_immutable_def Let_def header_set_header)
  have "alloc_young_bytes h0 + alloc_old_bytes h0 = alloc_young_bytes h + alloc_old_bytes h + alloc_footprint ?n"
    using a by (auto simp: alloc_bytes_unfold count_old_def dest: alloc_in_old_counts)
  then have "num_slots_field (header h0 x) \<noteq> HDR_NSLOTS_OVERFLOW"
    using l by (intro small_allocation [OF ok0 bytes_old_alloc.contract(2) [OF tidy_ok [OF t] c a]]) simp_all
  then have nr: "plain_header (header ?h' x)"
    using gc_field.get_put [OF fits, of "header h0 x"] gc_field.outside_put [OF fits, of "header h0 x"]
    by (simp add: hx g0 plain_header_def)
  have lv: "live_value ?h' u" if "live_value h u" for u using that sy(2) by (auto simp: live_value_def)
  have bx: "is_bytes (header ?h' x)" using sy(4,6) by (simp add: symbol_entry_ok_def)
  have "tidy ?h'"
    unfolding tidy_def
  proof (intro conjI ballI impI allI)
    show "heap_ok ?h'" by (rule sy(1))
    show "objects ?h' (young_from ?h') = []" "ssb ?h' = []" "sp_words (young_to ?h') = sp_words (young_from ?h')"
      using k0 t ssb by (auto simp: kept_def same_young_def tidy_def)
    show "plain_header (header ?h' y)" if "y \<in> live ?h'" for y
      using that nr t sy(2,7) by (cases "y = x") (auto simp: tidy_def)
    show "live_value ?h' (slot ?h' y i)" if y: "y \<in> live ?h'" "\<not> is_bytes (header ?h' y)" "i < unat (num_slots ?h' y)" for y i
    proof -
      have "y \<in> live h" using y(1,2) bx sy(2) by auto
      then show ?thesis using y sy(7-9) t lv by (simp add: tidy_def)
    qed
  qed
  then have "grows (obj_words ?n) {} h ?h'"
    using sy(2,7-9) room by (auto simp: grows_def)
  then show ?thesis using that a al by blast
qed

lemma intern_grows:
  assumes t: "tidy (vm_heap vm)" and s: "symbols_ok vm"
    and r: "obj_words ((length str + 7) div 8) \<le> old_room (vm_heap vm)" and len: "length str < 255"
  obtains v h ys where "intern vm str = Ok (v, vm\<lparr>vm_heap := h, symbols := ys\<rparr>)"
    and "grows (obj_words ((length str + 7) div 8)) {} (vm_heap vm) h"
    and "symbols_ok (vm\<lparr>vm_heap := h, symbols := ys\<rparr>)" and "is_ptr v" "as_ptr v \<in> live h"
    and "is_bytes (header h (as_ptr v))" and "(map of_char str, v) \<in> set ys" and "set (symbols vm) \<subseteq> set ys"
proof -
  let ?bs = "map (of_char :: char \<Rightarrow> u8) str"
  have "\<exists>v h ys. intern vm str = Ok (v, vm\<lparr>vm_heap := h, symbols := ys\<rparr>)
      \<and> grows (obj_words ((length str + 7) div 8)) {} (vm_heap vm) h"
  proof (cases "find (\<lambda>(b, v). b = ?bs) (symbols vm)")
    case None
    obtain x h0 where a: "alloc_bytes_old (vm_heap vm) CLASS_SYMBOL (length ?bs) = Some (x, h0)" "aligned x"
      "grows (obj_words ((length ?bs + 7) div 8)) {} (vm_heap vm) (symbol_heap h0 x ?bs)"
      by (rule new_symbol_grows [OF t, of ?bs]) (use r len in simp_all)
    have "intern_bytes vm ?bs = Ok (from_ptr x, vm\<lparr>vm_heap := symbol_heap h0 x ?bs, symbols := symbols vm @ [(?bs, from_ptr x)]\<rparr>)"
      using intern_new [OF None] a(1,2) by blast
    then show ?thesis using a(3) unfolding intern_def by (simp only: length_map) blast
  next
    case (Some e)
    obtain b v where e: "e = (b, v)" by (cases e)
    have "intern vm str = Ok (v, vm)" by (simp add: intern_def intern_bytes_def Some e)
    moreover have "vm = vm\<lparr>vm_heap := vm_heap vm, symbols := symbols vm\<rparr>" by simp
    moreover have "grows (obj_words ((length str + 7) div 8)) {} (vm_heap vm) (vm_heap vm)" by (rule grows_refl [OF t])
    ultimately show ?thesis by metis
  qed
  then obtain v h ys where o: "intern vm str = Ok (v, vm\<lparr>vm_heap := h, symbols := ys\<rparr>)"
    "grows (obj_words ((length str + 7) div 8)) {} (vm_heap vm) h" by blast
  note k = intern_keeps [OF tidy_ok [OF t] s o(1) [unfolded intern_def]]
  then have "symbol_entry_ok h (?bs, v)" by (auto simp: symbols_ok_def)
  then show ?thesis using that [OF o] k by (auto simp: symbol_entry_ok_def)
qed

end
