(* ===== verification/Gc_Mark.thy ===== *)
theory Gc_Mark
  imports Gc Sample_Heap
begin

section \<open>What the compactor marks\<close>

text \<open>
  The mark phase of collect_old marks exactly the objects reachable from the roots, and changes
  nothing else of the heap. The proof is the usual one: every marked object that has left the mark
  stack has only marked referents, so when the stack is empty no edge leads from a marked object to
  an unmarked one.
\<close>

inductive reach :: "heap \<Rightarrow> value list \<Rightarrow> nat \<Rightarrow> bool" for h :: heap and roots :: "value list" where
  root: "v \<in> set roots \<Longrightarrow> is_ptr v \<Longrightarrow> as_ptr v \<in> markable h \<Longrightarrow> reach h roots (as_ptr v)"
| step: "reach h roots x \<Longrightarrow> \<not> is_bytes (header h x) \<Longrightarrow> i < unat (num_slots h x) \<Longrightarrow>
     is_ptr (slot h x i) \<Longrightarrow> as_ptr (slot h x i) \<in> markable h \<Longrightarrow> reach h roots (as_ptr (slot h x i))"

inductive_cases reachE: "reach h roots x"

text \<open>Every pointer into a space, from a root or from a slot, leads to an object.\<close>

definition refs_ok :: "heap \<Rightarrow> value list \<Rightarrow> bool" where
  "refs_ok h roots \<longleftrightarrow> heap_ok h
     \<and> (\<forall>v \<in> set roots. is_ptr v \<longrightarrow> as_ptr v \<in> markable h \<longrightarrow> as_ptr v \<in> live h)
     \<and> (\<forall>x \<in> live h. \<not> is_bytes (header h x) \<longrightarrow> (\<forall>i < unat (num_slots h x).
          is_ptr (slot h x i) \<longrightarrow> as_ptr (slot h x i) \<in> markable h \<longrightarrow> as_ptr (slot h x i) \<in> live h))"

definition same_but_marks :: "heap \<Rightarrow> heap \<Rightarrow> bool" where
  "same_but_marks h h' \<longleftrightarrow> heap_ok h' \<and> live h' = live h \<and> young_from h' = young_from h
     \<and> young_to h' = young_to h \<and> old h' = old h
     \<and> (\<forall>y \<in> live h. num_slots h' y = num_slots h y \<and> is_bytes (header h' y) = is_bytes (header h y)
          \<and> (\<forall>i < unat (num_slots h y). slot h' y i = slot h y i))"

lemma same_but_marks_refl: "heap_ok h \<Longrightarrow> same_but_marks h h"
  by (simp add: same_but_marks_def)

lemma same_but_marks_markable: "same_but_marks h h' \<Longrightarrow> markable h' = markable h"
  by (simp add: same_but_marks_def markable_def is_young_def in_old_space_def)

lemma set_mark_frame:
  assumes s: "same_but_marks h h'" and x: "x \<in> live h"
  shows "same_but_marks h (set_mark h' x)"
proof -
  have ok: "heap_ok h'" and x': "x \<in> live h'" using s x by (simp_all add: same_but_marks_def)
  let ?w = "with_gc_bits (header h' x) (gc_bits (header h' x) OR GC_BIT_MARK)"
  note hw = header_write_ok [OF ok x' shape_bits_with_gc_bits [OF mark_fits]]
  note shape = header_write_shape [OF ok x' shape_bits_with_gc_bits [OF mark_fits]]
  have l: "live (set_header h' x ?w) = live h'" and ok': "heap_ok (set_header h' x ?w)" using hw by simp_all
  have n: "num_slots (set_header h' x ?w) y = num_slots h' y" if "y \<in> live h'" for y
    using same_shape_accessors(2) [OF shape [OF that]] .
  have b: "is_bytes (header (set_header h' x ?w) y) = is_bytes (header h' y)" for y
    using gc_field.outside_put [OF mark_fits, of "header h' x" "header h' x"]
    by (simp add: is_bytes_def header_set_header)
  have sl: "slot (set_header h' x ?w) y i = slot h' y i" if "y \<in> live h'" "i < unat (num_slots h' y)" for y i
    using slot_set_header [OF ok x' that] .
  show ?thesis
    using s l n b sl ok' unfolding same_but_marks_def set_mark_def [symmetric] by simp
qed

text \<open>The invariant of the closure; P says which children of the object being scanned are done.\<close>

definition mark_inv :: "heap \<Rightarrow> value list \<Rightarrow> nat set \<Rightarrow> marking \<Rightarrow> bool" where
  "mark_inv h roots black st \<longleftrightarrow> (let (h', stack) = st in
     same_but_marks h h' \<and> set stack \<subseteq> live h
     \<and> (\<forall>a \<in> set stack. marked h' a \<and> reach h roots a)
     \<and> (\<forall>a. marked h' a \<longrightarrow> a \<in> live h \<longrightarrow> reach h roots a)
     \<and> (\<forall>a \<in> live h. marked h' a \<longrightarrow> a \<notin> set stack \<longrightarrow> a \<in> black \<longrightarrow> \<not> is_bytes (header h a) \<longrightarrow>
          (\<forall>i < unat (num_slots h a). is_ptr (slot h a i) \<longrightarrow> as_ptr (slot h a i) \<in> markable h \<longrightarrow>
             marked h' (as_ptr (slot h a i)))))"

lemma mark_value_marks:
  "marked (fst (mark_value v st)) a \<longleftrightarrow>
     marked (fst st) a \<or> (is_ptr v \<and> as_ptr v \<in> markable (fst st) \<and> a = as_ptr v)"
  by (cases st) (auto simp: mark_value_def Let_def marked_set_mark markable_def)

lemma mark_value_inv:
  assumes i: "mark_inv h roots black st"
    and v: "is_ptr v \<Longrightarrow> as_ptr v \<in> markable h \<Longrightarrow> as_ptr v \<in> live h \<and> reach h roots (as_ptr v)"
  shows "mark_inv h roots black (mark_value v st)"
proof -
  obtain h' stack where st: "st = (h', stack)" by (cases st)
  have s: "same_but_marks h h'" using i by (simp add: mark_inv_def st)
  note mk = same_but_marks_markable [OF s]
  show ?thesis
  proof (cases "is_ptr v \<and> as_ptr v \<in> markable h \<and> \<not> marked h' (as_ptr v)")
    case True
    then have e: "mark_value v st = (set_mark h' (as_ptr v), as_ptr v # stack)"
      using mk by (auto simp: mark_value_def st Let_def markable_def)
    have l: "as_ptr v \<in> live h" "reach h roots (as_ptr v)" using v True by auto
    show ?thesis
      unfolding e mark_inv_def prod.case
      using i set_mark_frame [OF s l(1)] l by (auto simp: mark_inv_def st marked_set_mark)
  next
    case False
    then have "mark_value v st = st"
      using mk by (auto simp: mark_value_def st Let_def markable_def)
    with i show ?thesis by simp
  qed
qed

lemma mark_object_inv:
  assumes i: "mark_inv h roots black (h', obj # rest)" and b: "black = - {obj}" and r: "refs_ok h roots"
  shows "mark_inv h roots UNIV (mark_object obj (h', rest))"
proof -
  have s: "same_but_marks h h'" and o: "obj \<in> live h" "reach h roots obj"
    using i by (auto simp: mark_inv_def)
  have hd: "is_bytes (header h' obj) = is_bytes (header h obj)" "num_slots h' obj = num_slots h obj"
    using s o by (simp_all add: same_but_marks_def)
  have i0: "mark_inv h roots (- {obj}) (h', rest)"
    using i unfolding b mark_inv_def by auto
  show ?thesis
  proof (cases "is_bytes (header h obj)")
    case True
    with i0 hd show ?thesis by (auto simp: mark_object_def mark_inv_def)
  next
    case False
    let ?f = "\<lambda>i st. mark_value (slot (fst st) obj i) st"
    have "mark_inv h roots (- {obj}) (fold ?f [0..<k] (h', rest))
        \<and> (\<forall>j < k. is_ptr (slot h obj j) \<longrightarrow> as_ptr (slot h obj j) \<in> markable h \<longrightarrow>
             marked (fst (fold ?f [0..<k] (h', rest))) (as_ptr (slot h obj j)))"
      if "k \<le> unat (num_slots h obj)" for k
      using that
    proof (induction k)
      case 0
      with i0 show ?case by simp
    next
      case (Suc k)
      let ?st = "fold ?f [0..<k] (h', rest)"
      have I: "mark_inv h roots (- {obj}) ?st" and M: "\<forall>j < k. is_ptr (slot h obj j) \<longrightarrow>
          as_ptr (slot h obj j) \<in> markable h \<longrightarrow> marked (fst ?st) (as_ptr (slot h obj j))"
        using Suc by simp_all
      have sm: "same_but_marks h (fst ?st)" using I by (simp add: mark_inv_def split_beta)
      then have sl: "slot (fst ?st) obj k = slot h obj k"
        using o Suc.prems by (simp add: same_but_marks_def)
      have "mark_inv h roots (- {obj}) (?f k ?st)"
        unfolding sl
      proof (rule mark_value_inv [OF I])
        assume "is_ptr (slot h obj k)" "as_ptr (slot h obj k) \<in> markable h"
        then show "as_ptr (slot h obj k) \<in> live h \<and> reach h roots (as_ptr (slot h obj k))"
          using r o False Suc.prems reach.step [OF o(2) False] by (simp add: refs_ok_def)
      qed
      moreover have "marked (fst (?f k ?st)) (as_ptr (slot h obj j))"
        if "j < Suc k" "is_ptr (slot h obj j)" "as_ptr (slot h obj j) \<in> markable h" for j
        using M that same_but_marks_markable [OF sm] by (auto simp: mark_value_marks sl less_Suc_eq)
      ultimately show ?case by simp
    qed
    from this [of "unat (num_slots h obj)"]
    show ?thesis using False hd unfolding mark_object_def mark_inv_def by (auto simp: split_beta)
  qed
qed

lemma mark_close_inv:
  assumes "mark_inv h roots UNIV st" and "refs_ok h roots"
  shows "mark_inv h roots UNIV (mark_close st, [])"
  using assms
proof (induction st rule: mark_close.induct)
  case (1 st)
  show ?case
  proof (cases "snd st")
    case Nil
    then have "mark_close st = fst st" by (simp add: mark_close.simps)
    with 1(2) Nil show ?thesis by (cases st) simp
  next
    case (Cons obj rest)
    then have e: "mark_close st = mark_close (mark_object obj (fst st, rest))"
      by (subst mark_close.simps) simp
    have "mark_inv h roots (- {obj}) (fst st, obj # rest)"
      using 1(2) Cons by (cases st) (auto simp: mark_inv_def)
    from 1(1) [OF Cons mark_object_inv [OF this refl 1(3)] 1(3)] show ?thesis unfolding e .
  qed
qed

lemma mark_roots_inv:
  assumes "mark_inv h roots UNIV st" and "refs_ok h roots" and "set vs \<subseteq> set roots"
  shows "mark_inv h roots UNIV (fold mark_value vs st)
    \<and> (\<forall>v \<in> set vs. is_ptr v \<longrightarrow> as_ptr v \<in> markable h \<longrightarrow> marked (fst (fold mark_value vs st)) (as_ptr v))
    \<and> (\<forall>a. marked (fst st) a \<longrightarrow> marked (fst (fold mark_value vs st)) a)"
  using assms(1,3)
proof (induction vs arbitrary: st)
  case (Cons v vs)
  have "same_but_marks h (fst st)" using Cons.prems(1) by (simp add: mark_inv_def split_beta)
  note mk = same_but_marks_markable [OF this]
  have v: "v \<in> set roots" using Cons.prems(2) by simp
  have "mark_inv h roots UNIV (mark_value v st)"
    by (rule mark_value_inv [OF Cons.prems(1)])
       (use assms(2) v reach.root [OF v] in \<open>auto simp: refs_ok_def\<close>)
  from Cons.IH [OF this] Cons.prems(2) show ?case by (auto simp: mark_value_marks mk)
qed simp

lemma mark_close_keeps: "marked (fst st) a \<Longrightarrow> marked (mark_close st) a"
proof (induction st rule: mark_close.induct)
  case (1 st)
  have k: "marked (fst s) a \<Longrightarrow> marked (fst (mark_object obj s)) a" for s obj
  proof -
    have "marked (fst s) a \<Longrightarrow> marked (fst (fold (\<lambda>i st. mark_value (slot (fst st) obj i) st) is s)) a" for "is"
      by (induction "is" arbitrary: s) (simp_all add: mark_value_marks)
    then show "marked (fst s) a \<Longrightarrow> marked (fst (mark_object obj s)) a" by (simp add: mark_object_def Let_def)
  qed
  show ?case
  proof (cases "snd st")
    case Nil
    then show ?thesis using 1(2) by (simp add: mark_close.simps)
  next
    case (Cons obj rest)
    with 1(1) [OF Cons k] 1(2) show ?thesis by (subst mark_close.simps) simp
  qed
qed

lemma mark_from_inv:
  assumes "refs_ok h roots" and "\<forall>a \<in> live h. \<not> marked h a"
  shows "mark_inv h roots UNIV (mark_from h roots, [])"
proof -
  have "mark_inv h roots UNIV (h, [])"
    using assms same_but_marks_refl [of h] by (auto simp: mark_inv_def refs_ok_def)
  from mark_roots_inv [OF this assms(1) subset_refl] show ?thesis
    unfolding mark_from_def by (intro mark_close_inv [OF _ assms(1)]) blast
qed

text \<open>
  C2. The mark phase is exact: from a heap with no marks in which every reference leads to an object,
  it marks precisely the objects reachable from the roots through pointer slots, leaves every size,
  slot and space as it was, and keeps the heap well formed.
\<close>

theorem mark_phase_exact:
  assumes "refs_ok h roots" and "\<forall>a \<in> live h. \<not> marked h a"
  shows "same_but_marks h (mark_from h roots)
    \<and> (\<forall>a \<in> live h. marked (mark_from h roots) a = reach h roots a)"
proof -
  let ?st = "fold mark_value roots (h, [])"
  have ok: "heap_ok h" using assms(1) by (simp add: refs_ok_def)
  have i0: "mark_inv h roots UNIV (h, [])"
    using assms(2) same_but_marks_refl [OF ok] by (auto simp: mark_inv_def)
  note r = mark_roots_inv [OF i0 assms(1) subset_refl]
  note c = mark_from_inv [OF assms]
  have rt: "marked (mark_from h roots) (as_ptr v)" if "v \<in> set roots" "is_ptr v" "as_ptr v \<in> markable h" for v
    unfolding mark_from_def using r that by (intro mark_close_keeps) blast
  have "x \<in> live h \<and> marked (mark_from h roots) x" if "reach h roots x" for x
    using that
  proof induction
    case (root v)
    then show ?case using assms(1) rt by (auto simp: refs_ok_def)
  next
    case (step x i)
    then have "as_ptr (slot h x i) \<in> live h" using assms(1) by (simp add: refs_ok_def)
    with step c show ?case by (auto simp: mark_inv_def)
  qed
  with c show ?thesis by (auto simp: mark_inv_def)
qed

definition mark_heap :: heap where
  "mark_heap = set_slots (pool 3) [(0, 0, pool_ref 1)]"

lemma mark_heap_facts:
  shows "refs_ok mark_heap [pool_ref 0]" "\<forall>a \<in> live mark_heap. \<not> marked mark_heap a"
    "reach mark_heap [pool_ref 0] (pool_obj 1)" "pool_obj 1 \<in> live mark_heap"
proof -
  have p: "pool_ok 3 (pool 3)" by (rule pool_ok) simp
  have "heap_ok mark_heap \<and> live mark_heap = live (pool 3) \<and> old mark_heap = old (pool 3)
      \<and> young_from mark_heap = young_from (pool 3) \<and> ssb mark_heap = ssb (pool 3)
      \<and> (\<forall>i < 3. header mark_heap (pool_obj i) = header (pool 3) (pool_obj i)
         \<and> unat (num_slots mark_heap (pool_obj i)) = 8
         \<and> (\<forall>j < 8. slot mark_heap (pool_obj i) j
               = last_write [(0, 0, pool_ref 1)] i j (slot (pool 3) (pool_obj i) j)))"
    unfolding mark_heap_def using p by (intro set_slots_ok) (auto simp: pool_ok_def)
  then have h: "heap_ok mark_heap" "live mark_heap = pool_obj ` {..<3}" "old mark_heap = (old small_heap)\<lparr>sp_alloc := 27\<rparr>"
    "young_from mark_heap = young_from small_heap"
    and sl: "\<And>i j. i < 3 \<Longrightarrow> j < 8 \<Longrightarrow> slot mark_heap (pool_obj i) j = (if i = 0 \<and> j = 0 then pool_ref 1 else 1)"
    and sh: "\<And>i. i < 3 \<Longrightarrow> unat (num_slots mark_heap (pool_obj i)) = 8"
      "\<And>i. i < 3 \<Longrightarrow> gc_bits (header mark_heap (pool_obj i)) = 0"
      "\<And>i. i < 3 \<Longrightarrow> hdr_format (header mark_heap (pool_obj i)) = FMT_FIXED"
    using p by (auto simp: pool_ok_def)
  have nb: "\<not> is_bytes (header mark_heap (pool_obj i))" if "i < 3" for i
    using sh(3) [OF that] by (simp add: is_bytes_def)
  have i1: "\<not> is_ptr (1 :: u64)" by (simp add: is_ptr_def)
  note pp = pool_obj_ptr
  have mk: "pool_obj i \<in> markable mark_heap" if "i < 3" for i
    using that by (simp add: markable_def in_old_space_def space_contains_def space_limit_def h small_heap_def
        new_heap_def pool_obj_def)
  show "refs_ok mark_heap [pool_ref 0]"
    unfolding refs_ok_def by (auto simp: h sl sh i1 pp split: if_splits)
  show "\<forall>a \<in> live mark_heap. \<not> marked mark_heap a" by (auto simp: h marked_def sh)
  show "pool_obj 1 \<in> live mark_heap" by (simp add: h)
  have r0: "reach mark_heap [pool_ref 0] (pool_obj 0)"
    using reach.root [of "pool_ref 0" "[pool_ref 0]" mark_heap] mk pp by simp
  have s0: "slot mark_heap (pool_obj 0) 0 = pool_ref 1" using sl [of 0 0] by simp
  have "reach mark_heap [pool_ref 0] (as_ptr (slot mark_heap (pool_obj 0) 0))"
    by (rule reach.step [OF r0 nb]) (simp_all add: sh s0 pp mk)
  then show "reach mark_heap [pool_ref 0] (pool_obj 1)" by (simp add: s0 pp)
qed

lemma mark_phase_exact_witness: "marked (mark_from mark_heap [pool_ref 0]) (pool_obj 1)"
  using mark_phase_exact [OF mark_heap_facts(1,2)] mark_heap_facts(3,4) by blast

end
