(* ===== verification/Gc_Compact.thy ===== *)
theory Gc_Compact
  imports Gc_Mark
begin

section \<open>What the compactor moves\<close>

text \<open>
  The plan of collect_old and the moves that follow it. Without an overflow size word the moves slide
  every marked object to the left and keep its slots and its header up to the collector's bits. The
  plan counts the overflow word of an object twice, because the footprint it adds includes it.
\<close>

subsection \<open>The plan\<close>

lemma storage_start_gap:
  "well_placed h p obj \<Longrightarrow> obj - storage_start h obj = (if has_overflow_word h obj then 8 else 0)"
  by (auto simp: well_placed_def storage_start_def)

lemma plan_moves_end:
  "region h p os lim \<Longrightarrow> snd (plan_moves h os q)
     = q + (\<Sum>a \<leftarrow> filter (marked h) os. footprint h a)
         + 8 * length (filter (\<lambda>a. marked h a \<and> has_overflow_word h a) os)"
proof (induction os arbitrary: p q)
  case (Cons a os)
  then have "well_placed h p a" and r: "region h (obj_end h a) os lim" by auto
  with Cons.IH [OF r] show ?case
    by (simp add: Let_def storage_start_gap case_prod_unfold)
qed simp

lemma objects_region: "heap_ok h \<Longrightarrow> region h (sp_base (old h)) (objects h (old h)) (space_top (old h))"
  by (simp add: heap_ok_def parsable_def)

text \<open>
  C26. The place the plan ends at is the start of old space plus the footprints of the marked objects
  plus eight bytes for every marked object with an overflow size word. So when every object of old
  space is marked and one has an overflow word, the plan ends past the words in use.
\<close>

theorem compaction_plan_end:
  assumes "heap_ok h"
  shows "snd (plan_moves h (objects h (old h)) (sp_base (old h)))
      = sp_base (old h) + (\<Sum>a \<leftarrow> filter (marked h) (objects h (old h)). footprint h a)
        + 8 * length (filter (\<lambda>a. marked h a \<and> has_overflow_word h a) (objects h (old h)))
    \<and> ((\<forall>a \<in> set (objects h (old h)). marked h a) \<longrightarrow> (\<exists>a \<in> set (objects h (old h)). has_overflow_word h a) \<longrightarrow>
         space_top (old h) < snd (plan_moves h (objects h (old h)) (sp_base (old h))))"
proof -
  note r = objects_region [OF assms]
  have "space_top (old h) < snd (plan_moves h (objects h (old h)) (sp_base (old h)))"
    if all: "\<forall>a \<in> set (objects h (old h)). marked h a" and ov: "\<exists>a \<in> set (objects h (old h)). has_overflow_word h a"
  proof -
    have "filter (marked h) (objects h (old h)) = objects h (old h)" using all by simp
    moreover have "filter (\<lambda>a. marked h a \<and> has_overflow_word h a) (objects h (old h)) \<noteq> []"
      using all ov by (auto simp: filter_empty_conv)
    ultimately show ?thesis
      using plan_moves_end [OF r] region_length [OF r] by simp
  qed
  with plan_moves_end [OF r] show ?thesis by blast
qed

definition big_heap :: heap where
  "big_heap = (let (a, h) = the (alloc_fixed_old small_heap 17 300 1) in set_mark h a)"

lemma big_heap_facts:
  "heap_ok big_heap" "objects big_heap (old big_heap) = [12296]" "marked big_heap 12296"
  "has_overflow_word big_heap 12296" "sp_base (old big_heap) = 12288"
proof -
  have "\<exists>h'. alloc_fixed_old small_heap 17 300 1 = Some (12296, h') \<and> sp_base (old h') = 12288
      \<and> young_from h' = young_from small_heap"
    by (simp add: alloc_fixed_old_def alloc_in_old_def alloc_in_def alloc_words_def small_heap_def
        new_heap_def space_top_def fill_slots_eq count_old_def)
  then obtain h' where h': "alloc_fixed_old small_heap 17 300 1 = Some (12296, h')"
    "sp_base (old h') = 12288" "young_from h' = young_from small_heap" by blast
  note ct = fixed_old_alloc.contract [OF small_heap_ok class_ok_17 h'(1)]
  have y: "\<not> is_young h' 12296"
    by (simp add: h' is_young_def space_contains_def space_limit_def small_heap_def new_heap_def)
  have o: "objects h' (old h') = [12296]"
    using ct(2) y by (auto simp: allocated_def small_heap_def new_heap_def objects_empty)
  have l: "12296 \<in> live h'" using ct(4) by simp
  have n: "unat (num_slots h' 12296) = 300" using ct(2) by (simp add: allocated_def)
  have ov: "has_overflow_word h' 12296"
  proof (rule ccontr)
    assume "\<not> has_overflow_word h' 12296"
    then have "num_slots h' 12296 = num_slots_field (header h' 12296)"
      by (simp add: num_slots_def has_overflow_word_def Let_def)
    moreover have "unat (num_slots_field (header h' 12296)) \<le> 255"
      using word_and_le1 [of _ "255 :: u64"] by (simp add: num_slots_field_def hmask_def word_le_nat_alt)
    ultimately show False using n by simp
  qed
  have b: "big_heap = set_mark h' 12296" by (simp add: big_heap_def h'(1))
  note sh = shape_bits_with_gc_bits [OF mark_fits, of "header h' 12296" "header h' 12296"]
  note w = header_write_ok [OF ct(1) l sh]
  show "heap_ok big_heap" "objects big_heap (old big_heap) = [12296]"
    using w o unfolding b set_mark_def by simp_all
  show "marked big_heap 12296" by (simp add: b marked_set_mark)
  show "sp_base (old big_heap) = 12288" by (simp add: b h')
  show "has_overflow_word big_heap 12296"
    using ov sh by (simp add: b set_mark_def has_overflow_word_def header_set_header shape_bits_def)
qed

lemma compaction_plan_end_witness:
  "space_top (old big_heap) < snd (plan_moves big_heap [12296] 12288)"
  using compaction_plan_end [OF big_heap_facts(1)] by (simp add: big_heap_facts)

subsection \<open>The moves\<close>

definition marks_cleared :: "header \<Rightarrow> header \<Rightarrow> bool" where
  "marks_cleared w w' \<longleftrightarrow> (\<exists>g. gc_fits g \<and> g AND GC_BIT_MARK = 0 \<and> w' = with_gc_bits w g)"

lemma gc_bits_fits: "gc_fits (gc_bits w)"
  by (rule gc_field.fits_get)

lemma remembered_fits: "gc_fits GC_BIT_REMEMBERED"
  by (simp add: gc_fits_def hmask_def)

lemma move_object_effect:
  assumes no: "\<not> has_overflow_word h obj" and h'_def: "h' = move_object (obj, new) h"
  shows "marks_cleared (header h obj) (header h' new)"
    and "a \<noteq> new \<Longrightarrow> mem h' a = (if new \<le> a \<and> a < new + footprint h obj then mem h (obj + (a - new)) else mem h a)"
    and "young_from h' = young_from h" and "young_to h' = young_to h" and "old h' = old h"
proof -
  have f: "8 * (footprint h obj div 8) = footprint h obj" "0 < footprint h obj"
    using no by (simp_all add: footprint_def)
  have s: "storage_start h obj = obj" using no by (simp add: storage_start_def)
  let ?h1 = "h\<lparr>mem := copy_words (mem h) obj new (footprint h obj div 8)\<rparr>"
  have hw: "header ?h1 new = header h obj"
    using f by (simp add: header_def heap_word_def copy_words_def)
  let ?bits = "gc_bits (header h obj) AND NOT (GC_BIT_MARK OR GC_BIT_REMEMBERED)"
  let ?g = "if object_points_young ?h1 new then ?bits OR GC_BIT_REMEMBERED else ?bits"
  have g: "gc_fits ?g" using gc_fits_and [OF gc_bits_fits] gc_fits_or remembered_fits by simp
  have "?g AND GC_BIT_MARK = 0"
    by (rule bit_word_eqI) (auto simp: bit_simps gr0_conv_Suc split: nat.splits, metis bit_numeral_Bit1_0 gr0_conv_Suc not0_implies_Suc)
  moreover have "header h' new = with_gc_bits (header h obj) ?g"
    by (simp add: h'_def move_object_def Let_def s hw header_set_header)
  ultimately show "marks_cleared (header h obj) (header h' new)"
    using g unfolding marks_cleared_def by blast
  show "a \<noteq> new \<Longrightarrow> mem h' a = (if new \<le> a \<and> a < new + footprint h obj then mem h (obj + (a - new)) else mem h a)"
    using f by (simp add: h'_def move_object_def Let_def s set_header_def copy_words_def)
  show "young_from h' = young_from h" "young_to h' = young_to h" "old h' = old h"
    by (simp_all add: h'_def move_object_def Let_def)
qed

definition moved :: "heap \<Rightarrow> heap \<Rightarrow> nat \<Rightarrow> nat \<Rightarrow> bool" where
  "moved h g obj new \<longleftrightarrow> marks_cleared (header h obj) (header g new)
     \<and> (\<forall>b. 0 < b \<longrightarrow> b < footprint h obj \<longrightarrow> mem g (new + b) = mem h (obj + b))"

lemma moves_keep:
  assumes "region h p os lim" and "q \<le> p" and "\<forall>a \<in> set os. marked h a \<longrightarrow> \<not> has_overflow_word h a"
    and "\<forall>a \<ge> p. mem g a = mem h a"
  shows "(\<forall>a < q. mem (fold move_object (fst (plan_moves h os q)) g) a = mem g a)
    \<and> (\<forall>(obj, new) \<in> set (fst (plan_moves h os q)). q \<le> new \<and> new \<le> obj
         \<and> moved h (fold move_object (fst (plan_moves h os q)) g) obj new)"
  using assms
proof (induction os arbitrary: p q g)
  case (Cons a os)
  have wp: "well_placed h p a" and r: "region h (obj_end h a) os lim" using Cons.prems(1) by auto
  have end_le: "p \<le> obj_end h a" using well_placed_bounds [OF wp] by simp
  show ?case
  proof (cases "marked h a")
    case False
    have "\<forall>x \<ge> obj_end h a. mem g x = mem h x" using Cons.prems(4) end_le by simp
    from Cons.IH [OF r _ _ this, of q] Cons.prems(2,3) end_le False show ?thesis by simp
  next
    case True
    let ?f = "footprint h a"
    have no: "\<not> has_overflow_word h a" using Cons.prems(3) True by simp
    then have a: "a = p" and e: "obj_end h a = p + ?f" and f: "0 < ?f"
      using wp by (auto simp: well_placed_def obj_end_def storage_start_def footprint_def)
    have hd: "header g p = header h p" using Cons.prems(4) by (simp add: header_def heap_word_def)
    have no': "\<not> has_overflow_word g p" and f': "footprint g p = ?f"
      using no hd by (simp_all add: a has_overflow_word_def footprint_def num_slots_def Let_def)
    define g1 where "g1 = move_object (p, q) g"
    note m = move_object_effect [OF no' g1_def, unfolded f' hd]
    have "\<forall>x \<ge> obj_end h a. mem g1 x = mem h x"
    proof (intro allI impI)
      fix x assume x: "obj_end h a \<le> x"
      then have "mem g1 x = mem g x" using e f Cons.prems(2) by (subst m(2)) simp_all
      then show "mem g1 x = mem h x" using x e Cons.prems(4) by simp
    qed
    note IH = Cons.IH [OF r _ _ this, of "q + ?f"]
    have plan: "fst (plan_moves h (a # os) q) = (a, q) # fst (plan_moves h os (q + ?f))"
      using True storage_start_gap [OF wp] no by (simp add: Let_def case_prod_unfold)
    define g2 where "g2 = fold move_object (fst (plan_moves h os (q + ?f))) g1"
    have low: "mem g2 x = mem g1 x" if "x < q + ?f" for x
      using IH Cons.prems(2,3) e that by (simp add: g2_def)
    have rest: "q + ?f \<le> new \<and> new \<le> obj \<and> moved h g2 obj new"
      if "(obj, new) \<in> set (fst (plan_moves h os (q + ?f)))" for obj new
      using IH Cons.prems(2,3) e that by (auto simp: g2_def)
    have "mem g2 x = mem g x" if "x < q" for x
      using low m(2) [of x] that by simp
    moreover have "moved h g2 a q"
      unfolding moved_def
    proof (intro conjI allI impI)
      show "marks_cleared (header h a) (header g2 q)"
        using m(1) low [of q] f by (simp add: a header_def heap_word_def)
      fix b assume b: "0 < b" "b < ?f"
      then have "mem g2 (q + b) = mem g (p + b)"
        using low [of "q + b"] m(2) [of "q + b"] by simp
      then show "mem g2 (q + b) = mem h (a + b)" using Cons.prems(4) by (simp add: a)
    qed
    moreover have "fold move_object (fst (plan_moves h (a # os) q)) g = g2"
      unfolding plan g2_def g1_def by (simp add: a)
    ultimately show ?thesis
      using rest Cons.prems(2) unfolding plan by (auto dest: add_leD1 simp: a)
  qed
qed simp

lemma marks_cleared_fields:
  assumes "marks_cleared w w'"
  shows "num_slots_field w' = num_slots_field w" and "hdr_class_index w' = hdr_class_index w"
    and "hdr_format w' = hdr_format w" and "hdr_hash w' = hdr_hash w"
proof -
  obtain g where g: "gc_fits g" "w' = with_gc_bits w g" using assms by (auto simp: marks_cleared_def)
  show "num_slots_field w' = num_slots_field w" "hdr_class_index w' = hdr_class_index w"
    "hdr_format w' = hdr_format w" "hdr_hash w' = hdr_hash w"
    using gc_field.outside_put [OF g(1), of w] by (simp_all add: g(2))
qed


definition slid_heap :: heap where
  "slid_heap = set_mark (pool 2) (pool_obj 1)"


end
