(* ===== verification/Full_Collection.thy ===== *)
theory Full_Collection
  imports Scavenge_Correct Gc_Compact
begin

section \<open>Collections that cannot fail\<close>

text \<open>
  A machine with no young object whose roots and slots all lead to objects, with no mark and no
  overflow size word, is one either collector runs on to its end: the scavenger leaves its objects
  where they are, and the plan of the compactor stays within the words in use.
\<close>

definition settled :: "vm \<Rightarrow> bool" where
  "settled vm \<longleftrightarrow> gc_ready vm \<and> young_objs (vm_heap vm) = {}
     \<and> (\<forall>v \<in> set (root_values vm). live_value (vm_heap vm) v)
     \<and> (\<forall>x \<in> live (vm_heap vm). \<not> marked (vm_heap vm) x \<and> \<not> has_overflow_word (vm_heap vm) x
          \<and> (\<not> is_bytes (header (vm_heap vm) x) \<longrightarrow>
               (\<forall>i < unat (num_slots (vm_heap vm) x). live_value (vm_heap vm) (slot (vm_heap vm) x i))))"

subsection \<open>What marking and moving leave alone\<close>

definition same_size_fields :: "heap \<Rightarrow> heap \<Rightarrow> bool" where
  "same_size_fields h h' \<longleftrightarrow> (\<forall>x. has_overflow_word h' x = has_overflow_word h x)"

lemma mark_value_size: "same_size_fields h (fst st) \<Longrightarrow> same_size_fields h (fst (mark_value v st))"
  using gc_field.outside_put [OF mark_fits]
  by (cases st) (auto simp: mark_value_def Let_def same_size_fields_def has_overflow_word_def set_mark_def header_set_header)

lemma mark_values_size:
  "same_size_fields h (fst st) \<Longrightarrow> same_size_fields h (fst (fold (\<lambda>x st. mark_value (f x st) st) xs st))"
  by (induction xs arbitrary: st) (simp_all add: mark_value_size)

lemma mark_object_size: "same_size_fields h (fst st) \<Longrightarrow> same_size_fields h (fst (mark_object obj st))"
  by (simp add: mark_object_def Let_def mark_values_size)

lemma mark_close_size: "same_size_fields h (fst st) \<Longrightarrow> same_size_fields h (mark_close st)"
proof (induction st rule: mark_close.induct)
  case (1 st)
  show ?case
  proof (cases "snd st")
    case Nil
    then have "mark_close st = fst st" by (subst mark_close.simps) simp
    then show ?thesis using 1(2) by simp
  next
    case (Cons obj rest)
    then have "mark_close st = mark_close (mark_object obj (fst st, rest))" by (subst mark_close.simps) simp
    with 1(1) [OF Cons mark_object_size] 1(2) show ?thesis by simp
  qed
qed

lemma mark_from_size: "has_overflow_word (mark_from h roots) x = has_overflow_word h x"
  using mark_close_size [of h "fold mark_value roots (h, [])"] mark_values_size [of h "(h, [])" "\<lambda>v st. v" roots]
  by (simp add: mark_from_def same_size_fields_def)

lemma fold_old: "(\<And>x h. old (f x h) = old h) \<Longrightarrow> old (fold f xs h) = old h"
  by (induction xs arbitrary: h) simp_all

lemma fix_slot_old: "old (fix_slot fw obj i h) = old h"
  by (simp add: fix_slot_def Let_def set_slot_raw_def split: option.split)

lemma sliding_old:
  "old (fix_slots fw obj h) = old h" "old (move_object mv h) = old h" "old (clear_mark obj h) = old h"
  by (simp_all add: fix_slots_def fold_old fix_slot_old move_object_def clear_mark_def set_header_def Let_def
      case_prod_unfold)

subsection \<open>The plan fits\<close>

lemma plan_within:
  assumes ok: "heap_ok h" and no: "\<forall>a \<in> set (objects h (old h)). \<not> has_overflow_word h a"
  shows "(snd (plan_moves h (objects h (old h)) (sp_base (old h))) - sp_base (old h)) div 8 \<le> sp_alloc (old h)"
proof -
  note r = objects_region [OF ok]
  have "(\<Sum>a \<leftarrow> filter (marked h) (objects h (old h)). footprint h a) \<le> (\<Sum>a \<leftarrow> objects h (old h). footprint h a)"
    by (rule sum_list_filter_le_nat)
  moreover have "filter (\<lambda>a. marked h a \<and> has_overflow_word h a) (objects h (old h)) = []"
    using no by (auto simp: filter_empty_conv)
  ultimately show ?thesis
    using plan_moves_end [OF r, of "sp_base (old h)"] region_length [OF r] by (simp add: space_top_def)
qed

lemma region_overflow:
  "region h p os t \<Longrightarrow> region h' p os t' \<Longrightarrow> \<forall>a \<in> set os. num_slots h' a = num_slots h a \<Longrightarrow>
   a \<in> set os \<Longrightarrow> has_overflow_word h' a = has_overflow_word h a"
proof (induction os arbitrary: p)
  case (Cons b os)
  then have w: "well_placed h p b" "well_placed h' p b" by auto
  have e: "obj_end h' b = obj_end h b" using obj_end_eq [OF w(1)] obj_end_eq [OF w(2)] Cons.prems(3) by simp
  show ?case
  proof (cases "a = b")
    case True
    have "has_overflow_word g b \<longleftrightarrow> b \<noteq> p" if "well_placed g p b" for g
      using that unfolding well_placed_def by (cases "has_overflow_word g b") simp_all
    from this [OF w(1)] this [OF w(2)] True show ?thesis by simp
  next
    case False
    with Cons.IH [of "obj_end h b"] Cons.prems e show ?thesis by simp
  qed
qed simp

subsection \<open>The two collections\<close>

lemma settled_scavenge:
  assumes s: "settled vm"
  shows "\<exists>vm'. collect_young vm = Ok vm' \<and> refs_ok (vm_heap vm') (root_values vm')
    \<and> (\<forall>x \<in> live (vm_heap vm'). \<not> marked (vm_heap vm') x \<and> \<not> has_overflow_word (vm_heap vm') x)"
proof -
  let ?h = "vm_heap vm"
  have r: "gc_ready vm" and ok: "heap_ok ?h" using s by (simp_all add: settled_def gc_ready_def gc_heap_def)
  from collect_young_result [OF r] obtain vm' m act st xs where
    c: "collect_young vm = Ok vm'" "closed_scav vm m act st" "roots_fwd ?h m vm vm'"
    "rechecked (flip_spaces (vm_heap (sv_vm st))) xs (vm_heap vm')" by blast
  let ?h' = "vm_heap vm'" and ?g = "flip_spaces (vm_heap (sv_vm st))"
  have i: "sinv ?h m st" using c(2) by (simp add: closed_scav_def)
  have sg: "same_graph ?h m ?h'" using rechecked_same_graph [OF c(4) closed_relocated(2) [OF r c(2)]] .
  have ok': "heap_ok ?h'" "heap_ok ?g" and l: "live ?h' = old_objs ?h" "live ?g = live ?h'"
    and g: "\<forall>x \<in> old_objs ?h. header ?g x = header ?h x"
    using c(4) i sg s by (auto simp: rechecked_def sinv_def copies_def Let_def same_graph_def settled_def)
  note lv = fwd_live [OF ok i sg]
  have slots: "live_value ?h' (slot ?h' x j)" if x: "x \<in> live ?h'" "\<not> is_bytes (header ?h' x)" "j < unat (num_slots ?h' x)" for x j
  proof -
    have "place ?h m x = Some x" using x(1) l by (simp add: place_def)
    then have rl: "relocated ?h m ?h' x x" using sg by (simp add: same_graph_def)
    then have b: "\<not> is_bytes (header ?h x)" "j < unat (num_slots ?h x)"
      using x by (simp_all add: relocated_def same_header_def is_bytes_def)
    moreover have "x \<in> live ?h" using x(1) unfolding l(1) by (simp add: live_def)
    ultimately have "live_value ?h (slot ?h x j)" using s by (simp add: settled_def)
    moreover have "fwd ?h m (slot ?h x j) (slot ?h' x j)" using b rl by (simp add: relocated_def)
    ultimately show ?thesis using lv by blast
  qed
  have roots: "\<forall>v \<in> set (root_values vm'). live_value ?h' v"
    using fwds_all [OF roots_fwd_values [OF c(3)], where P = "live_value ?h" and Q = "live_value ?h'"] lv s
    by (simp add: settled_def)
  have plain: "\<not> marked ?h' x \<and> \<not> has_overflow_word ?h' x" if x: "x \<in> live ?h'" for x
  proof -
    have o: "x \<in> old_objs ?h'" using x l(1) i c(4) by (auto simp: sinv_def copies_def rechecked_def Let_def)
    have xl: "x \<in> live ?h" using x unfolding l(1) by (simp add: live_def)
    have e: "old ?h' = old ?g" "objects ?h' (old ?h') = objects ?g (old ?g)" using c(4) by (simp_all add: rechecked_def)
    have "\<forall>a \<in> set (objects ?g (old ?g)). num_slots ?h' a = num_slots ?g a"
      using c(4) by (auto simp: rechecked_def live_def)
    then have "has_overflow_word ?h' x = has_overflow_word ?g x"
      using region_overflow [OF objects_region [OF ok'(2)], of ?h' _ x] objects_region [OF ok'(1)] o e by simp
    then show ?thesis
      using g x l s xl c(4) by (simp add: settled_def marked_def has_overflow_word_def rechecked_def)
  qed
  have "refs_ok ?h' (root_values vm')" using ok' roots slots by (simp add: refs_ok_def live_value_def)
  with c(1) plain show ?thesis by blast
qed

lemma settled_collect_old:
  assumes s: "settled vm"
  shows "\<exists>vm'. collect_old vm = Ok vm'"
proof -
  from settled_scavenge [OF s] obtain vm1 where c: "collect_young vm = Ok vm1"
    "refs_ok (vm_heap vm1) (root_values vm1)"
    "\<forall>x \<in> live (vm_heap vm1). \<not> marked (vm_heap vm1) x \<and> \<not> has_overflow_word (vm_heap vm1) x" by blast
  define vm2 where "vm2 = (begin_collection vm1)\<lparr>compact_count := compact_count vm1 + 1\<rparr>"
  define h2 where "h2 = mark_from (vm_heap vm2) (root_values vm2)"
  have vm2: "vm_heap vm2 = vm_heap vm1" "root_values vm2 = root_values vm1"
    by (simp_all add: vm2_def begin_collection_def root_values_def)
  have "same_but_marks (vm_heap vm1) h2"
    using mark_from_inv [OF c(2)] c(3) by (simp add: mark_inv_def h2_def vm2)
  then have h2: "heap_ok h2" "live h2 = live (vm_heap vm1)" by (simp_all add: same_but_marks_def)
  have "\<forall>a \<in> set (objects h2 (old h2)). \<not> has_overflow_word h2 a"
    using c(3) h2(2) mark_from_size [of "vm_heap vm1" "root_values vm1"] by (auto simp: h2_def vm2 live_def)
  note fits = plan_within [OF h2(1) this, unfolded objects_def]
  show ?thesis
    unfolding collect_old_def c(1) rbind.simps vm2_def [symmetric] Let_def h2_def [symmetric]
    using fits by (simp add: case_prod_unfold fold_old sliding_old not_less [symmetric])
qed

end
