(* ===== verification/Boot_State.thy ===== *)
theory Boot_State
  imports Boot_Facts Full_Collection
begin

section \<open>The machine after the bootstrap\<close>

text \<open>
  The bootstrap stage by stage, and the theorem that the machine it makes is one the collectors and
  the scheduler can start from.
\<close>

definition refs :: "heap \<Rightarrow> value list \<Rightarrow> bool" where
  "refs h vs \<longleftrightarrow> (\<forall>v \<in> set vs. is_ptr v \<and> as_ptr v \<in> live h)"

lemma refs_grows: "refs h vs \<Longrightarrow> grows n W h h' \<Longrightarrow> refs h' vs"
  by (auto simp: refs_def grows_def)

lemma refs_simps [simp]:
  "refs h []" "refs h (v # vs) \<longleftrightarrow> is_ptr v \<and> as_ptr v \<in> live h \<and> refs h vs"
  "refs h (vs @ ws) \<longleftrightarrow> refs h vs \<and> refs h ws"
  by (auto simp: refs_def)

lemma refs_update: "refs h vs \<Longrightarrow> is_ptr v \<Longrightarrow> as_ptr v \<in> live h \<Longrightarrow> refs h (vs[i := v])"
  using set_update_subset_insert [of vs i v] by (auto simp: refs_def)

lemma refs_live_value: "refs h vs \<Longrightarrow> v \<in> set vs \<Longrightarrow> live_value h v"
  by (auto simp: refs_def live_value_def)

lemma refs_replicate: "is_ptr v \<Longrightarrow> as_ptr v \<in> live h \<Longrightarrow> refs h (replicate n v)"
  by (auto simp: refs_def)

lemma fresh_live_ptr:
  assumes "grows n W h h'" and "fresh_in h h' x c f k v"
  shows "as_ptr (from_ptr x) = x" and "is_ptr (from_ptr x)" and "x \<in> live h'" and "x \<notin> live h"
  using fresh_ptr [OF grows_tidy [OF assms(1)] assms(2)] assms(2) by (auto simp: fresh_in_def)

lemma class_oks:
  "class_ok CLASS_UNDEFINED_OBJECT" "class_ok CLASS_TRUE" "class_ok CLASS_FALSE" "class_ok CLASS_ARRAY"
  "class_ok CLASS_LINKED_LIST" "class_ok CLASS_PROCESSOR_SCHEDULER" "class_ok CLASS_SEMAPHORE"
  by (simp_all add: class_ok_def hmask_def)

lemma words_of: "obj_words 0 = 1" "obj_words 2 = 3" "obj_words 3 = 4" "obj_words 8 = 9" "obj_words 16 = 17"
  by (simp_all add: obj_words_def)

subsection \<open>The well-known objects\<close>

lemma well_known_ok:
  assumes t: "tidy (vm_heap vm)" and r: "3 \<le> old_room (vm_heap vm)"
  obtains h s where "make_well_known vm = Ok (vm\<lparr>vm_heap := h, specials := s,
      class_table := replicate (unat FIRST_UNRESERVED_CLASS_INDEX) (s ! SPECIAL_NIL)\<rparr>)"
    and "grows 3 {} (vm_heap vm) h" and "refs h s" and "length s = SPECIAL_OBJECTS_COUNT"
    and "distinct [s ! SPECIAL_NIL, s ! SPECIAL_TRUE, s ! SPECIAL_FALSE]"
proof -
  let ?h = "vm_heap vm"
  obtain n h1 where n: "expect_old vm (\<lambda>h. alloc_fixed_old h CLASS_UNDEFINED_OBJECT 0 0) = Ok (n, vm\<lparr>vm_heap := h1\<rparr>)"
    "grows (obj_words 0) {} ?h h1" "fresh_in ?h h1 n CLASS_UNDEFINED_OBJECT FMT_FIXED 0 0" "from_ptr_checked n = Ok (from_ptr n)"
    by (rule expect_fixed [OF t, of 0 0 CLASS_UNDEFINED_OBJECT]) (use r class_oks in \<open>simp_all add: words_of\<close>)
  let ?vm1 = "vm\<lparr>vm_heap := h1\<rparr>"
  have g1: "grows 1 {} ?h h1" "tidy h1" using n(2) grows_tidy by (simp_all add: words_of)
  have r1: "2 \<le> old_room h1" using grows_room [OF g1(1), of 2] r by simp
  obtain t h2 where t': "expect_old ?vm1 (\<lambda>h. alloc_fixed_old h CLASS_TRUE 0 (from_ptr n)) = Ok (t, ?vm1\<lparr>vm_heap := h2\<rparr>)"
    "grows (obj_words 0) {} (vm_heap ?vm1) h2" "fresh_in (vm_heap ?vm1) h2 t CLASS_TRUE FMT_FIXED 0 (from_ptr n)"
    "from_ptr_checked t = Ok (from_ptr t)"
    by (rule expect_fixed [of ?vm1 0 "from_ptr n" CLASS_TRUE]) (use g1 r1 class_oks in \<open>simp_all add: words_of\<close>)
  let ?vm2 = "vm\<lparr>vm_heap := h2\<rparr>"
  have g2: "grows 1 {} h1 h2" "tidy h2" using t'(2) grows_tidy by (simp_all add: words_of)
  have r2: "1 \<le> old_room h2" using grows_room [OF g2(1), of 1] r1 by simp
  obtain f h3 where f: "expect_old ?vm2 (\<lambda>h. alloc_fixed_old h CLASS_FALSE 0 (from_ptr n)) = Ok (f, ?vm2\<lparr>vm_heap := h3\<rparr>)"
    "grows (obj_words 0) {} (vm_heap ?vm2) h3" "fresh_in (vm_heap ?vm2) h3 f CLASS_FALSE FMT_FIXED 0 (from_ptr n)"
    "from_ptr_checked f = Ok (from_ptr f)"
    by (rule expect_fixed [of ?vm2 0 "from_ptr n" CLASS_FALSE]) (use g2 r2 class_oks in \<open>simp_all add: words_of\<close>)
  have g3: "grows 1 {} h2 h3" using f(2) by (simp add: words_of)
  note pn = fresh_live_ptr [OF n(2,3)] and pt = fresh_live_ptr [OF t'(2,3)] and pf = fresh_live_ptr [OF f(2,3)]
  let ?s = "(replicate SPECIAL_OBJECTS_COUNT (from_ptr n))[SPECIAL_TRUE := from_ptr t, SPECIAL_FALSE := from_ptr f]"
  have lv: "n \<in> live h3" "t \<in> live h3" "f \<in> live h3"
    using pn pt pf grows_live [OF g2(1)] grows_live [OF g3] by simp_all
  have "make_well_known vm = Ok (vm\<lparr>vm_heap := h3, specials := ?s,
      class_table := replicate (unat FIRST_UNRESERVED_CLASS_INDEX) (?s ! SPECIAL_NIL)\<rparr>)"
    using n(1,4) t'(1,4) f(1,4) by (simp add: make_well_known_def)
  moreover have "grows 3 {} ?h h3"
    using grows_trans [OF grows_trans [OF g1(1) g2(1)] g3] by (simp add: numeral_3_eq_3)
  moreover have "refs h3 ?s"
    using lv pn(1,2) pt(1,2) pf(1,2) by (intro refs_update refs_replicate) simp_all
  moreover have "n \<noteq> t" "n \<noteq> f" "t \<noteq> f"
    using pn pt pf grows_live [OF g2(1)] by auto
  then have "distinct [?s ! SPECIAL_NIL, ?s ! SPECIAL_TRUE, ?s ! SPECIAL_FALSE]"
    using pn(1) pt(1) pf(1) by auto
  ultimately show ?thesis using that [of ?s h3] by simp
qed

subsection \<open>The classes\<close>

abbreviation boot_indices :: "u32 set" where
  "boot_indices \<equiv> fst ` set bootstrap_classes"

lemma bootstrap_classes_facts:
  "length bootstrap_classes = 31" "distinct (map fst bootstrap_classes)" "\<forall>i \<in> boot_indices. unat i < 64"
  "{CLASS_OBJECT, CLASS_STRING, CLASS_BYTESTRING, CLASS_SYMBOL} \<subseteq> boot_indices"
  by (simp_all add: bootstrap_classes_def)

text \<open>The superclass the bootstrap gives each class.\<close>

definition boot_super :: "value list \<Rightarrow> value \<Rightarrow> u32 \<Rightarrow> value" where
  "boot_super tab nilv idx =
     (if idx = CLASS_OBJECT then nilv
      else if idx = CLASS_SYMBOL then tab ! unat CLASS_BYTESTRING
      else if idx = CLASS_BYTESTRING then tab ! unat CLASS_STRING
      else tab ! unat CLASS_OBJECT)"

definition super_writes :: "vm \<Rightarrow> (u32 \<times> value) list" where
  "super_writes vm =
     map (\<lambda>k. (fst k, class_entry vm CLASS_OBJECT)) (filter (\<lambda>k. fst k \<noteq> CLASS_OBJECT) bootstrap_classes)
     @ [(CLASS_BYTESTRING, class_entry vm CLASS_STRING), (CLASS_SYMBOL, class_entry vm CLASS_BYTESTRING)]"

lemma class_entry_set_superclass [simp]: "class_entry (set_superclass i v vm) = class_entry vm"
  by (simp add: set_superclass_def class_entry_def vset_slot_raw_def fun_eq_iff)

lemma wire_as_writes: "wire_superclasses vm = fold (\<lambda>(i, v). set_superclass i v) (super_writes vm) vm"
proof -
  have f: "fold (\<lambda>(idx, _, _) vm. if idx \<noteq> CLASS_OBJECT then set_superclass idx obj vm else vm) cs vm
      = fold (\<lambda>(i, v). set_superclass i v) (map (\<lambda>k. (fst k, obj)) (filter (\<lambda>k. fst k \<noteq> CLASS_OBJECT) cs)) vm"
    for cs :: "(u32 \<times> u64 \<times> nat) list" and obj vm
    by (induction cs arbitrary: vm) (simp_all add: case_prod_beta)
  have e: "class_entry (fold (\<lambda>(i, v). set_superclass i v) ws vm) = class_entry vm" for ws vm
    by (induction ws arbitrary: vm) (auto simp: case_prod_beta)
  show ?thesis by (simp add: wire_superclasses_def Let_def f e super_writes_def del: fold_simps)
qed

lemma last_super_write:
  assumes "i \<in> boot_indices"
  shows "(case map_of (rev (super_writes vm)) i of None \<Rightarrow> nilv | Some v \<Rightarrow> v)
    = boot_super (class_table vm) nilv i"
  using assms unfolding bootstrap_classes_def super_writes_def
  by (simp add: boot_super_def class_entry_def) (elim disjE; simp)

lemma classes_ok:
  assumes t: "tidy (vm_heap vm)" and n: "refs (vm_heap vm) [nilv]" and r: "310 \<le> old_room (vm_heap vm)"
    and ct: "class_table vm = replicate 64 nilv"
  obtains h tab where "rbind (make_classes nilv bootstrap_classes vm) (\<lambda>vm. Ok (wire_superclasses vm))
      = Ok (vm\<lparr>vm_heap := h, class_table := tab\<rparr>)"
    and "grows 310 {} (vm_heap vm) h" and "refs h tab" and "length tab = 64"
    and "\<forall>k \<in> set bootstrap_classes. class_object h (tab ! unat (fst k)) k
         \<and> slot h (as_ptr (tab ! unat (fst k))) BEHAVIOR_SUPERCLASS = boot_super tab nilv (fst k)"
proof -
  let ?h = "vm_heap vm"
  have lv: "live_value ?h nilv" using n by (simp add: live_value_def)
  obtain h1 tab where c: "make_classes nilv bootstrap_classes vm = Ok (vm\<lparr>vm_heap := h1, class_table := tab\<rparr>)"
    "grows 310 {} ?h h1" "length tab = 64"
    "\<forall>k \<in> set bootstrap_classes. class_object h1 (tab ! unat (fst k)) k
         \<and> slot h1 (as_ptr (tab ! unat (fst k))) 0 = nilv \<and> as_ptr (tab ! unat (fst k)) \<notin> live ?h"
    "\<forall>i < 64. word_of_nat i \<notin> boot_indices \<or> 2 ^ 32 \<le> i \<longrightarrow> tab ! i = nilv"
    "inj_on (\<lambda>idx. tab ! unat idx) boot_indices"
    using make_classes_ok [OF t lv, of bootstrap_classes] r bootstrap_classes_facts(1-3) by (auto simp: ct)
  let ?vm1 = "vm\<lparr>vm_heap := h1, class_table := tab\<rparr>"
  have hv: "vm_heap ?vm1 = h1" by simp
  have ce: "class_entry ?vm1 = (\<lambda>i. tab ! unat i)" by (simp add: class_entry_def fun_eq_iff)
  have co: "\<exists>k. class_object h1 (tab ! unat i) k" if "i \<in> boot_indices" for i using c(4) that by auto
  have rf: "is_ptr (tab ! unat i) \<and> as_ptr (tab ! unat i) \<in> live h1" if "i \<in> boot_indices" for i
    using co [OF that] by (auto simp: class_object_def)
  have ws: "\<forall>(i, v) \<in> set (super_writes ?vm1). i \<in> boot_indices \<and> live_value (vm_heap ?vm1) v"
  proof -
    have "is_ptr (class_entry ?vm1 i) \<and> as_ptr (class_entry ?vm1 i) \<in> live h1" if "i \<in> boot_indices" for i
      using rf [OF that] by (simp add: class_entry_def)
    then have "live_value h1 (class_entry ?vm1 i)" if "i \<in> boot_indices" for i using that by (simp add: live_value_def)
    then show ?thesis using bootstrap_classes_facts(4) by (auto simp: super_writes_def)
  qed
  obtain h where h: "wire_superclasses ?vm1 = ?vm1\<lparr>vm_heap := h\<rparr>" "grows 0 ((\<lambda>i. (as_ptr (tab ! unat i), 0)) ` boot_indices) h1 h"
    "\<forall>i \<in> boot_indices. slot h (as_ptr (tab ! unat i)) 0 =
       (case map_of (rev (super_writes ?vm1)) i of None \<Rightarrow> slot h1 (as_ptr (tab ! unat i)) 0 | Some v \<Rightarrow> v)"
    using set_supers [OF _ ws] grows_tidy [OF c(2)] co c(6) unfolding wire_as_writes ce hv by auto
  have "refs h1 tab"
    unfolding refs_def
  proof
    fix v assume "v \<in> set tab"
    then obtain i where i: "i < 64" "v = tab ! i" using c(3) by (auto simp: in_set_conv_nth)
    show "is_ptr v \<and> as_ptr v \<in> live h1"
    proof (cases "(word_of_nat i :: u32) \<in> boot_indices")
      case True
      have "unat (word_of_nat i :: u32) = i" using i(1) by (simp add: unat_of_nat take_bit_nat_eq_self)
      with rf [OF True] i show ?thesis by simp
    next
      case False
      with c(5) i n grows_live [OF c(2)] show ?thesis by auto
    qed
  qed
  then have "refs h tab" by (rule refs_grows [OF _ h(2)])
  moreover have "class_object h (tab ! unat (fst k)) k
      \<and> slot h (as_ptr (tab ! unat (fst k))) 0 = boot_super tab nilv (fst k)" if k: "k \<in> set bootstrap_classes" for k
  proof -
    have o1: "class_object h1 (tab ! unat (fst k)) k" and nv: "slot h1 (as_ptr (tab ! unat (fst k))) 0 = nilv"
      using c(4) k by auto
    from o1 have "class_object h (tab ! unat (fst k)) k" by (rule class_object_grows [OF _ h(2)]) (use co in \<open>auto simp: supers_def class_object_def\<close>)
    moreover have "fst k \<in> boot_indices" using k by simp
    moreover from this have "slot h (as_ptr (tab ! unat (fst k))) 0 =
        (case map_of (rev (super_writes ?vm1)) (fst k) of None \<Rightarrow> slot h1 (as_ptr (tab ! unat (fst k))) 0 | Some v \<Rightarrow> v)"
      by (rule h(3) [rule_format])
    ultimately show ?thesis using last_super_write [of "fst k" nilv ?vm1] unfolding nv by simp
  qed
  moreover have "grows 310 {} ?h h"
  proof -
    have "as_ptr (tab ! unat i) \<notin> live ?h" if "i \<in> boot_indices" for i using c(4) that by auto
    then show ?thesis using grows_trans [OF c(2) h(2)] by auto
  qed
  ultimately show ?thesis using that [of tab h] c(1,3) h(1) by auto
qed

subsection \<open>The selectors\<close>

definition selector_words :: "string list \<Rightarrow> nat" where
  "selector_words ss = sum_list (map (\<lambda>s. obj_words ((length s + 7) div 8)) ss)"

lemma intern_into_ok:
  assumes "tidy (vm_heap vm)" and "symbols_ok vm" and "arr \<in> live (vm_heap vm)"
    and "\<not> is_bytes (header (vm_heap vm) arr)" and "i + length ss \<le> unat (num_slots (vm_heap vm) arr)"
    and "selector_words ss \<le> old_room (vm_heap vm)" and "\<forall>s \<in> set ss. length s < 255"
  shows "\<exists>h ys. intern_into arr i ss vm = Ok (vm\<lparr>vm_heap := h, symbols := ys\<rparr>)
    \<and> grows (selector_words ss) ({arr} \<times> {i..<i + length ss}) (vm_heap vm) h
    \<and> symbols_ok (vm\<lparr>vm_heap := h, symbols := ys\<rparr>) \<and> set (symbols vm) \<subseteq> set ys
    \<and> (\<forall>k < length ss. (map of_char (ss ! k), slot h arr (i + k)) \<in> set ys)"
  using assms
proof (induction ss arbitrary: vm i)
  case Nil
  then show ?case
    by (intro exI [of _ "vm_heap vm"] exI [of _ "symbols vm"]) (simp add: grows_refl selector_words_def)
next
  case (Cons s ss)
  let ?n = "obj_words ((length s + 7) div 8)"
  obtain v h1 ys1 where v: "intern vm s = Ok (v, vm\<lparr>vm_heap := h1, symbols := ys1\<rparr>)" "grows ?n {} (vm_heap vm) h1"
    "symbols_ok (vm\<lparr>vm_heap := h1, symbols := ys1\<rparr>)" "is_ptr v" "as_ptr v \<in> live h1"
    "(map of_char s, v) \<in> set ys1" "set (symbols vm) \<subseteq> set ys1"
    by (rule intern_grows [OF Cons.prems(1,2), of s]) (use Cons.prems(6,7) in \<open>simp_all add: selector_words_def\<close>)
  have a: "arr \<in> live h1" "num_slots h1 arr = num_slots (vm_heap vm) arr" "header h1 arr = header (vm_heap vm) arr"
    using v(2) Cons.prems(3) by (auto simp: grows_def)
  have t1: "tidy h1" by (rule grows_tidy [OF v(2)])
  have i: "i < unat (num_slots h1 arr)" using Cons.prems(5) a(2) by simp
  have lv: "live_value h1 v" using v(5) by (simp add: live_value_def)
  let ?h2 = "set_slot_raw h1 arr i v"
  let ?vm2 = "vm\<lparr>symbols := ys1, vm_heap := ?h2\<rparr>"
  note g2 = grows_set_slot [OF t1 a(1) i lv]
  note sh = set_slot_shape [OF t1 a(1) i a(1), where v = v]
  have s2: "symbols_ok ?vm2"
    by (rule symbols_ok_grows [OF v(3), of 0 "{(arr, i)}" ?h2]) (use g2 Cons.prems(4) a(3) in simp_all)
  have "arr \<in> live (vm_heap ?vm2)" "\<not> is_bytes (header (vm_heap ?vm2) arr)"
    "i + 1 + length ss \<le> unat (num_slots (vm_heap ?vm2) arr)" "selector_words ss \<le> old_room (vm_heap ?vm2)"
    using sh a Cons.prems(4-6) grows_room [OF v(2), of "selector_words ss"] g2 by (simp_all add: selector_words_def grows_def)
  from Cons.IH [OF _ s2 this] grows_tidy [OF g2] Cons.prems(7) obtain h ys where
    r: "intern_into arr (i + 1) ss ?vm2 = Ok (?vm2\<lparr>vm_heap := h, symbols := ys\<rparr>)"
      "grows (selector_words ss) ({arr} \<times> {i + 1..<i + 1 + length ss}) ?h2 h" "symbols_ok (?vm2\<lparr>vm_heap := h, symbols := ys\<rparr>)"
      "set ys1 \<subseteq> set ys" "\<forall>k < length ss. (map of_char (ss ! k), slot h arr (i + 1 + k)) \<in> set ys" by auto
  have "slot h arr i = slot ?h2 arr i" using r(2) sh(1,3) a(1) i by (simp add: grows_def)
  then have si: "slot h arr i = v" by (simp add: slot_set_slot_same)
  have sel: "\<forall>k < length (s # ss). (map of_char ((s # ss) ! k), slot h arr (i + k)) \<in> set ys"
  proof (intro allI impI)
    fix k assume "k < length (s # ss)"
    then show "(map of_char ((s # ss) ! k), slot h arr (i + k)) \<in> set ys" using si v(6) r(4,5) by (cases k) auto
  qed
  let ?W = "{arr} \<times> {i..<i + length (s # ss)}"
  have w: "grows ?n ?W (vm_heap vm) h1" "grows 0 ?W h1 ?h2" using grows_mono [OF v(2)] grows_mono [OF g2] by simp_all
  have "grows (0 + selector_words ss) ?W h1 h" by (rule grows_trans [OF w(2) r(2)]) auto
  from grows_trans [OF w(1) this] have gr: "grows (?n + (0 + selector_words ss)) ?W (vm_heap vm) h" by blast
  have "intern_into arr i (s # ss) vm = Ok (vm\<lparr>vm_heap := h, symbols := ys\<rparr>)"
    using v(1) r(1) by (simp add: vset_slot_raw_def)
  moreover have "set (symbols vm) \<subseteq> set ys" using r(4) v(7) by blast
  ultimately show ?case using r(3) sel gr
    by (intro exI [of _ h] exI [of _ ys] conjI) (simp_all add: selector_words_def)
qed

lemma selectors_words: "selector_words SPECSEL_NAMES = 32"
  "obj_words ((length ''doesNotUnderstand:'' + 7) div 8) = 4" "obj_words ((length ''mustBeBoolean'' + 7) div 8) = 3"
  "length SPECSEL_NAMES = 16"
  by (simp_all add: selector_words_def SPECSEL_NAMES_def obj_words_def)

lemma selectors_ok:
  assumes t: "tidy (vm_heap vm)" and s: "symbols_ok vm" and sp: "refs (vm_heap vm) (specials vm)"
    "length (specials vm) = SPECIAL_OBJECTS_COUNT" and r: "56 \<le> old_room (vm_heap vm)"
  obtains h ys a b c where "make_selectors vm = Ok (vm\<lparr>vm_heap := h, symbols := ys, specials :=
      (specials vm)[SPECIAL_SEL_DOES_NOT_UNDERSTAND := a, SPECIAL_SEL_MUST_BE_BOOLEAN := b,
                    SPECIAL_SPECIALIZED_SELECTORS := c]\<rparr>)"
    and "grows 56 {} (vm_heap vm) h" and "symbols_ok (vm\<lparr>vm_heap := h, symbols := ys\<rparr>)" and "refs h [a, b, c]"
    and "(map of_char ''doesNotUnderstand:'', a) \<in> set ys" and "(map of_char ''mustBeBoolean'', b) \<in> set ys"
    and "\<forall>k < 16. (map of_char (SPECSEL_NAMES ! k), slot h (as_ptr c) k) \<in> set ys"
    and "unat (num_slots h (as_ptr c)) = SPECSEL_COUNT"
proof -
  let ?h = "vm_heap vm"
  obtain a h1 y1 where a: "intern vm ''doesNotUnderstand:'' = Ok (a, vm\<lparr>vm_heap := h1, symbols := y1\<rparr>)"
    "grows 4 {} ?h h1" "symbols_ok (vm\<lparr>vm_heap := h1, symbols := y1\<rparr>)" "is_ptr a" "as_ptr a \<in> live h1"
    "(map of_char ''doesNotUnderstand:'', a) \<in> set y1"
    by (rule intern_grows [OF t s, of "''doesNotUnderstand:''", unfolded selectors_words]) (use r in auto)
  let ?s1 = "(specials vm)[SPECIAL_SEL_DOES_NOT_UNDERSTAND := a]"
  let ?vm1 = "vm\<lparr>vm_heap := h1, symbols := y1, specials := ?s1\<rparr>"
  have t1: "tidy (vm_heap ?vm1)" "symbols_ok ?vm1" "52 \<le> old_room (vm_heap ?vm1)"
    using grows_tidy [OF a(2)] a(3) grows_room [OF a(2), of 52] r by (simp_all add: symbols_ok_def)
  obtain b h2 y2 where b: "intern ?vm1 ''mustBeBoolean'' = Ok (b, ?vm1\<lparr>vm_heap := h2, symbols := y2\<rparr>)"
    "grows 3 {} h1 h2" "symbols_ok (?vm1\<lparr>vm_heap := h2, symbols := y2\<rparr>)" "is_ptr b" "as_ptr b \<in> live h2"
    "(map of_char ''mustBeBoolean'', b) \<in> set y2" "set y1 \<subseteq> set y2"
    by (rule intern_grows [OF t1(1,2), of "''mustBeBoolean''", unfolded selectors_words]) (use t1(3) in auto)
  let ?s2 = "?s1[SPECIAL_SEL_MUST_BE_BOOLEAN := b]"
  let ?vm2 = "vm\<lparr>vm_heap := h2, symbols := y2, specials := ?s2\<rparr>"
  have n2: "nil ?vm2 = specials vm ! 0" by (simp add: nil_def)
  have "specials vm \<noteq> []" using sp(2) by auto
  then have "specials vm ! 0 \<in> set (specials vm)" by simp
  then have lv0: "live_value ?h (nil ?vm2)" unfolding n2 by (rule refs_live_value [OF sp(1)])
  have t2: "tidy h2" "49 \<le> old_room h2" "live_value h2 (nil ?vm2)"
    using grows_tidy [OF b(2)] grows_room [OF b(2), of 49] t1(3) grows_live_value [OF b(2) grows_live_value [OF a(2) lv0]]
    by simp_all
  obtain x h3 where x: "expect_old ?vm2 (\<lambda>h. alloc_ptrs_old h CLASS_ARRAY 16 (nil ?vm2)) = Ok (x, ?vm2\<lparr>vm_heap := h3\<rparr>)"
    "grows (obj_words 16) {} (vm_heap ?vm2) h3" "fresh_in (vm_heap ?vm2) h3 x CLASS_ARRAY FMT_PTRS 16 (nil ?vm2)"
    "from_ptr_checked x = Ok (from_ptr x)"
    by (rule expect_ptrs [of ?vm2 "nil ?vm2" CLASS_ARRAY 16]) (use t2 class_oks in \<open>simp_all add: words_of\<close>)
  have g3: "grows 17 {} h2 h3" using x(2) by (simp add: words_of)
  let ?vm3 = "?vm2\<lparr>vm_heap := h3\<rparr>"
  have s3: "symbols_ok ?vm3"
    by (rule symbols_ok_grows [OF b(3), of 17 "{}" h3]) (use g3 in simp_all)
  have f3: "x \<in> live h3" "\<not> is_bytes (header h3 x)" "0 + length SPECSEL_NAMES \<le> unat (num_slots h3 x)"
    using x(3) by (simp_all add: fresh_in_def selectors_words)
  have "\<forall>s \<in> set SPECSEL_NAMES. length s < 255" by (simp add: SPECSEL_NAMES_def)
  moreover have "selector_words SPECSEL_NAMES \<le> old_room h3" using grows_room [OF g3, of 32] t2(2) by (simp add: selectors_words)
  ultimately obtain h4 y4 where
    r4: "intern_into x 0 SPECSEL_NAMES ?vm3 = Ok (?vm3\<lparr>vm_heap := h4, symbols := y4\<rparr>)"
      "grows 32 ({x} \<times> {0..<16}) h3 h4" "symbols_ok (?vm3\<lparr>vm_heap := h4, symbols := y4\<rparr>)" "set y2 \<subseteq> set y4"
      "\<forall>k < 16. (map of_char (SPECSEL_NAMES ! k), slot h4 x k) \<in> set y4"
    using intern_into_ok [of ?vm3 x 0 SPECSEL_NAMES] grows_tidy [OF g3] s3 f3 by (auto simp: selectors_words)
  note px = fresh_live_ptr [OF x(2,3)]
  have g4: "grows (17 + 32) {} h2 h4" by (rule grows_trans [OF g3 r4(2)]) (use px in simp)
  have g: "grows (4 + (3 + (17 + 32))) {} ?h h4" by (rule grows_trans [OF a(2) grows_trans [OF b(2) g4]]) simp_all
  have "make_selectors vm = Ok (vm\<lparr>vm_heap := h4, symbols := y4, specials :=
      ?s2[SPECIAL_SPECIALIZED_SELECTORS := from_ptr x]\<rparr>)"
    using a(1) b(1) x(1,4) r4(1) by (simp add: make_selectors_def Let_def)
  moreover have "refs h4 [a, b, from_ptr x]"
    using a(4,5) b(4,5) px grows_live [OF g4] grows_live [OF b(2)] grows_live [OF r4(2)] by simp
  moreover have "symbols_ok (vm\<lparr>vm_heap := h4, symbols := y4\<rparr>)" using r4(3) by (simp add: symbols_ok_def)
  moreover have "unat (num_slots h4 x) = 16" using x(3) r4(2) px(3) by (simp add: fresh_in_def grows_def)
  ultimately show ?thesis using that [of a b "from_ptr x" y4 h4] g a(6) b(6,7) r4(4,5) px(1) by auto
qed

subsection \<open>The scheduler and the semaphores\<close>

definition queue_object :: "heap \<Rightarrow> value \<Rightarrow> nat \<Rightarrow> bool" where
  "queue_object h nilv x \<longleftrightarrow> x \<in> live h \<and> unat (num_slots h x) = LIST_NUM_VM_SLOTS
     \<and> slot h x LIST_HEAD = nilv \<and> slot h x LIST_TAIL = nilv"

definition semaphore_object :: "heap \<Rightarrow> value \<Rightarrow> nat \<Rightarrow> bool" where
  "semaphore_object h nilv x \<longleftrightarrow> x \<in> live h \<and> unat (num_slots h x) = SEMAPHORE_NUM_VM_SLOTS
     \<and> slot h x SEMAPHORE_EXCESS_SIGNALS = from_int 0
     \<and> slot h x SEMAPHORE_QUEUE_HEAD = nilv \<and> slot h x SEMAPHORE_QUEUE_TAIL = nilv"

lemma queue_object_grows:
  assumes "queue_object h nilv x" and "grows n W h h'" and "\<forall>j. (x, j) \<notin> W"
  shows "queue_object h' nilv x"
  using assms by (auto simp: queue_object_def grows_def)

lemma semaphore_object_grows:
  assumes "semaphore_object h nilv x" and "grows n W h h'" and "\<forall>j. (x, j) \<notin> W"
  shows "semaphore_object h' nilv x"
  using assms by (auto simp: semaphore_object_def grows_def)

lemma fresh_grows:
  assumes "fresh_in h h1 x c f n v" and "grows k W h1 h2" and "\<forall>j. (x, j) \<notin> W"
  shows "fresh_in h h2 x c f n v"
  using assms by (auto simp: fresh_in_def grows_def)

lemma run_queues_ok:
  assumes "tidy (vm_heap vm)" and "arr \<in> live (vm_heap vm)" and "n \<le> unat (num_slots (vm_heap vm) arr)"
    and "live_value (vm_heap vm) (nil vm)" and "3 * (n - i) \<le> old_room (vm_heap vm)" and "i \<le> n"
  shows "\<exists>h qs. make_run_queues arr [i..<n] vm = Ok (vm\<lparr>vm_heap := h\<rparr>)
    \<and> grows (3 * (n - i)) ({arr} \<times> {i..<n}) (vm_heap vm) h \<and> length qs = n - i \<and> distinct qs
    \<and> set qs \<inter> live (vm_heap vm) = {}
    \<and> (\<forall>k < n - i. slot h arr (i + k) = from_ptr (qs ! k) \<and> queue_object h (nil vm) (qs ! k))"
  using assms
proof (induction "n - i" arbitrary: vm i)
  case 0
  then show ?case by (intro exI [of _ "vm_heap vm"] exI [of _ "[]"]) (simp add: grows_refl)
next
  case (Suc m)
  have i: "i < n" "[i..<n] = i # [i + 1..<n]" using Suc.hyps(2) by (auto simp: upt_conv_Cons)
  obtain x h1 where x: "expect_old vm (\<lambda>h. alloc_fixed_old h CLASS_LINKED_LIST 2 (nil vm)) = Ok (x, vm\<lparr>vm_heap := h1\<rparr>)"
    "grows (obj_words 2) {} (vm_heap vm) h1" "fresh_in (vm_heap vm) h1 x CLASS_LINKED_LIST FMT_FIXED 2 (nil vm)"
    "from_ptr_checked x = Ok (from_ptr x)"
    by (rule expect_fixed [OF Suc.prems(1), of 2 "nil vm" CLASS_LINKED_LIST])
       (use Suc.prems(4,5) i class_oks in \<open>simp_all add: words_of\<close>)
  have g1: "grows 3 {} (vm_heap vm) h1" using x(2) by (simp add: words_of)
  note px = fresh_live_ptr [OF x(2,3)]
  have a: "arr \<in> live h1" "num_slots h1 arr = num_slots (vm_heap vm) arr" using g1 Suc.prems(2) by (auto simp: grows_def)
  have t1: "tidy h1" by (rule grows_tidy [OF g1])
  have ia: "i < unat (num_slots h1 arr)" using a(2) Suc.prems(3) i by simp
  have lx: "live_value h1 (from_ptr x)" using px by (simp add: live_value_def)
  let ?h2 = "set_slot_raw h1 arr i (from_ptr x)"
  let ?vm2 = "vm\<lparr>vm_heap := ?h2\<rparr>"
  note g2 = grows_set_slot [OF t1 a(1) ia lx] and sh = set_slot_shape [OF t1 a(1) ia a(1), where v = "from_ptr x"]
  have lv2: "live_value ?h2 (nil vm)" by (rule grows_live_value [OF g2 grows_live_value [OF g1 Suc.prems(4)]])
  have r2: "3 * (n - (i + 1)) \<le> old_room ?h2"
    using grows_room [OF g1, of "3 * (n - (i + 1))"] grows_room [OF g2] Suc.prems(5) i by simp
  have "m = n - (i + 1)" using Suc.hyps(2) by simp
  from Suc.hyps(1) [OF this, of ?vm2] grows_tidy [OF g2] sh a lv2 r2 Suc.prems(3) i obtain h qs where
    r: "make_run_queues arr [i + 1..<n] ?vm2 = Ok (?vm2\<lparr>vm_heap := h\<rparr>)"
      "grows (3 * (n - (i + 1))) ({arr} \<times> {i + 1..<n}) ?h2 h" "length qs = n - (i + 1)" "distinct qs"
      "set qs \<inter> live ?h2 = {}"
      "\<forall>k < n - (i + 1). slot h arr (i + 1 + k) = from_ptr (qs ! k) \<and> queue_object h (nil vm) (qs ! k)"
    by (auto simp: nil_def)
  have na: "arr \<noteq> x" using px(4) Suc.prems(2) by auto
  have f2: "fresh_in (vm_heap vm) ?h2 x CLASS_LINKED_LIST FMT_FIXED 2 (nil vm)"
    by (rule fresh_grows [OF x(3) g2]) (use na in auto)
  then have "queue_object ?h2 (nil vm) x" by (simp add: fresh_in_def queue_object_def)
  then have qx: "queue_object h (nil vm) x" by (rule queue_object_grows [OF _ r(2)]) (use na in auto)
  have "slot h arr i = slot ?h2 arr i" using r(2) sh(1,3) a(1) ia by (simp add: grows_def)
  then have si: "slot h arr i = from_ptr x" by (simp add: slot_set_slot_same)
  have qs: "\<forall>k < n - i. slot h arr (i + k) = from_ptr ((x # qs) ! k) \<and> queue_object h (nil vm) ((x # qs) ! k)"
  proof (intro allI impI)
    fix k assume "k < n - i"
    then show "slot h arr (i + k) = from_ptr ((x # qs) ! k) \<and> queue_object h (nil vm) ((x # qs) ! k)"
      using r(6) si qx by (cases k) auto
  qed
  let ?W = "{arr} \<times> {i..<n}"
  have w: "grows 3 ?W (vm_heap vm) h1" "grows 0 ?W h1 ?h2"
    using grows_mono [OF g1] grows_mono [OF g2, of 0 ?W] i by simp_all
  have "grows (0 + 3 * (n - (i + 1))) ?W h1 h" by (rule grows_trans [OF w(2) r(2)]) auto
  from grows_trans [OF w(1) this] have "grows (3 + (0 + 3 * (n - (i + 1)))) ?W (vm_heap vm) h" by blast
  moreover have "3 + (0 + 3 * (n - (i + 1))) = 3 * (n - i)" using i(1) by simp
  ultimately have g: "grows (3 * (n - i)) ?W (vm_heap vm) h" by simp
  have "make_run_queues arr [i..<n] vm = Ok (vm\<lparr>vm_heap := h\<rparr>)"
    using x(1,4) r(1) unfolding i(2) by (simp add: vset_slot_raw_def)
  moreover have "distinct (x # qs)" "set (x # qs) \<inter> live (vm_heap vm) = {}"
    using r(4,5) sh(3) px(3,4) grows_live [OF g1] by auto
  moreover have "length (x # qs) = n - i" using r(3) i(1) by simp
  ultimately show ?case using g qs by blast
qed

lemma scheduler_made:
  assumes t: "tidy (vm_heap vm)" and v: "live_value (vm_heap vm) (nil vm)" and r: "36 \<le> old_room (vm_heap vm)"
  obtains h qs arr x where
    "make_scheduler vm = Ok (vm\<lparr>vm_heap := h, specials := (specials vm)[SPECIAL_PROCESSOR := from_ptr x]\<rparr>)"
    and "grows 36 {} (vm_heap vm) h" and "length qs = NUM_PRIORITIES" and "distinct (x # arr # qs)"
    and "set (x # arr # qs) \<inter> live (vm_heap vm) = {}" and "x \<in> live h" "arr \<in> live h"
    and "\<forall>k < NUM_PRIORITIES. slot h arr k = from_ptr (qs ! k) \<and> queue_object h (nil vm) (qs ! k)"
    and "slot h x SCHEDULER_QUEUES = from_ptr arr" and "unat (num_slots h x) = SCHEDULER_NUM_VM_SLOTS"
    and "unat (num_slots h arr) = NUM_PRIORITIES"
proof -
  obtain a h1 where a: "expect_old vm (\<lambda>h. alloc_ptrs_old h CLASS_ARRAY 8 (nil vm)) = Ok (a, vm\<lparr>vm_heap := h1\<rparr>)"
    "grows (obj_words 8) {} (vm_heap vm) h1" "fresh_in (vm_heap vm) h1 a CLASS_ARRAY FMT_PTRS 8 (nil vm)"
    "from_ptr_checked a = Ok (from_ptr a)"
    by (rule expect_ptrs [OF t v, of CLASS_ARRAY 8]) (use r class_oks in \<open>simp_all add: words_of\<close>)
  have g1: "grows 9 {} (vm_heap vm) h1" using a(2) by (simp add: words_of)
  note pa = fresh_live_ptr [OF a(2,3)]
  let ?vm1 = "vm\<lparr>vm_heap := h1\<rparr>"
  have n1: "nil (vm\<lparr>vm_heap := h'\<rparr>) = nil vm" for h' by (simp add: nil_def)
  have na: "unat (num_slots h1 a) = 8" using a(3) by (simp add: fresh_in_def)
  have r1: "27 \<le> old_room h1" using grows_room [OF g1, of 27] r by simp
  have lv1: "live_value h1 (nil vm)" by (rule grows_live_value [OF g1 v])
  obtain h2 qs where q: "make_run_queues a [0..<8] ?vm1 = Ok (?vm1\<lparr>vm_heap := h2\<rparr>)"
    "grows 24 ({a} \<times> {0..<8}) h1 h2" "length qs = 8" "distinct qs" "set qs \<inter> live h1 = {}"
    "\<forall>k < 8. slot h2 a k = from_ptr (qs ! k) \<and> queue_object h2 (nil vm) (qs ! k)"
    using run_queues_ok [of ?vm1 a 8 0] grows_tidy [OF g1] pa(3) na lv1 r1 by (auto simp: n1)
  have g2: "grows (9 + 24) {} (vm_heap vm) h2" by (rule grows_trans [OF g1 q(2)]) (use pa(4) in auto)
  let ?vm2 = "vm\<lparr>vm_heap := h2\<rparr>"
  have t2: "tidy h2" by (rule grows_tidy [OF g2])
  have r2: "3 \<le> old_room h2" using grows_room [OF g2, of 3] r by simp
  have lv2: "live_value h2 (nil vm)" by (rule grows_live_value [OF g2 v])
  have c: "class_ok CLASS_PROCESSOR_SCHEDULER" by (rule class_oks)
  obtain x h3 where x: "expect_old ?vm2 (\<lambda>h. alloc_fixed_old h CLASS_PROCESSOR_SCHEDULER 2 (nil vm)) = Ok (x, ?vm2\<lparr>vm_heap := h3\<rparr>)"
    "grows (obj_words 2) {} (vm_heap ?vm2) h3" "fresh_in (vm_heap ?vm2) h3 x CLASS_PROCESSOR_SCHEDULER FMT_FIXED 2 (nil vm)"
    "from_ptr_checked x = Ok (from_ptr x)"
    by (rule expect_fixed [of ?vm2 2 "nil vm" CLASS_PROCESSOR_SCHEDULER]) (use t2 lv2 r2 c in \<open>simp_all add: words_of\<close>)
  have g3: "grows 3 {} h2 h3" using x(2) by (simp add: words_of)
  note px = fresh_live_ptr [OF x(2,3)]
  have t3: "tidy h3" by (rule grows_tidy [OF g3])
  have al: "a \<in> live h2" "a \<in> live h3" using pa(3) grows_live [OF q(2)] grows_live [OF g3] by blast+
  have lva: "live_value h3 (from_ptr a)" using al pa by (simp add: live_value_def)
  have nx: "unat (num_slots h3 x) = 2" using x(3) by (simp add: fresh_in_def)
  let ?h4 = "set_slot_raw h3 x 0 (from_ptr a)"
  have g4: "grows 0 {(x, 0)} h3 ?h4" by (rule grows_set_slot [OF t3 px(3) _ lva]) (simp add: nx)
  have xl: "x \<notin> live h2" using px(4) by simp
  have g34: "grows (3 + 0) {} h2 ?h4" by (rule grows_trans [OF g3 g4]) (use xl in simp)
  have g: "grows (9 + 24 + (3 + 0)) {} (vm_heap vm) ?h4" by (rule grows_trans [OF g2 g34]) simp
  have ql: "qs ! k \<in> live h2" if "k < 8" for k using q(6) that by (simp add: queue_object_def)
  have "make_scheduler vm = Ok (vm\<lparr>vm_heap := ?h4, specials := (specials vm)[SPECIAL_PROCESSOR := from_ptr x]\<rparr>)"
    using a(1,4) q(1) x(1,4) by (simp add: make_scheduler_def Let_def n1 vset_slot_raw_def)
  moreover have "distinct (x # a # qs)"
  proof -
    have "a \<notin> set qs" using q(5) pa(3) by auto
    moreover have "x \<notin> set qs" using q(3) xl ql by (auto simp: in_set_conv_nth)
    ultimately show ?thesis using q(4) xl al(1) by auto
  qed
  moreover have "set (x # a # qs) \<inter> live (vm_heap vm) = {}"
    using q(5) pa(4) xl grows_live [OF g1] grows_live [OF g2] by auto
  moreover have "\<forall>k < 8. slot ?h4 a k = from_ptr (qs ! k) \<and> queue_object ?h4 (nil vm) (qs ! k)"
  proof (intro allI impI conjI)
    fix k :: nat assume k: "k < 8"
    have n2: "unat (num_slots h2 a) = 8" using q(2) pa(3) na by (simp add: grows_def)
    have "slot ?h4 a k = slot h2 a k" using g34 al(1) n2 k by (simp add: grows_def)
    then show "slot ?h4 a k = from_ptr (qs ! k)" using q(6) k by simp
    show "queue_object ?h4 (nil vm) (qs ! k)"
      using queue_object_grows [OF _ g34] q(6) k by simp
  qed
  moreover have "slot ?h4 x 0 = from_ptr a" by (simp add: slot_set_slot_same)
  moreover have "x \<in> live ?h4" "a \<in> live ?h4" "unat (num_slots ?h4 x) = 2" "unat (num_slots ?h4 a) = 8"
    using g4 px(3) al nx g34 q(2) pa(3) na by (auto simp: grows_def)
  ultimately show ?thesis using that [of x ?h4 qs a] g q(3) by simp
qed

lemma semaphore_made:
  assumes t: "tidy (vm_heap vm)" and v: "live_value (vm_heap vm) (nil vm)" and r: "4 \<le> old_room (vm_heap vm)"
  obtains h x where "make_semaphore_old vm = Ok (from_ptr x, vm\<lparr>vm_heap := h\<rparr>)" and "grows 4 {} (vm_heap vm) h"
    and "semaphore_object h (nil vm) x" and "x \<notin> live (vm_heap vm)"
proof -
  obtain x h1 where x: "expect_old vm (\<lambda>h. alloc_fixed_old h CLASS_SEMAPHORE 3 (nil vm)) = Ok (x, vm\<lparr>vm_heap := h1\<rparr>)"
    "grows (obj_words 3) {} (vm_heap vm) h1" "fresh_in (vm_heap vm) h1 x CLASS_SEMAPHORE FMT_FIXED 3 (nil vm)"
    "from_ptr_checked x = Ok (from_ptr x)"
    by (rule expect_fixed [OF t, of 3 "nil vm" CLASS_SEMAPHORE]) (use v r class_oks in \<open>simp_all add: words_of\<close>)
  have g1: "grows 4 {} (vm_heap vm) h1" using x(2) by (simp add: words_of)
  note px = fresh_live_ptr [OF x(2,3)]
  have t1: "tidy h1" by (rule grows_tidy [OF g1])
  have nx: "unat (num_slots h1 x) = 3" "\<forall>i < 3. slot h1 x i = nil vm" using x(3) by (simp_all add: fresh_in_def)
  let ?h2 = "set_slot_raw h1 x 0 (from_int 0)"
  have g2: "grows 0 {(x, 0)} h1 ?h2" by (rule grows_set_slot [OF t1 px(3)]) (simp_all add: nx)
  have g: "grows (4 + 0) {} (vm_heap vm) ?h2" by (rule grows_trans [OF g1 g2]) (use px(4) in simp)
  have "slot ?h2 x 1 = nil vm" "slot ?h2 x 2 = nil vm" using g2 px(3) nx by (simp_all add: grows_def)
  then have "semaphore_object ?h2 (nil vm) x"
    using g2 px(3) nx(1) by (auto simp: semaphore_object_def slot_set_slot_same grows_def)
  moreover have "make_semaphore_old vm = Ok (from_ptr x, vm\<lparr>vm_heap := ?h2\<rparr>)"
    using x(1,4) by (simp add: make_semaphore_old_def vset_slot_raw_def)
  ultimately show ?thesis using that [of x ?h2] g px(4) by simp
qed

subsection \<open>The whole bootstrap\<close>

lemma new_heap_tidy:
  assumes "heap_ok (new_heap f t d cfg)"
  shows "tidy (new_heap f t d cfg)"
  using assms by (simp add: tidy_def live_def) (simp add: new_heap_def objects_empty)

text \<open>What a tidy heap and references to objects mean for the collector.\<close>

lemma tidy_collectable:
  assumes t: "tidy (vm_heap vm)" and r: "\<forall>v \<in> set (root_values vm). live_value (vm_heap vm) v"
    and s: "specials vm \<noteq> []" and a: "active_process vm = nil vm"
  shows "settled vm"
proof -
  let ?h = "vm_heap vm"
  have ok: "heap_ok ?h" and yo: "young_objs ?h = {}" and sb: "ssb ?h = []"
    using t by (simp_all add: tidy_def)
  have lo: "live ?h = old_objs ?h" using yo by (simp add: live_def)
  have ny: "\<not> is_young ?h x \<and> \<not> space_contains (young_to ?h) x" if "x \<in> live ?h" for x
  proof -
    have x: "x \<in> old_objs ?h" using that lo by simp
    have "in_old_space ?h x" "\<not> is_young ?h x" using old_object_in_space [OF ok x] by auto
    moreover have "apart (young_to ?h) (old ?h)" using ok by (simp add: heap_ok_def)
    ultimately show ?thesis by (auto simp: in_old_space_def space_contains_def apart_def)
  qed
  have vv: "valid_value ?h v" if "live_value ?h v" for v
    using that ny by (auto simp: live_value_def valid_value_def)
  have pl: "\<not> remembered ?h x \<and> \<not> marked ?h x \<and> \<not> has_overflow_word ?h x" if "x \<in> live ?h" for x
    using t that by (simp add: tidy_def plain_header_def remembered_def marked_def has_overflow_word_def)
  have sl: "live_value ?h (slot ?h x i)" if "x \<in> live ?h" "\<not> is_bytes (header ?h x)" "i < unat (num_slots ?h x)" for x i
    using t that by (simp add: tidy_def)
  have "gc_heap ?h" using t vv sl yo by (simp add: gc_heap_def tidy_def)
  moreover have "remembered_set_ok ?h E" for E
    using t sl ny lo sb pl by (auto simp: remembered_set_ok_def ssb_ok_def holds_young_def live_value_def tidy_def)
  moreover have "process_ready vm"
    using s a r by (simp add: process_ready_def Let_def nil_def root_values_def)
  ultimately show ?thesis using r vv yo pl sl by (simp add: gc_ready_def settled_def)
qed

lemma empty_queues:
  assumes ok: "heap_ok (vm_heap vm)" and sp: "specials vm ! SPECIAL_PROCESSOR = from_ptr x"
    and ql: "length qs = NUM_PRIORITIES" and d: "distinct (z # x # arr # qs @ [l, t])"
    and nv: "nil vm = from_ptr z" and lv: "z \<in> live (vm_heap vm)" "x \<in> live (vm_heap vm)" "arr \<in> live (vm_heap vm)"
    and q: "\<forall>k < NUM_PRIORITIES. slot (vm_heap vm) arr k = from_ptr (qs ! k) \<and> queue_object (vm_heap vm) (nil vm) (qs ! k)"
    and sx: "slot (vm_heap vm) x SCHEDULER_QUEUES = from_ptr arr" "unat (num_slots (vm_heap vm) x) = SCHEDULER_NUM_VM_SLOTS"
      "unat (num_slots (vm_heap vm) arr) = NUM_PRIORITIES"
    and se: "semaphore_object (vm_heap vm) (nil vm) l" "semaphore_object (vm_heap vm) (nil vm) t"
  shows "queues vm {from_ptr l, from_ptr t} (\<lambda>_. [])"
proof -
  let ?h = "vm_heap vm"
  note p = live_from_ptr(1) [OF ok]
  have sq: "scheduler_queues vm = from_ptr arr" by (simp add: scheduler_queues_def sp p lv vslot_def sx)
  have an: "anchors vm = {x, arr}" by (simp add: anchors_def sp sq p lv)
  have qo: "queue_obj vm (Run k) = from_ptr (qs ! k) \<and> qs ! k \<in> live ?h \<and> qs ! k \<in> set qs" if "k < 8" for k
    using q ql that by (simp add: sq p lv vslot_def queue_object_def)
  define at where "at = (\<lambda>i. case i of Run k \<Rightarrow> qs ! k | Waiting s \<Rightarrow> as_ptr s)"
  let ?S = "{from_ptr l, from_ptr t}"
  have sl: "l \<in> live ?h" "t \<in> live ?h" using se by (simp_all add: semaphore_object_def)
  have pq: "as_ptr (queue_obj vm i) = at i \<and> at i \<in> live ?h \<and> queue_obj vm i = from_ptr (at i)
      \<and> at i \<notin> {z, x, arr}" if "i \<in> queue_ids ?S" for i
  proof (cases i)
    case (Run k)
    then have "k < 8" using that by simp
    then show ?thesis using qo [of k] p d by (auto simp: Run at_def)
  next
    case (Waiting s)
    then have "s = from_ptr l \<or> s = from_ptr t" using that by simp
    then show ?thesis using p sl d by (auto simp: Waiting at_def)
  qed
  have inj: "at i \<noteq> at j" if "i \<in> queue_ids ?S" "j \<in> queue_ids ?S" "i \<noteq> j" for i j
    using that d ql sl p
    by (cases i; cases j) (auto simp: at_def nth_eq_iff_index_eq dest: nth_mem)
  have ho: "holds (queue_obj vm i) (head_of i) (tail_of i) vm []" if "i \<in> queue_ids ?S" for i
  proof (cases i)
    case (Run k)
    then have "k < 8" using that by simp
    then show ?thesis
      using q qo [of k] p ok by (simp add: Run holds_def list_ok_def vslot_def queue_object_def)
  next
    case (Waiting s)
    then have "s = from_ptr l \<or> s = from_ptr t" using that by simp
    then show ?thesis using se p sl ok by (auto simp: Waiting holds_def list_ok_def vslot_def semaphore_object_def)
  qed
  have me: "members vm (\<lambda>_. []) i = {at i}" if "i \<in> queue_ids ?S" for i
    using pq [OF that] p [of "at i"] by (simp add: members_def parts_def)
  have nn: "queue_obj vm i \<noteq> nil vm" if "i \<in> queue_ids ?S" for i
    using pq [OF that] p lv(1) by (auto simp: nv)
  have "scheduler_ok vm" using an lv sx by (auto simp: scheduler_ok_def sp sq p)
  then show ?thesis
    using ho nn me pq inj an by (simp add: queues_def)
qed

text \<open>What the bootstrap has wired: the class of every bootstrap index, and the selectors by name.\<close>

definition class_wired :: "vm \<Rightarrow> u32 \<times> u64 \<times> nat \<Rightarrow> bool" where
  "class_wired vm k \<longleftrightarrow> class_object (vm_heap vm) (class_table vm ! unat (fst k)) k
     \<and> slot (vm_heap vm) (as_ptr (class_table vm ! unat (fst k))) BEHAVIOR_SUPERCLASS
         = boot_super (class_table vm) (nil vm) (fst k)"

definition names_symbol :: "vm \<Rightarrow> string \<Rightarrow> value \<Rightarrow> bool" where
  "names_symbol vm s v \<longleftrightarrow> (map of_char s, v) \<in> set (symbols vm)"

definition selectors_wired :: "vm \<Rightarrow> bool" where
  "selectors_wired vm \<longleftrightarrow> names_symbol vm ''doesNotUnderstand:'' (specials vm ! SPECIAL_SEL_DOES_NOT_UNDERSTAND)
     \<and> names_symbol vm ''mustBeBoolean'' (specials vm ! SPECIAL_SEL_MUST_BE_BOOLEAN)
     \<and> (\<forall>k < SPECSEL_COUNT. names_symbol vm (SPECSEL_NAMES ! k)
          (slot (vm_heap vm) (as_ptr (specials vm ! SPECIAL_SPECIALIZED_SELECTORS)) k))"

definition machine_ready :: "vm \<Rightarrow> bool" where
  "machine_ready vm \<longleftrightarrow> settled vm \<and> symbols_ok vm
     \<and> cache_ok vm \<and> lookup_cache vm = replicate LOOKUP_CACHE_SIZE default_lookup_entry
     \<and> distinct [nil vm, specials vm ! SPECIAL_TRUE, specials vm ! SPECIAL_FALSE]
     \<and> length (class_table vm) = unat FIRST_UNRESERVED_CLASS_INDEX \<and> (\<forall>k \<in> set bootstrap_classes. class_wired vm k)
     \<and> selectors_wired vm \<and> active_process vm = nil vm
     \<and> queues vm {specials vm ! SPECIAL_LOW_SPACE_SEMAPHORE, specials vm ! SPECIAL_TIMER_SEMAPHORE} (\<lambda>_. [])"

text \<open>The machine once its classes and selectors are there, and what later stores keep of it.\<close>

definition loaded :: "vm \<Rightarrow> bool" where
  "loaded vm \<longleftrightarrow> tidy (vm_heap vm) \<and> refs (vm_heap vm) (specials vm) \<and> length (specials vm) = SPECIAL_OBJECTS_COUNT
     \<and> distinct [nil vm, specials vm ! SPECIAL_TRUE, specials vm ! SPECIAL_FALSE]
     \<and> refs (vm_heap vm) (class_table vm) \<and> length (class_table vm) = unat FIRST_UNRESERVED_CLASS_INDEX
     \<and> (\<forall>k \<in> set bootstrap_classes. class_wired vm k) \<and> selectors_wired vm
     \<and> unat (num_slots (vm_heap vm) (as_ptr (specials vm ! SPECIAL_SPECIALIZED_SELECTORS))) = SPECSEL_COUNT
     \<and> symbols_ok vm \<and> temp_roots vm = [] \<and> site_registry vm = [] \<and> timer_requests vm = []
     \<and> lookup_cache vm = replicate LOOKUP_CACHE_SIZE default_lookup_entry"

lemma boot_super_nil: "class_table vm' = class_table vm \<Longrightarrow> nil vm' = nil vm \<Longrightarrow>
    boot_super (class_table vm') (nil vm') i = boot_super (class_table vm) (nil vm) i"
  by simp

lemma class_wired_grows:
  assumes "class_wired vm k" and "grows n {} (vm_heap vm) (vm_heap vm')"
    and "class_table vm' = class_table vm" and "nil vm' = nil vm"
  shows "class_wired vm' k"
  using assms class_object_grows [of "vm_heap vm" _ k n "{}" "vm_heap vm'"]
  by (cases k) (auto simp: class_wired_def class_object_def grows_def)

lemma loaded_grows:
  assumes l: "loaded vm" and g: "grows n {} (vm_heap vm) h" and i: "i = 4 \<or> 10 \<le> i"
    and v: "is_ptr v" "as_ptr v \<in> live h"
  shows "loaded (vm\<lparr>vm_heap := h, specials := (specials vm)[i := v]\<rparr>)"
proof -
  let ?vm = "vm\<lparr>vm_heap := h, specials := (specials vm)[i := v]\<rparr>"
  have len: "length (specials vm) = 13" using l by (simp add: loaded_def)
  have keep: "specials ?vm ! j = specials vm ! j" if "j \<in> {0, 1, 2, 7, 8, 9}" for j using i that by auto
  have "nil ?vm = nil vm" using keep [of 0] by (simp add: nil_def)
  then have cw: "\<forall>k \<in> set bootstrap_classes. class_wired ?vm k"
    using l g class_wired_grows [of vm _ n ?vm] by (auto simp: loaded_def)
  have "specials vm ! 7 \<in> set (specials vm)" using len by simp
  then have sl: "as_ptr (specials vm ! 7) \<in> live (vm_heap vm)" "unat (num_slots (vm_heap vm) (as_ptr (specials vm ! 7))) = 16"
    using l by (auto simp: loaded_def refs_def)
  have sw: "selectors_wired ?vm" using l g sl keep [of 7] keep [of 8] keep [of 9]
    by (simp add: loaded_def selectors_wired_def names_symbol_def grows_def)
  have sy: "symbols_ok ?vm"
    by (rule symbols_ok_grows [of vm n "{}" h]) (use l g in \<open>simp_all add: loaded_def\<close>)
  have "refs h (specials vm)" "refs h (class_table vm)" using l g refs_grows by (auto simp: loaded_def)
  with l g cw sw sy sl len keep [of 0] keep [of 1] keep [of 2] keep [of 7] refs_update [OF _ v] show ?thesis
    by (simp add: loaded_def nil_def grows_tidy [OF g] grows_def)
qed

lemma machine_loads:
  assumes t: "tidy h0" and r: "369 \<le> old_room h0"
  obtains va vb vm h where "make_well_known (bare_literal h0 n) = Ok va"
    and "make_classes (nil va) bootstrap_classes va = Ok vb" and "make_selectors (wire_superclasses vb) = Ok vm"
    and "loaded vm" and "grows 369 {} h0 (vm_heap vm)"
proof -
  let ?vm0 = "bare_literal h0 n"
  have v0: "vm_heap ?vm0 = h0" "symbols ?vm0 = []" "temp_roots ?vm0 = []" "site_registry ?vm0 = []"
    "timer_requests ?vm0 = []" "lookup_cache ?vm0 = replicate LOOKUP_CACHE_SIZE default_lookup_entry"
    by (simp_all add: bare_literal_def)
  obtain h1 s where a: "make_well_known ?vm0 = Ok (?vm0\<lparr>vm_heap := h1, specials := s,
      class_table := replicate (unat FIRST_UNRESERVED_CLASS_INDEX) (s ! SPECIAL_NIL)\<rparr>)"
    "grows 3 {} h0 h1" "refs h1 s" "length s = 13" "distinct [s ! 0, s ! 1, s ! 2]"
    by (rule well_known_ok [of ?vm0]) (use t r v0 in auto)
  let ?nil = "s ! 0"
  have n1: "refs h1 [?nil]" using a(3,4) by (auto simp: refs_def)
  let ?vm1 = "?vm0\<lparr>vm_heap := h1, specials := s, class_table := replicate 64 ?nil\<rparr>"
  obtain h2 tab where b: "rbind (make_classes ?nil bootstrap_classes ?vm1) (\<lambda>vm. Ok (wire_superclasses vm))
      = Ok (?vm1\<lparr>vm_heap := h2, class_table := tab\<rparr>)" "grows 310 {} h1 h2" "refs h2 tab" "length tab = 64"
    "\<forall>k \<in> set bootstrap_classes. class_object h2 (tab ! unat (fst k)) k
         \<and> slot h2 (as_ptr (tab ! unat (fst k))) 0 = boot_super tab ?nil (fst k)"
    by (rule classes_ok [of ?vm1 ?nil]) (use n1 grows_tidy [OF a(2)] grows_room [OF a(2), of 310] r in auto)
  let ?vm2 = "?vm0\<lparr>vm_heap := h2, specials := s, class_table := tab\<rparr>"
  obtain vb where vb: "make_classes ?nil bootstrap_classes ?vm1 = Ok vb" "wire_superclasses vb = ?vm2"
    using b(1) by (auto simp: rbind_eq_Ok)
  have t2: "tidy h2" by (rule grows_tidy [OF b(2)])
  have r2: "56 \<le> old_room h2" using grows_room [OF b(2), of 56] grows_room [OF a(2), of 366] r by simp
  obtain h3 ys x y z where c: "make_selectors ?vm2 = Ok (?vm2\<lparr>vm_heap := h3, symbols := ys, specials :=
      s[SPECIAL_SEL_DOES_NOT_UNDERSTAND := x, SPECIAL_SEL_MUST_BE_BOOLEAN := y,
        SPECIAL_SPECIALIZED_SELECTORS := z]\<rparr>)"
    "grows 56 {} h2 h3" "symbols_ok (?vm2\<lparr>vm_heap := h3, symbols := ys\<rparr>)" "refs h3 [x, y, z]"
    "(map of_char ''doesNotUnderstand:'', x) \<in> set ys" "(map of_char ''mustBeBoolean'', y) \<in> set ys"
    "\<forall>k < 16. (map of_char (SPECSEL_NAMES ! k), slot h3 (as_ptr z) k) \<in> set ys" "unat (num_slots h3 (as_ptr z)) = 16"
    by (rule selectors_ok [of ?vm2])
       (use t2 r2 a(4) refs_grows [OF a(3) b(2)] v0 in \<open>auto simp: symbols_ok_def\<close>)
  let ?s3 = "s[SPECIAL_SEL_DOES_NOT_UNDERSTAND := x, SPECIAL_SEL_MUST_BE_BOOLEAN := y, SPECIAL_SPECIALIZED_SELECTORS := z]"
  let ?vm3 = "?vm2\<lparr>vm_heap := h3, symbols := ys, specials := ?s3\<rparr>"
  have g: "grows (3 + (310 + 56)) {} h0 h3" by (rule grows_trans [OF a(2) grows_trans [OF b(2) c(2)]]) simp_all
  have "class_wired (?vm2\<lparr>vm_heap := h2\<rparr>) k" if "k \<in> set bootstrap_classes" for k
    using b(5) that by (simp add: class_wired_def nil_def)
  then have cw: "\<forall>k \<in> set bootstrap_classes. class_wired ?vm3 k"
    using class_wired_grows [of "?vm2\<lparr>vm_heap := h2\<rparr>" _ 56 ?vm3] c(2) by (auto simp: nil_def)
  have rs: "refs h3 ?s3" "refs h3 tab"
    using refs_grows [OF refs_grows [OF a(3) b(2)] c(2)] refs_grows [OF b(3) c(2)] c(4) by (auto intro!: refs_update)
  have sw: "selectors_wired ?vm3" using a(4) c(5-7) by (simp add: selectors_wired_def names_symbol_def)
  have "symbols_ok ?vm3" using c(3) by (simp add: symbols_ok_def)
  with rs cw sw grows_tidy [OF c(2)] a(4,5) b(4) c(8) v0 have "loaded ?vm3"
    by (simp add: loaded_def nil_def)
  with a(1) vb c(1) g that show ?thesis by (simp add: nil_def)
qed

lemma special_live:
  assumes "heap_ok h" and "x \<in> live h"
  shows "is_ptr (from_ptr x)" and "as_ptr (from_ptr x) \<in> live h"
  using live_from_ptr [OF assms] assms(2) by auto

lemma loaded_roots:
  assumes l: "loaded vm" and a: "active_process vm = nil vm"
  shows "settled vm"
proof (rule tidy_collectable)
  have "nil vm \<in> set (specials vm)" using l by (auto simp: loaded_def nil_def)
  moreover have "live_value (vm_heap vm) (snd e)" if "e \<in> set (symbols vm)" for e
    using l that by (auto simp: loaded_def symbols_ok_def symbol_entry_ok_def live_value_def dest!: bspec [OF _ that])
  ultimately show "\<forall>v \<in> set (root_values vm). live_value (vm_heap vm) v"
    using l refs_live_value by (auto simp: root_values_def loaded_def a)
qed (use l a in \<open>auto simp: loaded_def\<close>)

lemma loaded_ready:
  assumes "loaded vm" and "active_process vm = nil vm"
    and "queues vm {specials vm ! SPECIAL_LOW_SPACE_SEMAPHORE, specials vm ! SPECIAL_TIMER_SEMAPHORE} (\<lambda>_. [])"
  shows "machine_ready vm"
  using assms loaded_roots [OF assms(1,2)]
  by (simp add: machine_ready_def loaded_def cache_ok_def entry_ok_def default_lookup_entry_def)

lemma loaded_nil: "loaded vm \<Longrightarrow> tidy (vm_heap vm) \<and> live_value (vm_heap vm) (nil vm) \<and> as_ptr (nil vm) \<in> live (vm_heap vm)"
  by (auto simp: loaded_def nil_def refs_def live_value_def)

lemma semaphore_stored:
  assumes l: "loaded vm" and r: "4 \<le> old_room (vm_heap vm)" and i: "10 \<le> i"
  obtains h x where "make_semaphore_old vm = Ok (from_ptr x, vm\<lparr>vm_heap := h\<rparr>)" and "grows 4 {} (vm_heap vm) h"
    and "semaphore_object h (nil vm) x" and "x \<notin> live (vm_heap vm)" and "x \<in> live h"
    and "loaded (vm\<lparr>vm_heap := h, specials := (specials vm)[i := from_ptr x]\<rparr>)"
proof -
  obtain h x where m: "make_semaphore_old vm = Ok (from_ptr x, vm\<lparr>vm_heap := h\<rparr>)" "grows 4 {} (vm_heap vm) h"
    "semaphore_object h (nil vm) x" "x \<notin> live (vm_heap vm)"
    by (rule semaphore_made [of vm]) (use loaded_nil [OF l] r in auto)
  have x: "x \<in> live h" using m(3) by (simp add: semaphore_object_def)
  have "loaded (vm\<lparr>vm_heap := h, specials := (specials vm)[i := from_ptr x]\<rparr>)"
    by (rule loaded_grows [OF l m(2)]) (use i special_live [OF tidy_ok [OF grows_tidy [OF m(2)]] x] in auto)
  with m x that show ?thesis by blast
qed

lemma scheduler_stored:
  assumes l: "loaded vm" and r: "36 \<le> old_room (vm_heap vm)"
  obtains h qs arr x where
    "make_scheduler vm = Ok (vm\<lparr>vm_heap := h, specials := (specials vm)[SPECIAL_PROCESSOR := from_ptr x]\<rparr>)"
    and "grows 36 {} (vm_heap vm) h" and "length qs = NUM_PRIORITIES" and "distinct (as_ptr (nil vm) # x # arr # qs)"
    and "set (as_ptr (nil vm) # x # arr # qs) \<subseteq> live h"
    and "\<forall>k < NUM_PRIORITIES. slot h arr k = from_ptr (qs ! k) \<and> queue_object h (nil vm) (qs ! k)"
    and "slot h x SCHEDULER_QUEUES = from_ptr arr" and "unat (num_slots h x) = SCHEDULER_NUM_VM_SLOTS"
    and "unat (num_slots h arr) = NUM_PRIORITIES"
    and "loaded (vm\<lparr>vm_heap := h, specials := (specials vm)[SPECIAL_PROCESSOR := from_ptr x]\<rparr>)"
proof -
  obtain h qs arr x where s: "make_scheduler vm = Ok (vm\<lparr>vm_heap := h, specials := (specials vm)[SPECIAL_PROCESSOR := from_ptr x]\<rparr>)"
    "grows 36 {} (vm_heap vm) h" "length qs = 8" "distinct (x # arr # qs)" "set (x # arr # qs) \<inter> live (vm_heap vm) = {}"
    "x \<in> live h" "arr \<in> live h" "\<forall>k < 8. slot h arr k = from_ptr (qs ! k) \<and> queue_object h (nil vm) (qs ! k)"
    "slot h x SCHEDULER_QUEUES = from_ptr arr" "unat (num_slots h x) = SCHEDULER_NUM_VM_SLOTS" "unat (num_slots h arr) = 8"
    by (rule scheduler_made [of vm]) (use loaded_nil [OF l] r in auto)
  have "loaded (vm\<lparr>vm_heap := h, specials := (specials vm)[4 := from_ptr x]\<rparr>)"
    by (rule loaded_grows [OF l s(2)]) (use special_live [OF tidy_ok [OF grows_tidy [OF s(2)]] s(6)] in auto)
  moreover have "set qs \<subseteq> live h" using s(3,8) by (auto simp: in_set_conv_nth queue_object_def)
  moreover have "as_ptr (nil vm) \<in> live h" "as_ptr (nil vm) \<in> live (vm_heap vm)"
    using loaded_nil [OF l] grows_live [OF s(2)] by auto
  ultimately show ?thesis using that [of x h qs arr] s by auto
qed

lemma bootstrap_ready:
  assumes t: "tidy h0" and r: "413 \<le> old_room h0"
  shows "\<exists>vm. bootstrap (bare_literal h0 n) = Ok vm \<and> machine_ready vm"
proof -
  obtain va vb vm where a: "make_well_known (bare_literal h0 n) = Ok va"
    "make_classes (nil va) bootstrap_classes va = Ok vb" "make_selectors (wire_superclasses vb) = Ok vm"
    "loaded vm" "grows 369 {} h0 (vm_heap vm)"
    by (rule machine_loads [OF t]) (use r in auto)
  have len: "length (specials vm) = 13" using a(4) by (simp add: loaded_def)
  obtain h1 qs arr x where s: "make_scheduler vm = Ok (vm\<lparr>vm_heap := h1, specials := (specials vm)[SPECIAL_PROCESSOR := from_ptr x]\<rparr>)"
    "grows 36 {} (vm_heap vm) h1" "length qs = 8" "distinct (as_ptr (nil vm) # x # arr # qs)"
    "set (as_ptr (nil vm) # x # arr # qs) \<subseteq> live h1"
    "\<forall>k < 8. slot h1 arr k = from_ptr (qs ! k) \<and> queue_object h1 (nil vm) (qs ! k)"
    "slot h1 x SCHEDULER_QUEUES = from_ptr arr" "unat (num_slots h1 x) = SCHEDULER_NUM_VM_SLOTS" "unat (num_slots h1 arr) = 8"
    "loaded (vm\<lparr>vm_heap := h1, specials := (specials vm)[SPECIAL_PROCESSOR := from_ptr x]\<rparr>)"
    by (rule scheduler_stored [OF a(4)]) (use grows_room [OF a(5), of 44] r in auto)
  let ?vm1 = "vm\<lparr>vm_heap := h1, specials := (specials vm)[4 := from_ptr x]\<rparr>"
  have n1: "nil ?vm1 = nil vm" by (simp add: nil_def)
  have r1: "8 \<le> old_room h1" using grows_room [OF s(2), of 8] grows_room [OF a(5), of 44] r by simp
  obtain h2 l where m: "make_semaphore_old ?vm1 = Ok (from_ptr l, ?vm1\<lparr>vm_heap := h2\<rparr>)" "grows 4 {} h1 h2"
    "semaphore_object h2 (nil vm) l" "l \<notin> live h1" "l \<in> live h2"
    "loaded (?vm1\<lparr>vm_heap := h2, specials := (specials ?vm1)[11 := from_ptr l]\<rparr>)"
    by (rule semaphore_stored [OF s(10), of 11]) (use r1 n1 in auto)
  let ?vm2 = "?vm1\<lparr>vm_heap := h2, specials := (specials ?vm1)[11 := from_ptr l]\<rparr>"
  have n2: "nil ?vm2 = nil vm" by (simp add: nil_def)
  obtain h3 t where q: "make_semaphore_old ?vm2 = Ok (from_ptr t, ?vm2\<lparr>vm_heap := h3\<rparr>)" "grows 4 {} h2 h3"
    "semaphore_object h3 (nil vm) t" "t \<notin> live h2" "t \<in> live h3"
    "loaded (?vm2\<lparr>vm_heap := h3, specials := (specials ?vm2)[12 := from_ptr t]\<rparr>)"
    by (rule semaphore_stored [OF m(6), of 12]) (use r1 grows_room [OF m(2), of 4] n2 in auto)
  let ?vm3 = "?vm2\<lparr>vm_heap := h3, specials := (specials ?vm2)[12 := from_ptr t]\<rparr>"
  let ?vm4 = "?vm3\<lparr>active_process := nil ?vm3\<rparr>"
  have n4: "nil ?vm4 = nil vm" by (simp add: nil_def)
  have l4: "loaded ?vm4"
    using q(6) by (simp add: loaded_def nil_def class_wired_def selectors_wired_def names_symbol_def symbols_ok_def)
  have g: "grows (4 + 4) {} h1 h3" by (rule grows_trans [OF m(2) q(2)]) simp
  have dist: "distinct (as_ptr (nil vm) # x # arr # qs @ [l, t])" using s(4,5) m(4,5) q(4) m(2) by (auto simp: grows_def)
  have "queues ?vm4 {from_ptr l, from_ptr t} (\<lambda>_. [])"
  proof (rule empty_queues [of ?vm4 x qs "as_ptr (nil vm)" arr, OF _ _ _ dist])
    show "\<forall>k < 8. slot (vm_heap ?vm4) arr k = from_ptr (qs ! k) \<and> queue_object (vm_heap ?vm4) (nil ?vm4) (qs ! k)"
      using s(5,6,9) g queue_object_grows [OF _ g] n4 by (simp add: grows_def)
    show "semaphore_object (vm_heap ?vm4) (nil ?vm4) l" using semaphore_object_grows [OF m(3) q(2)] n4 by simp
  qed (use s g len n4 q(3) tidy_ok [OF grows_tidy [OF g]] in \<open>auto simp: grows_def\<close>)
  moreover have "specials ?vm4 ! 11 = from_ptr l" "specials ?vm4 ! 12 = from_ptr t" using len by simp_all
  ultimately have "machine_ready ?vm4" using l4 n4 n2 by (intro loaded_ready) (simp_all add: nil_def)
  moreover have "bootstrap (bare_literal h0 n) = Ok ?vm4"
    using a(1-3) s(1) m(1) q(1) by (simp add: bootstrap_def Let_def)
  ultimately show ?thesis by blast
qed

text \<open>C12. The machine Vm::bare makes is ready to run.
  On host blocks that do not overlap and an old space of at least 448 words, bare meets none of its
  expects. Every root and every slot of every object of the machine it returns is an immediate or
  leads to an object; no object is young, marked or has an overflow size word; and both collectors,
  started on it, run to their end. The three singletons are distinct, every class of the reserved
  range has its method dictionary, format, index and the superclass of the treaty, and the well-known
  selectors are the interned symbols of their names. The lookup cache is empty and answers nothing
  false, and the eight run queues and the two semaphores are empty, well-formed lists.\<close>

theorem bare_machine_ready:
  assumes "base_ok f (young_bytes (vc_heap cfg))" and "base_ok t (young_bytes (vc_heap cfg))"
    and "base_ok d (old_bytes (vc_heap cfg))" and "f + young_bytes (vc_heap cfg) \<le> t"
    and "t + young_bytes (vc_heap cfg) \<le> d" and "448 \<le> old_bytes (vc_heap cfg) div 8"
  shows "\<exists>vm. bare f t d cfg = Ok vm \<and> machine_ready vm
    \<and> (\<forall>v \<in> set (root_values vm). live_value (vm_heap vm) v)
    \<and> (\<forall>x \<in> live (vm_heap vm). \<not> is_bytes (header (vm_heap vm) x) \<longrightarrow>
          (\<forall>i < unat (num_slots (vm_heap vm) x). live_value (vm_heap vm) (slot (vm_heap vm) x i)))
    \<and> (\<exists>vm'. collect_young vm = Ok vm') \<and> (\<exists>vm'. collect_old vm = Ok vm')"
proof -
  obtain vm where "bare f t d cfg = Ok vm" and m: "machine_ready vm"
    using bootstrap_ready [OF new_heap_tidy [OF new_heap_ok [OF assms(1-5)]]] assms(1,3,6)
    unfolding bare_def by (auto simp: old_room_def new_heap_def heap_fits_def base_ok_def)
  moreover have "settled vm" using m by (simp add: machine_ready_def)
  ultimately show ?thesis
    using settled_scavenge [of vm] settled_collect_old [of vm] by (auto simp: settled_def)
qed

definition boot_config :: vm_config where
  "boot_config = test_config\<lparr>vc_heap := (vc_heap test_config)\<lparr>young_bytes := 4096, old_bytes := 4096\<rparr>\<rparr>"

theorem bare_machine_ready_witness:
  "\<exists>vm. bare 4096 8192 12288 boot_config = Ok vm \<and> machine_ready vm \<and> (\<exists>vm'. collect_old vm = Ok vm')"
  using bare_machine_ready [of 4096 boot_config 8192 12288] by (auto simp: base_ok_def boot_config_def test_config_def)

end
