(* ===== verification/Process_Prims.thy ===== *)
theory Process_Prims
  imports Safepoints Element_Access
begin

section \<open>Primitives on processes and semaphores\<close>

text \<open>
  The primitives of src/prims.rs that switch processes. Each answers a value, a failure code or that
  control has moved to other registers.
\<close>

type_synonym prim_result = "(prim_outcome \<times> vm \<times> regs) outcome"

definition FAIL_UNKNOWN_PRIM :: int where "FAIL_UNKNOWN_PRIM = 1"
definition FAIL_WRONG_TYPE :: int where "FAIL_WRONG_TYPE = 2"
definition FAIL_WRONG_ARGC :: int where "FAIL_WRONG_ARGC = 3"
definition FAIL_BAD_INDEX :: int where "FAIL_BAD_INDEX = 4"
definition FAIL_IMMUTABLE :: int where "FAIL_IMMUTABLE = 5"
definition FAIL_OVERFLOW :: int where "FAIL_OVERFLOW = 6"
definition FAIL_UNSUPPORTED_CONTEXT :: int where "FAIL_UNSUPPORTED_CONTEXT = 7"
definition FAIL_NOT_FOUND :: int where "FAIL_NOT_FOUND = 8"

definition pvalue :: "value \<Rightarrow> vm \<Rightarrow> regs \<Rightarrow> prim_result" where
  "pvalue v vm rg = Ok (Value v, vm, rg)"

definition pfail :: "int \<Rightarrow> vm \<Rightarrow> regs \<Rightarrow> prim_result" where
  "pfail code vm rg = Ok (Fail code, vm, rg)"

definition pcontrol :: "vm \<times> regs \<Rightarrow> prim_result" where
  "pcontrol s = Ok (Control, fst s, snd s)"

definition is_semaphore :: "vm \<Rightarrow> value \<Rightarrow> bool" where
  "is_semaphore vm v \<longleftrightarrow> is_ptr v \<and> hdr_class_index (header (vm_heap vm) (as_ptr v)) = CLASS_SEMAPHORE"

definition prim_transfer_to :: "vm \<Rightarrow> regs \<Rightarrow> u8 \<Rightarrow> prim_result" where
  "prim_transfer_to vm rg r =
     (let target = get_slot vm rg r
      in if \<not> is_process vm target \<or> vslot vm (as_ptr target) PROCESS_STACK = nil vm
         then pfail FAIL_WRONG_TYPE vm rg
         else pcontrol (transfer_to vm rg target))"

definition switch_to_next :: "env \<Rightarrow> vm \<Rightarrow> regs \<Rightarrow> prim_result" where
  "switch_to_next e vm rg =
     rbind (wait_next e vm) (\<lambda>(next, vm1). pcontrol (transfer_to vm1 rg next))"

definition prim_semaphore_wait :: "env \<Rightarrow> vm \<Rightarrow> regs \<Rightarrow> u8 \<Rightarrow> prim_result" where
  "prim_semaphore_wait e vm rg r =
     (let sem = get_slot vm rg r
      in if \<not> is_semaphore vm sem then pfail FAIL_WRONG_TYPE vm rg
         else
           let n = as_int (vslot vm (as_ptr sem) SEMAPHORE_EXCESS_SIGNALS)
           in if 0 < n
              then pvalue sem
                     (vset_slot_raw vm (as_ptr sem) SEMAPHORE_EXCESS_SIGNALS (from_int (n - 1))) rg
              else
                let c = vm_counters vm;
                    vm1 = vm\<lparr>vm_counters := c\<lparr>semaphore_blocks := semaphore_blocks c + 1\<rparr>\<rparr>;
                    cur = active_process vm1;
                    vm2 = save_regs vm1 rg
                in switch_to_next e
                     (enqueue_process vm2 sem SEMAPHORE_QUEUE_HEAD SEMAPHORE_QUEUE_TAIL cur) rg)"

definition prim_semaphore_signal :: "vm \<Rightarrow> regs \<Rightarrow> u8 \<Rightarrow> prim_result" where
  "prim_semaphore_signal vm rg r =
     (let sem = get_slot vm rg r
      in if \<not> is_semaphore vm sem then pfail FAIL_WRONG_TYPE vm rg
         else case dequeue_process vm sem SEMAPHORE_QUEUE_HEAD SEMAPHORE_QUEUE_TAIL of
                Some (p, vm1) \<Rightarrow>
                  (let cur = active_process vm1
                   in if process_priority vm1 cur < process_priority vm1 p
                      then pcontrol (transfer_to (make_runnable vm1 cur) rg p)
                      else pvalue sem (make_runnable vm1 p) rg)
              | None \<Rightarrow>
                  (let n = as_int (vslot vm (as_ptr sem) SEMAPHORE_EXCESS_SIGNALS)
                   in pvalue sem
                        (vset_slot_raw vm (as_ptr sem) SEMAPHORE_EXCESS_SIGNALS (from_int (n + 1))) rg))"

definition prim_yield :: "env \<Rightarrow> vm \<Rightarrow> regs \<Rightarrow> u8 \<Rightarrow> prim_result" where
  "prim_yield e vm rg r =
     (let cur = active_process vm
      in rbind (wait_next e (make_runnable vm cur)) (\<lambda>(next, vm1).
         if next = cur
         then let vm2 = vset_slot_raw vm1 (as_ptr cur) PROCESS_MY_LIST (nil vm1)
              in pvalue (get_slot vm2 rg r) vm2 rg
         else pcontrol (transfer_to vm1 rg next)))"

definition prim_process_resume :: "vm \<Rightarrow> regs \<Rightarrow> u8 \<Rightarrow> prim_result" where
  "prim_process_resume vm rg r =
     (let p = get_slot vm rg r; cur = active_process vm
      in if \<not> is_process vm p \<or> p = cur \<or> vslot vm (as_ptr p) PROCESS_STACK = nil vm
            \<or> vslot vm (as_ptr p) PROCESS_MY_LIST \<noteq> nil vm
         then pfail FAIL_WRONG_TYPE vm rg
         else if process_priority vm cur < process_priority vm p
         then pcontrol (transfer_to (make_runnable vm cur) rg p)
         else pvalue p (make_runnable vm p) rg)"

definition unlink_process :: "vm \<Rightarrow> value \<Rightarrow> vm outcome" where
  "unlink_process vm p = of_opt Diverge (remove_process_from_its_list vm p) Ok"

definition prim_process_suspend :: "env \<Rightarrow> vm \<Rightarrow> regs \<Rightarrow> u8 \<Rightarrow> prim_result" where
  "prim_process_suspend e vm rg r =
     (let p = get_slot vm rg r
      in if \<not> is_process vm p then pfail FAIL_WRONG_TYPE vm rg
         else if p = active_process vm then switch_to_next e (save_regs vm rg) rg
         else rbind (unlink_process vm p) (\<lambda>vm1. pvalue p vm1 rg))"

text \<open>The trampoline frame that makes another process terminate itself.\<close>

definition finish_terminate_other :: "vm \<Rightarrow> regs \<Rightarrow> value \<Rightarrow> nat \<Rightarrow> int \<Rightarrow> prim_result" where
  "finish_terminate_other vm rg p t_off t_pc =
     (let tramp = specials vm ! SPECIAL_TERMINATE_TRAMPOLINE;
          tramp_fs = method_frame_slots vm tramp;
          pa = as_ptr p;
          sa = as_ptr (vslot vm pa PROCESS_STACK);
          fs = method_frame_slots vm (vslot vm sa (t_off + FRAME_METHOD));
          new_off = t_off + FRAME_RECEIVER + fs;
          cur = as_int (vslot vm pa PROCESS_SERIAL_COUNTER);
          serial = (if 2 ^ 30 - 1 \<le> cur then 1 else cur + 1);
          vm1 = vset_slot_raw vm pa PROCESS_SERIAL_COUNTER (from_int serial);
          vm2 = store_slot vm1 sa (new_off + FRAME_CALLER) (from_int (int t_off));
          vm3 = store_slot vm2 sa (new_off + FRAME_RETINFO) (from_int (push_bit RETINFO_PC_SHIFT t_pc));
          vm4 = store_slot vm3 sa (new_off + FRAME_METHOD) tramp;
          vm5 = store_slot vm4 sa (new_off + FRAME_FLAGS) (from_int (push_bit SERIAL_SHIFT serial));
          vm6 = store_slot vm5 sa (new_off + FRAME_RECEIVER) p;
          vm7 = fold (\<lambda>k vm. store_slot vm sa (new_off + FRAME_RECEIVER + k) (nil vm)) [1..<tramp_fs] vm6;
          vm8 = vset_slot_raw vm7 pa PROCESS_FRAME_OFFSET (from_int (int new_off));
          vm9 = vset_slot_raw vm8 pa PROCESS_PC (from_int 0)
      in rbind (unlink_process vm9 p) (\<lambda>vm10. pvalue p (make_runnable vm10 p) rg))"

definition prim_process_terminate :: "nat \<Rightarrow> vm \<Rightarrow> regs \<Rightarrow> u8 \<Rightarrow> prim_result" where
  "prim_process_terminate fuel vm rg r =
     (let p = get_slot vm rg r; pa = as_ptr p; stack = vslot vm pa PROCESS_STACK;
          tramp = specials vm ! SPECIAL_TERMINATE_TRAMPOLINE
      in if \<not> is_process vm p then pfail FAIL_WRONG_TYPE vm rg
         else if p = active_process vm
         then rbind (unwind_and_return_from fuel vm rg STACK_FRAMES_BASE (nil vm)) pcontrol
         else if stack = nil vm then pvalue p vm rg
         else if \<not> is_ptr tramp \<or> tramp = nil vm then pfail FAIL_UNSUPPORTED_CONTEXT vm rg
         else
           let sa = as_ptr stack;
               t_off = as_usize (as_int (vslot vm pa PROCESS_FRAME_OFFSET));
               t_pc = as_int (vslot vm pa PROCESS_PC);
               fs = method_frame_slots vm (vslot vm sa (t_off + FRAME_METHOD));
               needed = t_off + FRAME_RECEIVER + fs + FRAME_RECEIVER + method_frame_slots vm tramp;
               cur_slots = unat (num_slots (vm_heap vm) sa)
           in if needed \<le> cur_slots then finish_terminate_other vm rg p t_off t_pc
              else of_opt Diverge (double_until needed (cur_slots * 2)) (\<lambda>new_slots.
                if max_stack_bytes vm < new_slots * 8 then pfail FAIL_UNSUPPORTED_CONTEXT vm rg
                else rbind (alloc_gc (push_root vm p) rg CLASS_STACK FMT_PTRS new_slots)
                  (\<lambda>(new_stack, vm1, rg1). rbind (pop_root vm1) (\<lambda>(p2, vm2).
                  let old_stack = vslot vm2 (as_ptr p2) PROCESS_STACK;
                      vm3 = copy_slots vm2 (as_ptr old_stack) (as_ptr new_stack) cur_slots;
                      vm4 = store_slot vm3 (as_ptr p2) PROCESS_STACK new_stack;
                      nsa = as_ptr new_stack;
                      vm5 = (if in_old_space (vm_heap vm4) nsa
                             then vm4\<lparr>vm_heap := remember (vm_heap vm4) nsa\<rparr> else vm4)
                  in finish_terminate_other vm5 rg1 p2 t_off t_pc))))"

end
