(* ===== verification/Object_Prims.thy ===== *)
theory Object_Prims
  imports Process_Prims
begin

section \<open>Primitives on objects, integers and blocks\<close>

text \<open>
  The primitives of src/prims.rs for instance creation, element and instance variable access,
  SmallInteger arithmetic, perform: and the activation of blocks, and those that change classes.
\<close>

definition prim_new :: "vm \<Rightarrow> regs \<Rightarrow> u8 \<Rightarrow> prim_result" where
  "prim_new vm rg r =
     (let cls = get_slot vm rg r
      in if \<not> is_ptr cls \<or> unat (num_slots (vm_heap vm) (as_ptr cls)) < BEHAVIOR_NUM_VM_SLOTS
         then pfail FAIL_WRONG_TYPE vm rg
         else
           let (format, nslots) = class_format_and_slots vm cls
           in if format \<noteq> FMT_FIXED then pfail FAIL_WRONG_TYPE vm rg
              else
                let idx = word_of_int (as_int (vslot vm (as_ptr cls) BEHAVIOR_CLASS_INDEX))
                in rbind (alloc_gc vm rg idx FMT_FIXED nslots) (\<lambda>(obj, vm1, rg1). pvalue obj vm1 rg1))"

definition prim_new_sized :: "vm \<Rightarrow> regs \<Rightarrow> u8 \<Rightarrow> prim_result" where
  "prim_new_sized vm rg r =
     (let cls = get_slot vm rg r; sz = get_slot vm rg (r + 1)
      in if \<not> is_ptr cls \<or> \<not> is_int sz \<or> as_int sz < 0
            \<or> unat (num_slots (vm_heap vm) (as_ptr cls)) < BEHAVIOR_NUM_VM_SLOTS
         then pfail FAIL_WRONG_TYPE vm rg
         else
           let format = fst (class_format_and_slots vm cls);
               idx = word_of_int (as_int (vslot vm (as_ptr cls) BEHAVIOR_CLASS_INDEX));
               n = as_usize (as_int sz)
           in if format = FMT_PTRS
              then rbind (alloc_gc vm rg idx FMT_PTRS n) (\<lambda>(obj, vm1, rg1). pvalue obj vm1 rg1)
              else if FMT_BYTES_BASE \<le> format
              then rbind (alloc_gc vm rg idx FMT_BYTES_BASE n) (\<lambda>(obj, vm1, rg1). pvalue obj vm1 rg1)
              else pfail FAIL_WRONG_TYPE vm rg)"

definition prim_at :: "vm \<Rightarrow> regs \<Rightarrow> u8 \<Rightarrow> prim_result" where
  "prim_at vm rg r =
     (case at_value vm (get_slot vm rg r) (get_slot vm rg (r + 1)) of
        Some v \<Rightarrow> pvalue v vm rg
      | None \<Rightarrow> pfail FAIL_BAD_INDEX vm rg)"

definition prim_at_put :: "vm \<Rightarrow> regs \<Rightarrow> u8 \<Rightarrow> prim_result" where
  "prim_at_put vm rg r =
     (case at_put_value vm (get_slot vm rg r) (get_slot vm rg (r + 1)) (get_slot vm rg (r + 2)) of
        Some (v, vm1) \<Rightarrow> pvalue v vm1 rg
      | None \<Rightarrow> pfail FAIL_BAD_INDEX vm rg)"

definition prim_size :: "vm \<Rightarrow> regs \<Rightarrow> u8 \<Rightarrow> prim_result" where
  "prim_size vm rg r =
     (case size_value vm (get_slot vm rg r) of
        Some v \<Rightarrow> pvalue v vm rg
      | None \<Rightarrow> pfail FAIL_WRONG_TYPE vm rg)"

text \<open>
  The instance variable primitives check the index against the slots of the receiver. The writing
  one does not look at the immutable bit.
\<close>

definition inst_var_index :: "vm \<Rightarrow> value \<Rightarrow> value \<Rightarrow> int + nat" where
  "inst_var_index vm recv idx =
     (if \<not> is_ptr recv \<or> \<not> is_int idx then Inl FAIL_WRONG_TYPE
      else
        let i = as_int idx; n = sint (num_slots (vm_heap vm) (as_ptr recv))
        in if i < 1 \<or> n < i \<or> is_bytes (header (vm_heap vm) (as_ptr recv)) then Inl FAIL_BAD_INDEX
           else Inr (nat (i - 1)))"

definition prim_inst_var_at :: "vm \<Rightarrow> regs \<Rightarrow> u8 \<Rightarrow> prim_result" where
  "prim_inst_var_at vm rg r =
     (let recv = get_slot vm rg r
      in case inst_var_index vm recv (get_slot vm rg (r + 1)) of
           Inl code \<Rightarrow> pfail code vm rg
         | Inr i \<Rightarrow> pvalue (vslot vm (as_ptr recv) i) vm rg)"

definition prim_inst_var_at_put :: "vm \<Rightarrow> regs \<Rightarrow> u8 \<Rightarrow> prim_result" where
  "prim_inst_var_at_put vm rg r =
     (let recv = get_slot vm rg r; val = get_slot vm rg (r + 2)
      in case inst_var_index vm recv (get_slot vm rg (r + 1)) of
           Inl code \<Rightarrow> pfail code vm rg
         | Inr i \<Rightarrow> pvalue val (store_slot vm (as_ptr recv) i val) rg)"

subsection \<open>Sending and activating\<close>

definition spread_args :: "vm \<Rightarrow> regs \<Rightarrow> u8 \<Rightarrow> nat \<Rightarrow> nat \<Rightarrow> vm" where
  "spread_args vm rg r arr n =
     fold (\<lambda>i vm. put_slot vm rg (r + 1 + of_nat i) (vslot vm arr i)) [0..<n] vm"

definition prim_perform :: "prim_fn \<Rightarrow> vm \<Rightarrow> regs \<Rightarrow> u8 \<Rightarrow> u8 \<Rightarrow> prim_result" where
  "prim_perform P vm rg r dest =
     (let selector = get_slot vm rg (r + 1); args = get_slot vm rg (r + 2)
      in if \<not> is_ptr selector \<or> \<not> is_ptr args \<or> hdr_format (header (vm_heap vm) (as_ptr args)) \<noteq> FMT_PTRS
         then pfail FAIL_WRONG_TYPE vm rg
         else
           let n = unat (num_slots (vm_heap vm) (as_ptr args))
           in if 250 < unat r + 1 + n then pfail FAIL_WRONG_ARGC vm rg
              else rbind (ensure_stack vm rg (r_frame rg + FRAME_RECEIVER + unat r + 1 + n)) (\<lambda>(vm1, rg1).
                   let vm2 = spread_args vm1 rg1 r (as_ptr args) n
                   in rbind (do_send P vm2 rg1 dest r selector n None None) pcontrol))"

definition prim_block_value_args :: "vm \<Rightarrow> regs \<Rightarrow> u8 \<Rightarrow> u8 \<Rightarrow> prim_result" where
  "prim_block_value_args vm rg r dest =
     (if unat r < FRAME_RECEIVER then pfail FAIL_UNSUPPORTED_CONTEXT vm rg
      else
        let closure = get_slot vm rg r; args = get_slot vm rg (r + 1)
        in if \<not> is_closure vm closure \<or> \<not> is_ptr args
              \<or> hdr_format (header (vm_heap vm) (as_ptr args)) \<noteq> FMT_PTRS
           then pfail FAIL_WRONG_TYPE vm rg
           else
             let block = vslot vm (as_ptr closure) CLOSURE_COMPILED_BLOCK;
                 n = unat (num_slots (vm_heap vm) (as_ptr args))
             in if method_argc vm block \<noteq> n then pfail FAIL_WRONG_ARGC vm rg
                else rbind (ensure_stack vm rg (r_frame rg + FRAME_RECEIVER + unat r + 1 + n)) (\<lambda>(vm1, rg1).
                     let vm2 = spread_args vm1 rg1 r (as_ptr args) n
                     in rbind (push_frame vm2 rg1 block r dest n None FLAG_BLOCKCTX) pcontrol))"

definition prim_block_value :: "vm \<Rightarrow> regs \<Rightarrow> u8 \<Rightarrow> nat \<Rightarrow> u8 \<Rightarrow> nat \<Rightarrow> prim_result" where
  "prim_block_value vm rg r argc dest want =
     (if unat r < FRAME_RECEIVER then pfail FAIL_UNSUPPORTED_CONTEXT vm rg
      else
        let closure = get_slot vm rg r
        in if \<not> is_closure vm closure then pfail FAIL_WRONG_TYPE vm rg
           else
             let block = vslot vm (as_ptr closure) CLOSURE_COMPILED_BLOCK
             in if argc \<noteq> want \<or> method_argc vm block \<noteq> want then pfail FAIL_WRONG_ARGC vm rg
                else rbind (push_frame vm rg block r dest argc None FLAG_BLOCKCTX) pcontrol)"

subsection \<open>SmallInteger arithmetic\<close>

definition shift_int :: "int \<Rightarrow> int \<Rightarrow> int option" where
  "shift_int a b =
     (if 0 \<le> b
      then (if 63 \<le> b then None
            else let s = sint (push_bit (nat b) (word_of_int a :: u64))
                 in if drop_bit (nat b) s = a then Some s else None)
      else if 63 \<le> - b then Some (if a < 0 then -1 else 0)
      else Some (drop_bit (nat (- b)) a))"

text \<open>The last case is the unreachable arm: the dispatcher calls this for no other number.\<close>

definition int_binary :: "u16 \<Rightarrow> int \<Rightarrow> int \<Rightarrow> int option" where
  "int_binary n a b =
     (if n = PRIM_INT_ADD then checked_i64 (a + b)
      else if n = PRIM_INT_SUB then checked_i64 (a - b)
      else if n = PRIM_INT_MUL then checked_i64 (a * b)
      else if n = PRIM_INT_DIV then (if b = 0 then None else Some (fst (floored_divmod a b)))
      else if n = PRIM_INT_MOD then (if b = 0 then None else Some (snd (floored_divmod a b)))
      else if n = PRIM_INT_QUO then (if b = 0 then None else Some (i64_div a b))
      else if n = PRIM_INT_BIT_AND then Some (a AND b)
      else if n = PRIM_INT_BIT_OR then Some (a OR b)
      else if n = PRIM_INT_BIT_XOR then Some (a XOR b)
      else shift_int a b)"

definition prim_int_binary :: "u16 \<Rightarrow> vm \<Rightarrow> regs \<Rightarrow> u8 \<Rightarrow> prim_result" where
  "prim_int_binary n vm rg r =
     (let x = get_slot vm rg r; y = get_slot vm rg (r + 1)
      in if \<not> is_int x \<or> \<not> is_int y then pfail FAIL_WRONG_TYPE vm rg
         else case Option.bind (int_binary n (as_int x) (as_int y)) try_from_int of
                Some v \<Rightarrow> pvalue v vm rg
              | None \<Rightarrow> pfail FAIL_OVERFLOW vm rg)"

definition prim_int_compare :: "u16 \<Rightarrow> vm \<Rightarrow> regs \<Rightarrow> u8 \<Rightarrow> prim_result" where
  "prim_int_compare n vm rg r =
     (let x = get_slot vm rg r; y = get_slot vm rg (r + 1); a = as_int x; b = as_int y
      in if \<not> is_int x \<or> \<not> is_int y then pfail FAIL_WRONG_TYPE vm rg
         else pvalue (bool_v vm
                (if n = PRIM_INT_LT then a < b else if n = PRIM_INT_GT then b < a
                 else if n = PRIM_INT_LE then a \<le> b else if n = PRIM_INT_GE then b \<le> a else a = b)) vm rg)"

subsection \<open>Classes, methods, caches and snapshots\<close>

definition prim_register_class :: "vm \<Rightarrow> regs \<Rightarrow> u8 \<Rightarrow> prim_result" where
  "prim_register_class vm rg r =
     (let cls = get_slot vm rg r
      in if \<not> is_ptr cls then pfail FAIL_WRONG_TYPE vm rg
         else rbind (register_class vm cls) (\<lambda>(idx, vm1). pvalue (from_int (uint idx)) vm1 rg))"

definition sealed_selector :: "vm \<Rightarrow> value \<Rightarrow> bool" where
  "sealed_selector vm selector =
     (let sels = as_ptr (specials vm ! SPECIAL_SPECIALIZED_SELECTORS)
      in list_ex (\<lambda>i. vslot vm sels i = selector) [0..<unat (num_slots (vm_heap vm) sels)])"

definition prim_method_install :: "vm \<Rightarrow> regs \<Rightarrow> u8 \<Rightarrow> prim_result" where
  "prim_method_install vm rg r =
     (let cls = get_slot vm rg r; selector = get_slot vm rg (r + 1); meth = get_slot vm rg (r + 2)
      in if \<not> is_ptr cls \<or> \<not> is_ptr selector \<or> \<not> is_ptr meth then pfail FAIL_WRONG_TYPE vm rg
         else rbind (class_table_at vm CLASS_SMALLINTEGER) (\<lambda>smallint.
              if cls = smallint \<and> sealed_selector vm selector then pvalue meth vm rg
              else rbind (install_method vm cls selector meth) (\<lambda>vm1. pvalue meth vm1 rg)))"

definition path_arg :: "vm \<Rightarrow> regs \<Rightarrow> u8 \<Rightarrow> string option" where
  "path_arg vm rg k =
     (let v = get_slot vm rg k
      in if is_ptr v \<and> is_bytes (header (vm_heap vm) (as_ptr v))
         then Some (map (\<lambda>b. char_of (unat b)) (obj_bytes (vm_heap vm) (as_ptr v))) else None)"

definition prim_snapshot :: "env \<Rightarrow> vm \<Rightarrow> regs \<Rightarrow> u8 \<Rightarrow> u8 \<Rightarrow> prim_result" where
  "prim_snapshot e vm rg r dest =
     (case path_arg vm rg (r + 1) of
        None \<Rightarrow> pfail FAIL_WRONG_TYPE vm rg
      | Some path \<Rightarrow>
          let vm1 = save_regs vm rg;
              vm2 = put_slot vm1 rg dest (true_v vm1)
          in rbind (tenure_all vm2) (\<lambda>vm3.
             let rg1 = refresh_regs vm3 rg
             in rbind (try_write_image (env_write e path) vm3) (\<lambda>(err, vm4).
                case err of
                  None \<Rightarrow> pvalue (false_v vm4) vm4 rg1
                | Some _ \<Rightarrow> pfail FAIL_NOT_FOUND vm4 rg1)))"

definition prim_signal_at_ms :: "vm \<Rightarrow> regs \<Rightarrow> u8 \<Rightarrow> prim_result" where
  "prim_signal_at_ms vm rg r =
     (let sem = get_slot vm rg (r + 1); ms = get_slot vm rg (r + 2)
      in if \<not> is_semaphore vm sem \<or> \<not> is_int ms then pfail FAIL_WRONG_TYPE vm rg
         else
           let vm1 = vm\<lparr>timer_requests := timer_requests vm @ [(as_int ms, sem)], safepoint_armed := True\<rparr>
           in pvalue (get_slot vm1 rg r) vm1 rg)"

end
