(* ===== verification/Handler_Prims.thy ===== *)
theory Handler_Prims
  imports Object_Prims
begin

section \<open>Primitives on frames and exception handlers\<close>

text \<open>
  The primitives of src/prims.rs that walk the frames of a stack: finding the handler of an
  exception, unwinding to a frame, reading and setting the state of a handler frame, and the frame
  description the debugger asks for. Frames are offsets into the stack; a walk along caller links or
  along superclasses is a partial function, because neither is bounded by the data it reads.
\<close>

definition frame_flags_at :: "vm \<Rightarrow> regs \<Rightarrow> nat \<Rightarrow> value" where
  "frame_flags_at vm rg off = vslot vm (r_stack rg) (off + FRAME_FLAGS)"

definition method_at_frame :: "vm \<Rightarrow> regs \<Rightarrow> nat \<Rightarrow> value" where
  "method_at_frame vm rg off = vslot vm (r_stack rg) (off + FRAME_METHOD)"

definition frame_bslot :: "vm \<Rightarrow> regs \<Rightarrow> nat \<Rightarrow> nat \<Rightarrow> value" where
  "frame_bslot vm rg off k = vslot vm (r_stack rg) (off + FRAME_RECEIVER + k)"

text \<open>The handled classes are those below the stored one.\<close>

partial_function (option) handles_loop :: "vm \<Rightarrow> value \<Rightarrow> value \<Rightarrow> bool option" where
  "handles_loop vm stored c =
     (if c \<noteq> nil vm \<and> is_ptr c
      then (if c = stored then Some True
            else handles_loop vm stored (vslot vm (as_ptr c) BEHAVIOR_SUPERCLASS))
      else Some False)"

definition class_handles :: "vm \<Rightarrow> value \<Rightarrow> value \<Rightarrow> bool option" where
  "class_handles vm stored exc_class = handles_loop vm stored exc_class"

definition is_handler_frame :: "vm \<Rightarrow> regs \<Rightarrow> nat \<Rightarrow> bool" where
  "is_handler_frame vm rg off \<longleftrightarrow>
     is_int (frame_flags_at vm rg off)
     \<and> as_int (frame_flags_at vm rg off) AND uint FLAG_HANDLER \<noteq> 0"

definition armed_frame :: "vm \<Rightarrow> regs \<Rightarrow> nat \<Rightarrow> bool" where
  "armed_frame vm rg off \<longleftrightarrow>
     is_handler_frame vm rg off
     \<and> (let hsb = method_handler_slot_base vm (method_at_frame vm rg off);
            state = frame_bslot vm rg off (hsb + HANDLER_SLOT_STATE)
        in is_int state \<and> as_int state = HANDLER_STATE_ARMED)"

definition stored_class :: "vm \<Rightarrow> regs \<Rightarrow> nat \<Rightarrow> value" where
  "stored_class vm rg off =
     frame_bslot vm rg off
       (method_handler_slot_base vm (method_at_frame vm rg off) + HANDLER_SLOT_CLASS)"

text \<open>The caller of a frame, or nothing when it is the base frame.\<close>

definition caller_of :: "vm \<Rightarrow> regs \<Rightarrow> nat \<Rightarrow> nat option" where
  "caller_of vm rg off =
     (let c = vslot vm (r_stack rg) (off + FRAME_CALLER)
      in if \<not> is_int c \<or> as_int c = 0 then None else Some (as_usize (as_int c)))"

partial_function (option) find_handler_loop :: "vm \<Rightarrow> regs \<Rightarrow> value \<Rightarrow> nat \<Rightarrow> value option" where
  "find_handler_loop vm rg exc_class off =
     Option.bind (if armed_frame vm rg off then class_handles vm (stored_class vm rg off) exc_class
                  else Some False) (\<lambda>found.
       if found then Some (from_int (int off))
       else (case caller_of vm rg off of
               None \<Rightarrow> Some (nil vm)
             | Some c \<Rightarrow> find_handler_loop vm rg exc_class c))"

definition prim_find_handler :: "vm \<Rightarrow> regs \<Rightarrow> u8 \<Rightarrow> prim_result" where
  "prim_find_handler vm rg r =
     (let exc_class = get_slot vm rg (r + 1); start = get_slot vm rg (r + 2);
          search = (\<lambda>off. of_opt Diverge (find_handler_loop vm rg exc_class off) (\<lambda>v. pvalue v vm rg))
      in if is_int start
         then (case caller_of vm rg (as_usize (as_int start)) of
                 None \<Rightarrow> pvalue (nil vm) vm rg
               | Some c \<Rightarrow> search c)
         else search (r_frame rg))"

definition prim_unwind_to :: "nat \<Rightarrow> vm \<Rightarrow> regs \<Rightarrow> u8 \<Rightarrow> prim_result" where
  "prim_unwind_to fuel vm rg r =
     (let off = get_slot vm rg (r + 1); serial = get_slot vm rg (r + 2); v = get_slot vm rg (r + 3)
      in if \<not> is_int off \<or> \<not> is_int serial then pfail FAIL_WRONG_TYPE vm rg
         else
           let t = as_usize (as_int off); flags = frame_flags_at vm rg t
           in if t \<le> r_frame rg \<and> is_int flags \<and> drop_bit SERIAL_SHIFT (as_int flags) = as_int serial
              then rbind (unwind_and_return_from fuel vm rg t v) pcontrol
              else pfail FAIL_NOT_FOUND vm rg)"

definition prim_handler_info :: "vm \<Rightarrow> regs \<Rightarrow> u8 \<Rightarrow> prim_result" where
  "prim_handler_info vm rg r =
     (let off = get_slot vm rg (r + 1)
      in if \<not> is_int off then pfail FAIL_WRONG_TYPE vm rg
         else
           let k = as_usize (as_int off)
           in if \<not> is_handler_frame vm rg k then pfail FAIL_NOT_FOUND vm rg
              else rbind (alloc_gc vm rg CLASS_ARRAY FMT_PTRS 3) (\<lambda>(arr, vm1, rg1).
                   let flags = frame_flags_at vm1 rg1 k;
                       hsb = method_handler_slot_base vm1 (method_at_frame vm1 rg1 k);
                       stored = frame_bslot vm1 rg1 k (hsb + HANDLER_SLOT_CLASS);
                       block = frame_bslot vm1 rg1 k (hsb + HANDLER_SLOT_BLOCK);
                       a = as_ptr arr;
                       vm2 = vset_slot_raw vm1 a 0 stored;
                       vm3 = vset_slot_raw vm2 a 1 block;
                       vm4 = vset_slot_raw vm3 a 2 (from_int (drop_bit SERIAL_SHIFT (as_int flags)))
                   in pvalue arr vm4 rg1))"

definition prim_set_handler_state :: "vm \<Rightarrow> regs \<Rightarrow> u8 \<Rightarrow> prim_result" where
  "prim_set_handler_state vm rg r =
     (let off = get_slot vm rg (r + 1); state = get_slot vm rg (r + 2)
      in if \<not> is_int off \<or> \<not> is_int state then pfail FAIL_WRONG_TYPE vm rg
         else
           let k = as_usize (as_int off)
           in if \<not> is_handler_frame vm rg k then pfail FAIL_NOT_FOUND vm rg
              else
                let hsb = method_handler_slot_base vm (method_at_frame vm rg k);
                    vm1 = vset_slot_raw vm (r_stack rg) (k + FRAME_RECEIVER + hsb + HANDLER_SLOT_STATE) state
                in pvalue (get_slot vm1 rg r) vm1 rg)"

definition prim_signal_context :: "vm \<Rightarrow> regs \<Rightarrow> prim_result" where
  "prim_signal_context vm rg =
     rbind (alloc_gc vm rg CLASS_ARRAY FMT_PTRS 2) (\<lambda>(arr, vm1, rg1).
       let flags = frame_flags_at vm1 rg1 (r_frame rg1);
           a = as_ptr arr;
           vm2 = vset_slot_raw vm1 a 0 (from_int (int (r_frame rg1)));
           vm3 = vset_slot_raw vm2 a 1 (from_int (drop_bit SERIAL_SHIFT (as_int flags)))
       in pvalue arr vm3 rg1)"

subsection \<open>The description of a frame\<close>

text \<open>The program counter of a frame that is not the top one is in the frame it called.\<close>

partial_function (option) callee_pc :: "vm \<Rightarrow> nat \<Rightarrow> nat \<Rightarrow> nat \<Rightarrow> value option" where
  "callee_pc vm stack k f =
     (if k < f
      then let caller = vslot vm stack (f + FRAME_CALLER); ri = vslot vm stack (f + FRAME_RETINFO)
           in if \<not> is_int caller \<or> as_int caller = 0 then Some (nil vm)
              else if as_usize (as_int caller) = k
              then Some (if is_int ri then from_int (drop_bit RETINFO_PC_SHIFT (as_int ri)) else nil vm)
              else callee_pc vm stack k (as_usize (as_int caller))
      else Some (nil vm))"

definition frame_pc :: "vm \<Rightarrow> value \<Rightarrow> nat \<Rightarrow> nat \<Rightarrow> value option" where
  "frame_pc vm process stack k =
     (let saved_off = vslot vm (as_ptr process) PROCESS_FRAME_OFFSET
      in if \<not> is_int saved_off then Some (nil vm)
         else if as_usize (as_int saved_off) = k then Some (vslot vm (as_ptr process) PROCESS_PC)
         else callee_pc vm stack k (as_usize (as_int saved_off)))"

definition prim_frame_info :: "vm \<Rightarrow> regs \<Rightarrow> u8 \<Rightarrow> prim_result" where
  "prim_frame_info vm rg r =
     (let process = get_slot vm rg (r + 1); off = get_slot vm rg (r + 2)
      in if \<not> is_ptr process \<or> \<not> is_int off then pfail FAIL_WRONG_TYPE vm rg
         else
           let stack0 = vslot vm (as_ptr process) PROCESS_STACK;
               k = as_usize (as_int off);
               meth0 = vslot vm (as_ptr stack0) (k + FRAME_METHOD);
               fs = method_frame_slots vm meth0
           in if stack0 = nil vm \<or> \<not> is_ptr meth0 \<or> meth0 = nil vm then pfail FAIL_NOT_FOUND vm rg
              else rbind (alloc_gc vm rg CLASS_ARRAY FMT_PTRS (2 + fs)) (\<lambda>(arr, vm1, rg1).
                   let stack = as_ptr (vslot vm1 (as_ptr process) PROCESS_STACK);
                       meth = vslot vm1 stack (k + FRAME_METHOD)
                   in of_opt Diverge (frame_pc vm1 process stack k) (\<lambda>pc.
                      let a = as_ptr arr;
                          vm2 = vset_slot_raw vm1 a 0 meth;
                          vm3 = vset_slot_raw vm2 a 1 pc;
                          vm4 = fold (\<lambda>i vm. vset_slot_raw vm a (2 + i)
                                   (vslot vm stack (k + FRAME_RECEIVER + i))) [0..<fs] vm3
                      in pvalue arr vm4 rg1)))"

end
