(* ===== verification/Png.thy ===== *)
theory Png
  imports Host_Ui
begin

section \<open>The screenshot writer\<close>

text \<open>
  src/png.rs: checksums, the zlib stream of stored blocks, chunks and the encoder of RGB images. The
  product of the dimensions is taken on u32 and wraps; a row outside the data is the slice's panic.
\<close>

unbundle bit_operations_syntax

definition be_u32 :: "u32 \<Rightarrow> u8 list" where
  "be_u32 v = map (\<lambda>k. ucast (drop_bit (8 * k) v)) [3, 2, 1, 0]"

definition le_u16 :: "u16 \<Rightarrow> u8 list" where
  "le_u16 v = [ucast v, ucast (drop_bit 8 v)]"

definition crc_bit :: "u32 \<Rightarrow> u32" where
  "crc_bit crc = (let msk = - (crc AND 1) in drop_bit 1 crc XOR (0xEDB88320 AND msk))"

definition crc32 :: "u8 list \<Rightarrow> u32" where
  "crc32 bytes = NOT (foldl (\<lambda>crc b. (crc_bit ^^ 8) (crc XOR ucast b)) 0xFFFFFFFF bytes)"

fun adler_loop :: "u32 \<Rightarrow> u32 \<Rightarrow> u8 list \<Rightarrow> u32 \<times> u32" where
  "adler_loop a b [] = (a, b)"
| "adler_loop a b (x # xs) =
     (let a1 = (a + ucast x) mod 65521 in adler_loop a1 ((b + a1) mod 65521) xs)"

definition adler32 :: "u8 list \<Rightarrow> u32" where
  "adler32 bytes = (case adler_loop 1 0 bytes of (a, b) \<Rightarrow> push_bit 16 b OR a)"

function zlib_blocks :: "u8 list \<Rightarrow> nat \<Rightarrow> u8 list" where
  "zlib_blocks raw i =
     (if i < length raw
      then let len = min (length raw - i) 0xFFFF
           in [if length raw \<le> i + len then 1 else 0] @ le_u16 (of_nat len)
              @ le_u16 (NOT (of_nat len)) @ take len (drop i raw) @ zlib_blocks raw (i + len)
      else [])"
  by pat_completeness auto
termination by (relation "measure (\<lambda>(raw, i). length raw - i)") auto

declare zlib_blocks.simps [simp del]

definition zlib_stored :: "u8 list \<Rightarrow> u8 list" where
  "zlib_stored raw =
     [0x78, 0x01] @ (if raw = [] then [0x01, 0x00, 0x00, 0xFF, 0xFF] else zlib_blocks raw 0)
     @ be_u32 (adler32 raw)"

definition chunk :: "u8 list \<Rightarrow> u8 list \<Rightarrow> u8 list" where
  "chunk name data = be_u32 (of_nat (length data)) @ name @ data @ be_u32 (crc32 (name @ data))"

definition scanlines :: "nat \<Rightarrow> nat \<Rightarrow> u8 list \<Rightarrow> u8 list" where
  "scanlines stride h rgb =
     concat (map (\<lambda>y. 0 # take stride (drop (y * stride) rgb)) [0..<h])"

definition encode_rgb :: "u32 \<Rightarrow> u32 \<Rightarrow> u8 list \<Rightarrow> u8 list outcome" where
  "encode_rgb width height rgb =
     (if length rgb \<noteq> unat (width * height * 3) then Panic
      else
        let stride = unat (width * 3)
        in if length rgb < unat height * stride then Panic
           else Ok ([137, 80, 78, 71, 13, 10, 26, 10]
                    @ chunk [73, 72, 68, 82] (be_u32 width @ be_u32 height @ [8, 2, 0, 0, 0])
                    @ chunk [73, 68, 65, 84] (zlib_stored (scanlines stride (unat height) rgb))
                    @ chunk [73, 69, 78, 68] []))"

subsection \<open>Reading the stream back\<close>

text \<open>
  A reader of zlib streams made of stored blocks, after RFC 1950 and 1951: the two header bytes name
  the deflate method, a window of at most 32K and no dictionary and are a multiple of 31; a stored
  block has the type bits 00, its length and the complement of its length; nothing but the checksum
  follows the final block. The checksum is the one of RFC 1950, written out as sums: the low half is
  one more than the sum of the bytes, the high half the sum of the low halves after each byte, which
  weighs a byte by the number of bytes from it to the end.
\<close>

primrec weighted_sum :: "u8 list \<Rightarrow> nat" where
  "weighted_sum [] = 0"
| "weighted_sum (x # xs) = Suc (length xs) * unat x + weighted_sum xs"

definition adler_reference :: "u8 list \<Rightarrow> nat" where
  "adler_reference d =
     (length d + weighted_sum d) mod 65521 * 65536 + (1 + sum_list (map unat d)) mod 65521"

definition be_value :: "u8 list \<Rightarrow> nat" where
  "be_value bs = foldl (\<lambda>n b. 256 * n + unat b) 0 bs"

fun read_blocks :: "nat \<Rightarrow> u8 list \<Rightarrow> (u8 list \<times> u8 list) option" where
  "read_blocks 0 s = None"
| "read_blocks (Suc fuel) (fin # l0 # l1 # n0 # n1 # rest) =
     (let len = unat l0 + 256 * unat l1
      in if [n0, n1] \<noteq> [NOT l0, NOT l1] \<or> length rest < len then None
         else if unat fin mod 8 = 1 then Some (take len rest, drop len rest)
         else if unat fin mod 8 \<noteq> 0 then None
         else map_option (\<lambda>(d, r). (take len rest @ d, r)) (read_blocks fuel (drop len rest)))"
| "read_blocks (Suc fuel) s = None"

fun inflate_stored :: "u8 list \<Rightarrow> u8 list option" where
  "inflate_stored (cmf # flg # s) =
     (if unat cmf mod 16 \<noteq> 8 \<or> 7 < unat cmf div 16 \<or> unat flg div 32 mod 2 \<noteq> 0
         \<or> (256 * unat cmf + unat flg) mod 31 \<noteq> 0 then None
      else case read_blocks (length s) s of
             None \<Rightarrow> None
           | Some (d, r) \<Rightarrow> if length r = 4 \<and> be_value r = adler_reference d then Some d else None)"
| "inflate_stored s = None"

lemma add_byte: "unat a < 65521 \<Longrightarrow> unat ((a + ucast (x :: u8)) mod 65521 :: u32) = (unat a + unat x) mod 65521"
proof -
  assume a: "unat a < 65521"
  have x: "unat x < 256" using unsigned_less [of x] by simp
  have "unat (ucast x :: u32) = unat x"
    using x by (simp add: unsigned_ucast_eq take_bit_nat_eq_self)
  then have "unat (a + ucast x :: u32) = unat a + unat x"
    using a x by (subst unat_add_lem [THEN iffD1]) simp_all
  then show ?thesis by (simp add: unat_mod_distrib)
qed

lemma add_sums: "unat a < 65521 \<Longrightarrow> unat b < 65521 \<Longrightarrow> unat ((b + a) mod 65521 :: u32) = (unat b + unat a) mod 65521"
proof -
  assume "unat a < 65521" and "unat b < 65521"
  then have "unat (b + a) = unat b + unat a" by (subst unat_add_lem [THEN iffD1]) simp_all
  then show ?thesis by (simp add: unat_mod_distrib)
qed

lemma adler_loop_sums:
  "unat a < 65521 \<Longrightarrow> unat b < 65521 \<Longrightarrow> adler_loop a b xs = (a', b') \<Longrightarrow>
     unat a' = (unat a + sum_list (map unat xs)) mod 65521
     \<and> unat b' = (unat b + length xs * unat a + weighted_sum xs) mod 65521"
proof (induction xs arbitrary: a b)
  case (Cons x xs)
  let ?a = "(a + ucast x) mod 65521" and ?A = "unat a + unat x"
  have a: "unat ?a = ?A mod 65521" by (rule add_byte [OF Cons.prems(1)])
  have b: "unat ((b + ?a) mod 65521) = (unat b + unat ?a) mod 65521"
    by (rule add_sums) (use a Cons.prems in simp_all)
  have "unat a' = (unat ?a + sum_list (map unat xs)) mod 65521
      \<and> unat b' = (unat ((b + ?a) mod 65521) + length xs * unat ?a + weighted_sum xs) mod 65521"
    by (rule Cons.IH) (use a b Cons.prems in \<open>simp_all add: Let_def\<close>)
  moreover have "(unat ?a + sum_list (map unat xs)) mod 65521 = (unat a + sum_list (map unat (x # xs))) mod 65521"
    unfolding a by (simp add: mod_simps add.assoc)
  moreover have "(unat ((b + ?a) mod 65521) + length xs * unat ?a + weighted_sum xs) mod 65521
      = (unat b + ?A + length xs * ?A + weighted_sum xs) mod 65521"
    unfolding a b by (intro mod_add_cong) (simp_all add: mod_simps)
  ultimately show ?case by (simp add: algebra_simps)
qed simp

lemma int_bit_less_16: "unat (a :: u32) < 65536 \<Longrightarrow> bit a k \<Longrightarrow> k < 16"
proof -
  assume a: "unat a < 65536" and k: "bit a k"
  have "take_bit 16 (unat a) = unat a" using a by (intro take_bit_nat_eq_self) simp
  moreover have "bit (unat a) k" using k by (simp add: bit_unsigned_iff bit_imp_le_length)
  ultimately show "k < 16" by (metis bit_take_bit_iff)
qed

lemma adler32_reference: "unat (adler32 raw) = adler_reference raw"
proof -
  obtain a b where ab: "adler_loop 1 0 raw = (a, b)" by (cases "adler_loop 1 0 raw")
  have s: "unat a = (1 + sum_list (map unat raw)) mod 65521" "unat b = (length raw + weighted_sum raw) mod 65521"
    using adler_loop_sums [OF _ _ ab] by simp_all
  then have "unat a < 65536" "unat b < 65536" by (simp_all add: less_trans [OF mod_less_divisor])
  have lt: "bit a k \<Longrightarrow> k < 16" for k
    using \<open>unat a < 65536\<close> int_bit_less_16 [of a k] by simp
  then have "push_bit 16 b AND a = 0" by (intro bit_word_eqI) (auto simp: bit_and_iff bit_push_bit_iff dest: lt)
  then have "adler32 raw = push_bit 16 b + a"
    by (simp add: adler32_def ab disjunctive_add_eq_or)
  moreover have "unat (push_bit 16 b) = unat b * 65536"
    using \<open>unat b < 65536\<close> by (simp only: unsigned_push_bit_eq) (simp add: push_bit_eq_mult take_bit_nat_eq_self)
  ultimately have "unat (adler32 raw) = unat b * 65536 + unat a"
    using \<open>unat a < 65536\<close> \<open>unat b < 65536\<close> by (subst \<open>adler32 raw = _\<close>, subst unat_add_lem [THEN iffD1]) simp_all
  then show ?thesis by (simp add: adler_reference_def s)
qed

lemma be_u32_value: "length (be_u32 v) = 4 \<and> be_value (be_u32 v) = unat v"
proof -
  let ?n = "unat v"
  have b: "unat (ucast (drop_bit k v) :: u8) = ?n div 2 ^ k mod 256" for k
    by (simp only: unsigned_ucast_eq unat_drop_bit_eq) (simp add: take_bit_eq_mod drop_bit_eq_div)
  have n: "?n < 2 ^ 32" using unsigned_less [of v] by simp
  have d: "?n div 65536 = ?n div 256 div 256" "?n div 16777216 = ?n div 256 div 256 div 256"
    by (simp_all add: div_mult2_eq [symmetric])
  have "256 * (256 * (256 * (?n div 2 ^ 24 mod 256) + ?n div 2 ^ 16 mod 256) + ?n div 2 ^ 8 mod 256) + ?n mod 256 = ?n"
    (is "?r = _") using n div_mult_mod_eq [of ?n 256] div_mult_mod_eq [of "?n div 256" 256] div_mult_mod_eq [of "?n div 256 div 256" 256]
    by (simp add: d)
  moreover have "be_value (be_u32 v) = ?r"
    by (simp only: be_u32_def be_value_def list.map foldl_Cons foldl_Nil b) simp
  ultimately have "be_value (be_u32 v) = ?n" by (rule trans [rotated])
  then show ?thesis by (simp add: be_u32_def)
qed

lemma le_u16_length:
  assumes "n < 2 ^ 16"
  shows "unat (ucast (of_nat n :: u16) :: u8) + 256 * unat (ucast (drop_bit 8 (of_nat n :: u16)) :: u8) = n"
proof -
  have u: "unat (of_nat n :: u16) = n" using assms by (simp add: unat_of_nat take_bit_nat_eq_self)
  have d: "unat (drop_bit 8 (of_nat n :: u16)) = n div 256"
    by (subst unat_drop_bit_eq) (simp add: u drop_bit_eq_div)
  have "unat (ucast (of_nat n :: u16) :: u8) = n mod 256"
    by (simp add: unsigned_ucast_eq u take_bit_eq_mod)
  moreover have "unat (ucast (drop_bit 8 (of_nat n :: u16)) :: u8) = n div 256"
    using assms by (simp only: unsigned_ucast_eq take_bit_eq_mod d) simp
  ultimately show ?thesis by simp
qed

lemma le_u16_not: "le_u16 (NOT v) = map (\<lambda>b. NOT b) (le_u16 v)"
  by (simp add: le_u16_def) (auto intro!: bit_word_eqI simp: bit_simps)

lemma read_zlib_blocks:
  "i < length raw \<Longrightarrow> length raw - i \<le> fuel \<Longrightarrow>
     read_blocks fuel (zlib_blocks raw i @ post) = Some (drop i raw, post)"
proof (induction "length raw - i" arbitrary: i fuel rule: less_induct)
  case less
  define len where "len = min (length raw - i) 0xFFFF"
  have len: "0 < len" "len < 2 ^ 16" "i + len \<le> length raw" using less.prems by (auto simp: len_def)
  obtain f where f: "fuel = Suc f" using less.prems by (cases fuel) auto
  let ?rest = "take len (drop i raw) @ zlib_blocks raw (i + len) @ post"
  have u: "zlib_blocks raw i @ post
      = (if length raw \<le> i + len then 1 else 0) # le_u16 (of_nat len) @ map (\<lambda>b. NOT b) (le_u16 (of_nat len)) @ ?rest"
    using less.prems(1) by (subst zlib_blocks.simps) (simp add: Let_def len_def le_u16_not)
  have t: "take len ?rest = take len (drop i raw)" "drop len ?rest = zlib_blocks raw (i + len) @ post"
    using len by simp_all
  have r: "read_blocks fuel (zlib_blocks raw i @ post)
      = (if length raw \<le> i + len then Some (take len (drop i raw), zlib_blocks raw (i + len) @ post)
         else map_option (\<lambda>(d, r). (take len (drop i raw) @ d, r)) (read_blocks f (zlib_blocks raw (i + len) @ post)))"
    unfolding u f using len t le_u16_length [OF len(2)] by (simp add: le_u16_def Let_def)
  show ?case
  proof (cases "length raw \<le> i + len")
    case True
    moreover have "zlib_blocks raw (i + len) = []" using True by (subst zlib_blocks.simps) simp
    ultimately show ?thesis using len r by simp
  next
    case False
    then have "read_blocks f (zlib_blocks raw (i + len) @ post) = Some (drop (i + len) raw, post)"
      using less.hyps [of "i + len" f] less.prems len f by simp
    moreover have "take len (drop i raw) @ drop (i + len) raw = drop i raw"
      by (metis add.commute append_take_drop_id drop_drop)
    ultimately show ?thesis using False r by simp
  qed
qed

lemma zlib_blocks_length: "length raw - i \<le> length (zlib_blocks raw i)"
proof (induction raw i rule: zlib_blocks.induct)
  case (1 raw i)
  define k where "k = min (length raw - i) 65535"
  show ?case
  proof (cases "i < length raw")
    case True
    then have "length raw - (i + k) \<le> length (zlib_blocks raw (i + k))" using 1 by (simp add: k_def)
    with True show ?thesis by (subst zlib_blocks.simps) (simp add: Let_def k_def [symmetric] le_u16_def)
  qed simp
qed

text \<open>
  C27. The zlib stream of a screenshot decodes: a reader that follows RFC 1950 and 1951 for stored
  blocks, and that checks the Adler-32 checksum against the sums of the RFC, gets back exactly the
  bytes it was made from, whatever their number.
\<close>

theorem zlib_stored_roundtrip: "inflate_stored (zlib_stored raw) = Some raw"
proof (cases "raw = []")
  case True
  have "read_blocks (Suc n) (1 # 0 # 0 # 255 # 255 # s) = Some ([], s)" for n s
    by simp
  from this [of 8] have "read_blocks 9 (1 # 0 # 0 # 255 # 255 # s) = Some ([], s)" for s
    by simp
  then show ?thesis using True be_u32_value [of "adler32 []"] adler32_reference [of "[]"]
    by (simp add: zlib_stored_def)
next
  case False
  let ?s = "zlib_blocks raw 0 @ be_u32 (adler32 raw)"
  have "read_blocks (length ?s) ?s = Some (raw, be_u32 (adler32 raw))"
    using False read_zlib_blocks [of 0 raw] zlib_blocks_length [of raw 0] by simp
  with False show ?thesis using be_u32_value [of "adler32 raw"] adler32_reference [of raw]
    by (simp add: zlib_stored_def)
qed

end
