(* ===== verification/Host_Prims.thy ===== *)
theory Host_Prims
  imports Handler_Prims Png
begin

section \<open>Primitives that reach the host\<close>

text \<open>
  The primitives of src/prims.rs for files, standard streams, clocks, events and forms. What a file
  or a stream answers is the environment's; the table of open files, the event queue and the present
  buffer are the machine's. A read answers at most as many bytes as were asked for.
\<close>

subsection \<open>Files and standard streams\<close>

definition fd_arg :: "vm \<Rightarrow> regs \<Rightarrow> u8 \<Rightarrow> nat option" where
  "fd_arg vm rg k =
     (let v = get_slot vm rg k; fd = nat (as_int v)
      in if is_int v \<and> 0 \<le> as_int v \<and> fd < length (open_files vm) \<and> open_files vm ! fd
         then Some fd else None)"

text \<open>The lowest free descriptor, or a new one past the end of the table.\<close>

definition take_fd :: "bool list \<Rightarrow> nat \<times> bool list" where
  "take_fd tab =
     (case find (\<lambda>i. \<not> tab ! i) [0..<length tab] of
        Some i \<Rightarrow> (i, tab[i := True])
      | None \<Rightarrow> (length tab, tab @ [True]))"

definition prim_file_open :: "env \<Rightarrow> vm \<Rightarrow> regs \<Rightarrow> u8 \<Rightarrow> prim_result" where
  "prim_file_open e vm rg r =
     (case path_arg vm rg (r + 1) of
        None \<Rightarrow> pfail FAIL_WRONG_TYPE vm rg
      | Some path \<Rightarrow>
          let mode = get_slot vm rg (r + 2)
          in if \<not> is_int mode \<or> as_int mode \<notin> {0..3} then pfail FAIL_WRONG_TYPE vm rg
             else if env_open e path (as_int mode)
             then let (fd, tab) = take_fd (open_files vm)
                  in pvalue (from_int (int fd)) (vm\<lparr>open_files := tab\<rparr>) rg
             else pfail FAIL_NOT_FOUND vm rg)"

definition prim_file_close :: "vm \<Rightarrow> regs \<Rightarrow> u8 \<Rightarrow> prim_result" where
  "prim_file_close vm rg r =
     (case fd_arg vm rg (r + 1) of
        None \<Rightarrow> pfail FAIL_WRONG_TYPE vm rg
      | Some fd \<Rightarrow> pvalue (nil vm) (vm\<lparr>open_files := (open_files vm)[fd := False]\<rparr>) rg)"

definition alloc_byte_array :: "vm \<Rightarrow> regs \<Rightarrow> u8 list \<Rightarrow> prim_result" where
  "alloc_byte_array vm rg bs =
     rbind (alloc_gc vm rg CLASS_BYTEARRAY FMT_BYTES_BASE (length bs)) (\<lambda>(obj, vm1, rg1).
       pvalue obj (vm1\<lparr>vm_heap := write_bytes (vm_heap vm1) (as_ptr obj) bs\<rparr>) rg1)"

definition prim_file_read :: "env \<Rightarrow> vm \<Rightarrow> regs \<Rightarrow> u8 \<Rightarrow> prim_result" where
  "prim_file_read e vm rg r =
     (let count = get_slot vm rg (r + 2)
      in case fd_arg vm rg (r + 1) of
           None \<Rightarrow> pfail FAIL_WRONG_TYPE vm rg
         | Some fd \<Rightarrow>
             if \<not> is_int count \<or> as_int count < 0 then pfail FAIL_WRONG_TYPE vm rg
             else (case env_file_read e fd (nat (as_int count)) of
                     None \<Rightarrow> pfail FAIL_NOT_FOUND vm rg
                   | Some bs \<Rightarrow> alloc_byte_array vm rg (take (nat (as_int count)) bs)))"

definition prim_file_write :: "env \<Rightarrow> vm \<Rightarrow> regs \<Rightarrow> u8 \<Rightarrow> prim_result" where
  "prim_file_write e vm rg r =
     (let bytes = get_slot vm rg (r + 2)
      in case fd_arg vm rg (r + 1) of
           None \<Rightarrow> pfail FAIL_WRONG_TYPE vm rg
         | Some fd \<Rightarrow>
             if \<not> is_ptr bytes \<or> \<not> is_bytes (header (vm_heap vm) (as_ptr bytes))
             then pfail FAIL_WRONG_TYPE vm rg
             else
               let data = obj_bytes (vm_heap vm) (as_ptr bytes)
               in if env_file_write e fd data then pvalue (from_int (int (length data))) vm rg
                  else pfail FAIL_NOT_FOUND vm rg)"

definition prim_file_seek_family :: "env \<Rightarrow> u16 \<Rightarrow> vm \<Rightarrow> regs \<Rightarrow> u8 \<Rightarrow> prim_result" where
  "prim_file_seek_family e n vm rg r =
     (case fd_arg vm rg (r + 1) of
        None \<Rightarrow> pfail FAIL_WRONG_TYPE vm rg
      | Some fd \<Rightarrow>
          let pos = get_slot vm rg (r + 2);
              answer = (\<lambda>res. case res of
                 Some v \<Rightarrow> pvalue (from_int v) vm rg
               | None \<Rightarrow> pfail FAIL_NOT_FOUND vm rg)
          in if n = PRIM_FILE_POSITION then answer (env_file_position e fd)
             else if n = PRIM_FILE_SET_POSITION
             then (if \<not> is_int pos \<or> as_int pos < 0 then pfail FAIL_WRONG_TYPE vm rg
                   else answer (env_file_seek e fd (as_int pos)))
             else answer (env_file_size e fd))"

definition prim_file_delete :: "env \<Rightarrow> vm \<Rightarrow> regs \<Rightarrow> u8 \<Rightarrow> prim_result" where
  "prim_file_delete e vm rg r =
     (case path_arg vm rg (r + 1) of
        None \<Rightarrow> pfail FAIL_WRONG_TYPE vm rg
      | Some path \<Rightarrow> if env_remove e path then pvalue (nil vm) vm rg else pfail FAIL_NOT_FOUND vm rg)"

text \<open>What is written to standard output is captured even if the write fails.\<close>

definition prim_stdio_write :: "env \<Rightarrow> vm \<Rightarrow> regs \<Rightarrow> u8 \<Rightarrow> prim_result" where
  "prim_stdio_write e vm rg r =
     (let bytes = get_slot vm rg (r + 1); fd = get_slot vm rg (r + 2)
      in if \<not> is_ptr bytes \<or> \<not> is_bytes (header (vm_heap vm) (as_ptr bytes)) \<or> \<not> is_int fd
         then pfail FAIL_WRONG_TYPE vm rg
         else
           let data = obj_bytes (vm_heap vm) (as_ptr bytes);
               vm1 = (if as_int fd = 1 then vm\<lparr>stdout_capture := stdout_capture vm @ data\<rparr> else vm)
           in if as_int fd \<noteq> 1 \<and> as_int fd \<noteq> 2 then pfail FAIL_WRONG_TYPE vm rg
              else if env_stdout e (as_int fd) data then pvalue (from_int (int (length data))) vm1 rg
              else pfail FAIL_NOT_FOUND vm1 rg)"

definition prim_stdio_read :: "env \<Rightarrow> vm \<Rightarrow> regs \<Rightarrow> u8 \<Rightarrow> prim_result" where
  "prim_stdio_read e vm rg r =
     (let count = get_slot vm rg (r + 1); n = nat (as_int count)
      in if \<not> is_int count \<or> as_int count < 0 then pfail FAIL_WRONG_TYPE vm rg
         else alloc_byte_array vm rg (take n (env_stdin e n)))"

subsection \<open>Events and clocks\<close>

definition prim_next_event :: "vm \<Rightarrow> regs \<Rightarrow> prim_result" where
  "prim_next_event vm rg =
     (let vm0 = vm\<lparr>vm_host := harvest (vm_host vm)\<rparr>
      in case pop_event (vm_host vm0) of
           None \<Rightarrow> pvalue (nil vm0) vm0 rg
         | Some (ev, u) \<Rightarrow>
             let c = vm_counters vm0;
                 vm1 = vm0\<lparr>vm_host := u, vm_counters := c\<lparr>events_processed := events_processed c + 1\<rparr>\<rparr>
             in rbind (alloc_gc vm1 rg CLASS_ARRAY FMT_PTRS 5) (\<lambda>(arr, vm2, rg1).
                  pvalue arr
                    (fold (\<lambda>(i, x) vm. vset_slot_raw vm (as_ptr arr) i (from_int x)) (enumerate 0 ev) vm2)
                    rg1))"

definition prim_post_event :: "vm \<Rightarrow> regs \<Rightarrow> u8 \<Rightarrow> prim_result" where
  "prim_post_event vm rg r =
     (let vs = map (\<lambda>i. get_slot vm rg (r + 1 + of_nat i)) [0..<5]
      in if list_all is_int vs
         then pvalue (get_slot vm rg r) (vm\<lparr>vm_host := push_event (vm_host vm) (map as_int vs)\<rparr>) rg
         else pfail FAIL_WRONG_TYPE vm rg)"

text \<open>The nanoseconds are read as i64, so the tagged value drops the top bits.\<close>

definition prim_clock_monotonic :: "env \<Rightarrow> bool \<Rightarrow> vm \<Rightarrow> regs \<Rightarrow> prim_result" where
  "prim_clock_monotonic e in_ms vm rg =
     (let ns = mono_ns (vm_host vm) (env_mono_ns e)
      in pvalue (from_int (if in_ms then sint (ns div 1000000) else sint ns)) vm rg)"

definition prim_clock_wall_ms :: "env \<Rightarrow> vm \<Rightarrow> regs \<Rightarrow> prim_result" where
  "prim_clock_wall_ms e vm rg = pvalue (from_int (env_wall_ms e)) vm rg"

subsection \<open>Forms\<close>

text \<open>A form is any object with the width, height, depth and bits in its first four slots.\<close>

definition form_fields :: "vm \<Rightarrow> value \<Rightarrow> (int \<times> int \<times> int \<times> nat) option" where
  "form_fields vm v =
     (let p = as_ptr v; w = vslot vm p 0; h = vslot vm p 1; d = vslot vm p 2; bits = vslot vm p 3
      in if \<not> is_ptr v \<or> num_slots (vm_heap vm) p < 4 then None
         else if \<not> is_int w \<or> \<not> is_int h \<or> \<not> is_int d \<or> \<not> is_ptr bits then None
         else if \<not> is_bytes (header (vm_heap vm) (as_ptr bits)) then None
         else Some (as_int w, as_int h, as_int d, as_ptr bits))"

text \<open>The bytes of a row, and the product with the height, which wraps on usize.\<close>

definition form_stride :: "int \<Rightarrow> nat" where
  "form_stride w = (as_usize w + 7) div 8"

definition form_bytes :: "int \<Rightarrow> int \<Rightarrow> nat" where
  "form_bytes w h = as_usize h * form_stride w mod 2 ^ 64"

definition present_form :: "vm \<Rightarrow> value \<Rightarrow> int + (u32 \<times> u32 \<times> nat)" where
  "present_form vm v =
     (case form_fields vm v of
        None \<Rightarrow> Inl FAIL_WRONG_TYPE
      | Some (w, h, depth, bits) \<Rightarrow>
          if w \<le> 0 \<or> h \<le> 0 \<or> depth \<noteq> 1 then Inl FAIL_BAD_INDEX
          else if length (obj_bytes (vm_heap vm) bits) < form_bytes w h then Inl FAIL_BAD_INDEX
          else Inr (word_of_int w, word_of_int h, bits))"

definition prim_pixel_blit :: "vm \<Rightarrow> regs \<Rightarrow> u8 \<Rightarrow> prim_result" where
  "prim_pixel_blit vm rg r =
     (let form = get_slot vm rg r
      in case present_form vm form of
           Inl code \<Rightarrow> pfail code vm rg
         | Inr (w, h, bits) \<Rightarrow>
             let c = vm_counters vm
             in pvalue form
                  (vm\<lparr>vm_host := present_mono (vm_host vm) w h (obj_bytes (vm_heap vm) bits),
                      vm_counters := c\<lparr>frames_presented := frames_presented c + 1\<rparr>\<rparr>) rg)"

definition prim_save_form :: "env \<Rightarrow> vm \<Rightarrow> regs \<Rightarrow> u8 \<Rightarrow> prim_result" where
  "prim_save_form e vm rg r =
     (case present_form vm (get_slot vm rg (r + 1)) of
        Inl code \<Rightarrow> pfail code vm rg
      | Inr (w, h, bits) \<Rightarrow>
          (case path_arg vm rg (r + 2) of
             None \<Rightarrow> pfail FAIL_WRONG_TYPE vm rg
           | Some path \<Rightarrow>
               rbind (encode_rgb w h (mono_to_rgb w h (obj_bytes (vm_heap vm) bits))) (\<lambda>png.
                 if env_write e path png then pvalue (nil vm) vm rg else pfail FAIL_NOT_FOUND vm rg)))"

end
