(* ===== verification/Bit_Blit.thy ===== *)
theory Bit_Blit
  imports Host_Prims
begin

section \<open>Copying rectangles of bits\<close>

text \<open>
  The BitBlt primitive of src/prims.rs: a setup object names a destination form, a source form or
  nil, a combination rule and the rectangles; the bits of every pixel inside the rectangle and the
  clip are combined one by one. Index computations are on usize and wrap; an index past the end of
  the bits is a panic.
\<close>

text \<open>What the loop works on: the arguments, the effective clip and the bits of the source.\<close>

record blit =
  bl_rule :: int
  bl_dx :: int
  bl_dy :: int
  bl_w :: int
  bl_h :: int
  bl_sx :: int
  bl_sy :: int
  bl_cx0 :: int
  bl_cy0 :: int
  bl_cx1 :: int
  bl_cy1 :: int
  bl_stride :: nat
  bl_src :: "(int \<times> int \<times> nat \<times> u8 list) option"

fun each :: "('a \<Rightarrow> 's \<Rightarrow> 's outcome) \<Rightarrow> 'a list \<Rightarrow> 's \<Rightarrow> 's outcome" where
  "each f [] s = Ok s"
| "each f (x # xs) s = rbind (f x s) (each f xs)"

definition cell :: "nat \<Rightarrow> int \<Rightarrow> int \<Rightarrow> nat" where
  "cell stride x y = (as_usize y * stride + drop_bit 3 (as_usize x)) mod 2 ^ 64"

definition cell_shift :: "int \<Rightarrow> nat" where
  "cell_shift x = 7 - (as_usize x AND 7)"

definition source_bit :: "(int \<times> int \<times> nat \<times> u8 list) option \<Rightarrow> int \<Rightarrow> int \<Rightarrow> u8 outcome" where
  "source_bit src x y =
     (case src of
        None \<Rightarrow> Ok 0
      | Some (sw, sh, sstride, sd) \<Rightarrow>
          if 0 \<le> x \<and> 0 \<le> y \<and> x < sw \<and> y < sh
          then (if length sd \<le> cell sstride x y then Panic
                else Ok (drop_bit (cell_shift x) (sd ! cell sstride x y) AND 1))
          else Ok 0)"

definition combine :: "int \<Rightarrow> u8 \<Rightarrow> u8 \<Rightarrow> u8" where
  "combine rule sbit dbit =
     (if rule = 0 then 0 else if rule = 3 then sbit else if rule = 6 then sbit XOR dbit
      else sbit OR dbit)"

definition blit_pixel :: "blit \<Rightarrow> int \<Rightarrow> int \<Rightarrow> u8 list \<times> nat \<Rightarrow> (u8 list \<times> nat) outcome" where
  "blit_pixel b j i st =
     (let (d, n) = st; px = bl_dx b + i; py = bl_dy b + j
      in if px < bl_cx0 b \<or> bl_cx1 b \<le> px then Ok st
         else rbind (source_bit (bl_src b) (bl_sx b + i) (bl_sy b + j)) (\<lambda>sbit.
           let k = cell (bl_stride b) px py; sh = cell_shift px
           in if length d \<le> k then Panic
              else
                let dbit = drop_bit sh (d ! k) AND 1
                in Ok (d[k := if combine (bl_rule b) sbit dbit = 1 then d ! k OR push_bit sh 1
                              else d ! k AND NOT (push_bit sh 1)], n + 1)))"

definition blit_row :: "blit \<Rightarrow> int \<Rightarrow> u8 list \<times> nat \<Rightarrow> (u8 list \<times> nat) outcome" where
  "blit_row b j st =
     (let py = bl_dy b + j
      in if py < bl_cy0 b \<or> bl_cy1 b \<le> py then Ok st else each (blit_pixel b j) [0..bl_w b - 1] st)"

definition blit_loop :: "blit \<Rightarrow> u8 list \<times> nat \<Rightarrow> (u8 list \<times> nat) outcome" where
  "blit_loop b st = each (blit_row b) [0..bl_h b - 1] st"

text \<open>The source of the setup object: nil, or a form of depth one with enough bits.\<close>

definition blit_source :: "vm \<Rightarrow> value \<Rightarrow> int + (int \<times> int \<times> nat \<times> u8 list) option" where
  "blit_source vm source =
     (if source = nil vm then Inr None
      else case form_fields vm source of
             None \<Rightarrow> Inl FAIL_WRONG_TYPE
           | Some (w, h, depth, bits) \<Rightarrow>
               if depth = 1 then Inr (Some (w, h, form_stride w, obj_bytes (vm_heap vm) bits))
               else Inl FAIL_BAD_INDEX)"

definition source_too_small :: "(int \<times> int \<times> nat \<times> u8 list) option \<Rightarrow> bool" where
  "source_too_small src =
     (case src of None \<Rightarrow> False | Some (sw, sh, sstride, sd) \<Rightarrow> length sd < form_bytes sw sh)"

definition prim_bitblt :: "vm \<Rightarrow> regs \<Rightarrow> u8 \<Rightarrow> prim_result" where
  "prim_bitblt vm rg r =
     (let setup = get_slot vm rg r; p = as_ptr setup; f = map (vslot vm p) [3..<14]
      in if \<not> is_ptr setup \<or> num_slots (vm_heap vm) p < 14 \<or> \<not> list_all is_int f
         then pfail FAIL_WRONG_TYPE vm rg
         else if as_int (f ! 0) \<notin> {0, 3, 6, 7} then pfail FAIL_UNSUPPORTED_CONTEXT vm rg
         else
           case form_fields vm (vslot vm p 0) of
             None \<Rightarrow> pfail FAIL_WRONG_TYPE vm rg
           | Some (dw, dh, dd, dbits) \<Rightarrow>
               if dd \<noteq> 1 then pfail FAIL_BAD_INDEX vm rg
               else case blit_source vm (vslot vm p 1) of
                      Inl code \<Rightarrow> pfail code vm rg
                    | Inr src \<Rightarrow>
                        let d = obj_bytes (vm_heap vm) dbits; g = (\<lambda>k. as_int (f ! k));
                            b = \<lparr>bl_rule = g 0, bl_dx = g 1, bl_dy = g 2, bl_w = g 3, bl_h = g 4,
                                 bl_sx = g 5, bl_sy = g 6, bl_cx0 = max (g 7) 0, bl_cy0 = max (g 8) 0,
                                 bl_cx1 = min (g 7 + g 9) dw, bl_cy1 = min (g 8 + g 10) dh,
                                 bl_stride = form_stride dw, bl_src = src\<rparr>
                        in if length d < form_bytes dw dh \<or> source_too_small src
                           then pfail FAIL_BAD_INDEX vm rg
                           else rbind (blit_loop b (d, 0)) (\<lambda>(d', pixels).
                                let c = vm_counters vm
                                in pvalue setup
                                     (vm\<lparr>vm_heap := write_bytes (vm_heap vm) dbits d',
                                         vm_counters := c\<lparr>bitblt_calls := bitblt_calls c + 1,
                                           pixels_blitted := pixels_blitted c + pixels\<rparr>\<rparr>) rg))"

end
