(* ===== verification/Counter_Rows.thy ===== *)
theory Counter_Rows
  imports Object_Prims
begin

section \<open>The counter report\<close>

text \<open>
  The report of src/counters.rs, as rows of a name and a value, its printed form, the reset of every
  counter, and the primitives of src/prims.rs that make heap arrays of rows. Indexed counters give a
  row only when they are not zero. The printing when a machine is dropped is left out.
\<close>

definition nonzero_rows :: "(nat \<Rightarrow> string) \<Rightarrow> nat list \<Rightarrow> (string \<times> nat) list" where
  "nonzero_rows name vs = map (\<lambda>(i, v). (name i, v)) (filter (\<lambda>(i, v). v \<noteq> 0) (enumerate 0 vs))"

definition specsel_name :: "nat \<Rightarrow> string" where
  "specsel_name i = (if i < length SPECSEL_NAMES then SPECSEL_NAMES ! i else [])"

definition opcode_row_name :: "nat \<Rightarrow> string" where
  "opcode_row_name op =
     ''opcode.'' @ (case opcode_name (of_nat op) of Some n \<Rightarrow> n | None \<Rightarrow> ''ILLEGAL'')"

definition send_rows :: "counters \<Rightarrow> (string \<times> nat) list" where
  "send_rows c =
     [(''send.inline_cache_miss'', inline_cache_miss c),
      (''send.global_cache_miss'', global_cache_miss c),
      (''send.dict_walks'', dict_walks c),
      (''send.dict_classes_walked'', dict_classes_walked c),
      (''send.dnu'', dnu c),
      (''send.must_be_boolean'', must_be_boolean c),
      (''send.staged'', sends_staged c)]
     @ nonzero_rows (\<lambda>i. ''specsend.fallthrough.'' @ specsel_name i) (spec_fallthrough c)
     @ nonzero_rows (\<lambda>n. ''prim.calls.'' @ show_nat n) (prim_calls c)
     @ nonzero_rows (\<lambda>n. ''prim.fails.'' @ show_nat n) (prim_fails c)"

definition memory_rows :: "vm \<Rightarrow> (string \<times> nat) list" where
  "memory_rows vm =
     (let c = vm_counters vm; h = vm_heap vm in
     [(''alloc.young.count'', alloc_young_count h),
      (''alloc.young.bytes'', alloc_young_bytes h),
      (''alloc.old.count'', alloc_old_count h),
      (''alloc.old.bytes'', alloc_old_bytes h),
      (''alloc.large.count'', alloc_large_count h),
      (''gc.scavenge.count'', scavenge_count vm),
      (''gc.scavenge.ns'', scavenge_ns c),
      (''gc.compact.count'', compact_count vm),
      (''gc.compact.ns'', compact_ns c),
      (''gc.bytes_copied'', gc_bytes_copied c),
      (''gc.bytes_tenured'', gc_bytes_tenured c),
      (''gc.ssb_drained.samples'', gc_ssb_drained c),
      (''gc.ssb_drained.max'', gc_ssb_drained_max c),
      (''gc.remembered_rebuilt'', gc_remembered_rebuilt c),
      (''stack.growths'', stack_grow_count vm),
      (''process.switches'', process_switches c),
      (''semaphore.blocks'', semaphore_blocks c),
      (''unwind.runs'', unwind_runs c),
      (''ensure.interceptions'', ensure_interceptions c),
      (''nlr.count'', nlrs c),
      (''cache.flushes'', cache_flushes c),
      (''method.installs'', method_installs c),
      (''ui.bitblt_calls'', bitblt_calls c),
      (''ui.pixels_blitted'', pixels_blitted c),
      (''ui.glyphs_drawn'', glyphs_drawn c),
      (''ui.events_processed'', events_processed c),
      (''ui.frames_presented'', frames_presented c)])"

definition gated_rows :: "counters \<Rightarrow> (string \<times> nat) list" where
  "gated_rows c =
     [(''gated.enabled'', of_bool (gate c)), (''insn.count'', insns c), (''send.count'', sends c)]
     @ nonzero_rows opcode_row_name (opcode_hist c)
     @ [(''poll.gap_max'', gap_max c)]
     @ nonzero_rows (\<lambda>i. ''poll.gap_le_'' @ show_nat (if i = 0 then 0 else 2 ^ i)) (gap_hist c)"

definition counter_rows :: "vm \<Rightarrow> (string \<times> nat) list" where
  "counter_rows vm =
     send_rows (vm_counters vm) @ memory_rows vm @ gated_rows (vm_counters vm)"

definition pad_to :: "nat \<Rightarrow> string \<Rightarrow> string" where
  "pad_to width s = s @ replicate (width - length s) (CHR '' '')"

definition format_stats :: "vm \<Rightarrow> string" where
  "format_stats vm =
     (let rows = counter_rows vm; width = fold max (map (\<lambda>(n, _). length n) rows) 0
      in ''--- smallishtalk VM counters ---'' @ [CHR 10]
         @ concat (map (\<lambda>(n, v). pad_to width n @ ''  '' @ show_nat v @ [CHR 10]) rows))"

definition reset_counters :: "vm \<Rightarrow> vm" where
  "reset_counters vm =
     vm\<lparr>vm_counters := reset_counters_only (vm_counters vm),
        vm_heap := (vm_heap vm)\<lparr>alloc_young_count := 0, alloc_young_bytes := 0, alloc_old_count := 0,
          alloc_old_bytes := 0, alloc_large_count := 0\<rparr>,
        scavenge_count := 0, compact_count := 0, stack_grow_count := 0\<rparr>"

subsection \<open>Rows as heap arrays\<close>

definition alloc_string_gc :: "vm \<Rightarrow> regs \<Rightarrow> string \<Rightarrow> (value \<times> vm \<times> regs) outcome" where
  "alloc_string_gc vm rg s =
     (let bs = map (\<lambda>ch. of_nat (of_char ch)) s
      in rbind (alloc_gc vm rg CLASS_BYTESTRING FMT_BYTES_BASE (length bs)) (\<lambda>(v, vm1, rg1).
           Ok (v, vm1\<lparr>vm_heap := write_bytes (vm_heap vm1) (as_ptr v) bs\<rparr>, rg1)))"

text \<open>
  One row: the name is allocated, kept as a temporary root while the row is, and the row is stored
  into the array of rows, which is the temporary root at base.
\<close>

definition add_row :: "nat \<Rightarrow> nat \<times> string \<times> int list \<Rightarrow> vm \<times> regs \<Rightarrow> (vm \<times> regs) outcome" where
  "add_row base row st =
     (let (i, name, vals) = row; (vm, rg) = st
      in rbind (alloc_string_gc vm rg name) (\<lambda>(name_v, vm1, rg1).
         rbind (alloc_gc (push_root vm1 name_v) rg1 CLASS_ARRAY FMT_PTRS (1 + length vals)) (\<lambda>(arr, vm2, rg2).
         rbind (pop_root vm2) (\<lambda>(name_w, vm3).
         let vm4 = store_slot vm3 (as_ptr arr) 0 name_w;
             vm5 = fold (\<lambda>(k, v) vm. vset_slot_raw vm (as_ptr arr) (1 + k) (from_int v)) (enumerate 0 vals) vm4
         in if length (temp_roots vm5) \<le> base then Panic
            else Ok (store_slot vm5 (as_ptr (temp_roots vm5 ! base)) i arr, rg2)))))"

fun add_rows :: "nat \<Rightarrow> (nat \<times> string \<times> int list) list \<Rightarrow> vm \<times> regs \<Rightarrow> (vm \<times> regs) outcome" where
  "add_rows base [] st = Ok st"
| "add_rows base (row # rows) st = rbind (add_row base row st) (add_rows base rows)"

definition prim_vm_counters :: "vm \<Rightarrow> regs \<Rightarrow> prim_result" where
  "prim_vm_counters vm rg =
     (let rows = counter_rows vm
      in rbind (alloc_gc vm rg CLASS_ARRAY FMT_PTRS (length rows)) (\<lambda>(rows_arr, vm1, rg1).
         let vm2 = push_root vm1 rows_arr; base = length (temp_roots vm2) - 1
         in rbind (add_rows base (map (\<lambda>(i, n, v). (i, n, [int v])) (enumerate 0 rows)) (vm2, rg1))
              (\<lambda>(vm3, rg2). rbind (pop_root vm3) (\<lambda>(arr, vm4). pvalue arr vm4 rg2))))"

definition build_row_array ::
  "vm \<Rightarrow> regs \<Rightarrow> int \<Rightarrow> int \<Rightarrow> (string \<times> int \<times> int) list \<Rightarrow> prim_result" where
  "build_row_array vm rg samples interval data =
     rbind (alloc_gc vm rg CLASS_ARRAY FMT_PTRS (length data)) (\<lambda>(rows_arr, vm1, rg1).
       let vm2 = push_root vm1 rows_arr; base = length (temp_roots vm2) - 1
       in rbind (add_rows base (map (\<lambda>(i, n, a, b). (i, n, [a, b])) (enumerate 0 data)) (vm2, rg1))
            (\<lambda>(vm3, rg2). rbind (alloc_gc vm3 rg2 CLASS_ARRAY FMT_PTRS 3) (\<lambda>(outer, vm4, rg3).
             rbind (pop_root vm4) (\<lambda>(arr, vm5).
             let oa = as_ptr outer;
                 vm6 = vset_slot_raw vm5 oa 0 (from_int samples);
                 vm7 = vset_slot_raw vm6 oa 1 (from_int interval)
             in pvalue outer (store_slot vm7 oa 2 arr) rg3))))"

end
