(* ===== verification/Primitives.thy ===== *)
theory Primitives
  imports Bit_Blit Counter_Rows Interp
begin

section \<open>The primitive table\<close>

text \<open>
  run_primitive and dispatch_primitive of src/prims.rs. The numbers are grouped as the treaty groups
  them; each group answers nothing for a number it does not have. The float primitives
  and the switches of the sampling profiler are the argument H, a dispatcher for those numbers. A primitive may send, and a send may
  run a primitive: that recursion uses one unit of fuel for each primitive that is entered.
\<close>

definition prim_identity_hash :: "vm \<Rightarrow> regs \<Rightarrow> u8 \<Rightarrow> prim_result" where
  "prim_identity_hash vm rg r =
     (case identity_hash_of vm (get_slot vm rg r) of (n, vm1) \<Rightarrow> pvalue (from_int n) vm1 rg)"

definition prim_gate :: "vm \<Rightarrow> regs \<Rightarrow> u8 \<Rightarrow> prim_result" where
  "prim_gate vm rg r =
     (let b = get_slot vm rg (r + 1);
          set_gate = (\<lambda>g. vm\<lparr>vm_counters := (vm_counters vm)\<lparr>gate := g\<rparr>\<rparr>)
      in if b = true_v vm then pvalue (get_slot vm rg r) (set_gate True) rg
         else if b = false_v vm then pvalue (get_slot vm rg r) (set_gate False) rg
         else pfail FAIL_WRONG_TYPE vm rg)"

definition object_prims :: "prim_fn \<Rightarrow> u16 \<Rightarrow> vm \<Rightarrow> regs \<Rightarrow> u8 \<Rightarrow> u8 \<Rightarrow> prim_result option" where
  "object_prims P n vm rg r dest =
     (if n = PRIM_CLASS then Some (rbind (class_of vm (get_slot vm rg r)) (\<lambda>c. pvalue c vm rg))
      else if n = PRIM_IDENTITY_HASH then Some (prim_identity_hash vm rg r)
      else if n = PRIM_IDENTICAL
      then Some (pvalue (bool_v vm (get_slot vm rg r = get_slot vm rg (r + 1))) vm rg)
      else if n = PRIM_NEW then Some (prim_new vm rg r)
      else if n = PRIM_NEW_SIZED then Some (prim_new_sized vm rg r)
      else if n = PRIM_AT then Some (prim_at vm rg r)
      else if n = PRIM_AT_PUT then Some (prim_at_put vm rg r)
      else if n = PRIM_SIZE then Some (prim_size vm rg r)
      else if n = PRIM_INST_VAR_AT then Some (prim_inst_var_at vm rg r)
      else if n = PRIM_INST_VAR_AT_PUT then Some (prim_inst_var_at_put vm rg r)
      else if n = PRIM_PERFORM_WITH_ARGS then Some (prim_perform P vm rg r dest)
      else if n \<in> {PRIM_INT_ADD, PRIM_INT_SUB, PRIM_INT_MUL, PRIM_INT_DIV, PRIM_INT_MOD, PRIM_INT_QUO,
                PRIM_INT_BIT_AND, PRIM_INT_BIT_OR, PRIM_INT_BIT_XOR, PRIM_INT_BIT_SHIFT}
      then Some (prim_int_binary n vm rg r)
      else if n \<in> {PRIM_INT_LT, PRIM_INT_GT, PRIM_INT_LE, PRIM_INT_GE, PRIM_INT_EQ}
      then Some (prim_int_compare n vm rg r)
      else None)"

definition process_prims ::
  "env \<Rightarrow> nat \<Rightarrow> u16 \<Rightarrow> vm \<Rightarrow> regs \<Rightarrow> u8 \<Rightarrow> nat \<Rightarrow> u8 \<Rightarrow> prim_result option" where
  "process_prims e fuel n vm rg r argc dest =
     (if PRIM_BLOCK_VALUE_0 \<le> n \<and> n \<le> PRIM_BLOCK_VALUE_4
      then Some (prim_block_value vm rg r argc dest (unat (n - PRIM_BLOCK_VALUE_0)))
      else if n = PRIM_BLOCK_VALUE_ARGS then Some (prim_block_value_args vm rg r dest)
      else if n = PRIM_TRANSFER_TO then Some (prim_transfer_to vm rg r)
      else if n = PRIM_SEMAPHORE_WAIT then Some (prim_semaphore_wait e vm rg r)
      else if n = PRIM_SEMAPHORE_SIGNAL then Some (prim_semaphore_signal vm rg r)
      else if n = PRIM_YIELD then Some (prim_yield e vm rg r)
      else if n = PRIM_PROCESS_RESUME then Some (prim_process_resume vm rg r)
      else if n = PRIM_PROCESS_SUSPEND then Some (prim_process_suspend e vm rg r)
      else if n = PRIM_PROCESS_TERMINATE then Some (prim_process_terminate fuel vm rg r)
      else if n = PRIM_SIGNAL_AT_MS then Some (prim_signal_at_ms vm rg r)
      else if n = PRIM_FIND_HANDLER then Some (prim_find_handler vm rg r)
      else if n = PRIM_UNWIND_TO then Some (prim_unwind_to fuel vm rg r)
      else if n = PRIM_HANDLER_INFO then Some (prim_handler_info vm rg r)
      else if n = PRIM_SET_HANDLER_STATE then Some (prim_set_handler_state vm rg r)
      else if n = PRIM_SIGNAL_CONTEXT then Some (prim_signal_context vm rg)
      else None)"

definition host_prims :: "env \<Rightarrow> u16 \<Rightarrow> vm \<Rightarrow> regs \<Rightarrow> u8 \<Rightarrow> prim_result option" where
  "host_prims e n vm rg r =
     (if n = PRIM_FILE_OPEN then Some (prim_file_open e vm rg r)
      else if n = PRIM_FILE_CLOSE then Some (prim_file_close vm rg r)
      else if n = PRIM_FILE_READ then Some (prim_file_read e vm rg r)
      else if n = PRIM_FILE_WRITE then Some (prim_file_write e vm rg r)
      else if n \<in> {PRIM_FILE_POSITION, PRIM_FILE_SET_POSITION, PRIM_FILE_SIZE}
      then Some (prim_file_seek_family e n vm rg r)
      else if n = PRIM_FILE_DELETE then Some (prim_file_delete e vm rg r)
      else if n = PRIM_STDIO_WRITE then Some (prim_stdio_write e vm rg r)
      else if n = PRIM_STDIO_READ then Some (prim_stdio_read e vm rg r)
      else if n = PRIM_NEXT_EVENT then Some (prim_next_event vm rg)
      else if n = PRIM_POST_EVENT then Some (prim_post_event vm rg r)
      else if n = PRIM_CLOCK_MONOTONIC_MS then Some (prim_clock_monotonic e True vm rg)
      else if n = PRIM_CLOCK_MONOTONIC_NS then Some (prim_clock_monotonic e False vm rg)
      else if n = PRIM_CLOCK_WALL_MS then Some (prim_clock_wall_ms e vm rg)
      else if n = PRIM_PIXEL_BLIT then Some (prim_pixel_blit vm rg r)
      else if n = PRIM_BITBLT then Some (prim_bitblt vm rg r)
      else if n = PRIM_SAVE_FORM then Some (prim_save_form e vm rg r)
      else None)"

definition image_prims :: "env \<Rightarrow> u16 \<Rightarrow> vm \<Rightarrow> regs \<Rightarrow> u8 \<Rightarrow> u8 \<Rightarrow> prim_result option" where
  "image_prims e n vm rg r dest =
     (if n = PRIM_REGISTER_CLASS then Some (prim_register_class vm rg r)
      else if n = PRIM_METHOD_INSTALL then Some (prim_method_install vm rg r)
      else if n = PRIM_SNAPSHOT then Some (prim_snapshot e vm rg r dest)
      else if n = PRIM_FLUSH_CACHES
      then Some (let vm1 = flush_caches vm in pvalue (get_slot vm1 rg r) vm1 rg)
      else if n = PRIM_FRAME_INFO then Some (prim_frame_info vm rg r)
      else if n = PRIM_VM_COUNTERS then Some (prim_vm_counters vm rg)
      else if n = PRIM_VM_COUNTERS_RESET
      then Some (let vm1 = reset_counters vm in pvalue (get_slot vm1 rg r) vm1 rg)
      else if n = PRIM_PROFILER_GATE then Some (prim_gate vm rg r)
      else None)"

text \<open>The numbers left to H.\<close>

definition delegated :: "u16 \<Rightarrow> bool" where
  "delegated n \<longleftrightarrow>
     n \<in> {PRIM_INT_AS_FLOAT, PRIM_FLOAT_ADD, PRIM_FLOAT_SUB, PRIM_FLOAT_MUL, PRIM_FLOAT_DIV, PRIM_FLOAT_LT,
          PRIM_FLOAT_GT, PRIM_FLOAT_LE, PRIM_FLOAT_GE, PRIM_FLOAT_EQ, PRIM_FLOAT_TRUNCATED, PRIM_FLOAT_SQRT,
          PRIM_PROFILER_START, PRIM_PROFILER_STOP, PRIM_PROFILER_REPORT}"

definition or_else :: "'a option \<Rightarrow> 'a option \<Rightarrow> 'a option" where
  "or_else a b = (case a of None \<Rightarrow> b | Some _ \<Rightarrow> a)"

definition dispatch_primitive :: "prim_fn \<Rightarrow> env \<Rightarrow> nat \<Rightarrow> prim_fn \<Rightarrow> prim_fn" where
  "dispatch_primitive H e fuel P n vm rg r argc dest =
     (if delegated n then H n vm rg r argc dest
      else case or_else (object_prims P n vm rg r dest)
             (or_else (process_prims e fuel n vm rg r argc dest)
               (or_else (host_prims e n vm rg r) (image_prims e n vm rg r dest))) of
             Some res \<Rightarrow> res
           | None \<Rightarrow> pfail FAIL_UNKNOWN_PRIM vm rg)"

text \<open>The counts are vectors with one entry for each number of the table.\<close>

definition count_call :: "vm \<Rightarrow> u16 \<Rightarrow> vm" where
  "count_call vm n =
     vm\<lparr>vm_counters := (vm_counters vm)\<lparr>prim_calls :=
          (prim_calls (vm_counters vm))[unat n := prim_calls (vm_counters vm) ! unat n + 1]\<rparr>\<rparr>"

definition count_fail :: "u16 \<Rightarrow> prim_outcome \<times> vm \<times> regs \<Rightarrow> prim_result" where
  "count_fail n st =
     (let (res, vm, rg) = st; c = vm_counters vm
      in case res of
           Fail code \<Rightarrow>
             if length (prim_fails c) \<le> unat n then Panic
             else Ok (res, vm\<lparr>vm_counters := c\<lparr>prim_fails :=
                       (prim_fails c)[unat n := prim_fails c ! unat n + 1]\<rparr>\<rparr>, rg)
         | _ \<Rightarrow> Ok st)"

fun run_primitive :: "prim_fn \<Rightarrow> env \<Rightarrow> nat \<Rightarrow> prim_fn" where
  "run_primitive H e 0 n vm rg r argc dest = Diverge"
| "run_primitive H e (Suc fuel) n vm rg r argc dest =
     (if length (prim_calls (vm_counters vm)) \<le> unat n then Panic
      else rbind (dispatch_primitive H e fuel (run_primitive H e fuel) n (count_call vm n) rg r argc dest)
             (count_fail n))"

subsection \<open>Running until nothing is runnable\<close>

text \<open>
  run_until_idle of src/interp.rs: the processes run one after the other; a machine that is idle
  with no timer, or whose wait fails, is done.
\<close>

fun run_until_idle ::
  "(nat \<Rightarrow> prim_fn) \<Rightarrow> (nat \<Rightarrow> env) \<Rightarrow> nat \<Rightarrow> vm \<Rightarrow> value \<Rightarrow> unit outcome" where
  "run_until_idle P envs 0 vm process = Diverge"
| "run_until_idle P envs (Suc fuel) vm process =
     rbind (run P envs fuel vm process) (\<lambda>(v, vm1).
       case take_next_runnable vm1 of
         Some (next, vm2) \<Rightarrow> run_until_idle P envs fuel vm2 next
       | None \<Rightarrow>
           if timer_requests vm1 = [] then Ok ()
           else (case wait_next (envs fuel) vm1 of
                   Ok (next, vm2) \<Rightarrow> run_until_idle P envs fuel vm2 next
                 | Err err \<Rightarrow> Ok ()
                 | Panic \<Rightarrow> Panic
                 | Diverge \<Rightarrow> Diverge))"

end
