(* ===== verification/Arithmetic_Facts.thy ===== *)
theory Arithmetic_Facts
  imports Primitives
begin

section \<open>Arithmetic and element access are what they should be\<close>

text \<open>
  The SmallInteger primitives against the integers: an operation answers the exact result when it is
  a SmallInteger and fails otherwise. The bytecode fast paths for at:, at:put: and size against the
  primitives that spell them out again.
\<close>

lemma i64_rem_bounds:
  assumes "y \<noteq> 0"
  shows "\<bar>i64_rem x y\<bar> < \<bar>y\<bar>" and "0 < i64_rem x y \<Longrightarrow> 0 < x" and "i64_rem x y < 0 \<Longrightarrow> x < 0"
proof -
  have "i64_rem x y = sgn x * (\<bar>x\<bar> mod \<bar>y\<bar>)"
  proof -
    have "sgn x * sgn y * (\<bar>x\<bar> div \<bar>y\<bar>) * y = sgn x * (\<bar>x\<bar> div \<bar>y\<bar> * \<bar>y\<bar>)"
      by (simp add: sgn_if abs_if)
    also have "\<dots> = sgn x * (\<bar>x\<bar> - \<bar>x\<bar> mod \<bar>y\<bar>)"
      by (simp add: minus_mod_eq_div_mult)
    finally show ?thesis
      by (simp add: i64_rem_def i64_div_def right_diff_distrib mult_sgn_abs)
  qed
  moreover have "0 \<le> \<bar>x\<bar> mod \<bar>y\<bar>" "\<bar>x\<bar> mod \<bar>y\<bar> < \<bar>y\<bar>" using assms by simp_all
  ultimately show "\<bar>i64_rem x y\<bar> < \<bar>y\<bar>" "0 < i64_rem x y \<Longrightarrow> 0 < x" "i64_rem x y < 0 \<Longrightarrow> x < 0"
    by (auto simp: sgn_if split: if_splits)
qed

lemma floored_divmod_eq:
  assumes y: "y \<noteq> 0"
  shows "floored_divmod x y = (x div y, x mod y)"
proof -
  define q where "q = i64_div x y"
  define r where "r = i64_rem x y"
  have x: "x = y * q + r" by (simp add: q_def r_def i64_rem_def mult.commute)
  have b: "\<bar>r\<bar> < \<bar>y\<bar>" using i64_rem_bounds(1) [OF y] by (simp add: r_def)
  define p where "p = (if r \<noteq> 0 \<and> ((r < 0) \<noteq> (y < 0)) then (q - 1, r + y) else (q, r))"
  have f: "floored_divmod x y = p" by (simp add: floored_divmod_def p_def q_def r_def Let_def)
  have e: "x = y * fst p + snd p" using x by (simp add: p_def right_diff_distrib)
  have d: "x div y = fst p"
  proof (cases "0 < y")
    case True
    have "0 \<le> snd p" "snd p < y" using b True by (auto simp: p_def)
    with e show ?thesis by (rule int_div_pos_eq)
  next
    case False
    have "snd p \<le> 0" "y < snd p" using b y False by (auto simp: p_def)
    with e show ?thesis by (rule int_div_neg_eq)
  qed
  moreover have "x mod y = snd p" using e unfolding d [symmetric]
    by (metis add_left_cancel mult_div_mod_eq)
  ultimately show ?thesis by (simp add: f prod_eq_iff)
qed

lemma shift_left:
  assumes "k < 63"
  shows "shift_int a (int k) = (if in_i64 (a * 2 ^ k) then Some (a * 2 ^ k) else None)"
proof -
  define s where "s = sint (push_bit k (word_of_int a :: u64))"
  have w: "word_of_int s = (word_of_int (a * 2 ^ k) :: u64)"
    by (simp add: s_def push_bit_eq_mult)
  have d: "2 ^ k dvd s"
  proof -
    have "bit s i \<longleftrightarrow> bit (push_bit k (word_of_int a :: u64)) (min i 63)" for i
      by (auto simp: s_def bit_sint_iff min_def not_less dest: bit_imp_le_length)
    then have "\<not> bit s i" if "i < k" for i using that assms by (simp add: bit_push_bit_iff)
    then have "take_bit k s = 0" by (intro bit_eqI) (simp add: bit_take_bit_iff)
    then show ?thesis by (simp add: take_bit_eq_0_iff)
  qed
  have eq: "drop_bit k s = a \<longleftrightarrow> s = a * 2 ^ k"
    using d by (auto simp: drop_bit_eq_div)
  have "s = a * 2 ^ k \<longleftrightarrow> in_i64 (a * 2 ^ k)"
    using sint_word_of_int_64 [of "a * 2 ^ k"] w
    by (metis s_def sint_in_i64 word_of_int_sint_64)
  then show ?thesis using eq assms by (simp add: shift_int_def Let_def s_def [symmetric])
qed

lemma shift_right:
  assumes "0 < k" and "in_smallint a"
  shows "shift_int a (- int k) = Some (a div 2 ^ k)"
proof (cases "63 \<le> k")
  case True
  have "(2 :: int) ^ 62 \<le> 2 ^ k" using True by (intro power_increasing) simp_all
  then have "- (2 ^ k) \<le> a" "a < 2 ^ k"
    using assms(2) by (auto simp: in_smallint_def SMALLINT_MAX_def SMALLINT_MIN_def)
  then have "a div 2 ^ k = (if a < 0 then -1 else 0)"
    by (auto simp: div_pos_pos_trivial intro: int_div_pos_eq [of _ _ _ "a + 2 ^ k"])
  then show ?thesis using True assms by (simp add: shift_int_def)
next
  case False
  then show ?thesis using assms by (simp add: shift_int_def drop_bit_eq_div)
qed

text \<open>The result an operation has on the integers; a shift by 63 or more is given up.\<close>

definition exact_result :: "u16 \<Rightarrow> int \<Rightarrow> int \<Rightarrow> int option" where
  "exact_result n a b =
     (if n = PRIM_INT_ADD then Some (a + b)
      else if n = PRIM_INT_SUB then Some (a - b)
      else if n = PRIM_INT_MUL then Some (a * b)
      else if n = PRIM_INT_DIV then (if b = 0 then None else Some (a div b))
      else if n = PRIM_INT_MOD then (if b = 0 then None else Some (a mod b))
      else if n = PRIM_INT_QUO then (if b = 0 then None else Some (sgn a * sgn b * (\<bar>a\<bar> div \<bar>b\<bar>)))
      else if n = PRIM_INT_BIT_AND then Some (a AND b)
      else if n = PRIM_INT_BIT_OR then Some (a OR b)
      else if n = PRIM_INT_BIT_XOR then Some (a XOR b)
      else if 63 \<le> b then None
      else Some (if 0 \<le> b then a * 2 ^ nat b else a div 2 ^ nat (- b)))"

lemma try_checked: "Option.bind (checked_i64 v) try_from_int = (if in_smallint v then Some (from_int v) else None)"
  by (auto simp: checked_i64_def try_from_int_eq in_smallint_def SMALLINT_MAX_def SMALLINT_MIN_def in_i64_def)

lemma shift_exact:
  assumes "in_smallint a"
  shows "Option.bind (shift_int a b) try_from_int
    = (if 63 \<le> b then None
       else let v = (if 0 \<le> b then a * 2 ^ nat b else a div 2 ^ nat (- b))
            in if in_smallint v then Some (from_int v) else None)"
proof (cases "0 \<le> b")
  case True
  then obtain k where b: "b = int k" by (metis nonneg_int_cases)
  show ?thesis
  proof (cases "63 \<le> k")
    case False
    then have "shift_int a b = checked_i64 (a * 2 ^ k)"
      using shift_left [of k a] by (simp add: b checked_i64_def)
    then show ?thesis using False by (simp add: b try_checked)
  qed (simp add: b shift_int_def)
next
  case False
  define k where "k = nat (- b)"
  have "0 < k" "b = - int k" using False by (simp_all add: k_def)
  then have "shift_int a b = Some (a div 2 ^ k)" using shift_right [OF _ assms, of k] by simp
  then show ?thesis using False by (simp add: try_from_int_eq Let_def k_def [symmetric])
qed

text \<open>
  C15. The arithmetic primitives on two SmallIntegers are exact: they answer the result the operation
  has on the integers, with floored division and modulo, truncated quotient and arithmetic shifts,
  when it is a SmallInteger, and fail with the overflow code otherwise, on division by zero and on a
  left shift by 63 or more. Nothing else of the machine changes.
\<close>

theorem prim_int_binary_exact:
  assumes "is_int (get_slot vm rg r)" and "is_int (get_slot vm rg (r + 1))"
  shows "prim_int_binary n vm rg r =
    (case exact_result n (as_int (get_slot vm rg r)) (as_int (get_slot vm rg (r + 1))) of
       Some v \<Rightarrow> if in_smallint v then Ok (Value (from_int v), vm, rg) else Ok (Fail FAIL_OVERFLOW, vm, rg)
     | None \<Rightarrow> Ok (Fail FAIL_OVERFLOW, vm, rg))"
proof -
  let ?a = "as_int (get_slot vm rg r)" and ?b = "as_int (get_slot vm rg (r + 1))"
  have "Option.bind (int_binary n ?a ?b) try_from_int =
     (case exact_result n ?a ?b of Some v \<Rightarrow> if in_smallint v then Some (from_int v) else None | None \<Rightarrow> None)"
    by (simp add: int_binary_def exact_result_def try_checked floored_divmod_eq shift_exact i64_div_def
        try_from_int_eq Let_def)
  then show ?thesis
    using assms by (simp add: prim_int_binary_def pvalue_def pfail_def Let_def split: option.splits if_splits)
qed

subsection \<open>Element access\<close>

lemma sint_nonneg: "0 \<le> sint (w :: u64) \<Longrightarrow> sint w = int (unat w)"
proof -
  assume "0 \<le> sint w"
  then have "take_bit 64 (sint w) = sint w"
    using sint_lt [of w] by (intro take_bit_int_eq_self) simp_all
  moreover have "uint (word_of_int (sint w) :: u64) = take_bit 64 (sint w)"
    by (simp only: unsigned_of_int) simp
  ultimately show ?thesis by (simp only: word_of_int_sint_64 uint_nat)
qed

lemma hdr_format_remember: "hdr_format (header (remember h x) y) = hdr_format (header h y)"
  using gc_field.outside_put [OF remember_fits, of "header h x" "header h x"]
  by (simp add: remember_def Let_def header_def set_header_def heap_word_def)

lemma hdr_format_store_slot:
  assumes "heap_ok (vm_heap vm)" and "x \<in> live (vm_heap vm)" and "i < unat (num_slots (vm_heap vm) x)"
    and "y \<in> live (vm_heap vm)"
  shows "hdr_format (header (vm_heap (store_slot vm x i v)) y) = hdr_format (header (vm_heap vm) y)"
  using set_slot_ok(5) [OF assms(1-3), of y v] assms(4)
  by (simp add: store_slot_heap Let_def hdr_format_remember)

lemma at_value_eq: "at_value vm recv = at_fast vm recv"
  by (simp add: fun_eq_iff at_fast_def at_value_def Let_def)

lemma size_value_eq: "size_value vm recv = size_fast vm recv"
  by (simp add: size_fast_def size_value_def Let_def)

lemma atput_fast_eq: "atput_fast vm recv idx val = at_put_value vm recv idx val"
  by (auto simp: atput_fast_def at_put_value_def Let_def)

lemma at_put_stores:
  assumes ok: "heap_ok (vm_heap vm)" and l: "as_ptr recv \<in> live (vm_heap vm)"
    and put: "at_put_value vm recv idx val = Some (res, vm')"
  shows "atput_fast vm recv idx val = Some (val, vm') \<and> res = val \<and> heap_ok (vm_heap vm')
    \<and> at_fast vm' recv idx = Some val
    \<and> (\<forall>j. is_int j \<and> j \<noteq> idx \<longrightarrow> at_fast vm' recv j = at_fast vm recv j)
    \<and> at_value vm' recv = at_fast vm' recv \<and> size_fast vm' recv = size_fast vm recv"
proof -
  let ?h = "vm_heap vm" and ?x = "as_ptr recv" and ?i = "nat (as_int idx - 1)"
  have idx: "is_ptr recv" "is_int idx" "\<not> is_immutable ?h ?x" "1 \<le> as_int idx"
    using put by (auto simp: at_put_value_def Let_def split: if_splits)
  have ne: "nat (as_int j - 1) \<noteq> ?i" if "is_int j" "j \<noteq> idx" "1 \<le> as_int j" for j
  proof
    assume "nat (as_int j - 1) = ?i"
    then have "as_int j = as_int idx" using that idx by simp
    then show False using that idx(2) by (metis from_int_as_int)
  qed
  show ?thesis
  proof (cases "hdr_format (header ?h ?x) = FMT_PTRS")
    case True
    then have b: "as_int idx \<le> sint (num_slots ?h ?x)" and vm': "vm' = store_slot vm ?x ?i val" and r: "res = val"
      using put idx by (auto simp: at_put_value_def Let_def split: if_splits)
    have n: "sint (num_slots ?h ?x) = int (unat (num_slots ?h ?x))" using b idx by (intro sint_nonneg) simp
    then have i: "?i < unat (num_slots ?h ?x)" using b idx by (simp add: nat_less_iff)
    note w = store_slot_ok [OF ok l i, where v = val]
    have f: "hdr_format (header (vm_heap vm') ?x) = FMT_PTRS"
      using hdr_format_store_slot [OF ok l i l] True by (simp add: vm')
    have ns: "num_slots (vm_heap vm') ?x = num_slots ?h ?x" using w(3) [OF l] by (simp add: vm')
    have sl: "slot (vm_heap vm') ?x j = (if j = ?i then val else slot ?h ?x j)" if "j < unat (num_slots ?h ?x)" for j
      using w(4) [OF l that] by (simp add: vm')
    have "at_fast vm' recv j = (if j = idx then Some val else at_fast vm recv j)" if "is_int j" for j
    proof (cases "1 \<le> as_int j \<and> as_int j \<le> sint (num_slots ?h ?x)")
      case True
      then have "nat (as_int j - 1) < unat (num_slots ?h ?x)" using n by (simp add: nat_less_iff)
      then have "slot (vm_heap vm') ?x (nat (as_int j - 1))
          = (if j = idx then val else slot ?h ?x (nat (as_int j - 1)))"
        using sl ne [OF that] True by auto
      then show ?thesis using True idx that f ns \<open>hdr_format (header ?h ?x) = FMT_PTRS\<close>
        by (auto simp: at_fast_def Let_def)
    next
      case False
      then have "j \<noteq> idx" using b idx by auto
      then show ?thesis using False idx that f ns \<open>hdr_format (header ?h ?x) = FMT_PTRS\<close>
        by (auto simp: at_fast_def Let_def)
    qed
    then show ?thesis
      using w(1) idx b r True f ns by (simp add: atput_fast_def size_fast_def Let_def vm' at_value_eq)
  next
    case False
    then have b: "is_bytes (header ?h ?x)" "as_int idx \<le> int (byte_size ?h ?x)" "is_int val" "as_int val \<in> {0..255}"
      and vm': "vm' = vm\<lparr>vm_heap := set_byte ?h ?x ?i (word_of_int (as_int val))\<rparr>" and r: "res = val"
      using put idx by (auto simp: at_put_value_def Let_def split: if_splits)
    have i: "?i < byte_size ?h ?x" using b idx by simp
    note w = set_byte_ok [OF ok l i, where b = "word_of_int (as_int val)"]
    have v: "from_int (uint (word_of_int (as_int val) :: u8)) = val"
      using b from_int_as_int by (simp add: unsigned_of_int take_bit_int_eq_self)
    have hd: "header (vm_heap vm') ?x = header ?h ?x" "byte_size (vm_heap vm') ?x = byte_size ?h ?x"
      using w(3) [OF l] w(4) by (simp_all add: vm')
    have "at_fast vm' recv j = (if j = idx then Some val else at_fast vm recv j)" if "is_int j" for j
      using ne [OF that] that hd idx b v False by (auto simp: at_fast_def Let_def vm' byte_set_byte)
    then show ?thesis
      using w(1) idx b r False hd by (simp add: atput_fast_def size_fast_def Let_def vm' at_value_eq)
  qed
qed

text \<open>The index is a SmallInteger from one to the size the object answers.\<close>

definition index_in_range :: "vm \<Rightarrow> value \<Rightarrow> value \<Rightarrow> bool" where
  "index_in_range vm recv idx \<longleftrightarrow> is_int idx \<and>
     (case size_fast vm recv of None \<Rightarrow> False | Some n \<Rightarrow> 1 \<le> as_int idx \<and> as_int idx \<le> as_int n)"

lemma live_size_bound:
  assumes ok: "heap_ok h" and x: "x \<in> live h"
  shows "unat (num_slots h x) < 2 ^ 42"
proof -
  have "sp_alloc (young_from h) < 2 ^ 42" "sp_alloc (old h) < 2 ^ 42"
    using ok by (auto simp: heap_ok_def space_ok_def)
  then show ?thesis using storage_of_live [OF ok x] by (auto simp: space_top_def)
qed

lemma size_fast_exact:
  assumes "heap_ok (vm_heap vm)" and "as_ptr recv \<in> live (vm_heap vm)" and "size_fast vm recv = Some n"
  shows "as_int n = (if hdr_format (header (vm_heap vm) (as_ptr recv)) = FMT_PTRS
     then sint (num_slots (vm_heap vm) (as_ptr recv)) else int (byte_size (vm_heap vm) (as_ptr recv)))"
proof -
  let ?n = "num_slots (vm_heap vm) (as_ptr recv)"
  have b: "unat ?n < 2 ^ 42" by (rule live_size_bound [OF assms(1,2)])
  then have "int (unat ?n) < int (2 ^ 42)" by (simp only: of_nat_less_iff)
  then have u: "uint ?n < 2 ^ 42" "0 \<le> uint ?n" unfolding uint_nat by simp_all
  have "LENGTH(64) - Suc 0 = 63" by simp
  moreover have "signed_take_bit 63 k = k" if "0 \<le> k" "k < 2 ^ 42" for k :: int
    by (rule signed_take_bit_int_eq_self) (use that in auto)
  from this [OF u(2,1)] have "signed_take_bit 63 (uint ?n) = uint ?n" .
  ultimately have "sint ?n = uint ?n" by (simp only: sint_uint)
  moreover have "in_smallint k" if "0 \<le> k" "k < 2 ^ 42" for k
    using that by (simp add: in_smallint_def SMALLINT_MAX_def SMALLINT_MIN_def)
  from this [OF u(2,1)] have "in_smallint (uint ?n)" .
  ultimately have "in_smallint (sint ?n)" by simp
  moreover have "in_smallint (int (byte_size (vm_heap vm) (as_ptr recv)))"
    using b by (auto simp: in_smallint_def SMALLINT_MAX_def SMALLINT_MIN_def byte_size_def Let_def)
  ultimately show ?thesis using assms(3) by (auto simp: size_fast_def Let_def split: if_splits)
qed

text \<open>
  C14. On an object of a well-formed heap the bytecodes and the primitives for at:, at:put: and size
  are the same functions, refusals included. at: answers exactly at the indices from one to the size;
  at:put: stores exactly there, on an object that is not immutable, and into an object of bytes only a
  SmallInteger from 0 to 255. What was put is there: at: at the same index answers it, at every other
  index answers what it did, the size is as it was and the heap is well formed.
\<close>

theorem at_put_then_at:
  assumes ok: "heap_ok (vm_heap vm)" and l: "as_ptr recv \<in> live (vm_heap vm)"
  shows "atput_fast vm recv idx val = at_put_value vm recv idx val
    \<and> at_value vm recv idx = at_fast vm recv idx \<and> size_value vm recv = size_fast vm recv
    \<and> (at_fast vm recv idx \<noteq> None \<longleftrightarrow> index_in_range vm recv idx)
    \<and> (at_put_value vm recv idx val \<noteq> None \<longleftrightarrow>
         index_in_range vm recv idx \<and> \<not> is_immutable (vm_heap vm) (as_ptr recv)
         \<and> (is_bytes (header (vm_heap vm) (as_ptr recv)) \<longrightarrow> is_int val \<and> 0 \<le> as_int val \<and> as_int val \<le> 255))
    \<and> (\<forall>res vm'. at_put_value vm recv idx val = Some (res, vm') \<longrightarrow>
         res = val \<and> heap_ok (vm_heap vm') \<and> at_fast vm' recv idx = Some val
         \<and> (\<forall>j. is_int j \<and> j \<noteq> idx \<longrightarrow> at_fast vm' recv j = at_fast vm recv j)
         \<and> at_value vm' recv = at_fast vm' recv \<and> size_fast vm' recv = size_fast vm recv)"
proof -
  let ?h = "vm_heap vm" and ?w = "header (vm_heap vm) (as_ptr recv)"
  have range: "index_in_range vm recv idx \<longleftrightarrow> is_ptr recv \<and> is_int idx \<and> 1 \<le> as_int idx
      \<and> (hdr_format ?w = FMT_PTRS \<and> as_int idx \<le> sint (num_slots ?h (as_ptr recv))
        \<or> hdr_format ?w \<noteq> FMT_PTRS \<and> is_bytes ?w \<and> as_int idx \<le> int (byte_size ?h (as_ptr recv)))"
    using size_fast_exact [OF ok l] unfolding index_in_range_def
    by (auto simp: size_fast_def Let_def split: option.splits if_splits)
  have disj: "\<not> is_bytes ?w" if "hdr_format ?w = FMT_PTRS" using that by (simp add: is_bytes_def word_le_nat_alt)
  have "at_fast vm recv idx \<noteq> None \<longleftrightarrow> index_in_range vm recv idx"
    unfolding range by (auto simp: at_fast_def Let_def)
  moreover have "at_put_value vm recv idx val \<noteq> None \<longleftrightarrow>
      index_in_range vm recv idx \<and> \<not> is_immutable ?h (as_ptr recv)
      \<and> (is_bytes ?w \<longrightarrow> is_int val \<and> 0 \<le> as_int val \<and> as_int val \<le> 255)"
    unfolding range using disj by (auto simp: at_put_value_def Let_def)
  ultimately show ?thesis
    using at_put_stores [OF ok l] by (simp add: atput_fast_eq at_value_eq size_value_eq)
qed

subsection \<open>A concrete machine\<close>

text \<open>Object 0 of the pool as a stack whose first frame has 7, -2 and a pointer to object 1 in its slots.\<close>

definition arith_heap :: heap where
  "arith_heap = set_slots (pool 2) [(0, 4, from_int 7), (0, 5, from_int (-2))]"

definition arith_regs :: regs where
  "arith_regs = \<lparr>r_stack = pool_obj 0, r_frame = 0, r_pc = 0, r_method = 0, r_code = 0, r_lits = 0,
     r_sites = 0, r_epoch = 0, r_closure = None, r_halted = None\<rparr>"

lemma arith_heap_facts:
  "heap_ok arith_heap" "live arith_heap = pool_obj ` {..<2}"
  "get_slot (bare_literal arith_heap 0) arith_regs 0 = from_int 7"
  "get_slot (bare_literal arith_heap 0) arith_regs 1 = from_int (-2)"
proof -
  have "pool_ok 2 (pool 2)" by (rule pool_ok) simp
  then have w: "heap_ok arith_heap \<and> live arith_heap = live (pool 2) \<and> old arith_heap = old (pool 2)
      \<and> young_from arith_heap = young_from (pool 2) \<and> ssb arith_heap = ssb (pool 2)
      \<and> (\<forall>i < 2. header arith_heap (pool_obj i) = header (pool 2) (pool_obj i)
         \<and> unat (num_slots arith_heap (pool_obj i)) = 8
         \<and> (\<forall>j < 8. slot arith_heap (pool_obj i) j
               = last_write [(0, 4, from_int 7), (0, 5, from_int (-2))] i j (slot (pool 2) (pool_obj i) j)))"
    unfolding arith_heap_def by (intro set_slots_ok) (auto simp: pool_ok_def)
  with \<open>pool_ok 2 (pool 2)\<close> show "heap_ok arith_heap" "live arith_heap = pool_obj ` {..<2}"
    by (auto simp: pool_ok_def)
  have "slot arith_heap (pool_obj 0) 4 = from_int 7" "slot arith_heap (pool_obj 0) 5 = from_int (-2)"
    using w by simp_all
  then show "get_slot (bare_literal arith_heap 0) arith_regs 0 = from_int 7"
    "get_slot (bare_literal arith_heap 0) arith_regs 1 = from_int (-2)"
    by (simp_all add: get_slot_def bslot_def arith_regs_def vslot_def bare_literal_def)
qed

lemma smallint_samples: "in_smallint 7" "in_smallint (-2)" "in_smallint (-4)"
  by (simp_all add: in_smallint_def SMALLINT_MAX_def SMALLINT_MIN_def)

lemma prim_int_binary_exact_witness:
  "\<exists>vm. prim_int_binary PRIM_INT_DIV vm arith_regs 0 = Ok (Value (from_int (-4)), vm, arith_regs)"
proof -
  have "prim_int_binary PRIM_INT_DIV (bare_literal arith_heap 0) arith_regs 0
      = Ok (Value (from_int (-4)), bare_literal arith_heap 0, arith_regs)"
    using prim_int_binary_exact [of "bare_literal arith_heap 0" arith_regs 0 PRIM_INT_DIV]
    by (simp add: arith_heap_facts smallint_samples exact_result_def)
  then show ?thesis by blast
qed

lemma at_put_then_at_witness:
  "\<exists>vm vm'. at_put_value vm (pool_ref 0) (from_int 1) (from_int 7) = Some (from_int 7, vm')
     \<and> at_fast vm' (pool_ref 0) (from_int 1) = Some (from_int 7)"
proof -
  have "\<exists>h'. alloc_ptrs_old small_heap 17 3 1 = Some (pool_obj 0, h')"
    by (simp add: alloc_ptrs_old_def alloc_in_old_def alloc_in_small small_heap_def new_heap_def
        space_top_def pool_obj_def)
  then obtain h' where h': "alloc_ptrs_old small_heap 17 3 1 = Some (pool_obj 0, h')" by blast
  note ct = ptrs_old_alloc.contract [OF small_heap_ok class_ok_17 h']
  let ?vm = "bare_literal h' 0"
  have hp: "vm_heap ?vm = h'" by (simp add: bare_literal_def)
  have x: "as_ptr (pool_ref 0) = pool_obj 0" "is_ptr (pool_ref 0)" by (simp_all add: pool_obj_ptr)
  have f: "hdr_format (header h' (pool_obj 0)) = FMT_PTRS" "unat (num_slots h' (pool_obj 0)) = 3"
    "gc_bits (header h' (pool_obj 0)) = 0"
    using ct(2) by (simp_all add: allocated_def)
  have "num_slots h' (pool_obj 0) = 3" using f(2) by (intro iffD2 [OF word_unat_eq_iff]) simp
  then have n: "sint (num_slots h' (pool_obj 0)) = 3" by simp
  have "in_smallint 1" by (simp add: in_smallint_def SMALLINT_MAX_def SMALLINT_MIN_def)
  then have "at_put_value ?vm (pool_ref 0) (from_int 1) (from_int 7)
      = Some (from_int 7, store_slot ?vm (pool_obj 0) 0 (from_int 7))"
    using f n by (simp add: at_put_value_def hp x is_immutable_def Let_def)
  moreover have "heap_ok (vm_heap ?vm)" "as_ptr (pool_ref 0) \<in> live (vm_heap ?vm)"
    using ct(1,4) by (simp_all add: hp x)
  ultimately show ?thesis using at_put_then_at [of ?vm "pool_ref 0" "from_int 1" "from_int 7"] by blast
qed

end
