(* ===== verification/Blit_Pixels.thy ===== *)
theory Blit_Pixels
  imports Bit_Blit
begin

section \<open>What BitBlt does to each pixel\<close>

text \<open>
  The loops of the BitBlt primitive against a description by pixels: a pixel inside the rectangle
  and the clip becomes the combination of the source pixel with what it was, every other pixel stays
  as it was, and the count is the number of pixels inside. No index is out of range as long as the
  sizes of the two forms do not overflow.
\<close>

definition source_pixel :: "(int \<times> int \<times> nat \<times> u8 list) option \<Rightarrow> int \<Rightarrow> int \<Rightarrow> bool" where
  "source_pixel src x y =
     (case src of
        None \<Rightarrow> False
      | Some (sw, sh, sstride, sd) \<Rightarrow>
          0 \<le> x \<and> 0 \<le> y \<and> x < sw \<and> y < sh \<and> mono_set sstride sd (nat y) (nat x))"

definition rule_out :: "int \<Rightarrow> bool \<Rightarrow> bool \<Rightarrow> bool" where
  "rule_out rule s d =
     (if rule = 0 then False else if rule = 3 then s else if rule = 6 then s \<noteq> d else s \<or> d)"

definition covered :: "blit \<Rightarrow> (nat \<times> nat) set" where
  "covered b = {(x, y). bl_cx0 b \<le> int x \<and> int x < bl_cx1 b \<and> bl_cy0 b \<le> int y \<and> int y < bl_cy1 b
     \<and> bl_dx b \<le> int x \<and> int x < bl_dx b + bl_w b \<and> bl_dy b \<le> int y \<and> int y < bl_dy b + bl_h b}"

definition bits_fit :: "int \<Rightarrow> int \<Rightarrow> nat \<Rightarrow> u8 list \<Rightarrow> bool" where
  "bits_fit w h stride d \<longleftrightarrow> w \<le> 8 * int stride \<and> nat h * stride \<le> length d \<and> length d < 2 ^ 64
     \<and> w < 2 ^ 63 \<and> h < 2 ^ 63"

definition blit_fits :: "blit \<Rightarrow> u8 list \<Rightarrow> bool" where
  "blit_fits b d \<longleftrightarrow> 0 \<le> bl_cx0 b \<and> 0 \<le> bl_cy0 b \<and> bits_fit (bl_cx1 b) (bl_cy1 b) (bl_stride b) d
     \<and> (case bl_src b of None \<Rightarrow> True | Some (sw, sh, sstride, sd) \<Rightarrow> bits_fit sw sh sstride sd)"

definition blitted :: "blit \<Rightarrow> u8 list \<Rightarrow> (nat \<times> nat) set \<Rightarrow> u8 list \<times> nat \<Rightarrow> bool" where
  "blitted b d D st \<longleftrightarrow> length (fst st) = length d \<and> finite D \<and> snd st = card D
     \<and> (\<forall>x y. x < 8 * bl_stride b \<longrightarrow> y * bl_stride b + x div 8 < length d \<longrightarrow>
          mono_set (bl_stride b) (fst st) y x
            = (if (x, y) \<in> D
               then rule_out (bl_rule b) (source_pixel (bl_src b) (bl_sx b + (int x - bl_dx b)) (bl_sy b + (int y - bl_dy b)))
                      (mono_set (bl_stride b) d y x)
               else mono_set (bl_stride b) d y x))"

subsection \<open>Cells and bits\<close>

lemma and_one_bit: "drop_bit k (w :: u8) AND 1 = of_bool (bit w k)"
  by (simp add: and_one_eq bit_iff_odd_drop_bit mod2_eq_if)

lemma mono_set_bit:
  "y * stride + x div 8 < length d \<Longrightarrow>
     mono_set stride d y x \<longleftrightarrow> bit (d ! (y * stride + x div 8)) (7 - x mod 8)"
proof -
  have "(x AND 7) = x mod 8" using take_bit_eq_mask [of 3 x] by (simp add: take_bit_eq_mod mask_eq_exp_minus_1)
  moreover have "drop_bit 3 x = x div 8" by (simp add: drop_bit_eq_div)
  ultimately show "y * stride + x div 8 < length d \<Longrightarrow> ?thesis"
    by (simp add: mono_set_def Let_def and_one_bit)
qed

lemma cell_eq:
  assumes f: "bits_fit w h stride d" and x: "0 \<le> x" "x < w" and y: "0 \<le> y" "y < h"
  shows "cell stride x y = nat y * stride + nat x div 8" "nat y * stride + nat x div 8 < length d"
    "cell_shift x = 7 - nat x mod 8" "nat x < 8 * stride"
proof -
  show b: "nat x < 8 * stride" using f x by (simp add: bits_fit_def nat_less_iff)
  then have "nat x div 8 < stride" by simp
  moreover have "(nat y + 1) * stride \<le> nat h * stride" using y by (intro mult_le_mono1) simp
  ultimately show l: "nat y * stride + nat x div 8 < length d" using f by (simp add: bits_fit_def)
  have u: "as_usize x = nat x" "as_usize y = nat y" using f x y by (simp_all add: bits_fit_def)
  have "(nat x AND 7) = nat x mod 8"
    using take_bit_eq_mask [of 3 "nat x"] by (simp add: take_bit_eq_mod mask_eq_exp_minus_1)
  then show "cell_shift x = 7 - nat x mod 8" by (simp add: cell_shift_def u)
  have "nat y * stride + nat x div 8 < 2 ^ 64" using l f by (simp add: bits_fit_def)
  then show "cell stride x y = nat y * stride + nat x div 8"
    unfolding cell_def u by (simp add: drop_bit_eq_div del: of_nat_add)
qed

lemma source_bit_eq:
  assumes "case src of None \<Rightarrow> True | Some (sw, sh, sstride, sd) \<Rightarrow> bits_fit sw sh sstride sd"
  shows "source_bit src x y = Ok (of_bool (source_pixel src x y))"
proof (cases src)
  case (Some s)
  obtain sw sh st sd where s: "s = (sw, sh, st, sd)" by (cases s) auto
  with assms Some have f: "bits_fit sw sh st sd" by simp
  show ?thesis
    using cell_eq [OF f, of x y] mono_set_bit [of "nat y" st "nat x" sd]
    by (auto simp: source_bit_def source_pixel_def Some s and_one_bit)
qed (simp add: source_bit_def source_pixel_def)

lemma combine_eq: "combine rule (of_bool s) (of_bool d) = of_bool (rule_out rule s d)"
  by (simp add: combine_def rule_out_def)

lemma pixel_index_inject:
  assumes "x < 8 * st" and "x' < 8 * st"
    and "y * st + x div 8 = y' * st + x' div 8" and "7 - x mod 8 = 7 - x' mod (8 :: nat)"
  shows "x = x' \<and> y = y'"
proof -
  have "x div 8 < st" "x' div 8 < st" using assms by auto
  then have "y = y' \<and> x div 8 = x' div 8"
    using arg_cong [OF assms(3), of "\<lambda>n. n div st"] arg_cong [OF assms(3), of "\<lambda>n. n mod st"] by simp
  moreover have "x mod 8 = x' mod 8"
    using assms(4) mod_less_divisor [of 8 x] mod_less_divisor [of 8 x'] by linarith
  ultimately show ?thesis by (metis div_mult_mod_eq)
qed

lemma bit_set_clear:
  fixes w :: u8
  assumes "sh < 8" and "s < 8"
  shows "bit (if c then w OR push_bit sh 1 else w AND NOT (push_bit sh 1)) s = (if s = sh then c else bit w s)"
  using assms by (auto simp: bit_simps)

subsection \<open>The loops\<close>

lemma each_inv:
  assumes "\<And>ys x zs s. xs = ys @ x # zs \<Longrightarrow> I ys s \<Longrightarrow> \<exists>s'. f x s = Ok s' \<and> I (ys @ [x]) s'"
    and "I [] s"
  shows "\<exists>s'. each f xs s = Ok s' \<and> I xs s'"
proof -
  have "\<exists>s'. each f zs s = Ok s' \<and> I xs s'" if "xs = ys @ zs" "I ys s" for ys zs s
    using that
  proof (induction zs arbitrary: ys s)
    case (Cons z zs)
    then obtain s1 where "f z s = Ok s1" "I (ys @ [z]) s1" using assms(1) by blast
    with Cons.IH [of "ys @ [z]" s1] Cons.prems show ?case by simp
  qed simp
  from this [of "[]" xs s] assms(2) show ?thesis by simp
qed

lemma blit_pixel_step:
  assumes f: "blit_fits b d" and i: "blitted b d D st"
    and x: "bl_cx0 b \<le> bl_dx b + i" "bl_dx b + i < bl_cx1 b"
    and y: "bl_cy0 b \<le> bl_dy b + j" "bl_dy b + j < bl_cy1 b"
    and new: "(nat (bl_dx b + i), nat (bl_dy b + j)) \<notin> D"
  shows "\<exists>st'. blit_pixel b j i st = Ok st' \<and> blitted b d (insert (nat (bl_dx b + i), nat (bl_dy b + j)) D) st'"
proof -
  obtain d1 n where st: "st = (d1, n)" by (cases st)
  define X where "X = nat (bl_dx b + i)"
  define Y where "Y = nat (bl_dy b + j)"
  have bf: "bits_fit (bl_cx1 b) (bl_cy1 b) (bl_stride b) d" and "0 \<le> bl_cx0 b" "0 \<le> bl_cy0 b"
    and sf: "case bl_src b of None \<Rightarrow> True | Some (sw, sh, sstride, sd) \<Rightarrow> bits_fit sw sh sstride sd"
    using f by (simp_all add: blit_fits_def)
  then have p: "0 \<le> bl_dx b + i" "0 \<le> bl_dy b + j" using x y by simp_all
  note c = cell_eq [OF bf p(1) x(2) p(2) y(2), folded X_def Y_def]
  define k where "k = Y * bl_stride b + X div 8"
  define sh where "sh = 7 - X mod 8"
  have len: "length d1 = length d" and n: "n = card D" "finite D" using i st by (auto simp: blitted_def)
  have old: "mono_set (bl_stride b) d Y X = bit (d1 ! k) sh"
    using i c(2,4) new mono_set_bit [of Y "bl_stride b" X d1]
    by (simp add: blitted_def st len X_def [symmetric] Y_def [symmetric] k_def sh_def)
  define out where "out = rule_out (bl_rule b)
    (source_pixel (bl_src b) (bl_sx b + i) (bl_sy b + j)) (mono_set (bl_stride b) d Y X)"
  let ?w = "if out then d1 ! k OR push_bit sh 1 else d1 ! k AND NOT (push_bit sh 1)"
  have ok: "blit_pixel b j i st = Ok (d1[k := ?w], n + 1)"
    using x c(1-3) len
    by (simp add: blit_pixel_def st Let_def source_bit_eq [OF sf] and_one_bit combine_eq out_def old
        k_def [symmetric] sh_def [symmetric])
  have "blitted b d (insert (X, Y) D) (d1[k := ?w], n + 1)"
    unfolding blitted_def fst_conv snd_conv
  proof (intro conjI allI impI)
    show "length (d1[k := ?w]) = length d" "finite (insert (X, Y) D)" by (simp_all add: len n)
    show "n + 1 = card (insert (X, Y) D)" using new n by (simp add: X_def Y_def)
    fix x' y' assume r: "x' < 8 * bl_stride b" "y' * bl_stride b + x' div 8 < length d"
    let ?k = "y' * bl_stride b + x' div 8" and ?s = "7 - x' mod 8"
    have s: "?s < 8" "sh < 8" by (simp_all add: sh_def)
    have m: "mono_set (bl_stride b) (d1[k := ?w]) y' x' = bit (d1[k := ?w] ! ?k) ?s"
      using r len by (intro mono_set_bit) simp
    show "mono_set (bl_stride b) (d1[k := ?w]) y' x' =
       (if (x', y') \<in> insert (X, Y) D
        then rule_out (bl_rule b) (source_pixel (bl_src b) (bl_sx b + (int x' - bl_dx b)) (bl_sy b + (int y' - bl_dy b)))
               (mono_set (bl_stride b) d y' x')
        else mono_set (bl_stride b) d y' x')"
    proof (cases "x' = X \<and> y' = Y")
      case True
      then have "?k = k" "?s = sh" by (simp_all add: k_def sh_def)
      then have "mono_set (bl_stride b) (d1[k := ?w]) y' x' = out"
        unfolding m using bit_set_clear [OF s(2,2)] r len by simp
      moreover have "int x' - bl_dx b = i" "int y' - bl_dy b = j" using True p by (simp_all add: X_def Y_def)
      ultimately show ?thesis using True by (simp add: out_def)
    next
      case False
      then have "\<not> (?k = k \<and> ?s = sh)"
        using pixel_index_inject [OF r(1) c(4)] unfolding k_def sh_def by blast
      then have "bit (d1[k := ?w] ! ?k) ?s = bit (d1 ! ?k) ?s"
        using bit_set_clear [OF s(2,1)] r len by (cases "?k = k") simp_all
      also have "\<dots> = mono_set (bl_stride b) d1 y' x'"
        using r len by (intro mono_set_bit [symmetric]) simp
      finally have "mono_set (bl_stride b) (d1[k := ?w]) y' x' = mono_set (bl_stride b) d1 y' x'"
        unfolding m .
      moreover have "(x', y') \<in> insert (X, Y) D \<longleftrightarrow> (x', y') \<in> D" using False by auto
      ultimately show ?thesis using i r unfolding blitted_def st by simp
    qed
  qed
  with ok show ?thesis by (simp add: X_def Y_def)
qed

definition row_part :: "blit \<Rightarrow> int \<Rightarrow> int set \<Rightarrow> (nat \<times> nat) set" where
  "row_part b j is = {(x, y). int y = bl_dy b + j \<and> bl_cy0 b \<le> int y \<and> int y < bl_cy1 b
     \<and> bl_cx0 b \<le> int x \<and> int x < bl_cx1 b \<and> int x - bl_dx b \<in> is}"

lemma row_part_insert:
  "row_part b j (insert i is) =
     (if bl_cx0 b \<le> bl_dx b + i \<and> bl_dx b + i < bl_cx1 b \<and> bl_cy0 b \<le> bl_dy b + j \<and> bl_dy b + j < bl_cy1 b
         \<and> 0 \<le> bl_dx b + i \<and> 0 \<le> bl_dy b + j
      then insert (nat (bl_dx b + i), nat (bl_dy b + j)) (row_part b j is) else row_part b j is)"
  by (auto simp: row_part_def)

lemma blit_row_step:
  assumes f: "blit_fits b d" and i: "blitted b d D st" and new: "\<forall>x y. (x, y) \<in> D \<longrightarrow> int y \<noteq> bl_dy b + j"
  shows "\<exists>st'. blit_row b j st = Ok st' \<and> blitted b d (D \<union> row_part b j {0..<bl_w b}) st'"
proof (cases "bl_dy b + j < bl_cy0 b \<or> bl_cy1 b \<le> bl_dy b + j")
  case True
  then have "row_part b j {0..<bl_w b} = {}" by (auto simp: row_part_def)
  with True i show ?thesis by (simp add: blit_row_def)
next
  case False
  have c0: "0 \<le> bl_cx0 b" "0 \<le> bl_cy0 b" using f by (simp_all add: blit_fits_def)
  have "\<exists>st'. each (blit_pixel b j) [0..bl_w b - 1] st = Ok st'
      \<and> blitted b d (D \<union> row_part b j (set [0..bl_w b - 1])) st'"
  proof (rule each_inv)
    show "blitted b d (D \<union> row_part b j (set [])) st" using i by (simp add: row_part_def)
    fix ys x zs s
    assume e: "[0..bl_w b - 1] = ys @ x # zs" and s: "blitted b d (D \<union> row_part b j (set ys)) s"
    have "x \<notin> set ys" using distinct_upto [of 0 "bl_w b - 1"] unfolding e by simp
    then have n: "(nat (bl_dx b + x), nat (bl_dy b + j)) \<notin> D \<union> row_part b j (set ys)"
      if "bl_cx0 b \<le> bl_dx b + x" using that new [rule_format] False c0 by (force simp: row_part_def)
    show "\<exists>s'. blit_pixel b j x s = Ok s' \<and> blitted b d (D \<union> row_part b j (set (ys @ [x]))) s'"
    proof (cases "bl_cx0 b \<le> bl_dx b + x \<and> bl_dx b + x < bl_cx1 b")
      case True
      then show ?thesis
        using blit_pixel_step [OF f s, of x j] n False c0 by (simp add: row_part_insert)
    next
      case out: False
      then show ?thesis using s by (auto simp: row_part_insert blit_pixel_def Let_def split: prod.splits)
    qed
  qed
  moreover have "set [0..bl_w b - 1] = {0..<bl_w b}" by auto
  ultimately show ?thesis using False by (simp add: blit_row_def)
qed

lemma blit_loop_blitted:
  assumes f: "blit_fits b d"
  shows "\<exists>st'. blit_loop b (d, 0) = Ok st' \<and> blitted b d (covered b) st'"
proof -
  let ?rows = "\<lambda>js. \<Union>j \<in> js. row_part b j {0..<bl_w b}"
  have "\<exists>st'. each (blit_row b) [0..bl_h b - 1] (d, 0) = Ok st' \<and> blitted b d (?rows (set [0..bl_h b - 1])) st'"
  proof (rule each_inv)
    show "blitted b d (?rows (set [])) (d, 0)" by (simp add: blitted_def)
    fix ys j zs s
    assume e: "[0..bl_h b - 1] = ys @ j # zs" and s: "blitted b d (?rows (set ys)) s"
    have "j \<notin> set ys" using distinct_upto [of 0 "bl_h b - 1"] unfolding e by simp
    then have "\<forall>x y. (x, y) \<in> ?rows (set ys) \<longrightarrow> int y \<noteq> bl_dy b + j" by (auto simp: row_part_def)
    from blit_row_step [OF f s this]
    show "\<exists>s'. blit_row b j s = Ok s' \<and> blitted b d (?rows (set (ys @ [j]))) s'"
      by (simp add: Un_commute)
  qed
  moreover have "?rows (set [0..bl_h b - 1]) = covered b"
  proof (intro set_eqI iffI)
    fix p assume "p \<in> covered b"
    then show "p \<in> ?rows (set [0..bl_h b - 1])"
      by (intro UN_I [of "int (snd p) - bl_dy b"]) (auto simp: row_part_def covered_def)
  qed (auto simp: row_part_def covered_def)
  ultimately show ?thesis by (simp add: blit_loop_def)
qed

text \<open>
  C8. BitBlt pixel by pixel. When the bits of both forms fit their sizes, the loop finishes without
  an index out of range; a destination pixel inside the copied rectangle and the effective clip gets
  the rule applied to the source pixel and its old value, every other pixel keeps its value, and the
  number of pixels counted is the number of those inside.
\<close>

theorem bitblt_pixels:
  assumes "blit_fits b d"
  shows "\<exists>d'. blit_loop b (d, 0) = Ok (d', card (covered b)) \<and> length d' = length d
    \<and> (\<forall>x y. x < 8 * bl_stride b \<longrightarrow> y * bl_stride b + x div 8 < length d \<longrightarrow>
         mono_set (bl_stride b) d' y x
           = (if (x, y) \<in> covered b
              then rule_out (bl_rule b)
                     (source_pixel (bl_src b) (bl_sx b + (int x - bl_dx b)) (bl_sy b + (int y - bl_dy b)))
                     (mono_set (bl_stride b) d y x)
              else mono_set (bl_stride b) d y x))"
  using blit_loop_blitted [OF assms] by (force simp: blitted_def)

definition sample_blit :: blit where
  "sample_blit = \<lparr>bl_rule = 6, bl_dx = 1, bl_dy = 0, bl_w = 2, bl_h = 1, bl_sx = 0, bl_sy = 0,
     bl_cx0 = 0, bl_cy0 = 0, bl_cx1 = 8, bl_cy1 = 1, bl_stride = 1, bl_src = Some (8, 1, 1, [0x80])\<rparr>"

lemma bitblt_pixels_witness:
  "\<exists>d' n. blit_loop sample_blit ([0x00], 0) = Ok (d', n) \<and> mono_set 1 d' 0 1 \<and> \<not> mono_set 1 d' 0 2"
proof -
  have "blit_fits sample_blit [0x00]" by (simp add: blit_fits_def sample_blit_def bits_fit_def)
  from bitblt_pixels [OF this] obtain d' where d: "blit_loop sample_blit ([0x00], 0) = Ok (d', card (covered sample_blit))"
    and p: "\<And>x y. x < 8 * bl_stride sample_blit \<Longrightarrow> y * bl_stride sample_blit + x div 8 < length [0x00 :: u8] \<Longrightarrow>
       mono_set (bl_stride sample_blit) d' y x
         = (if (x, y) \<in> covered sample_blit
            then rule_out (bl_rule sample_blit)
              (source_pixel (bl_src sample_blit) (bl_sx sample_blit + (int x - bl_dx sample_blit))
                (bl_sy sample_blit + (int y - bl_dy sample_blit)))
              (mono_set (bl_stride sample_blit) [0x00] y x)
            else mono_set (bl_stride sample_blit) [0x00] y x)"
    by blast
  have "mono_set 1 d' 0 1" "\<not> mono_set 1 d' 0 2"
    using p [of 1 0] p [of 2 0]
    by (simp add: sample_blit_def covered_def rule_out_def source_pixel_def mono_set_def)+
  with d show ?thesis by blast
qed

text \<open>
  C40. The size check of a form does not exclude an overflow: the number of bytes a form of width 64
  and height 2 to the 61 needs is computed as zero, so such a form passes with any number of bits,
  and copying a pixel to a row past those bits stops the machine with a failed index.
\<close>

theorem huge_form_passes_and_panics:
  assumes "bl_stride b = form_stride 64" and "bl_src b = None"
    and "bl_cx0 b = 0" and "bl_cx1 b = 64" and "bl_cy0 b = 0" and "bl_cy1 b = 2 ^ 61"
    and "bl_dx b = 0" and "bl_w b = 1" and "bl_h b = 1"
    and "length d \<le> 8 * nat (bl_dy b)" and "0 \<le> bl_dy b" and "bl_dy b < 2 ^ 60"
  shows "form_bytes 64 (2 ^ 61) = 0 \<and> blit_loop b (d, n) = Panic"
proof -
  have f: "form_stride 64 = 8" "form_bytes 64 (2 ^ 61) = 0"
    by (simp_all add: form_stride_def form_bytes_def as_usize_def)
  have "cell 8 0 (bl_dy b) = 8 * nat (bl_dy b)"
    using assms(11,12) by (simp add: cell_def as_usize_def nat_mod_as_int)
  then show ?thesis
    using assms f by (simp add: blit_loop_def blit_row_def blit_pixel_def source_bit_def)
qed

lemma huge_form_passes_and_panics_witness:
  "blit_loop \<lparr>bl_rule = 3, bl_dx = 0, bl_dy = 1, bl_w = 1, bl_h = 1, bl_sx = 0, bl_sy = 0,
     bl_cx0 = 0, bl_cy0 = 0, bl_cx1 = 64, bl_cy1 = 2 ^ 61, bl_stride = form_stride 64, bl_src = None\<rparr>
     ([0, 0, 0, 0, 0, 0, 0, 0], 0) = Panic"
  by (rule huge_form_passes_and_panics [THEN conjunct2]) simp_all

end
