(* ===== verification/Host_Window.thy ===== *)
theory Host_Window
  imports Host_Ui
begin

section \<open>The windowed user interface\<close>

text \<open>
  The backend of src/host_ui.rs under the feature ui: the present buffer shown in a window and the
  window polled for events. The window library is not part of the program: what Window::new answers,
  what the window does with a buffer and the state it reports are arguments. The printed diagnostics
  are left out with the switch that gates them. An event is its five numbers, a key its number.
\<close>

record 'w window_ui =
  wu_host :: host_ui
  wu_present_count :: nat
  wu_window :: "'w option"
  wu_windowed :: bool
  wu_win_w :: u32
  wu_win_h :: u32
  wu_last_down :: bool
  wu_last_pos :: "(int \<times> int) option"
  wu_last_keys :: "int list"
  wu_close_sent :: bool

definition new_window_ui :: "bool \<Rightarrow> 'w window_ui" where
  "new_window_ui windowed =
     \<lparr>wu_host = new_host_ui, wu_present_count = 0, wu_window = None, wu_windowed = windowed, wu_win_w = 0,
      wu_win_h = 0, wu_last_down = False, wu_last_pos = None, wu_last_keys = [], wu_close_sent = False\<rparr>"

definition post :: "int list \<Rightarrow> 'w window_ui \<Rightarrow> 'w window_ui" where
  "post ev u = u\<lparr>wu_host := push_event (wu_host u) ev\<rparr>"

abbreviation (input) EV_NONE :: int where "EV_NONE \<equiv> 0"
abbreviation (input) EV_MOUSE_MOVE :: int where "EV_MOUSE_MOVE \<equiv> 1"
abbreviation (input) EV_MOUSE_BUTTON :: int where "EV_MOUSE_BUTTON \<equiv> 2"
abbreviation (input) EV_KEY_DOWN :: int where "EV_KEY_DOWN \<equiv> 3"
abbreviation (input) EV_KEY_UP :: int where "EV_KEY_UP \<equiv> 4"
abbreviation (input) EV_SCROLL :: int where "EV_SCROLL \<equiv> 5"
abbreviation (input) EV_RESIZE :: int where "EV_RESIZE \<equiv> 6"
abbreviation (input) EV_CLOSE :: int where "EV_CLOSE \<equiv> 7"

subsection \<open>Showing the buffer\<close>

definition wants_window :: "'w window_ui \<Rightarrow> bool" where
  "wants_window u \<longleftrightarrow> wu_window u = None \<or> wu_win_w u \<noteq> hu_width (wu_host u)
     \<or> wu_win_h u \<noteq> hu_height (wu_host u)"

definition show_buffer :: "('w \<Rightarrow> u32 list \<Rightarrow> nat \<Rightarrow> nat \<Rightarrow> 'w) \<Rightarrow> 'w window_ui \<Rightarrow> 'w window_ui" where
  "show_buffer update u =
     u\<lparr>wu_window := map_option (\<lambda>win. update win (hu_buffer (wu_host u)) (unat (hu_width (wu_host u)))
          (unat (hu_height (wu_host u)))) (wu_window u),
       wu_present_count := wu_present_count u + 1\<rparr>"

definition present_window ::
  "('w \<Rightarrow> u32 list \<Rightarrow> nat \<Rightarrow> nat \<Rightarrow> 'w) \<Rightarrow> 'w option \<Rightarrow> 'w window_ui \<Rightarrow> 'w window_ui" where
  "present_window update opened u =
     (if \<not> wu_windowed u then u
      else if wants_window u
      then (case opened of
              Some win \<Rightarrow> show_buffer update
                (u\<lparr>wu_window := Some win, wu_win_w := hu_width (wu_host u), wu_win_h := hu_height (wu_host u)\<rparr>)
            | None \<Rightarrow> post [EV_CLOSE, 0, 0, 0, 0] (u\<lparr>wu_window := None, wu_windowed := False\<rparr>))
      else show_buffer update u)"

definition present_mono_windowed ::
  "('w \<Rightarrow> u32 list \<Rightarrow> nat \<Rightarrow> nat \<Rightarrow> 'w) \<Rightarrow> 'w option \<Rightarrow> u32 \<Rightarrow> u32 \<Rightarrow> u8 list \<Rightarrow> 'w window_ui \<Rightarrow> 'w window_ui" where
  "present_mono_windowed update opened width height bits u =
     present_window update opened (u\<lparr>wu_host := present_mono (wu_host u) width height bits\<rparr>)"

subsection \<open>Polling the window\<close>

record window_state =
  ws_open :: bool
  ws_esc :: bool
  ws_pos :: "(int \<times> int) option"
  ws_down :: bool
  ws_keys :: "int list"

definition closing :: "window_state \<Rightarrow> bool" where
  "closing s \<longleftrightarrow> \<not> ws_open s \<or> ws_esc s"

definition ingest_mouse :: "(int \<times> int) option \<Rightarrow> bool \<Rightarrow> 'w window_ui \<Rightarrow> 'w window_ui" where
  "ingest_mouse pos down u =
     (case pos of
        None \<Rightarrow> u
      | Some (x, y) \<Rightarrow>
          let u1 = (if wu_last_pos u \<noteq> Some (x, y)
                    then (post [EV_MOUSE_MOVE, x, y, 0, 0] u)\<lparr>wu_last_pos := Some (x, y)\<rparr> else u)
          in if down \<noteq> wu_last_down u1
             then (post [EV_MOUSE_BUTTON, x, y, 1, of_bool down] u1)\<lparr>wu_last_down := down\<rparr> else u1)"

fun post_keys :: "int list \<Rightarrow> 'w window_ui \<Rightarrow> 'w window_ui" where
  "post_keys [] u = u"
| "post_keys (k # ks) u =
     post_keys ks (if k \<notin> set (wu_last_keys u) then post [EV_KEY_DOWN, k, 0, 0, 0] u else u)"

definition ingest_window_state :: "window_state \<Rightarrow> 'w window_ui \<Rightarrow> 'w window_ui" where
  "ingest_window_state s u =
     (if closing s
      then (if wu_close_sent u then u
            else post [EV_CLOSE, 0, 0, 0, 0] (u\<lparr>wu_close_sent := True\<rparr>))
      else (post_keys (ws_keys s) (ingest_mouse (ws_pos s) (ws_down s) u))\<lparr>wu_last_keys := ws_keys s\<rparr>)"

definition harvest_window :: "window_state \<Rightarrow> 'w window_ui \<Rightarrow> 'w window_ui" where
  "harvest_window s u = (case wu_window u of None \<Rightarrow> u | Some _ \<Rightarrow> ingest_window_state s u)"

subsection \<open>What is queued\<close>

abbreviation queued :: "'w window_ui \<Rightarrow> int list list" where
  "queued u \<equiv> hu_events (wu_host u)"

definition with_queue :: "int list list \<Rightarrow> 'w window_ui \<Rightarrow> 'w window_ui" where
  "with_queue evs u = u\<lparr>wu_host := (wu_host u)\<lparr>hu_events := evs\<rparr>\<rparr>"

text \<open>The events of one snapshot.\<close>

definition mouse_events :: "(int \<times> int) option \<Rightarrow> bool \<Rightarrow> 'w window_ui \<Rightarrow> int list list" where
  "mouse_events pos down u =
     (case pos of
        None \<Rightarrow> []
      | Some (x, y) \<Rightarrow> (if wu_last_pos u \<noteq> pos then [[EV_MOUSE_MOVE, x, y, 0, 0]] else [])
          @ (if down \<noteq> wu_last_down u then [[EV_MOUSE_BUTTON, x, y, 1, of_bool down]] else []))"

lemma post_fields [simp]:
  "queued (post ev u) = queued u @ [ev]" "wu_window (post ev u) = wu_window u"
  "wu_last_pos (post ev u) = wu_last_pos u" "wu_last_down (post ev u) = wu_last_down u"
  "wu_last_keys (post ev u) = wu_last_keys u" "wu_close_sent (post ev u) = wu_close_sent u"
  "wu_windowed (post ev u) = wu_windowed u"
  by (simp_all add: post_def push_event_def)

lemma post_keys_queue:
  "post_keys ks u = with_queue (queued u @ map (\<lambda>k. [EV_KEY_DOWN, k, 0, 0, 0])
     (filter (\<lambda>k. k \<notin> set (wu_last_keys u)) ks)) u"
  by (induction ks arbitrary: u) (simp_all add: with_queue_def post_def push_event_def)

lemma ingest_mouse_queue:
  "ingest_mouse pos down u = with_queue (queued u @ mouse_events pos down u)
     (u\<lparr>wu_last_pos := (if pos = None then wu_last_pos u else pos),
        wu_last_down := (if pos = None then wu_last_down u else down)\<rparr>)"
  by (auto simp: ingest_mouse_def mouse_events_def with_queue_def post_def push_event_def Let_def split: option.splits)

definition snapshot_events :: "window_state \<Rightarrow> 'w window_ui \<Rightarrow> int list list" where
  "snapshot_events s u =
     (if closing s then (if wu_close_sent u then [] else [[EV_CLOSE, 0, 0, 0, 0]])
      else mouse_events (ws_pos s) (ws_down s) u
        @ map (\<lambda>k. [EV_KEY_DOWN, k, 0, 0, 0]) (filter (\<lambda>k. k \<notin> set (wu_last_keys u)) (ws_keys s)))"

lemma ingest_queue: "queued (ingest_window_state s u) = queued u @ snapshot_events s u"
  by (simp add: ingest_window_state_def snapshot_events_def post_keys_queue ingest_mouse_queue with_queue_def)

lemma ingest_memory:
  "wu_close_sent (ingest_window_state s u) = (wu_close_sent u \<or> closing s)"
  "wu_last_down (ingest_window_state s u) = (if closing s \<or> ws_pos s = None then wu_last_down u else ws_down s)"
  "wu_windowed (ingest_window_state s u) = wu_windowed u" "wu_window (ingest_window_state s u) = wu_window u"
  by (auto simp: ingest_window_state_def post_keys_queue ingest_mouse_queue with_queue_def)

lemma ingest_again:
  "ingest_window_state s (with_queue evs (ingest_window_state s u)) = with_queue evs (ingest_window_state s u)"
proof (cases "closing s")
  case True
  then show ?thesis by (simp add: ingest_window_state_def post_def with_queue_def)
next
  case False
  then show ?thesis
    by (cases "ws_pos s")
       (simp_all add: ingest_window_state_def post_keys_queue ingest_mouse_queue mouse_events_def with_queue_def)
qed

subsection \<open>A run of presents and polls\<close>

datatype 'w window_call = Show u32 u32 "u8 list" "'w option" | Poll window_state

fun ui_call :: "('w \<Rightarrow> u32 list \<Rightarrow> nat \<Rightarrow> nat \<Rightarrow> 'w) \<Rightarrow> 'w window_call \<Rightarrow> 'w window_ui \<Rightarrow> 'w window_ui" where
  "ui_call update (Show width height bits opened) u = present_mono_windowed update opened width height bits u"
| "ui_call update (Poll s) u = harvest_window s u"

definition run_ui :: "('w \<Rightarrow> u32 list \<Rightarrow> nat \<Rightarrow> nat \<Rightarrow> 'w) \<Rightarrow> 'w window_call list \<Rightarrow> 'w window_ui \<Rightarrow> 'w window_ui" where
  "run_ui update cs u = fold (ui_call update) cs u"

fun refused :: "'w window_call \<Rightarrow> bool" where
  "refused (Show width height bits opened) = (opened = None)"
| "refused (Poll s) = False"

definition closes :: "int list list \<Rightarrow> nat" where
  "closes evs = length (filter (\<lambda>e. hd e = EV_CLOSE) evs)"

definition button_states :: "int list list \<Rightarrow> int list" where
  "button_states evs = map last (filter (\<lambda>e. hd e = EV_MOUSE_BUTTON) evs)"

fun alternating :: "bool \<Rightarrow> int list \<Rightarrow> bool" where
  "alternating b [] = True"
| "alternating b (x # xs) \<longleftrightarrow> x = of_bool (\<not> b) \<and> alternating (\<not> b) xs"

lemma events_append [simp]:
  "closes (xs @ ys) = closes xs + closes ys" "closes [] = 0"
  "button_states (xs @ ys) = button_states xs @ button_states ys" "button_states [] = []"
  by (simp_all add: closes_def button_states_def)

lemma present_events:
  assumes v: "v = present_mono_windowed update opened width height bits u"
  shows "\<exists>E. queued v = queued u @ E \<and> button_states E = []
    \<and> wu_last_down v = wu_last_down u \<and> wu_close_sent v = wu_close_sent u
    \<and> closes E + of_bool (wu_windowed v) \<le> of_bool (wu_windowed u)
    \<and> (opened \<noteq> None \<longrightarrow> E = [])"
  unfolding v
  by (cases opened)
     (auto simp: present_mono_windowed_def present_window_def show_buffer_def present_mono_def post_def
        push_event_def closes_def button_states_def)

lemma snapshot_counts:
  "closes (snapshot_events s u) = of_bool (closing s \<and> \<not> wu_close_sent u)"
  "button_states (snapshot_events s u) =
     (if closing s \<or> ws_pos s = None \<or> ws_down s = wu_last_down u then [] else [of_bool (ws_down s)])"
  by (auto simp: snapshot_events_def closes_def button_states_def mouse_events_def filter_map comp_def split: option.splits)

lemma poll_events:
  "\<exists>E. queued (harvest_window s u) = queued u @ E
    \<and> closes E + of_bool (\<not> wu_close_sent (harvest_window s u)) \<le> of_bool (\<not> wu_close_sent u)
    \<and> wu_windowed (harvest_window s u) = wu_windowed u
    \<and> button_states E = (if wu_last_down (harvest_window s u) = wu_last_down u then [] else [of_bool (\<not> wu_last_down u)])"
  by (cases "wu_window u") (auto simp: harvest_window_def ingest_queue ingest_memory snapshot_counts)

lemma run_ui_Cons: "run_ui update (c # cs) u = run_ui update cs (ui_call update c u)"
  by (simp add: run_ui_def)

lemma run_events:
  "\<exists>E. queued (run_ui update cs u) = queued u @ E \<and> alternating (wu_last_down u) (button_states E)
    \<and> closes E \<le> of_bool (\<not> wu_close_sent u) + (if \<exists>c \<in> set cs. refused c then of_bool (wu_windowed u) else 0)"
proof (induction cs arbitrary: u)
  case Nil
  then show ?case by (simp add: run_ui_def)
next
  case (Cons c cs)
  let ?v = "ui_call update c u"
  from Cons obtain E where E: "queued (run_ui update cs ?v) = queued ?v @ E"
    "alternating (wu_last_down ?v) (button_states E)"
    "closes E \<le> of_bool (\<not> wu_close_sent ?v) + (if \<exists>c \<in> set cs. refused c then of_bool (wu_windowed ?v) else 0)"
    by blast
  show ?case
  proof (cases c)
    case (Poll s)
    then obtain F where "queued ?v = queued u @ F" "wu_windowed ?v = wu_windowed u"
      "closes F + of_bool (\<not> wu_close_sent ?v) \<le> of_bool (\<not> wu_close_sent u)"
      "button_states F = (if wu_last_down ?v = wu_last_down u then [] else [of_bool (\<not> wu_last_down u)])"
      using poll_events [of s u] by auto
    with E show ?thesis by (intro exI [of _ "F @ E"]) (auto simp: run_ui_Cons Poll split: if_splits)
  next
    case (Show w h b opened)
    then obtain F where "queued ?v = queued u @ F" "button_states F = []" "wu_last_down ?v = wu_last_down u"
      "wu_close_sent ?v = wu_close_sent u" "closes F + of_bool (wu_windowed ?v) \<le> of_bool (wu_windowed u)"
      "opened \<noteq> None \<longrightarrow> F = []"
      using present_events [of ?v update opened w h b u] by auto
    with E show ?thesis by (intro exI [of _ "F @ E"]) (auto simp: run_ui_Cons Show split: if_splits)
  qed
qed

text \<open>The close event can be posted twice: by the poll, and again by a window that cannot be made anew.\<close>

lemma close_posted_twice:
  "queued (run_ui (\<lambda>w _ _ _. w)
     [Show 8 1 [0] (Some ()), Poll \<lparr>ws_open = True, ws_esc = True, ws_pos = None, ws_down = False, ws_keys = []\<rparr>,
      Show 16 1 [0, 0] None] (new_window_ui True)) = [[7, 0, 0, 0, 0], [7, 0, 0, 0, 0]]"
  by (simp add: run_ui_def present_mono_windowed_def present_window_def wants_window_def show_buffer_def
      new_window_ui_def new_host_ui_def present_mono_def harvest_window_def ingest_window_state_def closing_def
      post_def push_event_def)

text \<open>C9. Window events are edges.
  Polling a window that reports the state it reported before queues nothing, whatever was taken from
  the queue in between, so a pump that polls until the queue is empty comes to an end. Over any run of
  presents and polls the queue only grows, the button events of the run alternate between press and
  release, starting with the opposite of the remembered state, and the close event is queued once at
  most, or twice when the library refuses a window.\<close>

theorem window_events_are_edges:
  "ingest_window_state s (with_queue evs (ingest_window_state s u)) = with_queue evs (ingest_window_state s u)
   \<and> (\<exists>E. queued (run_ui update cs u) = queued u @ E \<and> alternating (wu_last_down u) (button_states E)
       \<and> closes E \<le> of_bool (\<not> wu_close_sent u) + (if \<exists>c \<in> set cs. refused c then of_bool (wu_windowed u) else 0))"
  using ingest_again run_events by blast

end
