(* ===== verification/Profiler.thy ===== *)
theory Profiler
  imports Counter_Rows "HOL-Library.Char_ord" "HOL-Library.List_Lexorder" "HOL-Library.Product_Lexorder"
begin

section \<open>The sampling profiler\<close>

text \<open>
  src/profile.rs: samples of the frame chain as paths of interned names, tallied by leaf, by presence
  and by path, and the report. The profiler only reads the machine, so its state is a record of its
  own beside the machine. The flags it shares with the timer thread are a second record, on which a
  tick of the thread is an operation like the others. A Rust string is the list of its bytes.
\<close>

abbreviation (input) MAX_SAMPLE_DEPTH :: nat where "MAX_SAMPLE_DEPTH \<equiv> 64"

record safepoint_shared =
  sp_armed :: bool
  sp_sample_due :: bool

definition new_safepoint_shared :: safepoint_shared where
  "new_safepoint_shared = \<lparr>sp_armed = False, sp_sample_due = False\<rparr>"

record profiler =
  pf_active :: bool
  pf_every_poll :: bool
  pf_interval_ms :: nat
  pf_total :: nat
  pf_names :: "string list"
  pf_name_ids :: "string \<rightharpoonup> u32"
  pf_addr_cache :: "nat \<rightharpoonup> u32"
  pf_cache_epoch :: nat
  pf_flat_self :: "nat list"
  pf_flat_total :: "nat list"
  pf_paths :: "u32 list \<rightharpoonup> nat"
  pf_timer :: bool

definition default_profiler :: profiler where
  "default_profiler =
     \<lparr>pf_active = False, pf_every_poll = False, pf_interval_ms = 0, pf_total = 0, pf_names = [],
      pf_name_ids = Map.empty, pf_addr_cache = Map.empty, pf_cache_epoch = 0, pf_flat_self = [],
      pf_flat_total = [], pf_paths = Map.empty, pf_timer = False\<rparr>"

definition reset_store :: "profiler \<Rightarrow> profiler" where
  "reset_store p =
     p\<lparr>pf_total := 0, pf_names := [], pf_name_ids := Map.empty, pf_addr_cache := Map.empty,
       pf_flat_self := [], pf_flat_total := [], pf_paths := Map.empty\<rparr>"

definition name_of :: "profiler \<Rightarrow> u32 \<Rightarrow> string outcome" where
  "name_of p i = (if unat i < length (pf_names p) then Ok (pf_names p ! unat i) else Panic)"

definition intern_name :: "string \<Rightarrow> profiler \<Rightarrow> u32 \<times> profiler" where
  "intern_name s p =
     (case pf_name_ids p s of
        Some i \<Rightarrow> (i, p)
      | None \<Rightarrow>
          let i = of_nat (length (pf_names p))
          in (i, p\<lparr>pf_name_ids := (pf_name_ids p)(s \<mapsto> i), pf_names := pf_names p @ [s],
                   pf_flat_self := pf_flat_self p @ [0], pf_flat_total := pf_flat_total p @ [0]\<rparr>))"

subsection \<open>Names\<close>

definition treaty_class_name :: "u32 \<Rightarrow> string option" where
  "treaty_class_name idx = map_of
     [(CLASS_OBJECT, ''Object''), (CLASS_BEHAVIOR, ''Behavior''), (CLASS_CLASS, ''Class''),
      (CLASS_METACLASS, ''Metaclass''), (CLASS_UNDEFINED_OBJECT, ''UndefinedObject''),
      (CLASS_TRUE, ''True''), (CLASS_FALSE, ''False''), (CLASS_SMALLINTEGER, ''SmallInteger''),
      (CLASS_FLOAT, ''Float''), (CLASS_CHARACTER, ''Character''), (CLASS_STRING, ''String''),
      (CLASS_BYTESTRING, ''ByteString''), (CLASS_SYMBOL, ''Symbol''), (CLASS_ARRAY, ''Array''),
      (CLASS_BYTEARRAY, ''ByteArray''), (CLASS_ORDERED_COLLECTION, ''OrderedCollection''),
      (CLASS_ASSOCIATION, ''Association''), (CLASS_BLOCKCLOSURE, ''BlockClosure''),
      (CLASS_COMPILEDMETHOD, ''CompiledMethod''), (CLASS_COMPILEDBLOCK, ''CompiledBlock''),
      (CLASS_PROCESS, ''Process''), (CLASS_SEMAPHORE, ''Semaphore''),
      (CLASS_METHODDICTIONARY, ''MethodDictionary''), (CLASS_PROCESSOR_SCHEDULER, ''ProcessorScheduler''),
      (CLASS_MESSAGE, ''Message''), (CLASS_SYSTEM_DICTIONARY, ''SystemDictionary'')] idx"

text \<open>
  The standard conversion of bytes to a string: a byte that starts no character, or the part of a
  character that is cut short by a byte which cannot follow, becomes one replacement character.
\<close>

definition char_width :: "u8 \<Rightarrow> nat" where
  "char_width b =
     (if b < 0x80 then 1 else if 0xC2 \<le> b \<and> b \<le> 0xDF then 2 else if 0xE0 \<le> b \<and> b \<le> 0xEF then 3
      else if 0xF0 \<le> b \<and> b \<le> 0xF4 then 4 else 0)"

definition second_ok :: "u8 \<Rightarrow> u8 \<Rightarrow> bool" where
  "second_ok b x \<longleftrightarrow>
     (if b = 0xE0 then 0xA0 else if b = 0xF0 then 0x90 else 0x80) \<le> x
     \<and> x \<le> (if b = 0xED then 0x9F else if b = 0xF4 then 0x8F else 0xBF)"

definition follow :: "u8 \<Rightarrow> u8 list \<Rightarrow> nat" where
  "follow b bs =
     (case take (char_width b - 1) bs of
        [] \<Rightarrow> 0
      | x # xs \<Rightarrow> if second_ok b x then 1 + length (takeWhile (\<lambda>y. 0x80 \<le> y \<and> y \<le> 0xBF) xs) else 0)"

function utf8_lossy :: "u8 list \<Rightarrow> u8 list" where
  "utf8_lossy [] = []"
| "utf8_lossy (b # bs) =
     (let n = follow b bs
      in (if 0 < char_width b \<and> n = char_width b - 1 then b # take n bs else [0xEF, 0xBF, 0xBD])
         @ utf8_lossy (drop n bs))"
  by pat_completeness auto

termination
  by (relation "measure length") (simp_all add: le_imp_less_Suc)

definition string_from_bytes :: "u8 list \<Rightarrow> string" where
  "string_from_bytes bs = map (\<lambda>b. char_of (unat b)) (utf8_lossy bs)"

definition bytes_object :: "vm \<Rightarrow> value \<Rightarrow> bool" where
  "bytes_object vm v \<longleftrightarrow> is_ptr v \<and> v \<noteq> nil vm \<and> is_bytes (header (vm_heap vm) (as_ptr v))"

definition class_index_name :: "vm \<Rightarrow> value \<Rightarrow> string" where
  "class_index_name vm cls =
     (let n = unat (num_slots (vm_heap vm) (as_ptr cls)); idx = vslot vm (as_ptr cls) BEHAVIOR_CLASS_INDEX
      in if BEHAVIOR_CLASS_INDEX < n \<and> is_int idx
         then (let i = word_of_int (as_int idx)
               in case treaty_class_name i of Some s \<Rightarrow> s | None \<Rightarrow> ''class#'' @ show_nat (unat i))
         else ''?'')"

definition class_display_name :: "vm \<Rightarrow> value \<Rightarrow> string" where
  "class_display_name vm cls =
     (if \<not> is_ptr cls \<or> cls = nil vm \<or> is_bytes (header (vm_heap vm) (as_ptr cls)) then ''?''
      else let name = vslot vm (as_ptr cls) BEHAVIOR_NUM_VM_SLOTS
           in if BEHAVIOR_NUM_VM_SLOTS < unat (num_slots (vm_heap vm) (as_ptr cls)) \<and> bytes_object vm name
              then string_from_bytes (obj_bytes (vm_heap vm) (as_ptr name))
              else class_index_name vm cls)"

text \<open>The depth of the code counts up to four; here the blocks still allowed count down.\<close>

fun method_display_name :: "nat \<Rightarrow> vm \<Rightarrow> value \<Rightarrow> string" where
  "method_display_name 0 vm m = ''<invalid-frame>''"
| "method_display_name (Suc left) vm m =
     (if \<not> is_ptr m \<or> m = nil vm then ''<invalid-frame>''
      else let c = hdr_class_index (header (vm_heap vm) (as_ptr m))
           in if c = CLASS_COMPILEDBLOCK
              then ''[] in '' @ method_display_name left vm (vslot vm (as_ptr m) BLOCK_OUTER_METHOD)
              else if c = CLASS_COMPILEDMETHOD
              then (let sel = vslot vm (as_ptr m) METHOD_SELECTOR;
                        sel_s = (if bytes_object vm sel
                                 then string_from_bytes (obj_bytes (vm_heap vm) (as_ptr sel)) else ''doIt'')
                    in class_display_name vm (vslot vm (as_ptr m) METHOD_CLASS) @ ''>>'' @ sel_s)
              else ''<invalid-frame>'')"

abbreviation method_name :: "vm \<Rightarrow> value \<Rightarrow> string" where
  "method_name vm m \<equiv> method_display_name 5 vm m"

definition method_sample_id :: "vm \<Rightarrow> value \<Rightarrow> profiler \<Rightarrow> u32 \<times> profiler" where
  "method_sample_id vm m p =
     (let p1 = (if pf_cache_epoch p \<noteq> gc_epoch vm
                then p\<lparr>pf_addr_cache := Map.empty, pf_cache_epoch := gc_epoch vm\<rparr> else p)
      in case (if is_ptr m then pf_addr_cache p1 (as_ptr m) else None) of
           Some i \<Rightarrow> (i, p1)
         | None \<Rightarrow>
             let (i, p2) = intern_name (method_name vm m) p1
             in (i, if is_ptr m then p2\<lparr>pf_addr_cache := (pf_addr_cache p2)(as_ptr m \<mapsto> i)\<rparr> else p2))"

subsection \<open>Taking samples\<close>

definition bump :: "nat list \<Rightarrow> u32 \<Rightarrow> nat list outcome" where
  "bump xs i = (if unat i < length xs then Ok (xs[unat i := xs ! unat i + 1]) else Panic)"

fun bump_all :: "u32 list \<Rightarrow> nat list \<Rightarrow> nat list outcome" where
  "bump_all [] xs = Ok xs"
| "bump_all (i # is) xs = rbind (bump xs i) (bump_all is)"

definition add_path :: "u32 list \<Rightarrow> (u32 list \<rightharpoonup> nat) \<Rightarrow> (u32 list \<rightharpoonup> nat)" where
  "add_path ids m = m(ids \<mapsto> (case m ids of None \<Rightarrow> 0 | Some k \<Rightarrow> k) + 1)"

definition record_sample :: "u32 list \<Rightarrow> profiler \<Rightarrow> profiler outcome" where
  "record_sample path p =
     rbind (case path of [] \<Rightarrow> Ok (pf_flat_self p) | leaf # _ \<Rightarrow> bump (pf_flat_self p) leaf) (\<lambda>fs.
     rbind (bump_all (remdups (sort path)) (pf_flat_total p)) (\<lambda>ft.
       Ok (p\<lparr>pf_total := pf_total p + 1, pf_flat_self := fs, pf_flat_total := ft,
             pf_paths := add_path (rev path) (pf_paths p)\<rparr>)))"

definition caller_offset :: "value \<Rightarrow> nat option" where
  "caller_offset c = (if \<not> is_int c \<or> as_int c = 0 then None else Some (unat (word_of_int (as_int c) :: u64)))"

fun walk_frames :: "nat \<Rightarrow> vm \<Rightarrow> nat \<Rightarrow> nat \<Rightarrow> profiler \<Rightarrow> u32 list \<times> profiler" where
  "walk_frames 0 vm stack off p = ([], p)"
| "walk_frames (Suc n) vm stack off p =
     (let (i, p1) = method_sample_id vm (vslot vm stack (off + FRAME_METHOD)) p
      in case caller_offset (vslot vm stack (off + FRAME_CALLER)) of
           None \<Rightarrow> ([i], p1)
         | Some off' \<Rightarrow> let (is, p2) = walk_frames n vm stack off' p1 in (i # is, p2))"

definition take_sample :: "vm \<Rightarrow> nat \<Rightarrow> nat \<Rightarrow> string option \<Rightarrow> profiler \<Rightarrow> profiler outcome" where
  "take_sample vm stack frame pseudo p =
     (let (top, p1) = (case pseudo of None \<Rightarrow> ([], p) | Some s \<Rightarrow> let (i, q) = intern_name s p in ([i], q));
          (is, p2) = walk_frames MAX_SAMPLE_DEPTH vm stack frame p1
      in record_sample (top @ is) p2)"

definition take_sample_from_process :: "vm \<Rightarrow> string \<Rightarrow> profiler \<Rightarrow> profiler outcome" where
  "take_sample_from_process vm pseudo p =
     (let ap = active_process vm;
          stack = vslot vm (as_ptr ap) PROCESS_STACK; off = vslot vm (as_ptr ap) PROCESS_FRAME_OFFSET
      in if is_ptr ap \<and> ap \<noteq> nil vm \<and> is_ptr stack \<and> stack \<noteq> nil vm \<and> is_int off
         then take_sample vm (as_ptr stack) (unat (word_of_int (as_int off) :: u64)) (Some pseudo) p
         else let (i, q) = intern_name pseudo p in record_sample [i] q)"

subsection \<open>Starting, stopping and the flags\<close>

definition profiler_stop :: "profiler \<times> safepoint_shared \<Rightarrow> profiler \<times> safepoint_shared" where
  "profiler_stop st = (let (p, f) = st in (p\<lparr>pf_active := False, pf_timer := False\<rparr>, f\<lparr>sp_sample_due := False\<rparr>))"

definition profiler_start :: "nat \<Rightarrow> profiler \<times> safepoint_shared \<Rightarrow> profiler \<times> safepoint_shared" where
  "profiler_start interval_ms st =
     (let (p, f) = profiler_stop st
      in ((reset_store p)\<lparr>pf_active := True, pf_interval_ms := max interval_ms 1, pf_timer := True\<rparr>, f))"

text \<open>One interval of the timer thread, which is there between start and stop.\<close>

definition timer_tick :: "profiler \<times> safepoint_shared \<Rightarrow> profiler \<times> safepoint_shared" where
  "timer_tick st = (let (p, f) = st in (p, if pf_timer p then f\<lparr>sp_sample_due := True, sp_armed := True\<rparr> else f))"

definition force_sample_at_next_poll :: "profiler \<times> safepoint_shared \<Rightarrow> profiler \<times> safepoint_shared" where
  "force_sample_at_next_poll st =
     (let (p, f) = st in (p\<lparr>pf_active := True\<rparr>, f\<lparr>sp_sample_due := True, sp_armed := True\<rparr>))"

definition sample_due_here :: "profiler \<Rightarrow> safepoint_shared \<Rightarrow> bool \<times> safepoint_shared" where
  "sample_due_here p f =
     (if pf_active p then (sp_sample_due f \<or> pf_every_poll p, f\<lparr>sp_sample_due := False\<rparr>) else (False, f))"

text \<open>
  The places of the machine that take a sample: the collectors, a primitive, the safepoint. Saving the
  registers before a sample is left to the machine; the sample reads the registers themselves.
\<close>

definition sample_collection ::
  "string \<Rightarrow> vm \<Rightarrow> profiler \<Rightarrow> safepoint_shared \<Rightarrow> (profiler \<times> safepoint_shared) outcome" where
  "sample_collection pseudo vm p f =
     (let (due, f1) = sample_due_here p f
      in if due then rbind (take_sample_from_process vm pseudo p) (\<lambda>q. Ok (q, f1)) else Ok (p, f1))"

definition sample_primitive ::
  "u16 \<Rightarrow> vm \<Rightarrow> regs \<Rightarrow> profiler \<Rightarrow> safepoint_shared \<Rightarrow> (profiler \<times> safepoint_shared) outcome" where
  "sample_primitive n vm rg p f =
     (let (due, f1) = sample_due_here p f
      in if due
         then rbind (take_sample vm (r_stack rg) (r_frame rg) (Some (''<vm:prim:'' @ show_nat (unat n) @ ''>'')) p)
                (\<lambda>q. Ok (q, f1))
         else Ok (p, f1))"

definition sample_every_poll :: "vm \<Rightarrow> regs \<Rightarrow> profiler \<Rightarrow> profiler outcome" where
  "sample_every_poll vm rg p =
     (if pf_every_poll p \<and> pf_active p then take_sample vm (r_stack rg) (r_frame rg) None p else Ok p)"

definition sample_safepoint ::
  "vm \<Rightarrow> regs \<Rightarrow> profiler \<Rightarrow> safepoint_shared \<Rightarrow> (profiler \<times> safepoint_shared) outcome" where
  "sample_safepoint vm rg p f =
     (let f1 = f\<lparr>sp_sample_due := False\<rparr>
      in if sp_sample_due f \<and> pf_active p
         then rbind (take_sample vm (r_stack rg) (r_frame rg) None p) (\<lambda>q. Ok (q, f1))
         else Ok (p, f1))"

subsection \<open>The report and its primitives\<close>

definition profiler_report_rows :: "profiler \<Rightarrow> (string \<times> nat \<times> nat) list" where
  "profiler_report_rows p =
     sort_key (\<lambda>(n, s, t). (- int s, - int t, n))
       (map (\<lambda>(i, n). (n, pf_flat_self p ! i, pf_flat_total p ! i))
         (filter (\<lambda>(i, n). pf_flat_self p ! i \<noteq> 0 \<or> pf_flat_total p ! i \<noteq> 0) (enumerate 0 (pf_names p))))"

definition prim_profiler_start ::
  "vm \<Rightarrow> regs \<Rightarrow> u8 \<Rightarrow> profiler \<times> safepoint_shared \<Rightarrow> (prim_outcome \<times> vm \<times> regs) outcome \<times> profiler \<times> safepoint_shared" where
  "prim_profiler_start vm rg r st =
     (let ms = get_slot vm rg (r + 1)
      in if \<not> is_int ms \<or> as_int ms < 1 then (pfail FAIL_WRONG_TYPE vm rg, st)
         else (pvalue (get_slot vm rg r) vm rg, profiler_start (nat (as_int ms)) st))"

definition prim_profiler_stop ::
  "vm \<Rightarrow> regs \<Rightarrow> u8 \<Rightarrow> profiler \<times> safepoint_shared \<Rightarrow> (prim_outcome \<times> vm \<times> regs) outcome \<times> profiler \<times> safepoint_shared" where
  "prim_profiler_stop vm rg r st = (pvalue (get_slot vm rg r) vm rg, profiler_stop st)"

definition prim_profiler_report :: "vm \<Rightarrow> regs \<Rightarrow> profiler \<Rightarrow> prim_result" where
  "prim_profiler_report vm rg p =
     build_row_array vm rg (int (pf_total p)) (int (pf_interval_ms p))
       (map (\<lambda>(n, s, t). (n, int s, int t)) (profiler_report_rows p))"

end
