(* ===== verification/Sample_Tally.thy ===== *)
theory Sample_Tally
  imports Profiler "HOL-Library.Multiset"
begin

section \<open>What the profiler counts\<close>

text \<open>
  The abstract store of the profiler is a multiset of samples, each the names of a frame chain from
  the base frame to the leaf. The tallies of src/profile.rs stand for such a multiset; taking a sample
  adds the chain the stack holds, whatever is interned or cached, and the report lists its counts.
\<close>

definition names_ok :: "profiler \<Rightarrow> bool" where
  "names_ok p \<longleftrightarrow> distinct (pf_names p) \<and> length (pf_names p) \<le> 2 ^ 32
     \<and> length (pf_flat_self p) = length (pf_names p) \<and> length (pf_flat_total p) = length (pf_names p)
     \<and> (\<forall>s i. pf_name_ids p s = Some i \<longleftrightarrow> unat i < length (pf_names p) \<and> pf_names p ! unat i = s)"

definition ids_ok :: "profiler \<Rightarrow> u32 list \<Rightarrow> bool" where
  "ids_ok p ids \<longleftrightarrow> (\<forall>i \<in> set ids. unat i < length (pf_names p))"

definition path_names :: "profiler \<Rightarrow> u32 list \<Rightarrow> string list" where
  "path_names p ids = map (\<lambda>i. pf_names p ! unat i) ids"

definition self_count :: "string list multiset \<Rightarrow> string \<Rightarrow> nat" where
  "self_count M n = size {#q \<in># M. last q = n#}"

definition total_count :: "string list multiset \<Rightarrow> string \<Rightarrow> nat" where
  "total_count M n = size {#q \<in># M. n \<in> set q#}"

definition tallies :: "profiler \<Rightarrow> string list multiset \<Rightarrow> bool" where
  "tallies p M \<longleftrightarrow> names_ok p \<and> pf_total p = size M \<and> (\<forall>q \<in># M. q \<noteq> [] \<and> set q \<subseteq> set (pf_names p))
     \<and> (\<forall>i < length (pf_names p). pf_flat_self p ! i = self_count M (pf_names p ! i)
          \<and> pf_flat_total p ! i = total_count M (pf_names p ! i))
     \<and> (\<forall>ids. (case pf_paths p ids of None \<Rightarrow> 0 | Some k \<Rightarrow> k)
          = (if ids_ok p ids then count M (path_names p ids) else 0))"

text \<open>The cache of addresses is right as long as no collection has run.\<close>

definition cached :: "vm \<Rightarrow> profiler \<Rightarrow> bool" where
  "cached vm p \<longleftrightarrow> (pf_cache_epoch p = gc_epoch vm \<longrightarrow>
     (\<forall>a i. pf_addr_cache p a = Some i \<longrightarrow>
        unat i < length (pf_names p) \<and> pf_names p ! unat i = method_name vm (from_ptr a)))"

subsection \<open>Interning\<close>

lemma counts_new_name:
  assumes "\<forall>q \<in># M. q \<noteq> [] \<and> set q \<subseteq> A" and "n \<notin> A"
  shows "self_count M n = 0" and "total_count M n = 0"
proof -
  have "last q \<noteq> n \<and> n \<notin> set q" if "q \<in># M" for q 
  proof -
    have "q \<noteq> []" "set q \<subseteq> A" using assms(1) that by auto
    then show ?thesis using last_in_set [of q] assms(2) by blast
  qed
  then have "{#q \<in># M. last q = n#} = {#}" "{#q \<in># M. n \<in> set q#} = {#}"
    by auto
  then show "self_count M n = 0" and "total_count M n = 0" by (simp_all add: self_count_def total_count_def)
qed

lemma count_new_name:
  assumes "\<forall>q \<in># M. q \<noteq> [] \<and> set q \<subseteq> A" and "\<not> set q \<subseteq> A"
  shows "count M q = 0"
  using assms by (meson not_in_iff)

lemma intern_name_known:
  assumes "names_ok p" and "pf_name_ids p s = Some i"
  shows "intern_name s p = (i, p)" and "unat i < length (pf_names p)" and "pf_names p ! unat i = s"
  by (simp add: intern_name_def assms(2)) (use assms in \<open>auto simp: names_ok_def\<close>)

definition with_name :: "string \<Rightarrow> profiler \<Rightarrow> profiler" where
  "with_name s p = p\<lparr>pf_name_ids := (pf_name_ids p)(s \<mapsto> of_nat (length (pf_names p))), pf_names := pf_names p @ [s],
     pf_flat_self := pf_flat_self p @ [0], pf_flat_total := pf_flat_total p @ [0]\<rparr>"

lemma with_name_ok:
  assumes n: "names_ok p" and s: "pf_name_ids p s = None" and l: "length (pf_names p) < 2 ^ 32"
  shows "names_ok (with_name s p)" and "s \<notin> set (pf_names p)" and "unat (of_nat (length (pf_names p)) :: u32) = length (pf_names p)"
proof -
  show u: "unat (of_nat (length (pf_names p)) :: u32) = length (pf_names p)"
    using l by (simp add: unat_of_nat take_bit_nat_eq_self)
  show new: "s \<notin> set (pf_names p)"
  proof
    assume "s \<in> set (pf_names p)"
    then obtain i where i: "i < length (pf_names p)" "pf_names p ! i = s" by (auto simp: in_set_conv_nth)
    then have "unat (of_nat i :: u32) = i" using l by (simp add: unat_of_nat take_bit_nat_eq_self)
    then have "pf_name_ids p s = Some (of_nat i)" using n i by (simp add: names_ok_def)
    then show False using s by simp
  qed
  have "pf_name_ids (with_name s p) t = Some i \<longleftrightarrow>
      unat i < length (pf_names (with_name s p)) \<and> pf_names (with_name s p) ! unat i = t" for t i
  proof (cases "unat i = length (pf_names p)")
    case True
    then have "i = of_nat (length (pf_names p))" using u by (simp add: word_unat_eq_iff)
    then show ?thesis using n True by (auto simp: with_name_def names_ok_def u)
  next
    case False
    have "i \<noteq> of_nat (length (pf_names p))" using False u by auto
    then show ?thesis using n False new by (auto simp: with_name_def names_ok_def nth_append less_Suc_eq dest: nth_mem)
  qed
  then show "names_ok (with_name s p)" using n new l by (simp add: names_ok_def with_name_def)
qed

lemma with_name_tallies:
  assumes t: "tallies p M" and s: "pf_name_ids p s = None" and l: "length (pf_names p) < 2 ^ 32"
  shows "tallies (with_name s p) M"
proof -
  have n: "names_ok p" and q: "\<forall>q \<in># M. q \<noteq> [] \<and> set q \<subseteq> set (pf_names p)" using t by (simp_all add: tallies_def)
  note w = with_name_ok [OF n s l]
  let ?p = "with_name s p"
  have nm: "pf_names ?p = pf_names p @ [s]" by (simp add: with_name_def)
  have c0: "count M (path_names ?p ids) = (if ids_ok p ids then count M (path_names p ids) else 0)"
    if o: "ids_ok ?p ids" for ids
  proof (cases "ids_ok p ids")
    case True
    then have "path_names ?p ids = path_names p ids" by (simp add: path_names_def nm nth_append ids_ok_def)
    with True show ?thesis by simp
  next
    case False
    then obtain i where "i \<in> set ids" "\<not> unat i < length (pf_names p)" by (auto simp: ids_ok_def)
    moreover have "unat i < length (pf_names p) + 1" using o calculation by (auto simp: ids_ok_def nm)
    ultimately have "s \<in> set (path_names ?p ids)" by (force simp: path_names_def nm nth_append)
    then have "count M (path_names ?p ids) = 0" using count_new_name [OF q] w(2) by blast
    with False show ?thesis by simp
  qed
  have "ids_ok p ids \<Longrightarrow> ids_ok ?p ids" for ids by (auto simp: ids_ok_def nm)
  with c0 t have pa: "(case pf_paths ?p ids of None \<Rightarrow> 0 | Some k \<Rightarrow> k)
      = (if ids_ok ?p ids then count M (path_names ?p ids) else 0)" for ids
    by (auto simp: tallies_def with_name_def)
  have fl: "pf_flat_self ?p ! i = self_count M (pf_names ?p ! i) \<and> pf_flat_total ?p ! i = total_count M (pf_names ?p ! i)"
    if "i < length (pf_names ?p)" for i
    using that t n counts_new_name [OF q w(2)]
    by (cases "i < length (pf_names p)") (auto simp: tallies_def with_name_def nth_append names_ok_def less_Suc_eq)
  show ?thesis using w(1) t pa fl q by (auto simp: tallies_def) (auto simp: with_name_def)
qed

text \<open>One step of naming: the store stands for the same samples, and at most n names are new.\<close>

definition named :: "vm \<Rightarrow> nat \<Rightarrow> profiler \<Rightarrow> profiler \<Rightarrow> bool" where
  "named vm n p q \<longleftrightarrow> (\<forall>M. tallies p M \<longrightarrow> tallies q M) \<and> (names_ok p \<longrightarrow> names_ok q) \<and> (cached vm p \<longrightarrow> cached vm q)
     \<and> (\<exists>ext. pf_names q = pf_names p @ ext \<and> length ext \<le> n)"

lemma named_refl: "named vm n p p"
  by (simp add: named_def)

lemma named_trans: "named vm n p q \<Longrightarrow> named vm k q r \<Longrightarrow> named vm (n + k) p r"
  by (fastforce simp: named_def)

lemma named_id: "named vm n p q \<Longrightarrow> unat i < length (pf_names p) \<Longrightarrow>
    unat i < length (pf_names q) \<and> pf_names q ! unat i = pf_names p ! unat i"
  by (auto simp: named_def nth_append)

lemma named_room: "named vm n p q \<Longrightarrow> length (pf_names p) + n + k \<le> m \<Longrightarrow> length (pf_names q) + k \<le> m"
  by (auto simp: named_def)

lemma intern_named:
  assumes n: "names_ok p" and l: "length (pf_names p) + 1 \<le> 2 ^ 32" and i: "intern_name s p = (i, q)"
  shows "named vm 1 p q" and "unat i < length (pf_names q)" and "pf_names q ! unat i = s"
proof -
  have "named vm 1 p q \<and> unat i < length (pf_names q) \<and> pf_names q ! unat i = s"
  proof (cases "pf_name_ids p s")
    case None
    have l': "length (pf_names p) < 2 ^ 32" using l by simp
    note w = with_name_ok [OF n None l']
    have iq: "i = of_nat (length (pf_names p))" "q = with_name s p"
      using i None by (auto simp: intern_name_def with_name_def Let_def)
    have nm: "pf_names q = pf_names p @ [s]" by (simp add: iq with_name_def)
    have "cached vm p \<Longrightarrow> cached vm q" by (fastforce simp: cached_def iq(2) with_name_def nth_append)
    moreover have "tallies q M" if "tallies p M" for M unfolding iq(2) by (rule with_name_tallies [OF that None l'])
    ultimately have "named vm 1 p q" using w(1) by (simp add: named_def nm) (simp add: iq(2))
    then show ?thesis using w(3) by (simp add: nm) (simp add: iq(1))
  next
    case (Some j)
    with intern_name_known [OF n Some] i show ?thesis by (auto simp: named_refl)
  qed
  then show "named vm 1 p q" and "unat i < length (pf_names q)" and "pf_names q ! unat i = s" by auto
qed

subsection \<open>The frame chain\<close>

text \<open>The names of the frames from one on, the leaf first, as many as a sample holds.\<close>

fun frame_names :: "nat \<Rightarrow> vm \<Rightarrow> nat \<Rightarrow> nat \<Rightarrow> string list" where
  "frame_names 0 vm stack off = []"
| "frame_names (Suc n) vm stack off =
     method_name vm (vslot vm stack (off + FRAME_METHOD))
       # (case caller_offset (vslot vm stack (off + FRAME_CALLER)) of
            None \<Rightarrow> [] | Some off' \<Rightarrow> frame_names n vm stack off')"

lemma frame_names_unfold:
  "0 < n \<Longrightarrow> frame_names n vm stack off = method_name vm (vslot vm stack (off + FRAME_METHOD))
     # (case caller_offset (vslot vm stack (off + FRAME_CALLER)) of
          None \<Rightarrow> [] | Some off' \<Rightarrow> frame_names (n - 1) vm stack off')"
  by (cases n) (simp_all split: option.split)

lemma frame_names_length: "length (frame_names n vm stack off) \<le> n"
  by (induction n arbitrary: off) (auto split: option.split)

lemma tallies_cache [simp]:
  "tallies (p\<lparr>pf_addr_cache := c\<rparr>) M = tallies p M" "tallies (p\<lparr>pf_cache_epoch := e\<rparr>) M = tallies p M"
  "names_ok (p\<lparr>pf_addr_cache := c\<rparr>) = names_ok p" "names_ok (p\<lparr>pf_cache_epoch := e\<rparr>) = names_ok p"
  by (simp_all add: tallies_def names_ok_def ids_ok_def path_names_def)

lemma sample_id_named:
  assumes n: "names_ok p" and c: "cached vm p" and l: "length (pf_names p) + 1 \<le> 2 ^ 32"
    and i: "method_sample_id vm m p = (i, q)"
  shows "named vm 1 p q \<and> unat i < length (pf_names q) \<and> pf_names q ! unat i = method_name vm m"
proof -
  define p1 where "p1 = (if pf_cache_epoch p \<noteq> gc_epoch vm
    then p\<lparr>pf_addr_cache := Map.empty, pf_cache_epoch := gc_epoch vm\<rparr> else p)"
  have p1: "named vm 0 p p1" "names_ok p1" "cached vm p1" "pf_cache_epoch p1 = gc_epoch vm" "pf_names p1 = pf_names p"
    using n c by (cases "pf_cache_epoch p = gc_epoch vm"; simp add: p1_def named_def cached_def)+
  show ?thesis
  proof (cases "if is_ptr m then pf_addr_cache p1 (as_ptr m) else None")
    case (Some j)
    then have "is_ptr m" "pf_addr_cache p1 (as_ptr m) = Some j" by (auto split: if_splits)
    then have "unat j < length (pf_names p1) \<and> pf_names p1 ! unat j = method_name vm (from_ptr (as_ptr m))"
      using p1(3,4) unfolding cached_def by blast
    moreover have "i = j" "q = p1" using i Some by (auto simp: method_sample_id_def p1_def [symmetric] Let_def)
    moreover have "named vm 1 p p1" using named_trans [OF p1(1) named_refl [of _ 1]] by simp
    ultimately show ?thesis by simp
  next
    case None
    obtain j p2 where j: "intern_name (method_name vm m) p1 = (j, p2)" by fastforce
    then have q: "i = j" "q = (if is_ptr m then p2\<lparr>pf_addr_cache := (pf_addr_cache p2)(as_ptr m \<mapsto> j)\<rparr> else p2)"
      using i None by (auto simp: method_sample_id_def p1_def [symmetric] Let_def)
    have d: "named vm 1 p1 p2" "unat j < length (pf_names p2)" "pf_names p2 ! unat j = method_name vm m"
      using intern_named [OF p1(2) _ j] l p1(5) by simp_all
    have "named vm 0 p2 q"
      using d(2,3) by (auto simp: q(2) named_def cached_def)
    with named_trans [OF p1(1) named_trans [OF d(1)]] d(2,3) show ?thesis by (auto simp: q)
  qed
qed

lemma walk_named:
  assumes "names_ok p" and "cached vm p" and "length (pf_names p) + n \<le> 2 ^ 32"
    and "walk_frames n vm stack off p = (ids, q)"
  shows "named vm n p q \<and> ids_ok q ids \<and> path_names q ids = frame_names n vm stack off"
  using assms
proof (induction n arbitrary: off p ids)
  case 0
  then show ?case by (simp add: named_refl ids_ok_def path_names_def)
next
  case (Suc n)
  obtain i p1 where i: "method_sample_id vm (vslot vm stack (off + FRAME_METHOD)) p = (i, p1)" by fastforce
  have d: "named vm 1 p p1" "unat i < length (pf_names p1)"
    "pf_names p1 ! unat i = method_name vm (vslot vm stack (off + FRAME_METHOD))"
    using sample_id_named [OF Suc.prems(1,2) _ i] Suc.prems(3) by simp_all
  show ?case
  proof (cases "caller_offset (vslot vm stack (off + FRAME_CALLER))")
    case None
    then have "ids = [i]" "q = p1" using Suc.prems(4) i by simp_all
    with d named_trans [OF d(1) named_refl] None show ?thesis by (auto simp: ids_ok_def path_names_def named_def)
  next
    case (Some off')
    obtain js where js: "walk_frames n vm stack off' p1 = (js, q)" "ids = i # js"
      using Suc.prems(4) i Some by (auto split: prod.splits)
    have "length (pf_names p1) + n \<le> 2 ^ 32" using named_room [OF d(1), of n "2 ^ 32"] Suc.prems(3) by simp
    moreover have "names_ok p1" "cached vm p1" using d(1) Suc.prems(1,2) by (simp_all add: named_def)
    ultimately have w: "named vm n p1 q \<and> ids_ok q js \<and> path_names q js = frame_names n vm stack off'"
      by (intro Suc.IH js(1)) simp_all
    then have "unat i < length (pf_names q) \<and> pf_names q ! unat i = pf_names p1 ! unat i"
      using named_id d(2) by blast
    then show ?thesis using w d(3) Some named_trans [OF d(1), of n q] by (simp add: js(2) ids_ok_def path_names_def)
  qed
qed

subsection \<open>Recording\<close>

lemma bump_all_counts:
  assumes "distinct ids" and "\<forall>i \<in> set ids. unat i < length xs"
  shows "\<exists>ys. bump_all ids xs = Ok ys \<and> length ys = length xs
    \<and> (\<forall>k < length xs. ys ! k = xs ! k + of_bool (k \<in> unat ` set ids))"
  using assms
proof (induction ids arbitrary: xs)
  case (Cons i ids)
  let ?xs = "xs[unat i := xs ! unat i + 1]"
  obtain ys where ys: "bump_all ids ?xs = Ok ys" "length ys = length xs"
    "\<forall>k < length xs. ys ! k = ?xs ! k + of_bool (k \<in> unat ` set ids)"
    using Cons.IH [of ?xs] Cons.prems by auto
  have "unat i \<notin> unat ` set ids" using Cons.prems(1) by (auto simp: word_unat_eq_iff [symmetric])
  then show ?case using ys Cons.prems(2) by (intro exI [of _ ys]) (auto simp: bump_def nth_list_update)
qed simp

lemma nth_in_path:
  assumes "names_ok p" and "ids_ok p ids" and "k < length (pf_names p)"
  shows "k \<in> unat ` set ids \<longleftrightarrow> pf_names p ! k \<in> set (path_names p ids)"
  using assms nth_eq_iff_index_eq [of "pf_names p"] by (force simp: names_ok_def ids_ok_def path_names_def)

lemma path_names_inject:
  assumes "names_ok p" and "ids_ok p is" and "ids_ok p js" and "path_names p is = path_names p js"
  shows "is = js"
proof (rule nth_equalityI)
  show l: "length is = length js" using arg_cong [OF assms(4), of length] by (simp add: path_names_def)
  fix k assume k: "k < length is"
  then have "pf_names p ! unat (is ! k) = pf_names p ! unat (js ! k)"
    using arg_cong [OF assms(4), of "\<lambda>xs. xs ! k"] l by (simp add: path_names_def)
  then show "is ! k = js ! k"
    using assms(1-3) k l by (simp add: names_ok_def ids_ok_def nth_eq_iff_index_eq word_unat_eq_iff)
qed

lemma self_count_add: "self_count (add_mset q M) n = self_count M n + of_bool (last q = n)"
  by (simp add: self_count_def)

lemma total_count_add: "total_count (add_mset q M) n = total_count M n + of_bool (n \<in> set q)"
  by (simp add: total_count_def)

lemma record_tallies:
  assumes t: "tallies p M" and i: "ids_ok p ids" and ne: "ids \<noteq> []"
  shows "\<exists>q. record_sample ids p = Ok q \<and> tallies q (add_mset (rev (path_names p ids)) M) \<and> pf_names q = pf_names p
    \<and> pf_addr_cache q = pf_addr_cache p \<and> pf_cache_epoch q = pf_cache_epoch p"
proof -
  obtain leaf rest where ids: "ids = leaf # rest" using ne by (cases ids) auto
  have n: "names_ok p" using t by (simp add: tallies_def)
  then have ln: "length (pf_flat_self p) = length (pf_names p)" "length (pf_flat_total p) = length (pf_names p)"
    by (simp_all add: names_ok_def)
  have lf: "unat leaf < length (pf_names p)" using i by (simp add: ids ids_ok_def)
  obtain ft where ft: "bump_all (remdups (sort ids)) (pf_flat_total p) = Ok ft" "length ft = length (pf_names p)"
    "\<forall>k < length (pf_names p). ft ! k = pf_flat_total p ! k + of_bool (k \<in> unat ` set ids)"
    using bump_all_counts [of "remdups (sort ids)" "pf_flat_total p"] i ln by (auto simp: ids_ok_def)
  let ?fs = "(pf_flat_self p)[unat leaf := pf_flat_self p ! unat leaf + 1]"
  let ?q = "p\<lparr>pf_total := pf_total p + 1, pf_flat_self := ?fs, pf_flat_total := ft,
      pf_paths := add_path (rev ids) (pf_paths p)\<rparr>"
  let ?path = "rev (path_names p ids)"
  have r: "record_sample ids p = Ok ?q" using ft(1) lf ln by (simp add: record_sample_def ids bump_def)
  have nq: "names_ok ?q" using n ft(2) by (simp add: names_ok_def)
  have sq: "ids_ok ?q = ids_ok p" "path_names ?q = path_names p" by (simp_all add: ids_ok_def path_names_def fun_eq_iff)
  have lp: "last ?path = pf_names p ! unat leaf" by (simp add: ids path_names_def)
  have "?fs ! k = self_count (add_mset ?path M) (pf_names p ! k)" if "k < length (pf_names p)" for k
    using t that lf ln n by (auto simp: tallies_def self_count_add lp nth_list_update names_ok_def nth_eq_iff_index_eq)
  moreover have "ft ! k = total_count (add_mset ?path M) (pf_names p ! k)" if "k < length (pf_names p)" for k
    using t that ft(3) nth_in_path [OF n i that] by (simp add: tallies_def total_count_add)
  moreover have "(case add_path (rev ids) (pf_paths p) js of None \<Rightarrow> 0 | Some k \<Rightarrow> k)
      = (if ids_ok p js then count (add_mset ?path M) (path_names p js) else 0)" for js
  proof (cases "js = rev ids")
    case True
    have "ids_ok p (rev ids)" "path_names p (rev ids) = ?path" using i by (simp_all add: ids_ok_def path_names_def rev_map)
    then show ?thesis using t True by (auto simp: tallies_def add_path_def)
  next
    case False
    have "path_names p js \<noteq> ?path" if "ids_ok p js"
      using path_names_inject [OF n that, of "rev ids"] False i by (auto simp: ids_ok_def path_names_def rev_map)
    then show ?thesis using t False by (auto simp: tallies_def add_path_def)
  qed
  moreover have "set ?path \<subseteq> set (pf_names p)" "?path \<noteq> []" using i ne by (auto simp: path_names_def ids_ok_def)
  ultimately have "tallies ?q (add_mset ?path M)"
    using t nq unfolding tallies_def sq by simp
  with r show ?thesis by auto
qed

subsection \<open>A sample, and the report\<close>

lemma take_sample_names:
  assumes t: "tallies p M" and c: "cached vm p" and l: "length (pf_names p) + 65 \<le> 2 ^ 32"
  shows "\<exists>q. take_sample vm stack frame pseudo p = Ok q \<and> cached vm q
    \<and> tallies q (add_mset (rev ((case pseudo of None \<Rightarrow> [] | Some s \<Rightarrow> [s]) @ frame_names MAX_SAMPLE_DEPTH vm stack frame)) M)"
proof -
  have n: "names_ok p" using t by (simp add: tallies_def)
  define tp where "tp = (case pseudo of None \<Rightarrow> ([], p) | Some s \<Rightarrow> let (i, q) = intern_name s p in ([i], q))"
  obtain top p1 where tp': "tp = (top, p1)" by fastforce
  have d: "named vm 1 p p1 \<and> ids_ok p1 top \<and> path_names p1 top = (case pseudo of None \<Rightarrow> [] | Some s \<Rightarrow> [s])"
  proof (cases pseudo)
    case None
    then show ?thesis using tp' by (auto simp: tp_def named_refl ids_ok_def path_names_def)
  next
    case (Some s)
    obtain i q where i: "intern_name s p = (i, q)" by fastforce
    then have "top = [i]" "p1 = q" using tp' Some by (simp_all add: tp_def)
    with intern_named [OF n _ i] l Some show ?thesis by (auto simp: ids_ok_def path_names_def)
  qed
  obtain js p2 where js: "walk_frames 64 vm stack frame p1 = (js, p2)" by fastforce
  have "names_ok p1" "cached vm p1" using d n c by (auto simp: named_def)
  moreover have "length (pf_names p1) + 64 \<le> 2 ^ 32" using d named_room [of vm 1 p p1 64 "2 ^ 32"] l by simp
  ultimately have w: "named vm 64 p1 p2 \<and> ids_ok p2 js \<and> path_names p2 js = frame_names 64 vm stack frame"
    using js by (intro walk_named) simp_all
  have "tallies p2 M" "cached vm p2" using d w t c by (auto simp: named_def)
  moreover have k: "unat i < length (pf_names p2) \<and> pf_names p2 ! unat i = pf_names p1 ! unat i" if "i \<in> set top" for i
    using named_id [of vm 64 p1 p2 i] d w that by (simp add: ids_ok_def)
  moreover have "ids_ok p2 (top @ js)" using k w by (auto simp: ids_ok_def)
  moreover have "path_names p2 (top @ js) = (case pseudo of None \<Rightarrow> [] | Some s \<Rightarrow> [s]) @ frame_names 64 vm stack frame"
  proof -
    have "path_names p2 top = path_names p1 top" using k by (simp add: path_names_def)
    moreover have "path_names p2 (top @ js) = path_names p2 top @ path_names p2 js" by (simp add: path_names_def)
    ultimately show ?thesis using d w by simp
  qed
  moreover have "top @ js \<noteq> []"
    using w frame_names_unfold [of 64 vm stack frame] by (auto simp: path_names_def)
  ultimately obtain q where "record_sample (top @ js) p2 = Ok q" "pf_names q = pf_names p2"
    "pf_addr_cache q = pf_addr_cache p2" "pf_cache_epoch q = pf_cache_epoch p2"
    "tallies q (add_mset (rev ((case pseudo of None \<Rightarrow> [] | Some s \<Rightarrow> [s]) @ frame_names 64 vm stack frame)) M)"
    using record_tallies [of p2 M "top @ js"] by auto
  moreover from this have "cached vm q" using \<open>cached vm p2\<close> by (simp add: cached_def)
  ultimately show ?thesis using tp' js by (simp add: take_sample_def tp_def [symmetric])
qed

text \<open>C21. A sample is the frame chain.
  Let the store of the profiler stand for the samples M and its cache of addresses be right for the
  machine. Then taking a sample does not panic, and the store stands for M and one sample more: the
  pseudo leaf, if there is one, above the names of the frames from the current one to its callers, 64
  of them at most. Which names were interned and which addresses cached makes no difference.\<close>

theorem sample_is_frame_chain:
  assumes "tallies p M" and "cached vm p" and "length (pf_names p) + 65 \<le> 2 ^ 32"
  shows "\<exists>q path. take_sample vm stack frame pseudo p = Ok q \<and> tallies q (add_mset (rev path) M) \<and> cached vm q
    \<and> path = (case pseudo of None \<Rightarrow> [] | Some s \<Rightarrow> [s]) @ frame_names MAX_SAMPLE_DEPTH vm stack frame
    \<and> length path \<le> MAX_SAMPLE_DEPTH + 1"
  using take_sample_names [OF assms, of stack frame pseudo] frame_names_length [of 64 vm stack frame]
  by (auto split: option.split)

lemma default_tallies: "tallies default_profiler {#}" "cached vm default_profiler"
  by (simp_all add: tallies_def cached_def default_profiler_def names_ok_def)

text \<open>A stack of zeros: one frame without a method.\<close>

lemma zero_stack_names: "frame_names 64 (bare_literal small_heap 4096) 8 2 = [''<invalid-frame>'']"
proof -
  have "header (vm_heap (bare_literal small_heap 4096)) (as_ptr 0) = 0"
    by (simp add: header_def bare_literal_def small_heap_def new_heap_def heap_word_def)
  then have n: "method_name (bare_literal small_heap 4096) 0 = ''<invalid-frame>''"
    using method_display_name.simps(2) [of 4 "bare_literal small_heap 4096" 0] by (simp add: hdr_class_index_def)
  have v: "vslot (bare_literal small_heap 4096) 8 i = 0" for i
    by (simp add: vslot_def slot_def bare_literal_def small_heap_def new_heap_def heap_word_def)
  show ?thesis by (subst frame_names_unfold) (simp_all add: v caller_offset_def is_int_def n)
qed

lemma sample_is_frame_chain_witness:
  "\<exists>q. take_sample (bare_literal small_heap 4096) 8 2 (Some ''<vm:scavenge>'') default_profiler = Ok q
     \<and> tallies q {#[''<invalid-frame>'', ''<vm:scavenge>'']#}"
  using sample_is_frame_chain [OF default_tallies, of "bare_literal small_heap 4096" 8 2 "Some ''<vm:scavenge>''"]
    zero_stack_names
  by (auto simp: default_profiler_def)

lemma one_sample: "\<exists>p. tallies p {#[''<invalid-frame>'', ''<vm:scavenge>'']#}"
  using take_sample_names [OF default_tallies, of "bare_literal small_heap 4096" 8 2 "Some ''<vm:scavenge>''"]
    zero_stack_names
  by (auto simp: default_profiler_def)

subsection \<open>The report\<close>

lemma self_le_total: "[] \<notin># M \<Longrightarrow> self_count M n \<le> total_count M n"
proof (induction M)
  case (add q M)
  then show ?case using last_in_set [of q] by (auto simp: self_count_add total_count_add)
qed (simp add: self_count_def)

lemma total_pos: "total_count M n \<noteq> 0 \<longleftrightarrow> (\<exists>q \<in># M. n \<in> set q)"
  by (auto simp: total_count_def)

lemma sum_self_count: "finite A \<Longrightarrow> \<forall>q \<in># M. last q \<in> A \<Longrightarrow> (\<Sum>n \<in> A. self_count M n) = size M"
proof (induction M)
  case empty
  then show ?case by (simp add: self_count_def)
next
  case (add q M)
  have "(\<Sum>n \<in> A. of_bool (last q = n)) = (1 :: nat)"
    using add.prems by (simp add: of_bool_def sum.delta)
  then show ?case using add by (simp add: self_count_add sum.distrib)
qed

lemma map_enumerate: "map (\<lambda>(i, n). f n) (enumerate k xs) = map f xs"
  by (induction xs arbitrary: k) auto

definition row_of :: "string list multiset \<Rightarrow> string \<Rightarrow> string \<times> nat \<times> nat" where
  "row_of M n = (n, self_count M n, total_count M n)"

definition seen :: "string list multiset \<Rightarrow> string \<Rightarrow> bool" where
  "seen M n \<longleftrightarrow> (\<exists>q \<in># M. n \<in> set q)"

text \<open>Before it is sorted the report has the rows of the names seen, in the order of interning.\<close>

lemma report_rows:
  assumes t: "tallies p M"
  shows "profiler_report_rows p
    = sort_key (\<lambda>(n, s, t). (- int s, - int t, n)) (map (row_of M) (filter (seen M) (pf_names p)))"
proof -
  have e: "[] \<notin># M" using t by (auto simp: tallies_def)
  have f: "pf_flat_self p ! i = self_count M n \<and> pf_flat_total p ! i = total_count M n"
    if "(i, n) \<in> set (enumerate 0 (pf_names p))" for i n
    using that t by (auto simp: in_set_enumerate_eq tallies_def)
  have g: "(pf_flat_self p ! i \<noteq> 0 \<or> pf_flat_total p ! i \<noteq> 0) = seen M n"
    if "(i, n) \<in> set (enumerate 0 (pf_names p))" for i n
    using f [OF that] self_le_total [OF e, of n] total_pos [of M n] by (auto simp: seen_def)
  have a: "filter (\<lambda>(i, n). pf_flat_self p ! i \<noteq> 0 \<or> pf_flat_total p ! i \<noteq> 0) (enumerate 0 (pf_names p))
      = filter (\<lambda>(i, n). seen M n) (enumerate 0 (pf_names p))"
  proof (rule filter_cong [OF refl])
    fix x assume "x \<in> set (enumerate 0 (pf_names p))"
    then show "(case x of (i, n) \<Rightarrow> pf_flat_self p ! i \<noteq> 0 \<or> pf_flat_total p ! i \<noteq> 0) = (case x of (i, n) \<Rightarrow> seen M n)"
      using g [of "fst x" "snd x"] by (simp add: case_prod_beta)
  qed
  have b: "map (\<lambda>(i, n). (n, pf_flat_self p ! i, pf_flat_total p ! i)) (filter (\<lambda>(i, n). seen M n) (enumerate 0 (pf_names p)))
      = map (\<lambda>(i, n). row_of M n) (filter (\<lambda>(i, n). seen M n) (enumerate 0 (pf_names p)))"
    using f by (intro map_cong) (auto simp: row_of_def)
  have c: "map (\<lambda>(i, n). g n) (filter (\<lambda>(i, n). P n) (enumerate k xs)) = map g (filter P xs)" for g P k and xs :: "string list"
    by (induction xs arbitrary: k) auto
  show ?thesis unfolding profiler_report_rows_def a b c ..
qed

text \<open>C22. The report lists the counts of the samples.
  If the store stands for the samples M, the report has one row for each name that occurs in a sample
  and no other, with the number of samples whose leaf it is and the number of samples it occurs in,
  in descending order of both and then by name. The leaf counts add up to the number of samples.\<close>

theorem report_lists_counts:
  assumes t: "tallies p M"
  defines "rows \<equiv> profiler_report_rows p"
  shows "set rows = {(n, size {#q \<in># M. last q = n#}, size {#q \<in># M. n \<in> set q#}) | n. \<exists>q. q \<in># M \<and> n \<in> set q}
    \<and> distinct (map fst rows) \<and> sorted (map (\<lambda>(n, s, t). (- int s, - int t, n)) rows)
    \<and> sum_list (map (\<lambda>(n, s, t). s) rows) = size M"
proof (intro conjI)
  have e: "[] \<notin># M" and sub: "\<forall>q \<in># M. q \<noteq> [] \<and> set q \<subseteq> set (pf_names p)" and d: "distinct (pf_names p)"
    using t by (auto simp: tallies_def names_ok_def)
  have "{n \<in> set (pf_names p). seen M n} = {n. seen M n}" using sub by (auto simp: seen_def)
  then have "set rows = row_of M ` {n. seen M n}" unfolding rows_def report_rows [OF t] by simp
  then show "set rows = {(n, size {#q \<in># M. last q = n#}, size {#q \<in># M. n \<in> set q#}) | n. \<exists>q. q \<in># M \<and> n \<in> set q}"
    by (auto simp: row_of_def self_count_def total_count_def seen_def)
  have m: "mset (map fst rows) = mset (filter (seen M) (pf_names p))"
    unfolding rows_def report_rows [OF t] by (simp add: image_mset.compositionality comp_def row_of_def)
  show "distinct (map fst rows)" using d mset_eq_imp_distinct_iff [OF m] by simp
  show "sorted (map (\<lambda>(n, s, t). (- int s, - int t, n)) rows)"
    unfolding rows_def report_rows [OF t] by (rule sorted_sort_key)
  have "mset (map (\<lambda>(n, s, t). s) rows) = mset (map (self_count M) (filter (seen M) (pf_names p)))"
    unfolding rows_def report_rows [OF t] by (simp add: image_mset.compositionality comp_def row_of_def)
  then have "sum_list (map (\<lambda>(n, s, t). s) rows) = sum_list (map (self_count M) (filter (seen M) (pf_names p)))"
    by (metis sum_mset_sum_list)
  also have "\<dots> = sum_list (map (self_count M) (pf_names p))"
    using self_le_total [OF e] total_pos [of M] by (intro sum_list_map_filter) (metis le_zero_eq seen_def)
  also have "\<dots> = (\<Sum>n \<in> set (pf_names p). self_count M n)" by (simp add: d sum_list_distinct_conv_sum_set)
  also have "\<dots> = size M" using sub by (intro sum_self_count) (auto intro: last_in_set)
  finally show "sum_list (map (\<lambda>(n, s, t). s) rows) = size M" .
qed

lemma report_lists_counts_witness:
  "\<exists>p. set (profiler_report_rows p) = {(''<vm:scavenge>'', 1, 1), (''<invalid-frame>'', 0, 1)}
     \<and> sum_list (map (\<lambda>(n, s, t). s) (profiler_report_rows p)) = 1"
proof -
  let ?M = "{#[''<invalid-frame>'', ''<vm:scavenge>'']#}"
  obtain p where "tallies p ?M" using one_sample by blast
  note r = report_lists_counts [OF this]
  have "{(n, size {#q \<in># ?M. last q = n#}, size {#q \<in># ?M. n \<in> set q#}) | n. \<exists>q. q \<in># ?M \<and> n \<in> set q}
      = {(''<vm:scavenge>'', 1, 1), (''<invalid-frame>'', 0, 1)}"
    by auto
  then show ?thesis using r by auto
qed

subsection \<open>The timer thread\<close>

text \<open>What the machine and the timer thread do to the profiler, in any order.\<close>

inductive prof_step :: "profiler \<times> safepoint_shared \<Rightarrow> profiler \<times> safepoint_shared \<Rightarrow> bool" where
  tick: "prof_step st (timer_tick st)"
| start: "prof_step st (profiler_start ms st)"
| stop: "prof_step st (profiler_stop st)"
| force: "prof_step st (force_sample_at_next_poll st)"
| due: "sample_due_here p f = (b, f') \<Longrightarrow> prof_step (p, f) (p, f')"
| safepoint: "sample_safepoint vm rg p f = Ok (q, f') \<Longrightarrow> prof_step (p, f) (q, f')"

lemma sample_keeps_switch:
  "record_sample ids p = Ok q \<Longrightarrow> pf_active q = pf_active p \<and> pf_timer q = pf_timer p"
  by (auto simp: record_sample_def)

lemma intern_keeps_switch:
  "intern_name s p = (i, q) \<Longrightarrow> pf_active q = pf_active p \<and> pf_timer q = pf_timer p"
  by (auto simp: intern_name_def Let_def split: option.splits)

lemma id_keeps_switch:
  "method_sample_id vm m p = (i, q) \<Longrightarrow> pf_active q = pf_active p \<and> pf_timer q = pf_timer p"
  by (auto simp: method_sample_id_def Let_def split: option.splits if_splits prod.splits dest!: intern_keeps_switch)

lemma walk_keeps_switch:
  "walk_frames n vm stack off p = (ids, q) \<Longrightarrow> pf_active q = pf_active p \<and> pf_timer q = pf_timer p"
  by (induction n arbitrary: off p ids)
     (auto split: option.splits prod.splits dest!: id_keeps_switch)

lemma take_keeps_switch:
  "take_sample vm stack frame pseudo p = Ok q \<Longrightarrow> pf_active q = pf_active p \<and> pf_timer q = pf_timer p"
  by (auto simp: take_sample_def split: option.splits prod.splits
      dest!: sample_keeps_switch walk_keeps_switch intern_keeps_switch)

text \<open>A pending sample or a running timer means that the profiler is on, whatever has happened.\<close>

lemma pending_means_active:
  assumes "prof_step\<^sup>*\<^sup>* (default_profiler, new_safepoint_shared) (p, f)"
  shows "sp_sample_due f \<or> pf_timer p \<longrightarrow> pf_active p"
  using assms
proof (induction "(p, f)" arbitrary: p f rule: rtranclp_induct)
  case base
  then show ?case by (simp add: default_profiler_def new_safepoint_shared_def)
next
  case (step st)
  obtain p0 f0 where st: "st = (p0, f0)" by (cases st)
  have "sp_sample_due f0 \<or> pf_timer p0 \<longrightarrow> pf_active p0" using step(3) [OF st] .
  with step(2) show ?case unfolding st
    by cases (auto simp: timer_tick_def profiler_start_def profiler_stop_def force_sample_at_next_poll_def
        sample_due_here_def sample_safepoint_def Let_def reset_store_def split: if_splits dest!: take_keeps_switch)
qed

end
