(* ===== verification/Soft_Float.thy ===== *)
theory Soft_Float
  imports Vm_Counters Complex_Main
begin

section \<open>Double precision numbers\<close>

text \<open>
  The f64 of Rust as its 64 bits: sign, biased exponent and fraction, and the operations that
  src/prims.rs uses. An exact result is a natural number times a power of two, with a flag for a
  remainder below it, and is rounded to the nearest double, to the even one in the middle. The bits of
  a NaN that an operation makes are not specified by the language; here it is the quiet NaN.
\<close>

type_synonym f64 = u64

definition f_sign :: "f64 \<Rightarrow> bool" where
  "f_sign w \<longleftrightarrow> 2 ^ 63 \<le> unat w"

definition f_mag :: "f64 \<Rightarrow> nat" where
  "f_mag w = unat w mod 2 ^ 63"

definition f_biased :: "f64 \<Rightarrow> nat" where
  "f_biased w = f_mag w div 2 ^ 52"

definition f_frac :: "f64 \<Rightarrow> nat" where
  "f_frac w = f_mag w mod 2 ^ 52"

definition f_finite :: "f64 \<Rightarrow> bool" where
  "f_finite w \<longleftrightarrow> f_biased w < 2047"

definition f_nan :: "f64 \<Rightarrow> bool" where
  "f_nan w \<longleftrightarrow> f_biased w = 2047 \<and> f_frac w \<noteq> 0"

definition f_zero :: "f64 \<Rightarrow> bool" where
  "f_zero w \<longleftrightarrow> f_mag w = 0"

definition f_mant :: "f64 \<Rightarrow> nat" where
  "f_mant w = (if f_biased w = 0 then f_frac w else 2 ^ 52 + f_frac w)"

definition f_exp :: "f64 \<Rightarrow> int" where
  "f_exp w = int (max 1 (f_biased w)) - 1075"

definition f_signed :: "f64 \<Rightarrow> int" where
  "f_signed w = (if f_sign w then - int (f_mant w) else int (f_mant w))"

definition f_make :: "bool \<Rightarrow> nat \<Rightarrow> f64" where
  "f_make s m = of_nat (m + (if s then 2 ^ 63 else 0))"

definition f_inf :: "bool \<Rightarrow> f64" where
  "f_inf s = f_make s (2047 * 2 ^ 52)"

definition f_quiet :: f64 where
  "f_quiet = f_make False (2047 * 2 ^ 52 + 2 ^ 51)"

definition f_neg :: "f64 \<Rightarrow> f64" where
  "f_neg w = f_make (\<not> f_sign w) (f_mag w)"

subsection \<open>Rounding\<close>

definition round_div :: "nat \<Rightarrow> nat \<Rightarrow> bool \<Rightarrow> nat" where
  "round_div n d sticky =
     (let q = n div 2 ^ d; r = n mod 2 ^ d
      in if 2 ^ d < 2 * r \<or> 2 * r = 2 ^ d \<and> (sticky \<or> odd q) then q + 1 else q)"

definition round_exp :: "nat \<Rightarrow> int \<Rightarrow> int" where
  "round_exp n e = max (e + int (bit_len n) - 53) (- 1074)"

definition round_pack :: "bool \<Rightarrow> nat \<Rightarrow> int \<Rightarrow> bool \<Rightarrow> f64" where
  "round_pack s n e sticky =
     (if n = 0 then f_make s 0
      else let q = round_exp n e;
               m = (if e \<le> q then round_div n (nat (q - e)) sticky else n * 2 ^ nat (e - q));
               p = nat (q + 1074) * 2 ^ 52 + m
           in if 2047 * 2 ^ 52 \<le> p then f_inf s else f_make s p)"

subsection \<open>Arithmetic\<close>

definition f_of_int :: "int \<Rightarrow> f64" where
  "f_of_int n = round_pack (n < 0) (nat \<bar>n\<bar>) 0 False"

definition f_add :: "f64 \<Rightarrow> f64 \<Rightarrow> f64" where
  "f_add x y =
     (if f_nan x \<or> f_nan y then f_quiet
      else if \<not> f_finite x then (if \<not> f_finite y \<and> f_sign x \<noteq> f_sign y then f_quiet else x)
      else if \<not> f_finite y then y
      else let e = min (f_exp x) (f_exp y);
               t = f_signed x * 2 ^ nat (f_exp x - e) + f_signed y * 2 ^ nat (f_exp y - e)
           in if t = 0 then f_make (f_sign x \<and> f_sign y) 0 else round_pack (t < 0) (nat \<bar>t\<bar>) e False)"

definition f_sub :: "f64 \<Rightarrow> f64 \<Rightarrow> f64" where
  "f_sub x y = f_add x (f_neg y)"

definition f_mul :: "f64 \<Rightarrow> f64 \<Rightarrow> f64" where
  "f_mul x y =
     (let s = (f_sign x \<noteq> f_sign y)
      in if f_nan x \<or> f_nan y then f_quiet
         else if \<not> f_finite x \<or> \<not> f_finite y then (if f_zero x \<or> f_zero y then f_quiet else f_inf s)
         else round_pack s (f_mant x * f_mant y) (f_exp x + f_exp y) False)"

definition f_div :: "f64 \<Rightarrow> f64 \<Rightarrow> f64" where
  "f_div x y =
     (let s = (f_sign x \<noteq> f_sign y)
      in if f_nan x \<or> f_nan y then f_quiet
         else if \<not> f_finite x then (if \<not> f_finite y then f_quiet else f_inf s)
         else if \<not> f_finite y then f_make s 0
         else if f_zero y then (if f_zero x then f_quiet else f_inf s)
         else let k = bit_len (f_mant y) + 55; n = f_mant x * 2 ^ k
              in round_pack s (n div f_mant y) (f_exp x - f_exp y - int k) (n mod f_mant y \<noteq> 0))"

fun int_sqrt :: "nat \<Rightarrow> nat" where
  "int_sqrt n =
     (if n = 0 then 0
      else let r = 2 * int_sqrt (n div 4) in if (r + 1) * (r + 1) \<le> n then r + 1 else r)"

declare int_sqrt.simps [simp del]

definition f_sqrt :: "f64 \<Rightarrow> f64" where
  "f_sqrt x =
     (if f_nan x then f_quiet
      else if f_zero x then x
      else if f_sign x then f_quiet
      else if \<not> f_finite x then x
      else let k = (if even (f_exp x) then 112 else 113); n = f_mant x * 2 ^ k; r = int_sqrt n
           in round_pack False r ((f_exp x - int k) div 2) (r * r \<noteq> n))"

subsection \<open>Comparison and conversion\<close>

definition f_key :: "f64 \<Rightarrow> int" where
  "f_key w = (if f_sign w then - int (f_mag w) else int (f_mag w))"

definition f_lt :: "f64 \<Rightarrow> f64 \<Rightarrow> bool" where
  "f_lt x y \<longleftrightarrow> \<not> f_nan x \<and> \<not> f_nan y \<and> f_key x < f_key y"

definition f_le :: "f64 \<Rightarrow> f64 \<Rightarrow> bool" where
  "f_le x y \<longleftrightarrow> \<not> f_nan x \<and> \<not> f_nan y \<and> f_key x \<le> f_key y"

definition f_eq :: "f64 \<Rightarrow> f64 \<Rightarrow> bool" where
  "f_eq x y \<longleftrightarrow> \<not> f_nan x \<and> \<not> f_nan y \<and> f_key x = f_key y"

definition whole_part :: "f64 \<Rightarrow> nat" where
  "whole_part x = (if 0 \<le> f_exp x then f_mant x * 2 ^ nat (f_exp x) else f_mant x div 2 ^ nat (- f_exp x))"

definition f_trunc :: "f64 \<Rightarrow> f64" where
  "f_trunc x =
     (if f_nan x then f_quiet else if \<not> f_finite x then x else round_pack (f_sign x) (whole_part x) 0 False)"

text \<open>The conversion to i64 goes towards zero, stops at the ends of the range and takes NaN to 0.\<close>

definition f_to_i64 :: "f64 \<Rightarrow> int" where
  "f_to_i64 x =
     (if f_nan x then 0
      else if \<not> f_finite x then (if f_sign x then - (2 ^ 63) else 2 ^ 63 - 1)
      else max (- (2 ^ 63)) (min (2 ^ 63 - 1) (if f_sign x then - int (whole_part x) else int (whole_part x))))"

definition f_to_bytes :: "f64 \<Rightarrow> u8 list" where
  "f_to_bytes w = map (\<lambda>i. ucast (drop_bit (8 * i) w)) [0..<8]"

definition f_from_bytes :: "u8 list \<Rightarrow> f64" where
  "f_from_bytes bs = foldr (\<lambda>b w. push_bit 8 w OR ucast b) bs 0"

end
