(* ===== verification/Float_Facts.thy ===== *)
theory Float_Facts
  imports Soft_Float
begin

section \<open>What the operations on doubles compute\<close>

text \<open>
  The value of a finite double as a real number, and the size of a step of its last place. Each
  arithmetic operation answers a double that is half a step from the exact result at most.
\<close>

definition f_val :: "f64 \<Rightarrow> real" where
  "f_val w = real_of_int (f_signed w) * 2 powr real_of_int (f_exp w)"

definition f_ulp :: "f64 \<Rightarrow> real" where
  "f_ulp w = 2 powr real_of_int (f_exp w)"

definition signed_by :: "bool \<Rightarrow> real \<Rightarrow> real" where
  "signed_by s x = (if s then - x else x)"

subsection \<open>Fields\<close>

lemma f_make_fields:
  assumes "p < 2 ^ 63"
  shows "f_sign (f_make s p) = s" and "f_mag (f_make s p) = p"
proof -
  have "unat (f_make s p) = p + (if s then 2 ^ 63 else 0)"
    unfolding f_make_def by (rule unat_word_of_nat_64) (use assms in simp)
  then show "f_sign (f_make s p) = s" and "f_mag (f_make s p) = p" using assms by (auto simp: f_sign_def f_mag_def)
qed

lemma f_mag_less: "f_mag w < 2 ^ 63"
  by (simp add: f_mag_def)

lemma f_mant_less: "f_mant w < 2 ^ 53"
proof -
  have "f_frac w < 2 ^ 52" by (simp add: f_frac_def)
  then show ?thesis by (auto simp: f_mant_def)
qed

text \<open>The biased exponent takes up a carry out of the significand.\<close>

lemma f_make_value:
  assumes q: "- 1074 \<le> q" and m: "m \<le> 2 ^ 53" and n: "2 ^ 52 \<le> m \<or> q = - 1074"
    and p: "p = nat (q + 1074) * 2 ^ 52 + m" and o: "p < 2047 * 2 ^ 52"
  shows "f_val (f_make s p) = signed_by s (real m * 2 powr real_of_int q)" and "q \<le> f_exp (f_make s p)"
    and "f_finite (f_make s p)"
proof -
  define k where "k = nat (q + 1074)"
  have k: "int k = q + 1074" using q by (simp add: k_def)
  have f: "f_sign (f_make s p) = s" "f_mag (f_make s p) = p" by (rule f_make_fields; use o in simp)+
  have b: "f_biased (f_make s p) = k + m div 2 ^ 52" "f_frac (f_make s p) = m mod 2 ^ 52"
    unfolding f_biased_def f_frac_def f(2) unfolding p k_def by simp_all
  show "f_finite (f_make s p)" using o by (simp add: f_finite_def f_biased_def f less_mult_imp_div_less)
  consider "m < 2 ^ 52" | "2 ^ 52 \<le> m" "m < 2 ^ 53" | "m = 2 ^ 53" using m by linarith
  then have "f_signed (f_make s p) * 2 ^ nat (f_exp (f_make s p) - q) = (if s then - int m else int m) \<and> q \<le> f_exp (f_make s p)"
  proof cases
    case 1
    then have "k = 0" "q = - 1074" using n k by auto
    then show ?thesis using 1 b f by (auto simp: f_signed_def f_mant_def f_exp_def)
  next
    case 2
    then have "m div 2 ^ 52 = 1" "m mod 2 ^ 52 = m - 2 ^ 52" by (auto simp: div_nat_eqI mod_if)
    then show ?thesis using 2 b f k by (auto simp: f_signed_def f_mant_def f_exp_def)
  next
    case 3
    then have "m div 2 ^ 52 = 2" "m mod 2 ^ 52 = 0" by auto
    then show ?thesis using 3 b f k by (auto simp: f_signed_def f_mant_def f_exp_def)
  qed
  note e = this
  then show "q \<le> f_exp (f_make s p)" by simp
  define j where "j = nat (f_exp (f_make s p) - q)"
  have j: "f_exp (f_make s p) = q + int j" using e by (simp add: j_def)
  have "f_val (f_make s p) = real_of_int (f_signed (f_make s p) * 2 ^ j) * 2 powr real_of_int q"
    by (simp add: f_val_def j powr_add powr_realpow)
  also have "\<dots> = signed_by s (real m * 2 powr real_of_int q)" using e by (simp add: j_def [symmetric] signed_by_def)
  finally show "f_val (f_make s p) = signed_by s (real m * 2 powr real_of_int q)" .
qed

lemma f_make_zero: "f_val (f_make s 0) = 0" "f_finite (f_make s 0)"
  using f_make_fields [of 0 s]
  by (cases s; simp add: f_val_def f_signed_def f_mant_def f_biased_def f_frac_def f_finite_def)+

lemma f_inf_not_finite: "\<not> f_finite (f_inf s)" "\<not> f_nan (f_inf s)"
  using f_make_fields [of "2047 * 2 ^ 52" s]
  by (simp_all add: f_inf_def f_finite_def f_biased_def f_nan_def f_frac_def)

lemma f_quiet_not_finite: "\<not> f_finite f_quiet"
  using f_make_fields [of "2047 * 2 ^ 52 + 2 ^ 51" False]
  by (simp add: f_quiet_def f_finite_def f_biased_def)

subsection \<open>Rounding\<close>

lemma real_le_power: "a \<le> 2 ^ d \<Longrightarrow> real a \<le> 2 ^ d" "2 ^ d \<le> a \<Longrightarrow> 2 ^ d \<le> real a"
  using of_nat_mono [of a "2 ^ d"] of_nat_mono [of "2 ^ d" a] by simp_all

lemma round_div_near:
  assumes x: "real n \<le> x" "x < real n + 1" and s: "sticky \<longleftrightarrow> x \<noteq> real n" and d: "sticky \<Longrightarrow> 0 < d"
  shows "\<bar>real (round_div n d sticky) * 2 ^ d - x\<bar> \<le> 2 ^ d / 2"
proof -
  define q where "q = n div 2 ^ d"
  define r where "r = n mod 2 ^ d"
  have "q * 2 ^ d + r = n" unfolding q_def r_def by (rule div_mult_mod_eq)
  then have "real (q * 2 ^ d + r) = real n" by (rule arg_cong)
  then have n: "real n = real q * 2 ^ d + real r" by simp
  have rl: "r + 1 \<le> 2 ^ d" by (simp add: r_def Suc_leI)
  then have rl': "real r + 1 \<le> 2 ^ d" using real_le_power(1) [of "r + 1" d] by simp
  show ?thesis
  proof (cases "2 ^ d < 2 * r \<or> 2 * r = 2 ^ d \<and> (sticky \<or> odd q)")
    case True
    then have v: "round_div n d sticky = q + 1" by (simp add: round_div_def q_def [symmetric] r_def [symmetric])
    have "2 ^ d \<le> 2 * r" using True by auto
    then have "2 ^ d \<le> 2 * real r" using real_le_power(2) [of d "2 * r"] by simp
    then show ?thesis using x n rl' by (simp add: v algebra_simps abs_le_iff)
  next
    case False
    then have v: "round_div n d sticky = q" by (simp add: round_div_def q_def [symmetric] r_def [symmetric])
    have le: "2 * r \<le> 2 ^ d" using False by auto
    have "2 * (x - real q * 2 ^ d) \<le> 2 ^ d"
    proof (cases sticky)
      case True
      then obtain d' where "d = Suc d'" using d by (cases d) auto
      moreover have "2 * r \<noteq> 2 ^ d" using True False by blast
      then have "2 * r < 2 ^ d" using le by linarith
      ultimately have "2 * r + 2 \<le> 2 ^ d" by simp
      then have "2 * real r + 2 \<le> 2 ^ d" using real_le_power(1) [of "2 * r + 2" d] by simp
      then show ?thesis using x n by simp
    next
      case False
      have "2 * real r \<le> 2 ^ d" using real_le_power(1) [OF le] by simp
      then show ?thesis using False s n by simp
    qed
    moreover have "0 \<le> x - real q * 2 ^ d" using x n by simp
    ultimately show ?thesis by (simp add: v abs_le_iff)
  qed
qed

lemma round_div_le: "round_div n d sticky \<le> n div 2 ^ d + 1" "n div 2 ^ d \<le> round_div n d sticky"
  by (simp_all add: round_div_def Let_def)

text \<open>The significand that rounding chooses fits, and is normal unless the exponent is least.\<close>

definition round_mant :: "nat \<Rightarrow> int \<Rightarrow> bool \<Rightarrow> nat" where
  "round_mant n e sticky =
     (let q = round_exp n e in if e \<le> q then round_div n (nat (q - e)) sticky else n * 2 ^ nat (e - q))"

lemma round_mant_range:
  assumes n: "0 < n"
  shows "round_mant n e sticky \<le> 2 ^ 53"
    and "2 ^ 52 \<le> round_mant n e sticky \<or> round_exp n e = - 1074"
proof -
  define l where "l = bit_len n"
  define q where "q = round_exp n e"
  have l: "0 < l" "2 ^ (l - 1) \<le> n" "n < 2 ^ l" using bit_len_bounds [OF n] by (simp_all add: l_def)
  have q: "q = max (e + int l - 53) (- 1074)" by (simp add: q_def round_exp_def l_def)
  have "round_mant n e sticky \<le> 2 ^ 53 \<and> (2 ^ 52 \<le> round_mant n e sticky \<or> q = - 1074)"
  proof (cases "e \<le> q")
    case True
    define d where "d = nat (q - e)"
    have dl: "l \<le> d + 53" using q True by (simp add: d_def)
    have "n < 2 ^ 53 * 2 ^ d"
      using l(3) power_increasing [OF dl, of "2 :: nat"] by (simp add: power_add mult.commute)
    then have "n div 2 ^ d < 2 ^ 53" by (rule less_mult_imp_div_less)
    moreover have "2 ^ 52 \<le> n div 2 ^ d" if "q \<noteq> - 1074"
    proof -
      have "l - 1 = d + 52" using that q True l(1) by (simp add: d_def)
      then have "2 ^ 52 * 2 ^ d \<le> n" using l(2) by (simp add: power_add mult.commute)
      then show ?thesis by (simp add: less_eq_div_iff_mult_less_eq)
    qed
    ultimately show ?thesis
      using round_div_le [of n d sticky] True by (auto simp: round_mant_def Let_def q_def [symmetric] d_def [symmetric])
  next
    case False
    define d where "d = nat (e - q)"
    have dl: "l + d \<le> 53" using q False by (simp add: d_def)
    have "n * 2 ^ d < 2 ^ (l + d)" using l(3) by (simp add: power_add)
    then have "n * 2 ^ d < 2 ^ 53" using power_increasing [OF dl, of "2 :: nat"] by simp
    moreover have "2 ^ 52 \<le> n * 2 ^ d" if "q \<noteq> - 1074"
    proof -
      have "l - 1 + d = 52" using that q False l(1) by (simp add: d_def)
      moreover have "2 ^ (l - 1 + d) \<le> n * 2 ^ d" using l(2) by (simp add: power_add)
      ultimately show ?thesis by simp
    qed
    ultimately show ?thesis using False by (auto simp: round_mant_def Let_def q_def [symmetric] d_def [symmetric])
  qed
  then show "round_mant n e sticky \<le> 2 ^ 53" and "2 ^ 52 \<le> round_mant n e sticky \<or> round_exp n e = - 1074"
    by (simp_all add: q_def)
qed

lemma round_pack_eq:
  assumes "0 < n"
  shows "round_pack s n e sticky = (let p = nat (round_exp n e + 1074) * 2 ^ 52 + round_mant n e sticky
     in if 2047 * 2 ^ 52 \<le> p then f_inf s else f_make s p)"
  using assms by (simp add: round_pack_def round_mant_def Let_def)

lemma round_pack_value:
  assumes n: "0 < n" and f: "f_finite (round_pack s n e sticky)"
  shows "f_val (round_pack s n e sticky) = signed_by s (real (round_mant n e sticky) * 2 powr real_of_int (round_exp n e))"
    and "round_exp n e \<le> f_exp (round_pack s n e sticky)"
proof -
  define p where "p = nat (round_exp n e + 1074) * 2 ^ 52 + round_mant n e sticky"
  have r: "round_pack s n e sticky = (if 2047 * 2 ^ 52 \<le> p then f_inf s else f_make s p)"
    using round_pack_eq [OF n] by (simp add: p_def Let_def)
  have o: "p < 2047 * 2 ^ 52"
  proof (rule ccontr)
    assume "\<not> p < 2047 * 2 ^ 52"
    then have "round_pack s n e sticky = f_inf s" unfolding r by simp
    then show False using f f_inf_not_finite by simp
  qed
  have "- 1074 \<le> round_exp n e" by (simp add: round_exp_def)
  note v = f_make_value [OF this round_mant_range [OF n] p_def o, of s]
  have "round_pack s n e sticky = f_make s p" unfolding r using o by simp
  then show "f_val (round_pack s n e sticky) = signed_by s (real (round_mant n e sticky) * 2 powr real_of_int (round_exp n e))"
    and "round_exp n e \<le> f_exp (round_pack s n e sticky)" using v by simp_all
qed

lemma round_pack_near:
  assumes n: "0 < n" and x: "real n \<le> x" "x < real n + 1" and s: "sticky \<longleftrightarrow> x \<noteq> real n"
    and l: "sticky \<Longrightarrow> 55 \<le> bit_len n" and f: "f_finite (round_pack sg n e sticky)"
  shows "\<bar>f_val (round_pack sg n e sticky) - signed_by sg (x * 2 powr real_of_int e)\<bar> \<le> f_ulp (round_pack sg n e sticky) / 2"
proof -
  define q where "q = round_exp n e"
  define m where "m = round_mant n e sticky"
  have q: "e + int (bit_len n) - 53 \<le> q" by (simp add: q_def round_exp_def)
  have "\<bar>real m * 2 powr real_of_int q - x * 2 powr real_of_int e\<bar> \<le> 2 powr real_of_int q / 2"
  proof (cases "e \<le> q")
    case True
    define d where "d = nat (q - e)"
    have qd: "2 powr real_of_int q = 2 ^ d * 2 powr real_of_int e"
    proof -
      have "real_of_int q = real d + real_of_int e" using True by (simp add: d_def)
      then show ?thesis by (simp add: powr_add powr_realpow)
    qed
    have m: "m = round_div n d sticky" using True by (simp add: m_def round_mant_def Let_def q_def [symmetric] d_def)
    have "sticky \<Longrightarrow> 0 < d" using l q by (simp add: d_def)
    then have "\<bar>real m * 2 ^ d - x\<bar> \<le> 2 ^ d / 2" unfolding m by (rule round_div_near [OF x s])
    then have "\<bar>real m * 2 ^ d - x\<bar> * 2 powr real_of_int e \<le> 2 ^ d / 2 * 2 powr real_of_int e"
      by (intro mult_right_mono) simp_all
    moreover have "\<bar>real m * 2 ^ d - x\<bar> * 2 powr real_of_int e = \<bar>real m * 2 ^ d * 2 powr real_of_int e - x * 2 powr real_of_int e\<bar>"
      by (simp add: abs_mult left_diff_distrib [symmetric])
    ultimately show ?thesis by (simp add: qd mult.assoc)
  next
    case False
    define d where "d = nat (e - q)"
    have "\<not> sticky" using False q l by fastforce
    then have "x = real n" using s by simp
    moreover have "m = n * 2 ^ d" using False by (simp add: m_def round_mant_def Let_def q_def [symmetric] d_def)
    moreover have "2 powr real_of_int e = 2 ^ d * 2 powr real_of_int q"
    proof -
      have "real_of_int e = real d + real_of_int q" using False by (simp add: d_def)
      then show ?thesis by (simp add: powr_add powr_realpow)
    qed
    ultimately show ?thesis by simp
  qed
  moreover have "2 powr real_of_int q \<le> f_ulp (round_pack sg n e sticky)"
    using round_pack_value(2) [OF n f] by (simp add: f_ulp_def q_def)
  ultimately show ?thesis using round_pack_value(1) [OF n f] by (auto simp: signed_by_def q_def m_def abs_minus_commute)
qed

subsection \<open>The operations\<close>

definition near :: "f64 \<Rightarrow> real \<Rightarrow> bool" where
  "near r x \<longleftrightarrow> (f_finite r \<longrightarrow> \<bar>f_val r - x\<bar> \<le> f_ulp r / 2)"

lemma near_zero: "near (f_make s 0) 0"
  by (simp add: near_def f_make_zero f_ulp_def)

lemma near_exact: "near (round_pack s n e False) (signed_by s (real n * 2 powr real_of_int e))"
proof (cases "n = 0")
  case True
  then show ?thesis using near_zero [of s] by (cases s; simp add: round_pack_def signed_by_def)
next
  case False
  then show ?thesis using round_pack_near [of n "real n" False s e] by (auto simp: near_def)
qed

lemma finite_not_nan: "f_finite x \<Longrightarrow> \<not> f_nan x"
  by (simp add: f_finite_def f_nan_def)

lemma val_signed: "f_val x = signed_by (f_sign x) (real (f_mant x) * 2 powr real_of_int (f_exp x))"
  by (simp add: f_val_def f_signed_def signed_by_def)

lemma f_neg_fields: "f_sign (f_neg x) = (\<not> f_sign x)" "f_mag (f_neg x) = f_mag x"
  unfolding f_neg_def by (rule f_make_fields [OF f_mag_less])+

lemma f_neg_val: "f_val (f_neg x) = - f_val x" "f_finite (f_neg x) = f_finite x"
  using f_neg_fields [of x]
  by (simp_all add: f_val_def f_signed_def f_mant_def f_exp_def f_biased_def f_frac_def f_finite_def)

lemma scaled_sum:
  assumes "e \<le> a"
  shows "real_of_int (m * 2 ^ nat (a - e)) * 2 powr real_of_int e = real_of_int m * 2 powr real_of_int a"
proof -
  have "real_of_int a = real (nat (a - e)) + real_of_int e" using assms by simp
  then have "2 powr real_of_int a = 2 ^ nat (a - e) * 2 powr real_of_int e" by (simp only: powr_add powr_realpow)
  then show ?thesis by simp
qed

lemma f_add_near:
  assumes "f_finite x" and "f_finite y"
  shows "near (f_add x y) (f_val x + f_val y)"
proof -
  define e where "e = min (f_exp x) (f_exp y)"
  define t where "t = f_signed x * 2 ^ nat (f_exp x - e) + f_signed y * 2 ^ nat (f_exp y - e)"
  have sx: "real_of_int (f_signed x * 2 ^ nat (f_exp x - e)) * 2 powr real_of_int e = f_val x"
    unfolding f_val_def by (rule scaled_sum) (simp add: e_def)
  have sy: "real_of_int (f_signed y * 2 ^ nat (f_exp y - e)) * 2 powr real_of_int e = f_val y"
    unfolding f_val_def by (rule scaled_sum) (simp add: e_def)
  have v: "f_val x + f_val y = real_of_int t * 2 powr real_of_int e"
    by (simp only: t_def of_int_add distrib_right sx sy)
  have a: "f_add x y = (if t = 0 then f_make (f_sign x \<and> f_sign y) 0 else round_pack (t < 0) (nat \<bar>t\<bar>) e False)"
    using assms finite_not_nan by (simp add: f_add_def t_def e_def Let_def)
  show ?thesis
  proof (cases "t = 0")
    case True
    then show ?thesis using near_zero by (simp add: a v)
  next
    case False
    have "real (nat \<bar>t\<bar>) = \<bar>real_of_int t\<bar>" by simp
    then have "signed_by (t < 0) (real (nat \<bar>t\<bar>) * 2 powr real_of_int e) = real_of_int t * 2 powr real_of_int e"
      by (simp add: signed_by_def)
    then show ?thesis using near_exact [of "t < 0" "nat \<bar>t\<bar>" e] False by (simp add: a v)
  qed
qed

lemma f_mul_near:
  assumes "f_finite x" and "f_finite y"
  shows "near (f_mul x y) (f_val x * f_val y)"
proof -
  have "f_val x * f_val y = signed_by (f_sign x \<noteq> f_sign y) (real (f_mant x * f_mant y) * 2 powr real_of_int (f_exp x + f_exp y))"
    by (simp add: val_signed signed_by_def powr_add)
  moreover have "f_mul x y = round_pack (f_sign x \<noteq> f_sign y) (f_mant x * f_mant y) (f_exp x + f_exp y) False"
    using assms finite_not_nan by (simp add: f_mul_def Let_def)
  ultimately show ?thesis using near_exact by (simp only:)
qed

lemma bit_len_ge: "2 ^ k \<le> n \<Longrightarrow> k < bit_len n"
proof -
  assume k: "2 ^ k \<le> n"
  then have "0 < n" by (metis gr_zeroI not_le power_eq_0_iff zero_neq_numeral zero_less_power zero_less_numeral)
  then have "n < 2 ^ bit_len n" by (simp add: bit_len_bounds)
  with k have "(2 :: nat) ^ k < 2 ^ bit_len n" by linarith
  then show ?thesis by simp
qed

lemma zero_mant: "f_zero x \<longleftrightarrow> f_mant x = 0"
  by (auto simp: f_zero_def f_mant_def f_biased_def f_frac_def div_eq_0_iff)

lemma f_div_near:
  assumes f: "f_finite x" "f_finite y" and nz: "\<not> f_zero y"
  shows "near (f_div x y) (f_val x / f_val y)"
proof -
  define s where "s = (f_sign x \<noteq> f_sign y)"
  define k where "k = bit_len (f_mant y) + 55"
  define n where "n = f_mant x * 2 ^ k"
  define e where "e = f_exp x - f_exp y - int k"
  define z where "z = real n / real (f_mant y)"
  have y: "0 < f_mant y" using nz by (simp add: zero_mant)
  have r: "f_div x y = round_pack s (n div f_mant y) e (n mod f_mant y \<noteq> 0)"
    using f nz finite_not_nan by (simp add: f_div_def s_def k_def n_def e_def Let_def)
  have z0: "z = real (n div f_mant y) + real (n mod f_mant y) / real (f_mant y)"
  proof -
    have "real n = real (n div f_mant y * f_mant y + n mod f_mant y)" by simp
    then have "real n = real (n div f_mant y) * real (f_mant y) + real (n mod f_mant y)" by (simp only: of_nat_add of_nat_mult)
    then show ?thesis using y by (simp add: z_def add_divide_distrib)
  qed
  have z: "real (n div f_mant y) \<le> z" "z < real (n div f_mant y) + 1" "(n mod f_mant y \<noteq> 0) = (z \<noteq> real (n div f_mant y))"
    using y by (simp_all add: z0)
  have v: "f_val x / f_val y = signed_by s (z * 2 powr real_of_int e)"
  proof -
    have "2 powr real_of_int e = 2 powr real_of_int (f_exp x) / 2 powr real_of_int (f_exp y) / 2 ^ k"
      by (simp add: e_def powr_diff powr_realpow)
    then have "z * 2 powr real_of_int e = (real (f_mant x) * 2 powr real_of_int (f_exp x)) / (real (f_mant y) * 2 powr real_of_int (f_exp y))"
      by (simp add: z_def n_def)
    then show ?thesis by (simp add: val_signed signed_by_def s_def)
  qed
  show ?thesis
  proof (cases "f_mant x = 0")
    case True
    then show ?thesis using near_zero [of s] by (cases s; simp add: r v n_def z_def round_pack_def signed_by_def)
  next
    case False
    have "f_mant y < 2 ^ bit_len (f_mant y)" using y by (simp add: bit_len_bounds)
    then have "2 ^ 55 * f_mant y \<le> 2 ^ 55 * 2 ^ bit_len (f_mant y)" by (intro mult_left_mono) simp_all
    also have "\<dots> \<le> n" using False by (simp add: n_def k_def power_add)
    finally have ge: "2 ^ 55 \<le> n div f_mant y" using y by (simp add: less_eq_div_iff_mult_less_eq)
    then have "55 \<le> bit_len (n div f_mant y)" using bit_len_ge [OF ge] by simp
    moreover have "0 < n div f_mant y" by (rule less_le_trans [OF _ ge]) simp
    ultimately show ?thesis using round_pack_near [OF _ z] by (simp add: near_def r v)
  qed
qed

lemma int_sqrt_bounds: "int_sqrt n * int_sqrt n \<le> n \<and> n < (int_sqrt n + 1) * (int_sqrt n + 1)"
proof (induction n rule: int_sqrt.induct)
  case (1 n)
  show ?case
  proof (cases "n = 0")
    case True
    then show ?thesis by (simp add: int_sqrt.simps)
  next
    case False
    define r where "r = int_sqrt (n div 4)"
    have "r * r \<le> n div 4" "n div 4 < (r + 1) * (r + 1)" using 1 [OF False] by (simp_all add: r_def)
    moreover have "4 * (n div 4) \<le> n" "n < 4 * (n div 4) + 4" by linarith+
    moreover have "(2 * r) * (2 * r) = 4 * (r * r)" "(2 * r + 2) * (2 * r + 2) = 4 * ((r + 1) * (r + 1))" by simp_all
    ultimately have b: "(2 * r) * (2 * r) \<le> n" "n < (2 * r + 2) * (2 * r + 2)" by linarith+
    have "int_sqrt n = (if (2 * r + 1) * (2 * r + 1) \<le> n then 2 * r + 1 else 2 * r)"
      using False by (subst int_sqrt.simps) (simp add: r_def Let_def)
    then show ?thesis using b by auto
  qed
qed

lemma f_sqrt_near:
  assumes f: "f_finite x" and p: "\<not> f_sign x"
  shows "near (f_sqrt x) (sqrt (f_val x))"
proof (cases "f_zero x")
  case True
  then have "f_val x = 0" by (simp add: val_signed zero_mant signed_by_def)
  then show ?thesis using True f finite_not_nan by (simp add: f_sqrt_def near_def f_ulp_def)
next
  case False
  define k where "k = (if even (f_exp x) then 112 else 113 :: nat)"
  define n where "n = f_mant x * 2 ^ k"
  define e where "e = (f_exp x - int k) div 2"
  have r: "f_sqrt x = round_pack False (int_sqrt n) e (int_sqrt n * int_sqrt n \<noteq> n)"
    using False p f finite_not_nan by (simp add: f_sqrt_def k_def n_def e_def Let_def)
  define z where "z = sqrt (real n)"
  note b = int_sqrt_bounds [of n]
  have "real (int_sqrt n * int_sqrt n) \<le> real n" "real n < real ((int_sqrt n + 1) * (int_sqrt n + 1))"
    using b by (simp_all only: of_nat_le_iff of_nat_less_iff)
  then have b': "real (int_sqrt n) * real (int_sqrt n) \<le> real n" "real n < (real (int_sqrt n) + 1) * (real (int_sqrt n) + 1)"
    by (simp_all only: of_nat_mult of_nat_add of_nat_1)
  have zz: "z * z = real n" by (simp add: z_def)
  have z1: "real (int_sqrt n) \<le> z" unfolding z_def by (rule real_le_rsqrt) (use b'(1) in \<open>simp add: power2_eq_square\<close>)
  have z2: "z < real (int_sqrt n) + 1" unfolding z_def by (rule real_less_lsqrt) (use b'(2) in \<open>simp_all add: power2_eq_square\<close>)
  have z3: "(int_sqrt n * int_sqrt n \<noteq> n) = (z \<noteq> real (int_sqrt n))"
  proof -
    have "z = real (int_sqrt n) \<longleftrightarrow> real (int_sqrt n) * real (int_sqrt n) = real n"
    proof
      assume "z = real (int_sqrt n)"
      then show "real (int_sqrt n) * real (int_sqrt n) = real n" using zz by simp
    qed (simp add: z_def real_sqrt_unique power2_eq_square)
    then show ?thesis by (metis of_nat_eq_iff of_nat_mult)
  qed
  have "0 < f_mant x" using False by (simp add: zero_mant)
  then have "2 ^ k \<le> n" by (simp add: n_def)
  moreover have "(2 :: nat) ^ 112 \<le> 2 ^ k" by (rule power_increasing) (simp_all add: k_def)
  ultimately have "2 ^ 112 \<le> n" by linarith
  have "2 ^ 55 \<le> int_sqrt n"
  proof (rule ccontr)
    assume "\<not> 2 ^ 55 \<le> int_sqrt n"
    then have "(int_sqrt n + 1) * (int_sqrt n + 1) \<le> 2 ^ 55 * 2 ^ 55" by (intro mult_le_mono) simp_all
    with b \<open>2 ^ 112 \<le> n\<close> show False by simp
  qed
  note ge = this
  then have "55 \<le> bit_len (int_sqrt n)" using bit_len_ge [OF ge] by simp
  moreover have "0 < int_sqrt n" by (rule less_le_trans [OF _ ge]) simp
  ultimately have "near (f_sqrt x) (signed_by False (z * 2 powr real_of_int e))"
    using round_pack_near [OF _ z1 z2 z3] by (simp add: near_def r)
  moreover have "sqrt (f_val x) = z * 2 powr real_of_int e"
  proof (rule real_sqrt_unique)
    have "even (f_exp x - int k)" by (simp add: k_def)
    then have "2 * e = f_exp x - int k" by (simp add: e_def)
    then have "2 powr real_of_int e * 2 powr real_of_int e = 2 powr real_of_int (f_exp x) / 2 ^ k"
      by (simp add: powr_add [symmetric] powr_diff powr_realpow flip: of_int_add)
    moreover have "(z * 2 powr real_of_int e)\<^sup>2 = (z * z) * (2 powr real_of_int e * 2 powr real_of_int e)"
      by (simp only: power2_eq_square ac_simps)
    ultimately have "(z * 2 powr real_of_int e)\<^sup>2 = real n * (2 powr real_of_int (f_exp x) / 2 ^ k)" by (simp only: zz)
    then show "(z * 2 powr real_of_int e)\<^sup>2 = f_val x" using p by (simp add: val_signed signed_by_def n_def)
  qed (simp add: z_def)
  ultimately show ?thesis by (simp add: signed_by_def)
qed

subsection \<open>Comparisons\<close>

text \<open>The value in units of the smallest double.\<close>

definition f_units :: "f64 \<Rightarrow> nat" where
  "f_units w = f_mant w * 2 ^ (max 1 (f_biased w) - 1)"

lemma f_val_units: "f_val w = signed_by (f_sign w) (real (f_units w) * 2 powr - 1074)"
proof -
  have "real_of_int (f_exp w) = real (max 1 (f_biased w) - 1) + - 1074" by (simp add: f_exp_def)
  then have "2 powr real_of_int (f_exp w) = 2 ^ (max 1 (f_biased w) - 1) * 2 powr - 1074"
    by (simp only: powr_add powr_realpow)
  then show ?thesis by (simp add: val_signed f_units_def mult.assoc)
qed

lemma f_mag_split: "f_mag w = f_biased w * 2 ^ 52 + f_frac w" "f_frac w < 2 ^ 52"
  by (simp_all add: f_biased_def f_frac_def)

lemma f_units_less:
  assumes l: "f_mag x < f_mag y"
  shows "f_units x < f_units y"
proof (cases "f_biased x < f_biased y")
  case True
  define b where "b = f_biased y - 1"
  have b: "max 1 (f_biased y) - 1 = b" "max 1 (f_biased x) - 1 \<le> b" "f_biased y = Suc b" using True by (auto simp: b_def)
  have y: "2 ^ 52 * 2 ^ b \<le> f_units y" using b by (simp add: f_units_def f_mant_def)
  show ?thesis
  proof (cases "f_biased x = 0")
    case True
    then have "f_units x < 2 ^ 52" using f_mag_split(2) by (simp add: f_units_def f_mant_def)
    moreover have "(2 :: nat) ^ 52 \<le> 2 ^ 52 * 2 ^ b" by simp
    ultimately show ?thesis using y by linarith
  next
    case False
    define c where "c = max 1 (f_biased x) - 1"
    have "Suc c \<le> b" using True False by (auto simp: c_def b_def)
    then have "(2 :: nat) ^ Suc c \<le> 2 ^ b" by (rule power_increasing) simp
    then have "2 ^ 52 * (2 :: nat) ^ Suc c \<le> 2 ^ 52 * 2 ^ b" by (rule mult_left_mono) simp
    moreover have "f_units x < 2 ^ 53 * 2 ^ c"
      unfolding f_units_def c_def by (rule mult_strict_right_mono [OF f_mant_less]) simp
    moreover have "2 ^ 53 * (2 :: nat) ^ c = 2 ^ 52 * 2 ^ Suc c" by simp
    ultimately show ?thesis using y by linarith
  qed
next
  case False
  have "f_biased y = f_biased x"
  proof (rule ccontr)
    assume "f_biased y \<noteq> f_biased x"
    then have "(f_biased y + 1) * 2 ^ 52 \<le> f_biased x * 2 ^ 52" using False by (intro mult_right_mono) simp_all
    then show False using l f_mag_split [of x] f_mag_split [of y] by simp
  qed
  moreover from this have "f_frac x < f_frac y" using l by (simp add: f_mag_split(1))
  ultimately show ?thesis by (simp add: f_units_def f_mant_def)
qed

lemma f_units_order: "f_units x < f_units y \<longleftrightarrow> f_mag x < f_mag y" "f_units x = f_units y \<longleftrightarrow> f_mag x = f_mag y"
proof -
  have "f_units x = f_units y" if "f_mag x = f_mag y"
    using that by (simp add: f_units_def f_mant_def f_biased_def f_frac_def)
  then show "f_units x < f_units y \<longleftrightarrow> f_mag x < f_mag y" "f_units x = f_units y \<longleftrightarrow> f_mag x = f_mag y"
    using f_units_less [of x y] f_units_less [of y x] by (auto simp: not_less less_le, (metis less_le not_le)+)
qed

lemma signed_nat_order:
  "(if s then - int a else int a) < (if t then - int b else int b) \<longleftrightarrow>
     (if s then (if t then b < a else a \<noteq> 0 \<or> b \<noteq> 0) else \<not> t \<and> a < b)"
  "(if s then - int a else int a) = (if t then - int b else int b) \<longleftrightarrow> (if s = t then a = b else a = 0 \<and> b = 0)"
  by auto

lemma f_key_order: "f_key x < f_key y \<longleftrightarrow> f_val x < f_val y" "f_key x = f_key y \<longleftrightarrow> f_val x = f_val y"
proof -
  let ?u = "\<lambda>w. if f_sign w then - int (f_units w) else int (f_units w)"
  have v: "f_val w = real_of_int (?u w) * 2 powr - 1074" for w by (simp add: f_val_units signed_by_def)
  have z: "f_units w = 0 \<longleftrightarrow> f_mag w = 0" for w
    by (simp add: f_units_def zero_mant [symmetric] f_zero_def)
  have "?u x < ?u y \<longleftrightarrow> f_key x < f_key y" "?u x = ?u y \<longleftrightarrow> f_key x = f_key y"
    unfolding f_key_def signed_nat_order by (simp_all add: f_units_order z)
  moreover have "f_val x < f_val y \<longleftrightarrow> ?u x < ?u y" "f_val x = f_val y \<longleftrightarrow> ?u x = ?u y"
    unfolding v by (simp_all only: mult_less_cancel_right mult_cancel_right of_int_less_iff of_int_eq_iff) simp_all
  ultimately show "f_key x < f_key y \<longleftrightarrow> f_val x < f_val y" "f_key x = f_key y \<longleftrightarrow> f_val x = f_val y" by simp_all
qed

lemma f_compare:
  assumes "f_finite x" and "f_finite y"
  shows "f_lt x y = (f_val x < f_val y)" and "f_le x y = (f_val x \<le> f_val y)" and "f_eq x y = (f_val x = f_val y)"
  using finite_not_nan [OF assms(1)] finite_not_nan [OF assms(2)] f_key_order [of x y]
  by (auto simp: f_lt_def f_le_def f_eq_def le_less)

subsection \<open>Exact cases\<close>

lemma bit_len_le: "n < 2 ^ k \<Longrightarrow> bit_len n \<le> k"
proof (cases "n = 0")
  case False
  moreover assume "n < 2 ^ k"
  ultimately have "(2 :: nat) ^ (bit_len n - 1) < 2 ^ k" using bit_len_bounds [of n] by linarith
  then have "bit_len n - 1 < k" by simp
  then show ?thesis by simp
qed (simp add: bit_len.simps)

lemma round_div_multiple: "n = a * 2 ^ d \<Longrightarrow> round_div n d False = a"
  by (simp add: round_div_def)

text \<open>A number with at most 53 significant bits is a double.\<close>

lemma round_pack_exact:
  assumes m: "0 < m" "m < 2 ^ 53" and j: "j \<le> 971"
  shows "f_finite (round_pack s (m * 2 ^ j) 0 False)"
    and "f_val (round_pack s (m * 2 ^ j) 0 False) = signed_by s (real (m * 2 ^ j))"
proof -
  define n where "n = m * 2 ^ j"
  have n: "0 < n" "n < 2 ^ (53 + j)" using m by (simp_all add: n_def power_add)
  define q where "q = round_exp n 0"
  have lb: "bit_len n \<le> 53 + j" using bit_len_le [OF n(2)] .
  have b: "0 < bit_len n" "n < 2 ^ bit_len n" using bit_len_bounds [OF n(1)] by simp_all
  have q: "q = int (bit_len n) - 53" using b by (simp add: q_def round_exp_def)
  have mm: "round_mant n 0 False < 2 ^ 53 \<and> real (round_mant n 0 False) * 2 powr real_of_int q = real n"
  proof (cases "0 \<le> q")
    case True
    define d where "d = nat q"
    have dj: "d \<le> j" using lb q by (simp add: d_def)
    then have nd: "n = m * 2 ^ (j - d) * 2 ^ d" by (simp add: n_def power_add [symmetric])
    have e: "round_mant n 0 False = m * 2 ^ (j - d)"
      using True round_div_multiple [OF nd] by (simp add: round_mant_def Let_def q_def [symmetric] d_def)
    have "bit_len n = 53 + d" using q True by (simp add: d_def)
    then have "m * 2 ^ (j - d) * 2 ^ d < 2 ^ 53 * 2 ^ d" using b(2) nd by (simp add: power_add)
    then have "m * 2 ^ (j - d) < 2 ^ 53" by simp
    moreover have "2 powr real_of_int q = 2 ^ d" using True by (simp add: d_def flip: powr_realpow)
    moreover have "real n = real (m * 2 ^ (j - d)) * 2 ^ d" using arg_cong [OF nd, of real] by simp
    ultimately show ?thesis by (simp add: e)
  next
    case False
    define d where "d = nat (- q)"
    have e: "round_mant n 0 False = n * 2 ^ d" using False by (simp add: round_mant_def Let_def q_def [symmetric] d_def)
    have l: "bit_len n + d = 53" using q False by (simp add: d_def)
    have "n * 2 ^ d < 2 ^ bit_len n * 2 ^ d" using b(2) by simp
    then have "n * 2 ^ d < 2 ^ 53" by (simp only: power_add [symmetric] l)
    moreover have "real_of_int q = - real d" using False by (simp add: d_def)
    then have "2 powr real_of_int q * 2 ^ d = 1" by (simp add: powr_minus powr_realpow)
    ultimately show ?thesis by (simp add: e mult.assoc mult.commute [of "2 ^ d"])
  qed
  have "nat (q + 1074) * 2 ^ 52 + round_mant n 0 False < 2047 * 2 ^ 52"
  proof -
    have "nat (q + 1074) + 2 \<le> 2047" using q lb j by simp
    then have "(nat (q + 1074) + 2) * 2 ^ 52 \<le> 2047 * 2 ^ 52" by (rule mult_right_mono) simp
    then show ?thesis using mm by simp
  qed
  note o = this
  have r: "round_pack s n 0 False = f_make s (nat (q + 1074) * 2 ^ 52 + round_mant n 0 False)"
    unfolding round_pack_eq [OF n(1)] Let_def q_def [symmetric] using o by simp
  have "- 1074 \<le> q" by (simp add: q_def round_exp_def)
  note v = f_make_value [OF this round_mant_range(1) [OF n(1)] _ refl, of 0 False]
  have "2 ^ 52 \<le> round_mant n 0 False \<or> q = - 1074" using round_mant_range(2) [OF n(1)] by (simp add: q_def)
  note w = v [OF this o, of s]
  show "f_finite (round_pack s (m * 2 ^ j) 0 False)"
    and "f_val (round_pack s (m * 2 ^ j) 0 False) = signed_by s (real (m * 2 ^ j))"
    unfolding n_def [symmetric] r using w mm by simp_all
qed

lemma whole_part_floor: "int (whole_part x) = \<lfloor>\<bar>f_val x\<bar>\<rfloor>"
proof -
  have a: "\<bar>f_val x\<bar> = real (f_mant x) * 2 powr real_of_int (f_exp x)"
    by (simp add: val_signed signed_by_def abs_mult)
  show ?thesis
  proof (cases "0 \<le> f_exp x")
    case True
    then have "2 powr real_of_int (f_exp x) = 2 ^ nat (f_exp x)" by (simp flip: powr_realpow)
    then have "\<bar>f_val x\<bar> = real (whole_part x)" using True by (simp add: a whole_part_def)
    then show ?thesis by simp
  next
    case False
    define d where "d = nat (- f_exp x)"
    have "real_of_int (f_exp x) = - real d" using False by (simp add: d_def)
    then have "\<bar>f_val x\<bar> = real (f_mant x) / real (2 ^ d)" by (simp add: a powr_minus powr_realpow divide_inverse)
    then show ?thesis using False floor_divide_of_nat_eq [of "f_mant x" "2 ^ d", where 'a = real]
      by (simp add: whole_part_def d_def)
  qed
qed

lemma f_trunc_exact:
  assumes f: "f_finite x"
  shows "f_finite (f_trunc x)" and "f_val (f_trunc x) = signed_by (f_sign x) (real (whole_part x))"
proof -
  have t: "f_trunc x = round_pack (f_sign x) (whole_part x) 0 False"
    using f finite_not_nan by (simp add: f_trunc_def)
  have "f_finite (f_trunc x) \<and> f_val (f_trunc x) = signed_by (f_sign x) (real (whole_part x))"
  proof (cases "whole_part x = 0")
    case True
    then have "f_trunc x = f_make (f_sign x) 0" unfolding t by (simp add: round_pack_def)
    then show ?thesis using True f_make_zero [of "f_sign x"] by (simp add: signed_by_def)
  next
    case False
    obtain m j where mj: "whole_part x = m * 2 ^ j" "m < 2 ^ 53" "j \<le> 971"
    proof (cases "0 \<le> f_exp x")
      case True
      have "f_biased x \<le> 2046" using f by (simp add: f_finite_def)
      then have "nat (f_exp x) \<le> 971" by (simp add: f_exp_def)
      then show ?thesis using that [of "f_mant x" "nat (f_exp x)"] True f_mant_less by (simp add: whole_part_def)
    next
      case False
      have "f_mant x div 2 ^ nat (- f_exp x) < 2 ^ 53"
        using div_le_dividend [of "f_mant x" "2 ^ nat (- f_exp x)"] f_mant_less [of x] by linarith
      then show ?thesis using that [of "whole_part x" 0] False by (simp add: whole_part_def)
    qed
    have "0 < m" using False mj(1) by simp
    then show ?thesis using round_pack_exact [of m j "f_sign x"] mj unfolding t mj(1) by simp
  qed
  then show "f_finite (f_trunc x)" and "f_val (f_trunc x) = signed_by (f_sign x) (real (whole_part x))" by auto
qed

end
