(* ===== verification/Float_Prims.thy ===== *)
theory Float_Prims
  imports Primitives Float_Facts Method_Builder Symbol_Table Arithmetic_Facts
begin

section \<open>Float primitives\<close>

text \<open>
  Floats are byte objects of eight bytes. The conversions of src/vm.rs, the float arms of the
  dispatcher of src/prims.rs, and what they answer: arithmetic is rounded once, comparisons are exact,
  and truncation is exact on the range of the SmallIntegers.
\<close>

definition make_float :: "vm \<Rightarrow> f64 \<Rightarrow> (value \<times> vm) outcome" where
  "make_float vm f =
     (case alloc_bytes (vm_heap vm) CLASS_FLOAT 8 of
        None \<Rightarrow> Err OutOfMemory
      | Some (a, h) \<Rightarrow> rbind (from_ptr_checked a) (\<lambda>v. Ok (v, vm\<lparr>vm_heap := write_bytes h a (f_to_bytes f)\<rparr>)))"

definition float_value :: "vm \<Rightarrow> value \<Rightarrow> f64 outcome" where
  "float_value vm v =
     (let bs = obj_bytes (vm_heap vm) (as_ptr v) in if length bs = 8 then Ok (f_from_bytes bs) else Panic)"

definition float_of :: "vm \<Rightarrow> value \<Rightarrow> f64 option outcome" where
  "float_of vm v =
     (if is_ptr v \<and> hdr_class_index (header (vm_heap vm) (as_ptr v)) = CLASS_FLOAT
      then rbind (float_value vm v) (\<lambda>f. Ok (Some f)) else Ok None)"

definition one_float :: "vm \<Rightarrow> regs \<Rightarrow> u8 \<Rightarrow> f64 option outcome" where
  "one_float vm rg r = float_of vm (get_slot vm rg r)"

definition two_floats :: "vm \<Rightarrow> regs \<Rightarrow> u8 \<Rightarrow> (f64 \<times> f64) option outcome" where
  "two_floats vm rg r =
     rbind (float_of vm (get_slot vm rg r)) (\<lambda>x. case x of
       None \<Rightarrow> Ok None
     | Some x \<Rightarrow> rbind (float_of vm (get_slot vm rg (r + 1))) (\<lambda>y. Ok (map_option (\<lambda>y. (x, y)) y)))"

definition new_float :: "vm \<Rightarrow> regs \<Rightarrow> f64 \<Rightarrow> prim_result" where
  "new_float vm rg f =
     rbind (alloc_gc vm rg CLASS_FLOAT FMT_BYTES_BASE 8) (\<lambda>(obj, vm1, rg1).
       pvalue obj (vm1\<lparr>vm_heap := write_bytes (vm_heap vm1) (as_ptr obj) (f_to_bytes f)\<rparr>) rg1)"

definition prim_int_as_float :: "vm \<Rightarrow> regs \<Rightarrow> u8 \<Rightarrow> prim_result" where
  "prim_int_as_float vm rg r =
     (let x = get_slot vm rg r
      in if \<not> is_int x then pfail FAIL_WRONG_TYPE vm rg else new_float vm rg (f_of_int (as_int x)))"

definition float_arith :: "u16 \<Rightarrow> f64 \<Rightarrow> f64 \<Rightarrow> f64" where
  "float_arith n x y =
     (if n = PRIM_FLOAT_ADD then f_add x y
      else if n = PRIM_FLOAT_SUB then f_sub x y
      else if n = PRIM_FLOAT_MUL then f_mul x y
      else f_div x y)"

definition prim_float_arith :: "u16 \<Rightarrow> vm \<Rightarrow> regs \<Rightarrow> u8 \<Rightarrow> prim_result" where
  "prim_float_arith n vm rg r =
     rbind (two_floats vm rg r) (\<lambda>p. case p of
       None \<Rightarrow> pfail FAIL_WRONG_TYPE vm rg
     | Some (x, y) \<Rightarrow> new_float vm rg (float_arith n x y))"

definition float_compare :: "u16 \<Rightarrow> f64 \<Rightarrow> f64 \<Rightarrow> bool" where
  "float_compare n x y =
     (if n = PRIM_FLOAT_LT then f_lt x y
      else if n = PRIM_FLOAT_GT then f_lt y x
      else if n = PRIM_FLOAT_LE then f_le x y
      else if n = PRIM_FLOAT_GE then f_le y x
      else f_eq x y)"

definition prim_float_compare :: "u16 \<Rightarrow> vm \<Rightarrow> regs \<Rightarrow> u8 \<Rightarrow> prim_result" where
  "prim_float_compare n vm rg r =
     rbind (two_floats vm rg r) (\<lambda>p. case p of
       None \<Rightarrow> pfail FAIL_WRONG_TYPE vm rg
     | Some (x, y) \<Rightarrow> pvalue (bool_v vm (float_compare n x y)) vm rg)"

definition truncated :: "f64 \<Rightarrow> int option" where
  "truncated x =
     (let t = f_trunc x
      in if \<not> f_finite t \<or> f_lt (f_of_int SMALLINT_MAX) t \<or> f_lt t (f_of_int SMALLINT_MIN) then None
         else Some (f_to_i64 t))"

definition prim_float_truncated :: "vm \<Rightarrow> regs \<Rightarrow> u8 \<Rightarrow> prim_result" where
  "prim_float_truncated vm rg r =
     rbind (one_float vm rg r) (\<lambda>x. case x of
       None \<Rightarrow> pfail FAIL_WRONG_TYPE vm rg
     | Some x \<Rightarrow> (case truncated x of
                   None \<Rightarrow> pfail FAIL_OVERFLOW vm rg
                 | Some n \<Rightarrow> pvalue (from_int n) vm rg))"

definition prim_float_sqrt :: "vm \<Rightarrow> regs \<Rightarrow> u8 \<Rightarrow> prim_result" where
  "prim_float_sqrt vm rg r =
     rbind (one_float vm rg r) (\<lambda>x. case x of
       None \<Rightarrow> pfail FAIL_WRONG_TYPE vm rg
     | Some x \<Rightarrow> new_float vm rg (f_sqrt x))"

text \<open>The dispatch of the float numbers; the rest of what the dispatcher leaves over goes to H.\<close>

definition float_prims :: "prim_fn \<Rightarrow> prim_fn" where
  "float_prims H n vm rg r argc dest =
     (if n = PRIM_INT_AS_FLOAT then prim_int_as_float vm rg r
      else if n \<in> {PRIM_FLOAT_ADD, PRIM_FLOAT_SUB, PRIM_FLOAT_MUL, PRIM_FLOAT_DIV} then prim_float_arith n vm rg r
      else if n \<in> {PRIM_FLOAT_LT, PRIM_FLOAT_GT, PRIM_FLOAT_LE, PRIM_FLOAT_GE, PRIM_FLOAT_EQ}
      then prim_float_compare n vm rg r
      else if n = PRIM_FLOAT_TRUNCATED then prim_float_truncated vm rg r
      else if n = PRIM_FLOAT_SQRT then prim_float_sqrt vm rg r
      else H n vm rg r argc dest)"

subsection \<open>A float object holds its bits\<close>

lemma bit_from_bytes:
  fixes w :: u64
  shows "n < 64 \<Longrightarrow> bit (f_from_bytes (map (\<lambda>i. ucast (drop_bit (8 * i) w)) [k..<k + m])) n
    \<longleftrightarrow> n < 8 * m \<and> bit w (8 * k + n)"
proof (induction m arbitrary: k n)
  case 0
  then show ?case by (simp add: f_from_bytes_def)
next
  case (Suc m)
  let ?f = "\<lambda>i. ucast (drop_bit (8 * i) w) :: u8"
  have "[k..<k + Suc m] = k # [Suc k..<Suc k + m]" by (simp add: upt_rec [of k])
  then have f: "f_from_bytes (map ?f [k..<k + Suc m]) = push_bit 8 (f_from_bytes (map ?f [Suc k..<Suc k + m])) OR ucast (?f k)"
    by (simp add: f_from_bytes_def)
  show ?case
  proof (cases "n < 8")
    case True
    then show ?thesis unfolding f using Suc.prems by (simp add: bit_simps)
  next
    case False
    moreover have "8 * Suc k + (n - 8) = 8 * k + n" "n - 8 < 8 * m \<longleftrightarrow> n < 8 * Suc m" using False by auto
    ultimately show ?thesis
      unfolding f using Suc.IH [of "n - 8" "Suc k"] Suc.prems by (simp add: bit_simps)
  qed
qed

lemma f_bytes_roundtrip: "f_from_bytes (f_to_bytes w) = w"
proof (rule bit_word_eqI)
  fix n assume "n < LENGTH(64)"
  then show "bit (f_from_bytes (f_to_bytes w)) n = bit w n"
    using bit_from_bytes [of n w 0 8] by (simp add: f_to_bytes_def)
qed

lemma f_to_bytes_length: "length (f_to_bytes w) = 8"
  by (simp add: f_to_bytes_def)

lemma class_ok_float: "class_ok CLASS_FLOAT"
  by (simp add: class_ok_def hmask_def)

lemma new_float_holds:
  assumes ok: "heap_ok (vm_heap vm)" and a: "alloc_bytes (vm_heap vm) CLASS_FLOAT 8 = Some (a, h)"
  shows "\<exists>vm'. new_float vm rg f = pvalue (from_ptr a) vm' rg \<and> float_of vm' (from_ptr a) = Ok (Some f)
    \<and> heap_ok (vm_heap vm') \<and> vm' = vm\<lparr>vm_heap := write_bytes h a (f_to_bytes f)\<rparr>"
proof -
  note ct = bytes_alloc.contract [OF ok class_ok_float a] fresh_bytes [OF ok class_ok_float a]
  note al = bytes_alloc.alloc_new [OF ok class_ok_float a]
  have h: "heap_ok h" "a \<in> live h" using ct by auto
  note p = live_from_ptr [OF h]
  let ?h = "write_bytes h a (f_to_bytes f)"
  have w: "heap_ok ?h" "obj_bytes ?h a = f_to_bytes f" "header ?h a = header h a"
    using write_bytes_roundtrip [OF h, of "f_to_bytes f"] ct(6) by (simp_all add: f_to_bytes_length obj_bytes_def)
  have ax: "from_ptr_checked a = Ok (from_ptr a)" using live_aligned [OF h] by (simp add: from_ptr_checked_def aligned_def)
  have "attempt_alloc (nil vm) CLASS_FLOAT FMT_BYTES_BASE 8 (vm_heap vm) = Some (a, h)"
    using a by (simp add: attempt_alloc_def)
  then have g: "alloc_gc vm rg CLASS_FLOAT FMT_BYTES_BASE 8 = Ok (from_ptr a, vm\<lparr>vm_heap := h\<rparr>, rg)"
    using ax by (simp add: alloc_gc_def Let_def)
  have "hdr_class_index (header ?h a) = CLASS_FLOAT" using w(3) al by (simp add: allocated_def)
  then have "float_of (vm\<lparr>vm_heap := ?h\<rparr>) (from_ptr a) = Ok (Some f)"
    using p w(2) by (simp add: float_of_def float_value_def f_bytes_roundtrip f_to_bytes_length)
  then show ?thesis using g w(1) p by (simp add: new_float_def)
qed

subsection \<open>Arithmetic and comparison\<close>

definition real_arith :: "u16 \<Rightarrow> real \<Rightarrow> real \<Rightarrow> real" where
  "real_arith n x y =
     (if n = PRIM_FLOAT_ADD then x + y else if n = PRIM_FLOAT_SUB then x - y
      else if n = PRIM_FLOAT_MUL then x * y else x / y)"

definition real_compare :: "u16 \<Rightarrow> real \<Rightarrow> real \<Rightarrow> bool" where
  "real_compare n x y =
     (if n = PRIM_FLOAT_LT then x < y else if n = PRIM_FLOAT_GT then x > y
      else if n = PRIM_FLOAT_LE then x \<le> y else if n = PRIM_FLOAT_GE then x \<ge> y else x = y)"

lemma val_sign:
  "f_val x < 0 \<Longrightarrow> f_sign x" "0 < f_val x \<Longrightarrow> \<not> f_sign x" "f_zero x \<Longrightarrow> f_val x = 0"
  by (cases "f_sign x"; simp add: val_signed signed_by_def zero_mant mult_less_0_iff zero_less_mult_iff)+

lemma float_arith_near:
  assumes "f_finite x" and "f_finite y" and "n = PRIM_FLOAT_DIV \<Longrightarrow> f_val y \<noteq> 0"
    and "n \<in> {PRIM_FLOAT_ADD, PRIM_FLOAT_SUB, PRIM_FLOAT_MUL, PRIM_FLOAT_DIV}"
  shows "near (float_arith n x y) (real_arith n (f_val x) (f_val y))"
proof -
  have z: "f_val y \<noteq> 0 \<Longrightarrow> \<not> f_zero y" using val_sign(3) by blast
  show ?thesis
    using assms f_add_near [of x y] f_add_near [of x "f_neg y"] f_mul_near [of x y] f_div_near [of x y] z f_neg_val [of y]
    by (auto simp: float_arith_def real_arith_def f_sub_def)
qed

lemma two_floats_read:
  "float_of vm (get_slot vm rg r) = Ok (Some x) \<Longrightarrow> float_of vm (get_slot vm rg (r + 1)) = Ok (Some y)
    \<Longrightarrow> two_floats vm rg r = Ok (Some (x, y))"
  by (simp add: two_floats_def)


subsection \<open>Truncation\<close>

text \<open>The largest SmallInteger is not a double: it is rounded up to two to the power 62.\<close>

lemma smallint_bounds_as_floats:
  "f_finite (f_of_int SMALLINT_MAX)" "f_val (f_of_int SMALLINT_MAX) = 2 ^ 62"
  "f_finite (f_of_int SMALLINT_MIN)" "f_val (f_of_int SMALLINT_MIN) = - (2 ^ 62)"
proof -
  have "f_of_int SMALLINT_MAX = f_of_int (2 ^ 62)"
    by (simp add: f_of_int_def SMALLINT_MAX_def round_pack_def round_exp_def bit_len.simps round_div_def f_make_def Let_def)
  moreover have "f_of_int (2 ^ 62) = round_pack False (1 * 2 ^ 62) 0 False" "f_of_int SMALLINT_MIN = round_pack True (1 * 2 ^ 62) 0 False"
    by (simp_all add: f_of_int_def SMALLINT_MIN_def)
  ultimately show "f_finite (f_of_int SMALLINT_MAX)" "f_val (f_of_int SMALLINT_MAX) = 2 ^ 62"
    "f_finite (f_of_int SMALLINT_MIN)" "f_val (f_of_int SMALLINT_MIN) = - (2 ^ 62)"
    using round_pack_exact [of 1 62] by (simp_all add: signed_by_def)
qed

definition whole_number :: "real \<Rightarrow> int" where
  "whole_number x = (if x < 0 then - \<lfloor>\<bar>x\<bar>\<rfloor> else \<lfloor>\<bar>x\<bar>\<rfloor>)"

lemma truncated_whole:
  assumes f: "f_finite x"
  shows "truncated x = (if \<bar>whole_number (f_val x)\<bar> \<le> 2 ^ 62 then Some (whole_number (f_val x)) else None)"
proof -
  define t where "t = f_trunc x"
  define k where "k = whole_number (f_val x)"
  note b = smallint_bounds_as_floats
  have t: "f_finite t" "f_val t = signed_by (f_sign x) (real (whole_part x))"
    using f_trunc_exact [OF f] by (simp_all add: t_def)
  have k: "real_of_int k = f_val t"
    using whole_part_floor [of x] t(2) val_sign [of x] by (cases "f_val x = 0") (auto simp: k_def whole_number_def signed_by_def not_less)
  have w: "int (whole_part t) = \<bar>k\<bar>" using whole_part_floor [of t] by (simp add: k [symmetric] flip: of_int_abs)
  have i: "f_to_i64 t = k" if "\<bar>k\<bar> \<le> 2 ^ 62"
  proof -
    have "(if f_sign t then - int (whole_part t) else int (whole_part t)) = k" using w val_sign(1,2) [of t] by (cases "0 < k"; cases "k < 0") (simp_all add: k [symmetric])
    then show ?thesis using that t(1) finite_not_nan [OF t(1)] by (simp add: f_to_i64_def)
  qed
  have l: "f_lt (f_of_int SMALLINT_MAX) t \<longleftrightarrow> 2 ^ 62 < k" "f_lt t (f_of_int SMALLINT_MIN) \<longleftrightarrow> k < - (2 ^ 62)"
  proof -
    have "real_of_int k < - (2 ^ 62) \<longleftrightarrow> k < - (2 ^ 62)" "2 ^ 62 < real_of_int k \<longleftrightarrow> 2 ^ 62 < k"
      using of_int_less_iff [of k "- (2 ^ 62)", where 'a = real] of_int_less_iff [of "2 ^ 62" k, where 'a = real]
      by simp_all
    then show "f_lt (f_of_int SMALLINT_MAX) t \<longleftrightarrow> 2 ^ 62 < k" "f_lt t (f_of_int SMALLINT_MIN) \<longleftrightarrow> k < - (2 ^ 62)"
      using f_compare(1) [OF b(1) t(1)] f_compare(1) [OF t(1) b(3)] b(2,4) by (simp_all only: k [symmetric])
  qed
  show ?thesis unfolding truncated_def t_def [symmetric] Let_def l k_def [symmetric] using i t(1) by auto
qed

lemma two_to_62_wraps: "as_int (from_int (2 ^ 62)) = - (2 ^ 62)"
  by (simp add: as_int_eq from_int_eq)

text \<open>C17. Truncation answers the whole part.
  For a finite float the primitive answers the whole part of its value, cut off towards zero, when its
  magnitude is at most two to the power 62, and fails with the overflow code beyond. The result is
  a SmallInteger with that value, except at two to the power 62 itself, which the test lets pass: it is
  tagged out of range and reads back as its negation.\<close>

theorem float_truncated_whole:
  assumes "float_of vm (get_slot vm rg r) = Ok (Some x)" and "f_finite x"
  defines "k \<equiv> whole_number (f_val x)"
  shows "prim_float_truncated vm rg r = (if \<bar>k\<bar> \<le> 2 ^ 62 then pvalue (from_int k) vm rg else pfail FAIL_OVERFLOW vm rg)
    \<and> (\<bar>k\<bar> \<le> 2 ^ 62 \<longrightarrow> as_int (from_int k) = (if k = 2 ^ 62 then - (2 ^ 62) else k))"
proof (intro conjI impI)
  show "prim_float_truncated vm rg r = (if \<bar>k\<bar> \<le> 2 ^ 62 then pvalue (from_int k) vm rg else pfail FAIL_OVERFLOW vm rg)"
    using truncated_whole [OF assms(2)] assms(1) by (simp add: prim_float_truncated_def one_float_def k_def)
  show "as_int (from_int k) = (if k = 2 ^ 62 then - (2 ^ 62) else k)" if "\<bar>k\<bar> \<le> 2 ^ 62"
  proof (cases "k = 2 ^ 62")
    case False
    then have "in_smallint k" using that unfolding in_smallint_def SMALLINT_MAX_def SMALLINT_MIN_def by linarith
    with False show ?thesis by simp
  qed (use two_to_62_wraps in simp)
qed

subsection \<open>A machine with a float on its stack\<close>

lemma float_alloc:
  assumes "sp_alloc (young_from h) + k + 2 \<le> sp_words (young_from h)" and "sp_alloc (old h) + k + 2 \<le> sp_words (old h)"
  shows "\<exists>a h'. alloc_bytes h CLASS_FLOAT 8 = Some (a, h') \<and> sp_alloc (young_from h') + k \<le> sp_words (young_from h')
    \<and> sp_alloc (old h') + k \<le> sp_words (old h')"
  using assms
  by (simp add: alloc_bytes_def alloc_in_old_def alloc_in_young_def alloc_in_small count_young_def count_old_def Let_def)

lemma float_machine:
  "\<exists>vm a h. heap_ok (vm_heap vm) \<and> float_of vm (get_slot vm arith_regs 0) = Ok (Some w)
     \<and> float_of vm (get_slot vm arith_regs 1) = Ok (Some w) \<and> alloc_bytes (vm_heap vm) CLASS_FLOAT 8 = Some (a, h)"
proof -
  define vm0 where "vm0 = bare_literal (pool 1) 0"
  have p: "pool_ok 1 (pool 1)" by (rule pool_ok) simp
  have hv: "vm_heap vm0 = pool 1" by (simp add: vm0_def bare_literal_def)
  have room: "sp_alloc (young_from (pool 1)) + 4 \<le> sp_words (young_from (pool 1))" "sp_alloc (old (pool 1)) + 4 \<le> sp_words (old (pool 1))"
    using p by (simp_all add: pool_ok_def small_heap_def new_heap_def)
  obtain a h where a: "alloc_bytes (pool 1) CLASS_FLOAT 8 = Some (a, h)"
    "sp_alloc (young_from h) + 2 \<le> sp_words (young_from h)" "sp_alloc (old h) + 2 \<le> sp_words (old h)"
    using float_alloc [of "pool 1" 2] room by auto
  have ok0: "heap_ok (vm_heap vm0)" using p by (simp add: hv pool_ok_def)
  define h1 where "h1 = write_bytes h a (f_to_bytes w)"
  have v1: "heap_ok h1" "float_of (vm0\<lparr>vm_heap := h1\<rparr>) (from_ptr a) = Ok (Some w)"
    using new_float_holds [OF ok0, of a h arith_regs w] a(1) by (auto simp: hv h1_def)
  note ct = bytes_alloc.contract [OF ok0 [unfolded hv] class_ok_float a(1)]
  have po: "pool_obj 0 \<in> live (pool 1)" "unat (num_slots (pool 1) (pool_obj 0)) = 8" using p by (simp_all add: pool_ok_def)
  have ha: "heap_ok h" "a \<in> live h" using ct by auto
  have wb: "live h1 = live h" "header h1 a = header h a"
    using write_bytes_roundtrip [OF ha, of "f_to_bytes w"] fresh_bytes [OF ok0 [unfolded hv] class_ok_float a(1)]
    by (simp_all add: h1_def f_to_bytes_length)
  have q: "pool_obj 0 \<in> live h" "pool_obj 0 \<noteq> a" "num_slots h (pool_obj 0) = num_slots (pool 1) (pool_obj 0)"
    using ct po(1) bytes_alloc.others_unchanged(2) [OF ok0 [unfolded hv] class_ok_float a(1) po(1)] by auto
  then have q1: "pool_obj 0 \<in> live h1" "unat (num_slots h1 (pool_obj 0)) = 8"
    using write_bytes_other [OF ha q(1,2), of 0 "f_to_bytes w"] fresh_bytes [OF ok0 [unfolded hv] class_ok_float a(1)] po(2) wb(1)
    by (simp_all add: h1_def write_bytes_def f_to_bytes_length)
  define h2 where "h2 = set_slot_raw h1 (pool_obj 0) 4 (from_ptr a)"
  define h3 where "h3 = set_slot_raw h2 (pool_obj 0) 5 (from_ptr a)"
  have f2: "heap_ok h2" "live h2 = live h1"
    "\<forall>y \<in> live h1. header h2 y = header h1 y \<and> num_slots h2 y = num_slots h1 y
       \<and> (\<forall>j < unat (num_slots h1 y). slot h2 y j = (if y = pool_obj 0 \<and> j = 4 then from_ptr a else slot h1 y j))"
    using slot_store_frame [OF v1(1) q1(1), of 4 "from_ptr a"] q1(2) by (auto simp: h2_def)
  have f3: "heap_ok h3" "\<forall>y \<in> live h1. header h3 y = header h2 y \<and> num_slots h3 y = num_slots h2 y
       \<and> (\<forall>j < unat (num_slots h2 y). slot h3 y j = (if y = pool_obj 0 \<and> j = 5 then from_ptr a else slot h2 y j))"
    using slot_store_frame [OF f2(1), of "pool_obj 0" 5 "from_ptr a"] f2(2,3) q1 by (auto simp: h3_def)
  have al: "a \<in> live h1" using wb ha by simp
  have "obj_bytes h3 a = obj_bytes h1 a" by (rule obj_bytes_slots_cong) (use f2(3) f3(2) al q(2) in auto)
  moreover have "header h3 a = header h1 a" using f2(3) f3(2) al by simp
  ultimately have "float_of (vm0\<lparr>vm_heap := h3\<rparr>) (from_ptr a) = float_of (vm0\<lparr>vm_heap := h1\<rparr>) (from_ptr a)"
    using live_from_ptr [OF ha] by (simp add: float_of_def float_value_def)
  then have fl: "float_of (vm0\<lparr>vm_heap := h3\<rparr>) (from_ptr a) = Ok (Some w)" using v1(2) by simp
  have gs: "get_slot (vm0\<lparr>vm_heap := h3\<rparr>) arith_regs 0 = from_ptr a" "get_slot (vm0\<lparr>vm_heap := h3\<rparr>) arith_regs 1 = from_ptr a"
    using f2(3) f3(2) q1 by (simp_all add: get_slot_def bslot_def arith_regs_def vslot_def)
  have "young_from h3 = young_from h" "old h3 = old h" by (simp_all add: h3_def h2_def h1_def write_bytes_def)
  then obtain b h4 where "alloc_bytes h3 CLASS_FLOAT 8 = Some (b, h4)" using float_alloc [of h3 0] a by auto
  with fl gs f3(1) show ?thesis by (intro exI [of _ "vm0\<lparr>vm_heap := h3\<rparr>"]) auto
qed

text \<open>The doubles 1.5 and two to the power 62.\<close>

lemma sample_doubles:
  "f_finite 0x3FF8000000000000" "f_val 0x3FF8000000000000 = 3 / 2"
  "f_finite 0x43D0000000000000" "f_val 0x43D0000000000000 = 2 ^ 62"
proof -
  show "f_finite 0x3FF8000000000000" "f_finite 0x43D0000000000000"
    by (simp_all add: f_finite_def f_biased_def f_mag_def)
  have p: "2 powr - real 52 = 1 / 2 ^ 52" by (simp only: powr_minus powr_realpow divide_inverse mult_1)
  have "f_signed 0x3FF8000000000000 = 3 * 2 ^ 51" "f_exp 0x3FF8000000000000 = - int 52"
    by (simp_all add: f_signed_def f_sign_def f_mant_def f_exp_def f_biased_def f_frac_def f_mag_def)
  then show "f_val 0x3FF8000000000000 = 3 / 2" using p by (simp add: f_val_def)
  have "f_signed 0x43D0000000000000 = 2 ^ 52" "f_exp 0x43D0000000000000 = 10"
    by (simp_all add: f_signed_def f_sign_def f_mant_def f_exp_def f_biased_def f_frac_def f_mag_def)
  then show "f_val 0x43D0000000000000 = 2 ^ 62" by (simp add: f_val_def)
qed


lemma float_truncated_whole_witness:
  "\<exists>vm. prim_float_truncated vm arith_regs 0 = pvalue (from_int (2 ^ 62)) vm arith_regs
     \<and> as_int (from_int (2 ^ 62)) = - (2 ^ 62)"
proof -
  obtain vm where m: "float_of vm (get_slot vm arith_regs 0) = Ok (Some 0x43D0000000000000)"
    using float_machine [of "0x43D0000000000000"] by blast
  have "whole_number (f_val 0x43D0000000000000) = 2 ^ 62" by (simp add: whole_number_def sample_doubles)
  with float_truncated_whole [OF m sample_doubles(3)] show ?thesis by auto
qed

end
