(* ===== verification/Spec2Isabelle.thy ===== *)
theory Spec2Isabelle
  imports Bytecode Method_Install Symbol_Table Identity_Hash Method_Header Method_Builder Boot_State Gc_Compact Arithmetic_Facts Blit_Pixels Host_Window Sample_Tally Float_Prims
begin

text \<open>
  A verification library of the smallishtalk virtual machine (src/src), a register-bytecode
  interpreter for Smalltalk with a generational collector, written in Rust.

  The program. A Vm (vm.rs) owns a heap of tagged words (value.rs, heap.rs), a table of classes, a
  symbol table, the well-known objects and counters. Methods are heap objects whose bytecodes
  (asm.rs) the interpreter (interp.rs) runs on stacks that are heap objects too. A send looks its
  selector up through an inline cache in the method's send sites, a global cache and the method
  dictionaries; a method may name a primitive (prims.rs). Processes wait in linked queues of the
  image and are switched at safepoints. Allocation that finds its space full runs a scavenge or a
  compaction (gc.rs), and every store of a pointer passes the write barrier that keeps the
  remembered set for the scavenge. An image (image.rs) is a dump of old space. treaty.rs holds the
  numbers that the machine and the compiler of the image share.

  How the theories follow the code.

    Prelude: integers of fixed width, the outcome of a fallible function, a queue interface.
    Treaty, Tagged_Value, Header_Word: treaty.rs, value.rs and Header of heap.rs.
    Heap_Model, Heap_Alloc, Heap_Walk: Space, Heap and the allocators of heap.rs.
    Heap_Invariant, Heap_Allocator, Heap_Properties: the invariant of the heap, the contract of the
      allocators as the locale allocator with one interpretation for each entry point, the laws.
    Bytecode: asm.rs. Vm_Counters, Counter_Rows: counters.rs. Host_Ui, Png: host_ui.rs, png.rs. Host_Window: the
      windowed backend of host_ui.rs.
    Vm_State, Symbol_Table, Identity_Hash, Method_Header, Remembered_Set, Bootstrap: vm.rs.
    Method_Lookup, Lookup_Cache, Method_Install: lookup, caches and installation (vm.rs, interp.rs).
    Heap_View, Sample_Heap: the effect of a sequence of stores; concrete heaps for the instances.
    Run_Queues, Scheduler: queues, semaphores and timers (prims.rs, interp.rs).
    Gc: gc.rs, both collectors. Gc_Mark and Gc_Compact: what the compactor marks and moves;
      Full_Collection: a state from which either collector runs to its end.
    Scavenge, Scavenge_Step, Scavenge_Closure, Scavenge_Roots, Scavenge_Correct: the scavenger.
    Registers, Sends, Unwind, Safepoints, Interp: interp.rs, from the register file to the run loop.
    Profiler, Sample_Tally: profile.rs. Image: image.rs. Method_Builder: fixture.rs, with Old_Objects for the allocations it makes.
    Boot_Facts, Boot_State: the machine that the bootstrap of vm.rs leaves.
    Element_Access, Process_Prims, Object_Prims, Handler_Prims, Host_Prims, Bit_Blit, Primitives:
      prims.rs, with Arithmetic_Facts and Blit_Pixels for what the integer primitives and BitBlt do.
    Soft_Float, Float_Facts, Float_Prims: the f64 of Rust on its bits, its real value, the float
      primitives, which float_prims gives to the dispatcher for its argument H.

  State and operations. The record vm has the fields of struct Vm, heap those of struct Heap with
  the raw memory as a total map from addresses to words, regs those of struct Regs. A function
  that takes the machine by mutable reference takes a vm and returns it changed; one that answers
  a Result returns an outcome, whose constructor Panic stands for a failed assert, expect or index.

  What the lemmas show. Words: packing and unpacking are inverse on every field (headers, method
  headers, instructions, tagged integers). Heap: the invariant heap_ok, that every operation on
  objects keeps it, that an allocation answers a new object and touches no other. Barrier: the
  remembered set is complete after every store. Scavenger: it never fails on a machine in the state
  gc_ready, the objects it can reach are copied without a change to their shape or their pointers,
  and the machine is in that state again. Compactor: exactly the reachable objects are marked, and
  the moves keep them, when none has an overflow size word; the plan with such words is shown to
  end too far. Lookup: the cached lookup answers what the walk of the dictionaries answers, and
  installing a method changes the answer for its selector only. Queues: linked lists that are
  FIFO queues, the scheduler takes the highest priority that has a process, semaphores count and
  wake in order, a timer fires when it is due. Primitives: integer arithmetic is exact or fails,
  float arithmetic is rounded once, at: and at:put: agree with the bytecodes, BitBlt combines the pixels inside the clip and no others.
  Profiler: the store stands for a multiset of frame chains, and the report is its counts.
  Bootstrap: with enough room it meets no expect, and the machine it makes has the properties the
  other groups assume: every root and slot leads to an object, either collector can run, an empty
  cache, interned selectors, well-formed queues. Screenshots: the zlib stream is what a reader of the
  RFCs accepts, its checksum compared with the sums of the RFC.

  Bounds and fuel. Addresses, indices and counters are nat; where the code adds or multiplies sizes
  that may leave 64 bits (forms, the size of a body, the size field of an image) the wrap of a release
  build is written out. A slot count itself comes from a SmallInteger, so the few words an allocator
  adds to it stay below 2 to the 63. A loop over data that the
  image may make circular (superclass chains, caller chains) is a partial function whose None means
  that it does not return. The run loop, the nesting of primitives that send, and the unwinding
  take fuel, one unit for each instruction, nested primitive or unwinding step, and answer Diverge
  without any; nothing is proved from the absence of fuel. The collectors, the queues and the
  waiting for a timer are total functions, with measures on free space, unmarked objects and
  pending requests.

  The profiler only reads the machine, so it is a record beside it, with the flags it shares with its
  timer thread; the primitives that switch it are part of the argument H of the dispatcher.

  Not modelled. The bits of a NaN that float arithmetic makes are not specified by Rust. The window that
  host_ui.rs shows is a library's; what it answers is an argument. main.rs parses arguments. The build
  step that prints the constants as a Smalltalk class (treaty_st_source and its table in treaty.rs) is
  left out: the machine does not run it.
  Operations on real files, streams and clocks are the environment env, what the host answers.
  Messages of fatal errors leave out the values formatted into them.
\<close>

end
